(* ===== verification/Prelude.thy ===== *)
theory Prelude
  imports Main "HOL-Library.Word" "HOL-Library.Monad_Syntax"
begin

text \<open>
  Shared vocabulary of the development: the integer widths of the C sources, the
  error codes of \<^verbatim>\<open>rtc_common.h\<close>, byte buffers with checked reads, the big-endian
  helpers every wire format uses, and the generic lemmas the components share.

  A datagram is a list of bytes. A read of byte \<open>i\<close> is \<open>rd8 buf i\<close>, whose value is
  \<open>None\<close> when \<open>i\<close> lies outside the buffer: a parser that can run into such a read has
  \<open>None\<close> among its results, so \<open>parse buf \<noteq> None\<close> says that the C function never
  reads outside the datagram it was given.
\<close>

unbundle bit_operations_syntax

named_theorems rd_simps \<open>evaluation of checked reads over appended buffers\<close>
named_theorems be_simps \<open>big-endian encodings: lengths and inverses\<close>

subsection \<open>Integer widths\<close>

type_synonym u8 = "8 word"
type_synonym u16 = "16 word"
type_synonym u32 = "32 word"
type_synonym u64 = "64 word"
type_synonym bytes = "u8 list"

definition SIZE_MAX :: nat where
  "SIZE_MAX = 2 ^ 64 - 1"

text \<open>\<^verbatim>\<open>calloc (n, size)\<close> returns memory when the product does not overflow and the
  allocator (\<open>a\<close>) has it.\<close>

definition calloc_ok :: "bool \<Rightarrow> nat \<Rightarrow> nat \<Rightarrow> bool" where
  "calloc_ok a n sz \<longleftrightarrow> a \<and> n * sz \<le> SIZE_MAX"

subsection \<open>Error codes\<close>

datatype rtc_err =
    RTC_OK
  | RTC_ERR_GENERIC
  | RTC_ERR_NOMEM
  | RTC_ERR_SOCKET
  | RTC_ERR_TIMEOUT
  | RTC_ERR_INVALID
  | RTC_ERR_SSL
  | RTC_ERR_SRTP
  | RTC_ERR_ICE
  | RTC_ERR_SDP

subsection \<open>Big-endian encoding\<close>

definition write_u16 :: "u16 \<Rightarrow> bytes" where
  "write_u16 v = [ucast (drop_bit 8 v), ucast v]"

definition write_u24 :: "u32 \<Rightarrow> bytes" where
  "write_u24 v = [ucast (drop_bit 16 v), ucast (drop_bit 8 v), ucast v]"

definition write_u32 :: "u32 \<Rightarrow> bytes" where
  "write_u32 v = [ucast (drop_bit 24 v), ucast (drop_bit 16 v), ucast (drop_bit 8 v), ucast v]"

definition write_u64 :: "u64 \<Rightarrow> bytes" where
  "write_u64 v = write_u32 (ucast (drop_bit 32 v)) @ write_u32 (ucast v)"

definition u16_of :: "u8 \<Rightarrow> u8 \<Rightarrow> u16" where
  "u16_of a b = push_bit 8 (ucast a) OR ucast b"

definition u24_of :: "u8 \<Rightarrow> u8 \<Rightarrow> u8 \<Rightarrow> u32" where
  "u24_of a b c = push_bit 16 (ucast a) OR push_bit 8 (ucast b) OR ucast c"

definition u32_of :: "u8 \<Rightarrow> u8 \<Rightarrow> u8 \<Rightarrow> u8 \<Rightarrow> u32" where
  "u32_of a b c d =
     push_bit 24 (ucast a) OR push_bit 16 (ucast b) OR push_bit 8 (ucast c) OR ucast d"

definition rd8 :: "bytes \<Rightarrow> nat \<Rightarrow> u8 option" where
  "rd8 buf i = (if i < length buf then Some (buf ! i) else None)"

definition rd16 :: "bytes \<Rightarrow> nat \<Rightarrow> u16 option" where
  "rd16 buf i = do { a \<leftarrow> rd8 buf i; b \<leftarrow> rd8 buf (i + 1); Some (u16_of a b) }"

definition rd24 :: "bytes \<Rightarrow> nat \<Rightarrow> u32 option" where
  "rd24 buf i = do { a \<leftarrow> rd8 buf i; b \<leftarrow> rd8 buf (i + 1); c \<leftarrow> rd8 buf (i + 2);
     Some (u24_of a b c) }"

definition rd32 :: "bytes \<Rightarrow> nat \<Rightarrow> u32 option" where
  "rd32 buf i = do { a \<leftarrow> rd8 buf i; b \<leftarrow> rd8 buf (i + 1); c \<leftarrow> rd8 buf (i + 2);
     d \<leftarrow> rd8 buf (i + 3); Some (u32_of a b c d) }"

definition rd_bytes :: "bytes \<Rightarrow> nat \<Rightarrow> nat \<Rightarrow> bytes option" where
  "rd_bytes buf i n = (if i + n \<le> length buf then Some (take n (drop i buf)) else None)"

lemma length_write_u16 [simp, be_simps]: "length (write_u16 v) = 2"
  by (simp add: write_u16_def)

lemma length_write_u24 [simp, be_simps]: "length (write_u24 v) = 3"
  by (simp add: write_u24_def)

lemma length_write_u32 [simp, be_simps]: "length (write_u32 v) = 4"
  by (simp add: write_u32_def)

lemma length_write_u64 [simp, be_simps]: "length (write_u64 v) = 8"
  by (simp add: write_u64_def)

lemma bit_u8_ge [simp]: "8 \<le> n \<Longrightarrow> \<not> bit (a :: u8) n"
  using bit_imp_le_length [of a n] by auto

lemma u16_of_bytes [simp, be_simps]: "u16_of (ucast (drop_bit 8 v)) (ucast v) = v"
  by (rule bit_word_eqI) (auto simp: u16_of_def bit_simps)

lemma u24_of_bytes [simp, be_simps]:
  "u24_of (ucast (drop_bit 16 v)) (ucast (drop_bit 8 v)) (ucast v) = take_bit 24 v"
proof (rule bit_word_eqI)
  fix n :: nat
  consider "n < 8" | "8 \<le> n" "n < 16" | "16 \<le> n" "n < 24" | "24 \<le> n" by linarith
  then show "bit (u24_of (ucast (drop_bit 16 v)) (ucast (drop_bit 8 v)) (ucast v)) n
      = bit (take_bit 24 v) n"
    by cases (auto simp: u24_of_def bit_simps)
qed

lemma u32_of_bytes [simp, be_simps]:
  "u32_of (ucast (drop_bit 24 v)) (ucast (drop_bit 16 v)) (ucast (drop_bit 8 v)) (ucast v) = v"
proof (rule bit_word_eqI)
  fix n :: nat assume "n < LENGTH(32)"
  then consider "n < 8" | "8 \<le> n" "n < 16" | "16 \<le> n" "n < 24" | "24 \<le> n" "n < 32" by fastforce
  then show "bit (u32_of (ucast (drop_bit 24 v)) (ucast (drop_bit 16 v)) (ucast (drop_bit 8 v))
      (ucast v)) n = bit v n"
    by cases (auto simp: u32_of_def bit_simps)
qed

lemma u16_of_inverse:
  "ucast (drop_bit 8 (u16_of a b)) = a" "ucast (u16_of a b) = b"
  by (rule bit_word_eqI; simp add: u16_of_def bit_simps)+

lemma u32_of_inverse:
  "ucast (drop_bit 24 (u32_of a b c d)) = a" "ucast (drop_bit 16 (u32_of a b c d)) = b"
  "ucast (drop_bit 8 (u32_of a b c d)) = c" "ucast (u32_of a b c d) = d"
  by (rule bit_word_eqI; simp add: u32_of_def bit_simps)+

lemma write_u16_of [simp, be_simps]: "write_u16 (u16_of a b) = [a, b]"
  by (simp add: write_u16_def u16_of_inverse)

lemma write_u32_of [simp, be_simps]: "write_u32 (u32_of a b c d) = [a, b, c, d]"
  by (simp add: write_u32_def u32_of_inverse)

lemma write_u16_inject [simp]: "write_u16 a = write_u16 b \<longleftrightarrow> a = b"
proof
  assume "write_u16 a = write_u16 b"
  then have "u16_of (ucast (drop_bit 8 a)) (ucast a) = u16_of (ucast (drop_bit 8 b)) (ucast b)"
    unfolding write_u16_def by simp
  then show "a = b" by (simp only: u16_of_bytes)
qed simp

lemma write_u32_inject [simp]: "write_u32 a = write_u32 b \<longleftrightarrow> a = b"
proof
  assume "write_u32 a = write_u32 b"
  then have "u32_of (ucast (drop_bit 24 a)) (ucast (drop_bit 16 a)) (ucast (drop_bit 8 a)) (ucast a)
    = u32_of (ucast (drop_bit 24 b)) (ucast (drop_bit 16 b)) (ucast (drop_bit 8 b)) (ucast b)"
    unfolding write_u32_def by simp
  then show "a = b" by (simp only: u32_of_bytes)
qed simp

subsection \<open>Checked reads over appended buffers\<close>

lemma rd8_Cons_0 [simp, rd_simps]: "rd8 (x # xs) 0 = Some x"
  by (simp add: rd8_def)

lemma rd8_Cons_Suc [simp, rd_simps]: "rd8 (x # xs) (Suc i) = rd8 xs i"
  by (simp add: rd8_def)

lemma rd8_Cons_numeral [simp, rd_simps]: "rd8 (x # xs) (numeral k) = rd8 xs (pred_numeral k)"
  by (simp add: numeral_eq_Suc)

lemma rd8_Some_iff: "(\<exists>v. rd8 buf i = Some v) \<longleftrightarrow> i < length buf"
  by (simp add: rd8_def)

lemma rd8_in [simp, rd_simps]: "i < length buf \<Longrightarrow> rd8 buf i = Some (buf ! i)"
  by (simp add: rd8_def)

lemma rd16_in [simp, rd_simps]:
  "i + 1 < length buf \<Longrightarrow> rd16 buf i = Some (u16_of (buf ! i) (buf ! (i + 1)))"
  by (simp add: rd16_def)

lemma rd24_in [simp, rd_simps]:
  "i + 2 < length buf \<Longrightarrow> rd24 buf i = Some (u24_of (buf ! i) (buf ! (i + 1)) (buf ! (i + 2)))"
  by (simp add: rd24_def)

lemma rd32_in [simp, rd_simps]:
  "i + 3 < length buf \<Longrightarrow> rd32 buf i =
     Some (u32_of (buf ! i) (buf ! (i + 1)) (buf ! (i + 2)) (buf ! (i + 3)))"
  by (simp add: rd32_def)

lemma rd_bytes_in [simp, rd_simps]:
  "i + n \<le> length buf \<Longrightarrow> rd_bytes buf i n = Some (take n (drop i buf))"
  by (simp add: rd_bytes_def)

lemma rd8_append: "rd8 (xs @ ys) i = (if i < length xs then rd8 xs i else rd8 ys (i - length xs))"
  by (auto simp: rd8_def nth_append)

lemma rd16_append_right: "length xs \<le> i \<Longrightarrow> rd16 (xs @ ys) i = rd16 ys (i - length xs)"
  by (simp add: rd16_def rd8_append Suc_diff_le)

lemma rd32_append_right: "length xs \<le> i \<Longrightarrow> rd32 (xs @ ys) i = rd32 ys (i - length xs)"
  by (simp add: rd32_def rd8_append Suc_diff_le)

lemma rd16_write_u16 [simp, rd_simps]: "rd16 (write_u16 v @ ys) 0 = Some v"
  by (simp add: rd16_def write_u16_def)

lemma rd32_write_u32 [simp, rd_simps]: "rd32 (write_u32 v @ ys) 0 = Some v"
  by (simp add: rd32_def write_u32_def)

lemma rd24_write_u24 [simp, rd_simps]: "rd24 (write_u24 v @ ys) 0 = Some (take_bit 24 v)"
  by (simp add: rd24_def write_u24_def)

lemma rd16_at: "length xs = n \<Longrightarrow> rd16 (xs @ write_u16 v @ ys) n = Some v"
  by (simp only: rd16_append_right) simp

lemma rd32_at: "length xs = n \<Longrightarrow> rd32 (xs @ write_u32 v @ ys) n = Some v"
  by (simp only: rd32_append_right) simp

lemma rd8_at: "length xs = n \<Longrightarrow> rd8 (xs @ b # ys) n = Some b"
  by (simp add: rd8_append)

lemma rd_bytes_at: "length xs = n \<Longrightarrow> length v = k \<Longrightarrow> rd_bytes (xs @ v @ ys) n k = Some v"
  by (simp add: rd_bytes_def)

subsection \<open>Ranges\<close>

lemma unat_range:
  "unat (x8::u8) < 256" "unat (x16::u16) < 65536" "unat (x32::u32) < 4294967296"
  "unat (x64::u64) < 18446744073709551616"
  using unsigned_less [of x8, where ?'a = nat] unsigned_less [of x16, where ?'a = nat]
    unsigned_less [of x32, where ?'a = nat] unsigned_less [of x64, where ?'a = nat] by simp_all

subsection \<open>Masks and fields\<close>

lemma and_masks:
  "(x::'a::len word) AND 1 = take_bit 1 x"
  "(x::'a::len word) AND 3 = take_bit 2 x"
  "(x::'a::len word) AND 7 = take_bit 3 x"
  "(x::'a::len word) AND 15 = take_bit 4 x"
  "(x::'a::len word) AND 31 = take_bit 5 x"
  "(x::'a::len word) AND 63 = take_bit 6 x"
  "(x::'a::len word) AND 127 = take_bit 7 x"
  "(x::'a::len word) AND 255 = take_bit 8 x"
  "(x::'a::len word) AND 8191 = take_bit 13 x"
  "(x::'a::len word) AND 16383 = take_bit 14 x"
  "(x::'a::len word) AND 32767 = take_bit 15 x"
  "(x::'a::len word) AND 65535 = take_bit 16 x"
  "(x::'a::len word) AND 16777215 = take_bit 24 x"
  by (simp_all add: take_bit_eq_mask mask_eq_exp_minus_1)

lemma unat_take_bit: "unat (take_bit n (a::'a::len word)) = unat a mod 2 ^ n"
  by (simp add: unsigned_take_bit_eq flip: take_bit_eq_mod)

lemma take_bit_self: "unat (a::'a::len word) < 2 ^ n \<Longrightarrow> take_bit n a = a"
  by (simp add: word_unat_eq_iff unat_take_bit)

lemma unat_drop_bit: "unat (drop_bit n (a::'a::len word)) = unat a div 2 ^ n"
  by (simp add: unat_drop_bit_eq flip: drop_bit_eq_div)

lemma drop_bit_zero: "unat (a::'a::len word) < 2 ^ n \<Longrightarrow> drop_bit n a = 0"
  by (simp add: word_unat_eq_iff unat_drop_bit del: drop_bit_eq_div)

lemma sint_unat:
  "sint (w::'a::len word) = (if unat w < 2 ^ (LENGTH('a) - 1) then int (unat w) else int (unat w) - 2 ^ LENGTH('a))"
proof -
  define h :: int where "h = 2 ^ (LENGTH('a) - 1)"
  have L: "(2::int) ^ LENGTH('a) = 2 * h"
    unfolding h_def by (metis len_not_eq_0 power_eq_if)
  have u: "uint w = int (unat w)" by simp
  have b: "0 \<le> uint w" "uint w < 2 * h" using uint_lt2p [of w] L by auto
  have s: "sint w = (uint w + h) mod (2 * h) - h"
    using int_word_sint [of "uint w", where 'a = 'a] L by (simp add: h_def)
  have h: "unat w < 2 ^ (LENGTH('a) - 1) \<longleftrightarrow> uint w < h"
    unfolding h_def u by (metis of_nat_less_iff of_nat_numeral of_nat_power)
  show ?thesis
  proof (cases "uint w < h")
    case True
    then have "(uint w + h) mod (2 * h) = uint w + h" using b by (intro mod_pos_pos_trivial) linarith+
    then show ?thesis using s h True by simp
  next
    case False
    then have "(uint w + h) mod (2 * h) = uint w + h - 2 * h" 
      using b minus_mod_self2 [of "uint w + h" "2 * h"] mod_pos_pos_trivial [of "uint w + h - 2 * h" "2 * h"]
      by linarith
    then show ?thesis using s h False L by simp
  qed
qed

text \<open>A byte made of two four-bit fields.\<close>

lemma nibble_high: "take_bit 4 (drop_bit 4 (push_bit 4 a OR b)) = take_bit 4 (a OR drop_bit 4 (b::u8))"
  by (rule bit_word_eqI) (auto simp: bit_simps)

lemma nibble_low: "take_bit 4 (push_bit 4 a OR b) = take_bit 4 (b::u8)"
  by (rule bit_word_eqI) (auto simp: bit_simps)

text \<open>Padding to a multiple of four.\<close>

lemma pad4: "(n + (4 - n mod 4) mod 4) mod 4 = (0::nat)"
proof -
  have "q * 4 + r + (4 - r) = 4 * (q + 1)" if "r < 4" for q r :: nat using that by simp
  from this [of "n mod 4" "n div 4"] have "n + (4 - n mod 4) = 4 * (n div 4 + 1)" by simp
  then have "(n + (4 - n mod 4)) mod 4 = 0" by simp
  then show ?thesis by (simp add: mod_add_right_eq)
qed

subsection \<open>Lists\<close>

lemma bex_set_nth: "(\<exists>x \<in> set xs. P x) \<longleftrightarrow> (\<exists>j < length xs. P (xs ! j))"
  by (metis in_set_conv_nth)

lemma ball_set_nth: "(\<forall>x \<in> set xs. P x) \<longleftrightarrow> (\<forall>j < length xs. P (xs ! j))"
  by (metis in_set_conv_nth)

text \<open>\<^verbatim>\<open>memcpy (buf + off, src, length src)\<close> into a buffer of known extent.\<close>

definition mem_write :: "bytes \<Rightarrow> nat \<Rightarrow> bytes \<Rightarrow> bytes option" where
  "mem_write buf off src =
    (if off + length src \<le> length buf then Some (take off buf @ src @ drop (off + length src) buf)
     else None)"

lemma mem_write_ok:
  "off + length src \<le> length buf \<Longrightarrow> \<exists>buf'. mem_write buf off src = Some buf'"
  by (auto simp: mem_write_def)

lemma mem_write_fits: "mem_write buf off src = Some buf' \<Longrightarrow> off + length src \<le> length buf"
  by (simp add: mem_write_def split: if_splits)

lemma mem_write_length: "mem_write buf off src = Some buf' \<Longrightarrow> length buf' = length buf"
  by (auto simp: mem_write_def split: if_splits)

lemma nth_mem_write:
  assumes "mem_write buf off src = Some buf'" "i < length buf"
  shows "buf' ! i = (if off \<le> i \<and> i < off + length src then src ! (i - off) else buf ! i)"
  using assms by (auto simp: mem_write_def nth_append split: if_splits)

text \<open>A signed sum or product that must fit a C \<^verbatim>\<open>int\<close>.\<close>

definition as_int :: "int \<Rightarrow> int option" where
  "as_int x = (if - (2 ^ 31) \<le> x \<and> x < 2 ^ 31 then Some x else None)"

lemma as_int_Some: "- (2 ^ 31) \<le> x \<Longrightarrow> x < 2 ^ 31 \<Longrightarrow> as_int x = Some x"
  by (simp add: as_int_def)

text \<open>Evaluation of list operations at literal positions.\<close>

named_theorems eval_simps \<open>unfolding of list operations at numerals, for concrete inputs\<close>

lemma replicate_numeral [eval_simps]: "replicate (numeral k) x = x # replicate (pred_numeral k) x"
  by (simp add: numeral_eq_Suc)

lemma list_update_numeral [eval_simps]: "(x # xs)[numeral k := y] = x # xs[pred_numeral k := y]"
  by (simp add: numeral_eq_Suc)

lemma upt_numeral [eval_simps]:
  "[i ..< numeral k] = (if i < numeral k then i # [Suc i ..< numeral k] else [])"
  by (simp add: upt_conv_Cons)

end
