(* ===== verification/Open_Addressing.thy ===== *)
theory Open_Addressing
  imports Prelude
begin

text \<open>
  Linear probing with tombstones over a power-of-two table. The two hash maps of the
  code base, \<^verbatim>\<open>rtc_u32_map.c\<close> and \<^verbatim>\<open>rtc_str_map.c\<close>, run the same two loops: the probe of
  \<^verbatim>\<open>u32_find_slot\<close>/\<^verbatim>\<open>str_find_slot\<close> and the insertion of \<^verbatim>\<open>u32_rehash\<close>/\<^verbatim>\<open>str_rehash\<close>.
  Both loops are unbounded in C (\<^verbatim>\<open>while (1)\<close>); here they are partial functions whose
  value \<open>None\<close> is a loop that never ends or an access outside the table. The lemmas give
  the table invariant \<open>table_ok\<close>, that it makes both loops return, and what they return.
\<close>

datatype entry_state = ENTRY_EMPTY | ENTRY_USED | ENTRY_TOMBSTONE

subsection \<open>The loops\<close>

text \<open>
  The probe: \<open>hit\<close> is the key comparison, \<open>tomb\<close> the variable \<^verbatim>\<open>first_tombstone\<close>
  (\<open>None\<close> for \<^verbatim>\<open>(size_t)-1\<close>). The result is the slot and the flag \<^verbatim>\<open>found\<close>.
\<close>

partial_function (option) probe_loop ::
  "('e \<Rightarrow> entry_state) \<Rightarrow> ('e \<Rightarrow> bool) \<Rightarrow> 'e list \<Rightarrow> nat \<Rightarrow> nat \<Rightarrow> nat option \<Rightarrow> (nat \<times> bool) option"
where
  [code]: "probe_loop st hit es msk slot tomb =
    (if length es \<le> slot then None
     else if st (es ! slot) = ENTRY_EMPTY then
       Some (case tomb of None \<Rightarrow> slot | Some t \<Rightarrow> t, False)
     else if st (es ! slot) = ENTRY_USED \<and> hit (es ! slot) then Some (slot, True)
     else probe_loop st hit es msk ((slot + 1) AND msk)
       (if st (es ! slot) = ENTRY_TOMBSTONE \<and> tomb = None then Some slot else tomb))"

text \<open>The search for a slot that is not in use, in the rebuild.\<close>

partial_function (option) free_loop ::
  "('e \<Rightarrow> entry_state) \<Rightarrow> 'e list \<Rightarrow> nat \<Rightarrow> nat \<Rightarrow> nat option"
where
  [code]: "free_loop st es msk slot =
    (if length es \<le> slot then None
     else if st (es ! slot) = ENTRY_USED then free_loop st es msk ((slot + 1) AND msk)
     else Some slot)"

text \<open>
  The rebuild: every used entry of the old table is copied to the first slot of the new one
  that is not in use, from its home slot on.
\<close>

fun rehash_loop ::
  "('e \<Rightarrow> entry_state) \<Rightarrow> ('e \<Rightarrow> nat) \<Rightarrow> nat \<Rightarrow> 'e list \<Rightarrow> 'e list \<Rightarrow> 'e list option"
where
  "rehash_loop st hash_of msk [] new = Some new"
| "rehash_loop st hash_of msk (src # rest) new =
    (if st src \<noteq> ENTRY_USED then rehash_loop st hash_of msk rest new
     else do {
       slot \<leftarrow> free_loop st new msk (hash_of src AND msk);
       rehash_loop st hash_of msk rest (new[slot := src])
     })"

text \<open>The cursor of the iterators: the next used entry from \<open>idx\<close> on and the cursor after it.\<close>

fun next_loop :: "('e \<Rightarrow> entry_state) \<Rightarrow> 'e list \<Rightarrow> nat \<Rightarrow> (nat \<times> 'e option)" where
  "next_loop st [] idx = (idx, None)"
| "next_loop st (e # es) idx =
    (if st e = ENTRY_USED then (idx + 1, Some e) else next_loop st es (idx + 1))"

subsection \<open>The invariant and the abstraction\<close>

text \<open>Slot \<open>i\<close> is reached by the probe from \<open>h\<close> over slots that are not empty.\<close>

definition reaches :: "('e \<Rightarrow> entry_state) \<Rightarrow> 'e list \<Rightarrow> nat \<Rightarrow> nat \<Rightarrow> bool" where
  "reaches st es h i \<longleftrightarrow> (\<exists>d < length es. i = (h + d) mod length es \<and>
     (\<forall>j < d. st (es ! ((h + j) mod length es)) \<noteq> ENTRY_EMPTY))"

definition table_ok :: "('e \<Rightarrow> entry_state) \<Rightarrow> ('e \<Rightarrow> 'k) \<Rightarrow> ('k \<Rightarrow> nat) \<Rightarrow> 'e list \<Rightarrow> bool" where
  "table_ok st key_of hash es \<longleftrightarrow>
     (\<exists>b. length es = 2 ^ b) \<and>
     (\<forall>i < length es. st (es ! i) = ENTRY_USED \<longrightarrow> reaches st es (hash (key_of (es ! i))) i) \<and>
     (\<forall>i < length es. \<forall>j < length es. st (es ! i) = ENTRY_USED \<and> st (es ! j) = ENTRY_USED \<and>
        key_of (es ! i) = key_of (es ! j) \<longrightarrow> i = j)"

definition count_st :: "('e \<Rightarrow> entry_state) \<Rightarrow> entry_state \<Rightarrow> 'e list \<Rightarrow> nat" where
  "count_st st s es = length (filter (\<lambda>e. st e = s) es)"

definition table_map :: "('e \<Rightarrow> entry_state) \<Rightarrow> ('e \<Rightarrow> 'k) \<Rightarrow> ('e \<Rightarrow> 'v) \<Rightarrow> 'e list \<Rightarrow> 'k \<rightharpoonup> 'v" where
  "table_map st key_of val es =
     map_of (map (\<lambda>e. (key_of e, val e)) (filter (\<lambda>e. st e = ENTRY_USED) es))"

lemma and_mask_mod: "n = 2 ^ b \<Longrightarrow> (x::nat) AND (n - 1) = x mod n"
  by (metis take_bit_eq_mask take_bit_eq_mod mask_eq_exp_minus_1)

lemma table_ok_len: "table_ok st key_of hash es \<Longrightarrow> \<exists>b. length es = 2 ^ b"
  by (simp add: table_ok_def)

lemma table_ok_pos: "table_ok st key_of hash es \<Longrightarrow> 0 < length es"
  by (auto simp: table_ok_def)

lemma table_ok_reaches:
  "table_ok st key_of hash es \<Longrightarrow> i < length es \<Longrightarrow> st (es ! i) = ENTRY_USED \<Longrightarrow>
   reaches st es (hash (key_of (es ! i))) i"
  by (simp add: table_ok_def)

lemma table_ok_inj:
  "table_ok st key_of hash es \<Longrightarrow> i < length es \<Longrightarrow> j < length es \<Longrightarrow>
   st (es ! i) = ENTRY_USED \<Longrightarrow> st (es ! j) = ENTRY_USED \<Longrightarrow>
   key_of (es ! i) = key_of (es ! j) \<Longrightarrow> i = j"
  by (simp add: table_ok_def)

subsection \<open>The probe returns\<close>

lemma mod_add_inj:
  assumes "(h + j) mod n = (h + d) mod n" "j \<le> d" "d < n"
  shows "j = (d::nat)"
proof -
  have "n dvd (h + d) - (h + j)"
    using assms by (subst mod_eq_dvd_iff_nat [symmetric]) auto
  then have "n dvd d - j" by simp
  moreover have "d - j < n" using assms by simp
  ultimately have "d - j = 0" by (meson dvd_imp_le linorder_not_less neq0_conv)
  then show ?thesis using assms by simp
qed

lemma probe_loop_run:
  assumes len: "length es = 2 ^ b" and "j \<le> d"
    and stop: "st (es ! ((h + d) mod length es)) = ENTRY_EMPTY \<or>
      st (es ! ((h + d) mod length es)) = ENTRY_USED \<and> hit (es ! ((h + d) mod length es))"
    and pass: "\<forall>i. j \<le> i \<and> i < d \<longrightarrow> st (es ! ((h + i) mod length es)) \<noteq> ENTRY_EMPTY \<and>
      \<not> (st (es ! ((h + i) mod length es)) = ENTRY_USED \<and> hit (es ! ((h + i) mod length es)))"
  shows "\<exists>i f. probe_loop st hit es (length es - 1) ((h + j) mod length es) tomb = Some (i, f) \<and>
    (f \<longleftrightarrow> st (es ! ((h + d) mod length es)) \<noteq> ENTRY_EMPTY) \<and>
    (f \<longrightarrow> i = (h + d) mod length es) \<and>
    (\<not> f \<longrightarrow> tomb = Some i \<or> (\<exists>e. j \<le> e \<and> e \<le> d \<and> i = (h + e) mod length es \<and>
       st (es ! i) \<noteq> ENTRY_USED))"
  using assms
proof (induction "d - j" arbitrary: j tomb)
  case 0
  then have [simp]: "j = d" by simp
  have "(h + d) mod length es < length es" using len by simp
  then show ?case using 0(4) by (subst probe_loop.simps) (auto split: option.splits)
next
  case (Suc k)
  let ?s = "(h + j) mod length es"
  let ?t = "if st (es ! ?s) = ENTRY_TOMBSTONE \<and> tomb = None then Some ?s else tomb"
  have "?s < length es" using len by simp
  moreover have "(?s + 1) AND (length es - 1) = (h + Suc j) mod length es"
    using and_mask_mod [OF len] by (simp add: mod_simps)
  moreover have "j < d" using Suc by simp
  ultimately have step: "probe_loop st hit es (length es - 1) ?s tomb =
      probe_loop st hit es (length es - 1) ((h + Suc j) mod length es) ?t"
    using Suc.prems(4) by (subst probe_loop.simps) auto
  have "\<exists>i f. probe_loop st hit es (length es - 1) ((h + Suc j) mod length es) ?t = Some (i, f) \<and>
    (f \<longleftrightarrow> st (es ! ((h + d) mod length es)) \<noteq> ENTRY_EMPTY) \<and>
    (f \<longrightarrow> i = (h + d) mod length es) \<and>
    (\<not> f \<longrightarrow> ?t = Some i \<or> (\<exists>e. Suc j \<le> e \<and> e \<le> d \<and> i = (h + e) mod length es \<and>
       st (es ! i) \<noteq> ENTRY_USED))"
    using Suc.hyps Suc.prems \<open>j < d\<close> by (intro Suc.hyps(1)) auto
  then obtain i f where run: "probe_loop st hit es (length es - 1) ((h + Suc j) mod length es) ?t = Some (i, f)"
    and f: "f \<longleftrightarrow> st (es ! ((h + d) mod length es)) \<noteq> ENTRY_EMPTY" "f \<longrightarrow> i = (h + d) mod length es"
    and nf: "\<not> f \<longrightarrow> ?t = Some i \<or> (\<exists>e. Suc j \<le> e \<and> e \<le> d \<and> i = (h + e) mod length es \<and>
       st (es ! i) \<noteq> ENTRY_USED)"
    by blast
  have "?t = Some i \<Longrightarrow> tomb = Some i \<or> (i = ?s \<and> st (es ! ?s) \<noteq> ENTRY_USED)"
    by (auto split: if_splits)
  then have "\<not> f \<longrightarrow> tomb = Some i \<or> (\<exists>e. j \<le> e \<and> e \<le> d \<and> i = (h + e) mod length es \<and>
       st (es ! i) \<noteq> ENTRY_USED)"
    using nf \<open>j < d\<close> by (metis Suc_leD le_refl less_imp_le_nat)
  then show ?case using step run f by auto
qed

lemma mod_offset:
  assumes "p < (n::nat)"
  obtains d where "d < n" "p = (h + d) mod n"
proof
  let ?d = "(p + n - h mod n) mod n"
  show "?d < n" using assms by simp
  have "(h + ?d) mod n = (h mod n + (p + n - h mod n)) mod n"
    by (simp add: mod_simps)
  also have "\<dots> = (p + n) mod n"
    using assms by (simp add: le_add2 less_imp_le trans_le_add2)
  finally show "p = (h + ?d) mod n" using assms by simp
qed

lemma reaches_mono:
  assumes "reaches st es h i" "length es' = length es"
    and "\<And>j. j < length es \<Longrightarrow> st (es ! j) \<noteq> ENTRY_EMPTY \<Longrightarrow> st (es' ! j) \<noteq> ENTRY_EMPTY"
  shows "reaches st es' h i"
proof -
  obtain d where "d < length es" "i = (h + d) mod length es"
    "\<forall>j < d. st (es ! ((h + j) mod length es)) \<noteq> ENTRY_EMPTY"
    using assms(1) by (auto simp: reaches_def)
  moreover have "(h + j) mod length es < length es" for j
    using \<open>d < length es\<close> by (intro mod_less_divisor) auto
  ultimately show ?thesis using assms(2,3) by (auto simp: reaches_def)
qed

lemma reaches_home [simp]: "reaches st es (h mod length es) i \<longleftrightarrow> reaches st es h i"
  by (simp add: reaches_def mod_simps)

lemma probe_loop_hit:
  assumes ok: "table_ok st key_of hash es" and i: "i < length es" "st (es ! i) = ENTRY_USED"
    "key_of (es ! i) = k"
    and hit: "\<And>e. e \<in> set es \<Longrightarrow> st e = ENTRY_USED \<Longrightarrow> hit e \<longleftrightarrow> key_of e = k"
  shows "probe_loop st hit es (length es - 1) (hash k AND (length es - 1)) None = Some (i, True)"
proof -
  let ?n = "length es"
  obtain b where len: "?n = 2 ^ b" using table_ok_len [OF ok] ..
  obtain d where d: "d < ?n" "i = (hash k + d) mod ?n"
    "\<forall>j < d. st (es ! ((hash k + j) mod ?n)) \<noteq> ENTRY_EMPTY"
    using table_ok_reaches [OF ok i(1,2)] i(3) by (auto simp: reaches_def)
  have lt: "(hash k + j) mod ?n < ?n" for j using len by simp
  have "\<not> (st (es ! ((hash k + j) mod ?n)) = ENTRY_USED \<and> hit (es ! ((hash k + j) mod ?n)))"
    if "j < d" for j
  proof
    assume a: "st (es ! ((hash k + j) mod ?n)) = ENTRY_USED \<and> hit (es ! ((hash k + j) mod ?n))"
    then have "key_of (es ! ((hash k + j) mod ?n)) = k" using hit nth_mem [OF lt] by blast
    then have "(hash k + j) mod ?n = i" using table_ok_inj [OF ok lt i(1)] a i by simp
    then show False using mod_add_inj [of "hash k" j ?n d] d \<open>j < d\<close> by simp
  qed
  then show ?thesis
    using probe_loop_run [OF len, of 0 d st "hash k" hit None] d i hit and_mask_mod [OF len]
    by (auto simp: nth_mem)
qed

lemma probe_loop_miss:
  assumes ok: "table_ok st key_of hash es" and free: "\<exists>e \<in> set es. st e = ENTRY_EMPTY"
    and miss: "\<And>e. e \<in> set es \<Longrightarrow> st e = ENTRY_USED \<Longrightarrow> \<not> hit e"
  shows "\<exists>i < length es. probe_loop st hit es (length es - 1) (hash k AND (length es - 1)) None
      = Some (i, False) \<and> st (es ! i) \<noteq> ENTRY_USED \<and> reaches st es (hash k) i"
proof -
  let ?n = "length es" and ?at = "\<lambda>d. es ! ((hash k + d) mod length es)"
  obtain b where len: "?n = 2 ^ b" using table_ok_len [OF ok] ..
  have lt: "(hash k + j) mod ?n < ?n" for j using len by simp
  obtain p where "p < ?n" "st (es ! p) = ENTRY_EMPTY" using free by (auto simp: in_set_conv_nth)
  then obtain d0 where d0: "d0 < ?n" "st (?at d0) = ENTRY_EMPTY" using mod_offset by metis
  define d where "d = (LEAST d. st (?at d) = ENTRY_EMPTY)"
  have d: "st (?at d) = ENTRY_EMPTY" "d \<le> d0" "\<And>j. j < d \<Longrightarrow> st (?at j) \<noteq> ENTRY_EMPTY"
    using d0 unfolding d_def by (auto intro: LeastI Least_le dest: not_less_Least)
  have "\<forall>i. 0 \<le> i \<and> i < d \<longrightarrow> st (?at i) \<noteq> ENTRY_EMPTY \<and> \<not> (st (?at i) = ENTRY_USED \<and> hit (?at i))"
    using d miss lt by (auto simp: nth_mem)
  then obtain i e where "probe_loop st hit es (?n - 1) (hash k mod ?n) None = Some (i, False)"
    "e \<le> d" "i = (hash k + e) mod ?n" "st (es ! i) \<noteq> ENTRY_USED"
    using probe_loop_run [OF len, of 0 d st "hash k" hit None] d by auto
  moreover have "reaches st es (hash k) i"
    unfolding reaches_def using d d0 \<open>e \<le> d\<close> \<open>i = (hash k + e) mod ?n\<close>
    by (intro exI [of _ e]) auto
  ultimately show ?thesis using lt and_mask_mod [OF len] by auto
qed

subsection \<open>Updates of the table\<close>

lemma table_ok_update:
  assumes ok: "table_ok st key_of hash es" and i: "i < length es"
    and e: "st e = ENTRY_USED" "key_of e = k" "reaches st es (hash k) i"
    and fresh: "\<And>j. j < length es \<Longrightarrow> j \<noteq> i \<Longrightarrow> st (es ! j) = ENTRY_USED \<Longrightarrow> key_of (es ! j) \<noteq> k"
  shows "table_ok st key_of hash (es[i := e])"
proof -
  have mono: "reaches st (es[i := e]) h j" if "reaches st es h j" for h j
    by (rule reaches_mono [OF that]) (auto simp: nth_list_update e i)
  show ?thesis
    unfolding table_ok_def
  proof (intro conjI allI impI)
    show "\<exists>b. length (es[i := e]) = 2 ^ b" using table_ok_len [OF ok] by simp
  next
    fix j assume "j < length (es[i := e])" "st (es[i := e] ! j) = ENTRY_USED"
    then show "reaches st (es[i := e]) (hash (key_of (es[i := e] ! j))) j"
      using mono table_ok_reaches [OF ok] e by (cases "j = i") auto
  next
    fix j l assume "j < length (es[i := e])" "l < length (es[i := e])"
      "st (es[i := e] ! j) = ENTRY_USED \<and> st (es[i := e] ! l) = ENTRY_USED \<and>
       key_of (es[i := e] ! j) = key_of (es[i := e] ! l)"
    then show "j = l"
      using table_ok_inj [OF ok, of j l] fresh e i by (auto simp: nth_list_update split: if_splits)
  qed
qed

lemma table_ok_delete:
  assumes ok: "table_ok st key_of hash es" and i: "i < length es" and e: "st e = ENTRY_TOMBSTONE"
  shows "table_ok st key_of hash (es[i := e])"
proof -
  have mono: "reaches st (es[i := e]) h j" if "reaches st es h j" for h j
    by (rule reaches_mono [OF that]) (auto simp: nth_list_update e i)
  then show ?thesis
    using ok e i by (auto simp: table_ok_def nth_list_update split: if_splits)
qed

lemma table_ok_blank:
  "st e = ENTRY_EMPTY \<Longrightarrow> table_ok st key_of hash (replicate (2 ^ b) e)"
  by (auto simp: table_ok_def)

lemma count_st_update:
  assumes "i < length es"
  shows "count_st st s (es[i := e]) + (if st (es ! i) = s then 1 else 0) =
    count_st st s es + (if st e = s then 1 else 0)"
  using assms
proof (induction es arbitrary: i)
  case (Cons x xs)
  then show ?case by (cases i) (auto simp: count_st_def)
qed simp

lemma count_st_total:
  "count_st st ENTRY_EMPTY es + count_st st ENTRY_USED es + count_st st ENTRY_TOMBSTONE es = length es"
proof (induction es)
  case (Cons e es)
  then show ?case by (cases "st e") (auto simp: count_st_def)
qed (simp add: count_st_def)

lemma count_st_free:
  assumes "count_st st ENTRY_USED es + count_st st ENTRY_TOMBSTONE es < length es"
  shows "\<exists>e \<in> set es. st e = ENTRY_EMPTY"
proof (rule ccontr)
  assume "\<not> ?thesis"
  then have "count_st st ENTRY_EMPTY es = 0" by (auto simp: count_st_def filter_empty_conv)
  then show False using assms count_st_total [of st es] by simp
qed

lemma count_st_replicate [simp]:
  "count_st st s (replicate n e) = (if st e = s then n else 0)"
  by (induction n) (auto simp: count_st_def)

lemma count_st_0: "count_st st s es = 0 \<longleftrightarrow> (\<forall>e \<in> set es. st e \<noteq> s)"
  by (auto simp: count_st_def filter_empty_conv)

lemma count_st_Cons [simp]:
  "count_st st s (e # es) = (if st e = s then 1 else 0) + count_st st s es"
  by (simp add: count_st_def)

subsection \<open>The map of a table\<close>

lemma table_ok_distinct:
  assumes "table_ok st key_of hash es"
  shows "distinct (map key_of (filter (\<lambda>e. st e = ENTRY_USED) es))"
proof -
  have "distinct (map key_of (filter (\<lambda>e. st e = ENTRY_USED) es))"
    if "\<And>i j. i < length es \<Longrightarrow> j < length es \<Longrightarrow> st (es ! i) = ENTRY_USED \<Longrightarrow>
      st (es ! j) = ENTRY_USED \<Longrightarrow> key_of (es ! i) = key_of (es ! j) \<Longrightarrow> i = j" for es
    using that
  proof (induction es)
    case (Cons e es)
    have "distinct (map key_of (filter (\<lambda>e. st e = ENTRY_USED) es))"
      using Cons.prems [of "Suc i" "Suc j" for i j] by (intro Cons.IH) auto
    moreover have "key_of e \<noteq> key_of x" if x: "st e = ENTRY_USED" "x \<in> set es" "st x = ENTRY_USED" for x
    proof -
      obtain j where "j < length es" "es ! j = x" using x(2) by (auto simp: in_set_conv_nth)
      then show ?thesis using Cons.prems [of 0 "Suc j"] x by auto
    qed
    ultimately show ?case by auto
  qed simp
  then show ?thesis using table_ok_inj [OF assms] by blast
qed

lemma table_map_Some:
  assumes "table_ok st key_of hash es"
  shows "table_map st key_of val es k = Some v \<longleftrightarrow>
    (\<exists>e \<in> set es. st e = ENTRY_USED \<and> key_of e = k \<and> val e = v)"
proof -
  have "distinct (map fst (map (\<lambda>e. (key_of e, val e)) (filter (\<lambda>e. st e = ENTRY_USED) es)))"
    using table_ok_distinct [OF assms] by (simp add: comp_def)
  then show ?thesis unfolding table_map_def by (subst map_of_eq_Some_iff) auto
qed

lemma table_map_None:
  "table_map st key_of val es k = None \<longleftrightarrow>
    (\<forall>e \<in> set es. st e = ENTRY_USED \<longrightarrow> key_of e \<noteq> k)"
  by (auto simp: table_map_def map_of_eq_None_iff image_image)

lemma table_map_nth:
  assumes "table_ok st key_of hash es" "i < length es" "st (es ! i) = ENTRY_USED"
  shows "table_map st key_of val es (key_of (es ! i)) = Some (val (es ! i))"
  using assms by (auto simp: table_map_Some)

lemma table_map_dom_card:
  assumes "table_ok st key_of hash es"
  shows "card (dom (table_map st key_of val es)) = count_st st ENTRY_USED es"
proof -
  have "dom (table_map st key_of val es) = set (map key_of (filter (\<lambda>e. st e = ENTRY_USED) es))"
    by (auto simp: table_map_def dom_map_of_conv_image_fst image_image)
  then show ?thesis
    using distinct_card [OF table_ok_distinct [OF assms]] by (simp add: count_st_def)
qed

lemma table_map_eqI:
  assumes "table_ok st key_of hash es" "table_ok st key_of hash es'"
    and "{e \<in> set es. st e = ENTRY_USED} = {e \<in> set es'. st e = ENTRY_USED}"
  shows "table_map st key_of val es = table_map st key_of val es'"
proof
  fix k
  have "e \<in> set es \<and> st e = ENTRY_USED \<longleftrightarrow> e \<in> set es' \<and> st e = ENTRY_USED" for e
    using assms(3) by blast
  then have "table_map st key_of val es k = Some v \<longleftrightarrow> table_map st key_of val es' k = Some v" for v
    unfolding table_map_Some [OF assms(1)] table_map_Some [OF assms(2)] by blast
  then show "table_map st key_of val es k = table_map st key_of val es' k"
    by (metis option.exhaust)
qed

lemma table_map_insert:
  assumes ok: "table_ok st key_of hash es" "table_ok st key_of hash (es[i := e])" and i: "i < length es"
    and e: "st e = ENTRY_USED"
    and old: "st (es ! i) \<noteq> ENTRY_USED \<or> key_of (es ! i) = key_of e"
  shows "table_map st key_of val (es[i := e]) = (table_map st key_of val es)(key_of e \<mapsto> val e)"
proof
  fix k
  show "table_map st key_of val (es[i := e]) k = ((table_map st key_of val es)(key_of e \<mapsto> val e)) k"
  proof (cases "k = key_of e")
    case True
    then show ?thesis using table_map_nth [OF ok(2), of i val] i e by simp
  next
    case False
    have "table_map st key_of val (es[i := e]) k = Some v \<longleftrightarrow> table_map st key_of val es k = Some v" for v
      unfolding table_map_Some [OF ok(1)] table_map_Some [OF ok(2)] bex_set_nth
      using False old i e by (auto simp: nth_list_update)
    then show ?thesis using False by (metis fun_upd_other option.exhaust)
  qed
qed

lemma table_map_delete:
  assumes ok: "table_ok st key_of hash es" and i: "i < length es" and e: "st e = ENTRY_TOMBSTONE"
    and used: "st (es ! i) = ENTRY_USED"
  shows "table_map st key_of val (es[i := e]) = (table_map st key_of val es)(key_of (es ! i) := None)"
proof
  fix k
  note ok' = table_ok_delete [OF ok i e]
  show "table_map st key_of val (es[i := e]) k = ((table_map st key_of val es)(key_of (es ! i) := None)) k"
  proof (cases "k = key_of (es ! i)")
    case True
    have "\<not> (j < length es \<and> st (es[i := e] ! j) = ENTRY_USED \<and> key_of (es[i := e] ! j) = k)" for j
      using True i e used table_ok_inj [OF ok _ i, of j] by (auto simp: nth_list_update)
    then have "table_map st key_of val (es[i := e]) k = None"
      unfolding table_map_None ball_set_nth by auto
    then show ?thesis using True by simp
  next
    case False
    have "table_map st key_of val (es[i := e]) k = Some v \<longleftrightarrow> table_map st key_of val es k = Some v" for v
      unfolding table_map_Some [OF ok] table_map_Some [OF ok'] bex_set_nth
      using False i e used by (auto simp: nth_list_update)
    then show ?thesis using False by (metis fun_upd_other option.exhaust)
  qed
qed

subsection \<open>The rebuild\<close>

lemma free_loop_run:
  assumes len: "length es = 2 ^ b" and "j \<le> d"
    and stop: "st (es ! ((h + d) mod length es)) \<noteq> ENTRY_USED"
    and pass: "\<forall>i. j \<le> i \<and> i < d \<longrightarrow> st (es ! ((h + i) mod length es)) = ENTRY_USED"
  shows "free_loop st es (length es - 1) ((h + j) mod length es) = Some ((h + d) mod length es)"
  using assms(2,4)
proof (induction "d - j" arbitrary: j)
  case 0
  moreover have "(h + d) mod length es < length es" using len by simp
  ultimately show ?case using stop by (subst free_loop.simps) auto
next
  case (Suc k)
  have "(h + j) mod length es < length es" using len by simp
  moreover have "((h + j) mod length es + 1) AND (length es - 1) = (h + Suc j) mod length es"
    using and_mask_mod [OF len] by (simp add: mod_simps)
  moreover have "st (es ! ((h + j) mod length es)) = ENTRY_USED" using Suc by simp
  ultimately have "free_loop st es (length es - 1) ((h + j) mod length es) =
      free_loop st es (length es - 1) ((h + Suc j) mod length es)"
    by (subst free_loop.simps) auto
  also have "\<dots> = Some ((h + d) mod length es)" using Suc by (intro Suc.hyps(1)) auto
  finally show ?case .
qed

lemma free_loop_spec:
  assumes ok: "table_ok st key_of hash es" and none: "\<forall>e \<in> set es. st e \<noteq> ENTRY_TOMBSTONE"
    and free: "\<exists>e \<in> set es. st e = ENTRY_EMPTY"
  shows "\<exists>i < length es. free_loop st es (length es - 1) (h AND (length es - 1)) = Some i \<and>
    st (es ! i) = ENTRY_EMPTY \<and> reaches st es h i"
proof -
  let ?n = "length es" and ?at = "\<lambda>d. es ! ((h + d) mod length es)"
  obtain b where len: "?n = 2 ^ b" using table_ok_len [OF ok] ..
  have lt: "(h + j) mod ?n < ?n" for j using len by simp
  have states: "st (?at j) = ENTRY_USED \<longleftrightarrow> st (?at j) \<noteq> ENTRY_EMPTY" for j
    using none nth_mem [OF lt] by (cases "st (?at j)") auto
  obtain p where "p < ?n" "st (es ! p) = ENTRY_EMPTY" using free by (auto simp: in_set_conv_nth)
  then obtain d0 where d0: "d0 < ?n" "st (?at d0) = ENTRY_EMPTY" using mod_offset by metis
  define d where "d = (LEAST d. st (?at d) = ENTRY_EMPTY)"
  have d: "st (?at d) = ENTRY_EMPTY" "d \<le> d0" "\<And>j. j < d \<Longrightarrow> st (?at j) \<noteq> ENTRY_EMPTY"
    using d0 unfolding d_def by (auto intro: LeastI Least_le dest: not_less_Least)
  have "free_loop st es (?n - 1) ((h + 0) mod ?n) = Some ((h + d) mod ?n)"
    using d states by (intro free_loop_run [OF len]) auto
  moreover have "reaches st es h ((h + d) mod ?n)"
    unfolding reaches_def using d d0 by (intro exI [of _ d]) auto
  ultimately show ?thesis using lt d(1) and_mask_mod [OF len] by auto
qed

lemma rehash_loop_ok:
  assumes "table_ok st key_of hash new" "\<forall>e \<in> set new. st e \<noteq> ENTRY_TOMBSTONE"
    and "count_st st ENTRY_USED src + count_st st ENTRY_USED new < length new"
    and "distinct (map key_of (filter (\<lambda>e. st e = ENTRY_USED) src))"
    and "\<forall>e \<in> set src. \<forall>e' \<in> set new. st e = ENTRY_USED \<and> st e' = ENTRY_USED \<longrightarrow> key_of e \<noteq> key_of e'"
    and "\<forall>e \<in> set src. st e = ENTRY_USED \<longrightarrow> hash_of e = hash (key_of e)"
  shows "\<exists>new'. rehash_loop st hash_of (length new - 1) src new = Some new' \<and>
    table_ok st key_of hash new' \<and> length new' = length new \<and>
    (\<forall>e \<in> set new'. st e \<noteq> ENTRY_TOMBSTONE) \<and>
    count_st st ENTRY_USED new' = count_st st ENTRY_USED src + count_st st ENTRY_USED new \<and>
    {e \<in> set new'. st e = ENTRY_USED} =
      {e \<in> set src. st e = ENTRY_USED} \<union> {e \<in> set new. st e = ENTRY_USED}"
  using assms
proof (induction src arbitrary: new)
  case Nil
  then show ?case by (simp add: count_st_def)
next
  case (Cons e src)
  show ?case
  proof (cases "st e = ENTRY_USED")
    case False
    then show ?thesis using Cons.IH [of new] Cons.prems by auto
  next
    case True
    have "count_st st ENTRY_TOMBSTONE new = 0" using Cons.prems(2) by (simp add: count_st_0)
    then have "\<exists>e \<in> set new. st e = ENTRY_EMPTY"
      using Cons.prems(3) by (intro count_st_free) simp
    then obtain i where i: "i < length new" "st (new ! i) = ENTRY_EMPTY" "reaches st new (hash (key_of e)) i"
      "free_loop st new (length new - 1) (hash (key_of e) AND (length new - 1)) = Some i"
      using free_loop_spec [OF Cons.prems(1,2)] by blast
    let ?new = "new[i := e]"
    have used: "{x \<in> set ?new. st x = ENTRY_USED} = insert e {x \<in> set new. st x = ENTRY_USED}"
      using i True set_update_subset_insert [of new i e] set_update_memI [of i new e]
      by (auto simp: in_set_conv_nth nth_list_update) (metis entry_state.distinct(1) nth_list_update_neq length_list_update)
    have ok: "table_ok st key_of hash ?new"
      using Cons.prems(1,5) i True by (intro table_ok_update [of st key_of hash new i e "key_of e"]) auto
    have tomb: "\<forall>x \<in> set ?new. st x \<noteq> ENTRY_TOMBSTONE"
      using Cons.prems(2) True set_update_subset_insert [of new i e] by auto
    have cnt: "count_st st ENTRY_USED ?new = Suc (count_st st ENTRY_USED new)"
      using count_st_update [OF i(1), of st ENTRY_USED e] i(2) True by simp
    have "\<forall>x \<in> set src. \<forall>y \<in> set ?new. st x = ENTRY_USED \<and> st y = ENTRY_USED \<longrightarrow> key_of x \<noteq> key_of y"
    proof -
      have "y = e \<or> y \<in> set new" if "y \<in> set ?new" for y
        using that set_update_subset_insert [of new i e] by auto
      moreover have "\<forall>x \<in> set src. st x = ENTRY_USED \<longrightarrow> key_of x \<noteq> key_of e"
        using Cons.prems(4) True by (simp add: image_iff) metis
      ultimately show ?thesis using Cons.prems(5) by (metis list.set_intros(2))
    qed
    then obtain new' where "rehash_loop st hash_of (length ?new - 1) src ?new = Some new'"
      "table_ok st key_of hash new'" "length new' = length ?new" "\<forall>e \<in> set new'. st e \<noteq> ENTRY_TOMBSTONE"
      "count_st st ENTRY_USED new' = count_st st ENTRY_USED src + count_st st ENTRY_USED ?new"
      "{e \<in> set new'. st e = ENTRY_USED} =
        {e \<in> set src. st e = ENTRY_USED} \<union> {e \<in> set ?new. st e = ENTRY_USED}"
      using Cons.IH [OF ok tomb] Cons.prems True cnt by auto
    then show ?thesis using used i Cons.prems(6) True cnt by auto
  qed
qed

text \<open>The rebuild into a cleared table, the form both maps use.\<close>

lemma rehash_loop_blank:
  assumes "st blank = ENTRY_EMPTY" "n = 2 ^ b" "count_st st ENTRY_USED src < n"
    and "distinct (map key_of (filter (\<lambda>e. st e = ENTRY_USED) src))"
    and "\<forall>e \<in> set src. st e = ENTRY_USED \<longrightarrow> hash_of e = hash (key_of e)"
  obtains new where "rehash_loop st hash_of (n - 1) src (replicate n blank) = Some new"
    "table_ok st key_of hash new" "length new = n" "count_st st ENTRY_TOMBSTONE new = 0"
    "count_st st ENTRY_USED new = count_st st ENTRY_USED src"
    "{e \<in> set new. st e = ENTRY_USED} = {e \<in> set src. st e = ENTRY_USED}"
proof -
  have none: "{e \<in> set (replicate n blank). st e = ENTRY_USED} = {}" using assms(1) by auto
  let ?blank = "replicate n blank"
  have ok: "table_ok st key_of hash ?blank"
    unfolding assms(2) by (rule table_ok_blank) (rule assms(1))
  have tomb: "\<forall>e \<in> set ?blank. st e \<noteq> ENTRY_TOMBSTONE" using assms(1) by auto
  have room: "count_st st ENTRY_USED src + count_st st ENTRY_USED ?blank < length ?blank"
    using assms(1,3) by simp
  have disj: "\<forall>e \<in> set src. \<forall>e' \<in> set ?blank. st e = ENTRY_USED \<and> st e' = ENTRY_USED \<longrightarrow>
      key_of e \<noteq> key_of e'" using assms(1) by auto
  obtain new where new: "rehash_loop st hash_of (length ?blank - 1) src ?blank = Some new"
    "table_ok st key_of hash new" "length new = length ?blank"
    "\<forall>e \<in> set new. st e \<noteq> ENTRY_TOMBSTONE"
    "count_st st ENTRY_USED new = count_st st ENTRY_USED src + count_st st ENTRY_USED ?blank"
    "{e \<in> set new. st e = ENTRY_USED} =
      {e \<in> set src. st e = ENTRY_USED} \<union> {e \<in> set ?blank. st e = ENTRY_USED}"
    using rehash_loop_ok [OF ok tomb room assms(4) disj assms(5)] by (elim exE conjE) rule
  show thesis
  proof (rule that [of new])
    show "rehash_loop st hash_of (n - 1) src ?blank = Some new" "length new = n"
      using new(1,3) by simp_all
    show "count_st st ENTRY_USED new = count_st st ENTRY_USED src" using new(5) assms(1) by simp
    show "count_st st ENTRY_TOMBSTONE new = 0" using new(4) by (simp add: count_st_0)
    show "{e \<in> set new. st e = ENTRY_USED} = {e \<in> set src. st e = ENTRY_USED}"
      unfolding new(6) none by blast
  qed (rule new(2))
qed

subsection \<open>Iteration\<close>

lemma next_loop_None:
  "snd (next_loop st es idx) = None \<longleftrightarrow> (\<forall>e \<in> set es. st e \<noteq> ENTRY_USED)"
  by (induction es arbitrary: idx) auto

lemma next_loop_Some:
  assumes "next_loop st es idx = (idx', Some e)"
  shows "idx < idx' \<and> idx' \<le> idx + length es \<and>
    filter (\<lambda>e. st e = ENTRY_USED) es = e # filter (\<lambda>e. st e = ENTRY_USED) (drop (idx' - idx) es)"
  using assms
proof (induction es arbitrary: idx)
  case (Cons x es)
  show ?case
  proof (cases "st x = ENTRY_USED")
    case False
    then have "next_loop st es (idx + 1) = (idx', Some e)" using Cons.prems by simp
    then have "idx + 1 < idx'" "idx' \<le> idx + 1 + length es"
      "filter (\<lambda>e. st e = ENTRY_USED) es = e # filter (\<lambda>e. st e = ENTRY_USED) (drop (idx' - (idx + 1)) es)"
      using Cons.IH by blast+
    moreover from this have "idx' - idx = Suc (idx' - (idx + 1))" by simp
    ultimately show ?thesis using False by (simp only: drop_Suc_Cons) auto
  qed (use Cons.prems in auto)
qed simp

end
