(* ===== verification/Map_Interface.thy ===== *)
theory Map_Interface
  imports Prelude
begin

text \<open>
  The contract of the hash maps of \<^verbatim>\<open>common/\<close>, as their clients rely on it. A value is a
  pointer, \<open>None\<close> being \<^verbatim>\<open>NULL\<close>; the abstract state is a map from keys to stored pointers,
  so that a key bound to \<^verbatim>\<open>NULL\<close> differs from an absent key (\<^verbatim>\<open>has\<close> tells them apart,
  \<^verbatim>\<open>get\<close> does not). \<open>'o\<close> is the outcome of the allocations an operation makes. The
  operations are partial: \<open>None\<close> is a probe that never ends, and the laws exclude it.
\<close>

datatype ('o, 'k, 'v) map_op =
    Op_set 'o 'k "'v option"
  | Op_remove 'o 'k
  | Op_clear

text \<open>A client's run: the operations in order, with the return codes of the insertions.\<close>

fun map_run ::
  "('o \<Rightarrow> 'm \<Rightarrow> 'k \<Rightarrow> 'v option \<Rightarrow> (rtc_err \<times> 'm) option) \<Rightarrow> ('o \<Rightarrow> 'm \<Rightarrow> 'k \<Rightarrow> (bool \<times> 'm) option) \<Rightarrow>
   ('m \<Rightarrow> 'm) \<Rightarrow> ('o, 'k, 'v) map_op list \<Rightarrow> 'm \<Rightarrow> (rtc_err list \<times> 'm) option"
where
  "map_run put del clr [] m = Some ([], m)"
| "map_run put del clr (Op_set a k v # ops) m = do {
     (rc, m') \<leftarrow> put a m k v;
     (rcs, m'') \<leftarrow> map_run put del clr ops m';
     Some (rc # rcs, m'')
   }"
| "map_run put del clr (Op_remove a k # ops) m = do {
     (_, m') \<leftarrow> del a m k;
     (rcs, m'') \<leftarrow> map_run put del clr ops m';
     Some (RTC_OK # rcs, m'')
   }"
| "map_run put del clr (Op_clear # ops) m = do {
     (rcs, m'') \<leftarrow> map_run put del clr ops (clr m);
     Some (RTC_OK # rcs, m'')
   }"

text \<open>The same run on the abstract map: an insertion takes effect when it returned \<^verbatim>\<open>RTC_OK\<close>.\<close>

fun map_spec :: "('o, 'k, 'v) map_op list \<Rightarrow> rtc_err list \<Rightarrow> ('k \<rightharpoonup> 'v option) \<Rightarrow> ('k \<rightharpoonup> 'v option)" where
  "map_spec (Op_set a k v # ops) (rc # rcs) A =
     map_spec ops rcs (if rc = RTC_OK then A(k \<mapsto> v) else A)"
| "map_spec (Op_remove a k # ops) (rc # rcs) A = map_spec ops rcs (A(k := None))"
| "map_spec (Op_clear # ops) (rc # rcs) A = map_spec ops rcs Map.empty"
| "map_spec _ _ A = A"

text \<open>What \<^verbatim>\<open>get\<close> returns for an abstract binding: the stored pointer, or \<^verbatim>\<open>NULL\<close>.\<close>

definition ptr_at :: "('k \<rightharpoonup> 'v option) \<Rightarrow> 'k \<Rightarrow> 'v option" where
  "ptr_at A k = (case A k of None \<Rightarrow> None | Some v \<Rightarrow> v)"

locale ptr_map =
  fixes new :: 'm
    and put :: "'o \<Rightarrow> 'm \<Rightarrow> 'k \<Rightarrow> 'v option \<Rightarrow> (rtc_err \<times> 'm) option"
    and get :: "'m \<Rightarrow> 'k \<Rightarrow> 'v option option"
    and has :: "'m \<Rightarrow> 'k \<Rightarrow> bool option"
    and del :: "'o \<Rightarrow> 'm \<Rightarrow> 'k \<Rightarrow> (bool \<times> 'm) option"
    and clr :: "'m \<Rightarrow> 'm"
    and len :: "'m \<Rightarrow> nat"
    and ok :: "'m \<Rightarrow> bool"
    and \<alpha> :: "'m \<Rightarrow> 'k \<rightharpoonup> 'v option"
  assumes inv_new: "ok new" and abs_new: "\<alpha> new = Map.empty"
    and set_returns: "ok m \<Longrightarrow> \<exists>rc m'. put a m k v = Some (rc, m')"
    and inv_set: "ok m \<Longrightarrow> put a m k v = Some (rc, m') \<Longrightarrow> ok m'"
    and set_codes: "ok m \<Longrightarrow> put a m k v = Some (rc, m') \<Longrightarrow> rc = RTC_OK \<or> rc = RTC_ERR_NOMEM"
    and abs_set: "ok m \<Longrightarrow> put a m k v = Some (rc, m') \<Longrightarrow>
      \<alpha> m' = (if rc = RTC_OK then (\<alpha> m)(k \<mapsto> v) else \<alpha> m)"
    and get_abs: "ok m \<Longrightarrow> get m k = Some (ptr_at (\<alpha> m) k)"
    and has_abs: "ok m \<Longrightarrow> has m k = Some (k \<in> dom (\<alpha> m))"
    and remove_abs: "ok m \<Longrightarrow> \<exists>m'. del a m k = Some (k \<in> dom (\<alpha> m), m') \<and> ok m' \<and>
      \<alpha> m' = (\<alpha> m)(k := None)"
    and inv_clear: "ok m \<Longrightarrow> ok (clr m)" and abs_clear: "ok m \<Longrightarrow> \<alpha> (clr m) = Map.empty"
    and size_abs: "ok m \<Longrightarrow> len m = card (dom (\<alpha> m))"
begin

lemma get_set:
  assumes "ok m" "put a m k v = Some (RTC_OK, m')"
  shows "get m' k' = (if k' = k then Some v else get m k')"
  using get_abs [OF inv_set [OF assms]] get_abs [OF assms(1)] abs_set [OF assms]
  by (simp add: ptr_at_def)

lemma get_set_fail:
  assumes "ok m" "put a m k v = Some (rc, m')" "rc \<noteq> RTC_OK"
  shows "get m' k' = get m k'"
  using get_abs [OF inv_set [OF assms(1,2)]] get_abs [OF assms(1)] abs_set [OF assms(1,2)] assms(3)
  by simp

lemma remove_cases:
  assumes "ok m"
  obtains m' where "del a m k = Some (k \<in> dom (\<alpha> m), m')" "ok m'" "\<alpha> m' = (\<alpha> m)(k := None)"
  using remove_abs [OF assms] by blast

lemma get_remove:
  assumes "ok m" "del a m k = Some (f, m')"
  shows "get m' k' = (if k' = k then Some None else get m k')"
proof -
  have "ok m'" "\<alpha> m' = (\<alpha> m)(k := None)" using remove_cases [OF assms(1), of a k] assms(2) by auto
  then show ?thesis using get_abs assms(1) by (simp add: ptr_at_def)
qed

lemma run_refines:
  assumes "ok m"
  shows "\<exists>rcs m'. map_run put del clr ops m = Some (rcs, m') \<and> ok m' \<and>
    length rcs = length ops \<and> \<alpha> m' = map_spec ops rcs (\<alpha> m)"
  using assms
proof (induction ops arbitrary: m)
  case (Cons op ops)
  show ?case
  proof (cases op)
    case (Op_set a k v)
    obtain rc m' where s: "put a m k v = Some (rc, m')" using set_returns [OF Cons.prems] by blast
    with Cons.IH [OF inv_set [OF Cons.prems s]] abs_set [OF Cons.prems s] Op_set
    show ?thesis by auto
  next
    case (Op_remove a k)
    obtain m' where "del a m k = Some (k \<in> dom (\<alpha> m), m')" "ok m'" "\<alpha> m' = (\<alpha> m)(k := None)"
      using remove_cases [OF Cons.prems] .
    with Cons.IH [of m'] Op_remove show ?thesis by (auto simp: fun_upd_def)
  next
    case Op_clear
    with Cons.IH [OF inv_clear [OF Cons.prems]] abs_clear [OF Cons.prems] show ?thesis by auto
  qed
qed simp

lemma run_lookup:
  "\<exists>rcs m. map_run put del clr ops new = Some (rcs, m) \<and>
     get m k = Some (ptr_at (map_spec ops rcs Map.empty) k) \<and>
     has m k = Some (k \<in> dom (map_spec ops rcs Map.empty)) \<and>
     len m = card (dom (map_spec ops rcs Map.empty))"
  using run_refines [OF inv_new, of ops] get_abs has_abs size_abs abs_new by auto

end

text \<open>
  With an allocator that has memory (\<open>good\<close>), a map that never holds more than \<open>L\<close> keys never refuses one.
\<close>

locale bounded_ptr_map = ptr_map +
  fixes good :: 'o and fits :: "nat \<Rightarrow> 'm \<Rightarrow> bool"
  assumes fits_new: "L \<le> 2 ^ 32 \<Longrightarrow> fits L new"
    and put_good: "ok m \<Longrightarrow> fits L m \<Longrightarrow> k \<in> dom (\<alpha> m) \<or> card (dom (\<alpha> m)) < L \<Longrightarrow>
      \<exists>m'. put good m k v = Some (RTC_OK, m') \<and> fits L m'"
    and del_good: "ok m \<Longrightarrow> fits L m \<Longrightarrow> del good m k = Some (f, m') \<Longrightarrow> fits L m'"
begin

lemma put_within:
  assumes "ok m" "fits L m" "dom (\<alpha> m) \<subseteq> K" "finite K" "card K \<le> L" "k \<in> K"
  shows "\<exists>m'. put good m k v = Some (RTC_OK, m') \<and> ok m' \<and> fits L m' \<and> \<alpha> m' = (\<alpha> m)(k \<mapsto> v)"
proof -
  have "k \<in> dom (\<alpha> m) \<or> card (dom (\<alpha> m)) < L"
  proof (cases "k \<in> dom (\<alpha> m)")
    case False
    then have "dom (\<alpha> m) \<subset> K" using assms by blast
    then show ?thesis using psubset_card_mono [OF assms(4), of "dom (\<alpha> m)"] assms(5) by simp
  qed simp
  from put_good [OF assms(1,2) this, of v] obtain m' where m': "put good m k v = Some (RTC_OK, m')" "fits L m'" by blast
  then show ?thesis using inv_set [OF assms(1) m'(1)] abs_set [OF assms(1) m'(1)] by simp
qed

end

text \<open>A client's loop over all bindings visits each of them once.\<close>

locale iter_ptr_map = ptr_map +
  fixes items :: "'m \<Rightarrow> ('k \<times> 'v option) list"
  assumes items_abs: "ok m \<Longrightarrow> map_of (items m) = \<alpha> m" and items_once: "ok m \<Longrightarrow> distinct (map fst (items m))"
begin

lemma in_items: "ok m \<Longrightarrow> (k, v) \<in> set (items m) \<longleftrightarrow> \<alpha> m k = Some v"
  using items_abs items_once by (metis map_of_eq_Some_iff)

lemma items_Nil: "ok m \<Longrightarrow> items m = [] \<longleftrightarrow> \<alpha> m = Map.empty"
  using items_abs [of m] by (metis map_of_eq_empty_iff)

lemma finite_dom: "ok m \<Longrightarrow> finite (dom (\<alpha> m))"
  using items_abs [of m] finite_dom_map_of by metis

end

end
