(* ===== verification/U32_Map.thy ===== *)
theory U32_Map
  imports Open_Addressing Map_Interface
begin

text \<open>
  \<^verbatim>\<open>common/src/rtc_u32_map.c\<close>: the open-addressing map from 32-bit keys to pointers that the
  RTP demultiplexer, the jitter buffer, the media session and the data-channel manager share.
  The table invariant is \<open>u32_map_ok\<close>, the abstraction \<open>u32_map_abs\<close>; the interpretation
  \<open>u32\<close> discharges the contract of \<open>Map_Interface\<close>.
\<close>

subsection \<open>Data and operations\<close>

record 'v rtc_u32_map_entry =
  e_key :: u32
  e_state :: entry_state
  e_value :: "'v option"

record 'v rtc_u32_map =
  um_entries :: "'v rtc_u32_map_entry list"
  um_cap :: nat
  um_len :: nat
  um_tombstones :: nat

definition RTC_U32_MAP_INITIAL_CAP :: nat where
  "RTC_U32_MAP_INITIAL_CAP = 16"

definition FIB_MUL :: u32 where
  "FIB_MUL = 2654435769"

definition u32_hash :: "u32 \<Rightarrow> nat" where
  "u32_hash key = unat (key * FIB_MUL)"

definition u32_probe :: "u32 \<Rightarrow> nat \<Rightarrow> nat" where
  "u32_probe key n = u32_hash key AND (n - 1)"

definition u32_blank :: "'v rtc_u32_map_entry" where
  "u32_blank = \<lparr>e_key = 0, e_state = ENTRY_EMPTY, e_value = None\<rparr>"

definition u32_rehash :: "bool \<Rightarrow> 'v rtc_u32_map \<Rightarrow> nat \<Rightarrow> (rtc_err \<times> 'v rtc_u32_map) option" where
  "u32_rehash a m new_cap =
    (if \<not> calloc_ok a new_cap 24 then Some (RTC_ERR_NOMEM, m)
     else do {
       new_entries \<leftarrow> rehash_loop e_state (\<lambda>src. u32_hash (e_key src)) (new_cap - 1) (um_entries m)
         (replicate new_cap u32_blank);
       Some (RTC_OK, m\<lparr>um_entries := new_entries, um_cap := new_cap, um_tombstones := 0\<rparr>)
     })"

definition rtc_u32_map_init :: "'v rtc_u32_map" where
  "rtc_u32_map_init = \<lparr>um_entries = [], um_cap = 0, um_len = 0, um_tombstones = 0\<rparr>"

definition u32_find_slot :: "'v rtc_u32_map \<Rightarrow> u32 \<Rightarrow> (nat \<times> bool) option" where
  "u32_find_slot m key =
    probe_loop e_state (\<lambda>e. e_key e = key) (um_entries m) (um_cap m - 1) (u32_probe key (um_cap m)) None"

text \<open>The first half of \<^verbatim>\<open>rtc_u32_map_set\<close>: the table is created or doubled.\<close>

definition u32_make_room :: "bool \<Rightarrow> 'v rtc_u32_map \<Rightarrow> (rtc_err \<times> 'v rtc_u32_map) option" where
  "u32_make_room a m =
    (if um_cap m = 0 then u32_rehash a m RTC_U32_MAP_INITIAL_CAP
     else if (um_len m + um_tombstones m) * 4 \<ge> um_cap m * 3 then
       (if um_cap m > SIZE_MAX div 2 then Some (RTC_ERR_NOMEM, m)
        else u32_rehash a m (um_cap m * 2))
     else Some (RTC_OK, m))"

definition rtc_u32_map_set ::
  "bool \<Rightarrow> 'v rtc_u32_map \<Rightarrow> u32 \<Rightarrow> 'v option \<Rightarrow> (rtc_err \<times> 'v rtc_u32_map) option" where
  "rtc_u32_map_set a m key val = do {
     (rc, m) \<leftarrow> u32_make_room a m;
     if rc \<noteq> RTC_OK then Some (rc, m)
     else do {
       (slot, found) \<leftarrow> u32_find_slot m key;
       let e = um_entries m ! slot;
       if found then Some (RTC_OK, m\<lparr>um_entries := (um_entries m)[slot := e\<lparr>e_value := val\<rparr>]\<rparr>)
       else Some (RTC_OK,
         m\<lparr>um_tombstones := (if e_state e = ENTRY_TOMBSTONE then um_tombstones m - 1 else um_tombstones m),
           um_entries := (um_entries m)[slot := \<lparr>e_key = key, e_state = ENTRY_USED, e_value = val\<rparr>],
           um_len := um_len m + 1\<rparr>)
     }
   }"

definition rtc_u32_map_get :: "'v rtc_u32_map \<Rightarrow> u32 \<Rightarrow> 'v option option" where
  "rtc_u32_map_get m key =
    (if um_cap m = 0 then Some None
     else do {
       (slot, found) \<leftarrow> u32_find_slot m key;
       Some (if found then e_value (um_entries m ! slot) else None)
     })"

definition rtc_u32_map_has :: "'v rtc_u32_map \<Rightarrow> u32 \<Rightarrow> bool option" where
  "rtc_u32_map_has m key =
    (if um_cap m = 0 then Some False
     else do { (slot, found) \<leftarrow> u32_find_slot m key; Some found })"

definition rtc_u32_map_remove :: "bool \<Rightarrow> 'v rtc_u32_map \<Rightarrow> u32 \<Rightarrow> (bool \<times> 'v rtc_u32_map) option" where
  "rtc_u32_map_remove a m key =
    (if um_cap m = 0 then Some (False, m)
     else do {
       (slot, found) \<leftarrow> u32_find_slot m key;
       if \<not> found then Some (False, m)
       else do {
         let e = um_entries m ! slot;
         let m = m\<lparr>um_entries := (um_entries m)[slot := e\<lparr>e_state := ENTRY_TOMBSTONE, e_value := None\<rparr>],
                   um_len := um_len m - 1, um_tombstones := um_tombstones m + 1\<rparr>;
         if um_tombstones m * 8 \<ge> um_cap m \<and> um_len m * 2 < um_cap m \<and> um_cap m > RTC_U32_MAP_INITIAL_CAP
         then do { (rc, m) \<leftarrow> u32_rehash a m (um_cap m); Some (True, m) }
         else Some (True, m)
       }
     })"

definition rtc_u32_map_len :: "'v rtc_u32_map \<Rightarrow> nat" where
  "rtc_u32_map_len m = um_len m"

definition rtc_u32_map_clear :: "'v rtc_u32_map \<Rightarrow> 'v rtc_u32_map" where
  "rtc_u32_map_clear m =
    (if um_entries m = [] then m
     else m\<lparr>um_entries := replicate (um_cap m) u32_blank, um_len := 0, um_tombstones := 0\<rparr>)"

definition rtc_u32_map_free :: "'v rtc_u32_map \<Rightarrow> 'v rtc_u32_map" where
  "rtc_u32_map_free m = m\<lparr>um_entries := [], um_cap := 0, um_len := 0, um_tombstones := 0\<rparr>"

text \<open>The iterator: the cursor after the call, and the entry it stopped at (\<open>None\<close>: no more).\<close>

definition rtc_u32_map_next :: "'v rtc_u32_map \<Rightarrow> nat \<Rightarrow> nat \<times> (u32 \<times> 'v option) option" where
  "rtc_u32_map_next m idx =
    (if um_cap m = 0 then (idx, None)
     else case next_loop e_state (drop idx (um_entries m)) idx of
       (idx', None) \<Rightarrow> (idx', None)
     | (idx', Some e) \<Rightarrow> (idx', Some (e_key e, e_value e)))"

text \<open>A client's \<^verbatim>\<open>while (rtc_u32_map_next (...))\<close> loop, with at most \<open>fuel\<close> calls.\<close>

fun u32_map_items :: "nat \<Rightarrow> 'v rtc_u32_map \<Rightarrow> nat \<Rightarrow> (u32 \<times> 'v option) list" where
  "u32_map_items 0 m idx = []"
| "u32_map_items (Suc fuel) m idx =
    (case rtc_u32_map_next m idx of
       (_, None) \<Rightarrow> []
     | (idx', Some kv) \<Rightarrow> kv # u32_map_items fuel m idx')"

subsection \<open>Invariant and abstraction\<close>

definition u32_map_ok :: "'v rtc_u32_map \<Rightarrow> bool" where
  "u32_map_ok m \<longleftrightarrow>
    (if um_cap m = 0 then um_entries m = [] \<and> um_len m = 0 \<and> um_tombstones m = 0
     else RTC_U32_MAP_INITIAL_CAP \<le> um_cap m \<and> length (um_entries m) = um_cap m \<and>
       table_ok e_state e_key u32_hash (um_entries m) \<and>
       um_len m = count_st e_state ENTRY_USED (um_entries m) \<and>
       um_tombstones m = count_st e_state ENTRY_TOMBSTONE (um_entries m) \<and>
       um_len m + um_tombstones m < um_cap m \<and> um_cap m * 24 \<le> SIZE_MAX)"

definition u32_map_abs :: "'v rtc_u32_map \<Rightarrow> u32 \<rightharpoonup> 'v option" where
  "u32_map_abs m = table_map e_state e_key e_value (um_entries m)"

lemma u32_blank_state [simp]: "e_state u32_blank = ENTRY_EMPTY"
  by (simp add: u32_blank_def)

lemma u32_find_hit:
  assumes "u32_map_ok m" "um_cap m \<noteq> 0" "u32_map_abs m key = Some v"
  shows "\<exists>i < um_cap m. u32_find_slot m key = Some (i, True) \<and> e_state (um_entries m ! i) = ENTRY_USED \<and>
    e_key (um_entries m ! i) = key \<and> e_value (um_entries m ! i) = v"
proof -
  have ok: "table_ok e_state e_key u32_hash (um_entries m)" and len: "length (um_entries m) = um_cap m"
    using assms by (auto simp: u32_map_ok_def)
  obtain i where i: "i < um_cap m" "e_state (um_entries m ! i) = ENTRY_USED" "e_key (um_entries m ! i) = key"
    "e_value (um_entries m ! i) = v"
    using assms(3) len unfolding u32_map_abs_def table_map_Some [OF ok] bex_set_nth by auto
  then show ?thesis
    using probe_loop_hit [OF ok, of i key "\<lambda>e. e_key e = key"] len
    by (auto simp: u32_find_slot_def u32_probe_def)
qed

lemma u32_find_miss:
  assumes "u32_map_ok m" "um_cap m \<noteq> 0" "u32_map_abs m key = None"
  shows "\<exists>i < um_cap m. u32_find_slot m key = Some (i, False) \<and> e_state (um_entries m ! i) \<noteq> ENTRY_USED \<and>
    reaches e_state (um_entries m) (u32_hash key) i"
proof -
  have ok: "table_ok e_state e_key u32_hash (um_entries m)" and len: "length (um_entries m) = um_cap m"
    and free: "\<exists>e \<in> set (um_entries m). e_state e = ENTRY_EMPTY"
    using assms by (auto simp: u32_map_ok_def intro: count_st_free)
  then show ?thesis
    using probe_loop_miss [OF ok free, of "\<lambda>e. e_key e = key" key] assms(3)
    by (auto simp: u32_find_slot_def u32_probe_def u32_map_abs_def table_map_None)
qed

subsection \<open>The operations keep the invariant and implement the abstract map\<close>

lemma u32_map_ok_table:
  assumes "u32_map_ok m" "um_cap m \<noteq> 0"
  shows "table_ok e_state e_key u32_hash (um_entries m)" "length (um_entries m) = um_cap m"
    "um_len m = count_st e_state ENTRY_USED (um_entries m)"
    "um_tombstones m = count_st e_state ENTRY_TOMBSTONE (um_entries m)"
    "um_len m + um_tombstones m < um_cap m" "RTC_U32_MAP_INITIAL_CAP \<le> um_cap m"
    "um_cap m * 24 \<le> SIZE_MAX"
  using assms by (auto simp: u32_map_ok_def)

lemma u32_map_ok_src:
  assumes "u32_map_ok m"
  shows "distinct (map e_key (filter (\<lambda>e. e_state e = ENTRY_USED) (um_entries m)))"
    "count_st e_state ENTRY_USED (um_entries m) = um_len m"
  using assms by (auto simp: u32_map_ok_def count_st_def intro: table_ok_distinct split: if_splits)

lemma u32_rehash_ok:
  assumes ok: "u32_map_ok m" and n: "n = 2 ^ b" "RTC_U32_MAP_INITIAL_CAP \<le> n" "um_len m < n"
  shows "\<exists>rc m'. u32_rehash a m n = Some (rc, m') \<and> u32_map_ok m' \<and> u32_map_abs m' = u32_map_abs m \<and>
    (if rc = RTC_OK then um_cap m' = n \<and> um_len m' = um_len m \<and> um_tombstones m' = 0
     else rc = RTC_ERR_NOMEM \<and> m' = m)"
proof (cases "calloc_ok a n 24")
  case False
  then show ?thesis using ok by (simp add: u32_rehash_def)
next
  case True
  have "n \<noteq> 0" using n by simp
  obtain new where new: "rehash_loop e_state (\<lambda>src. u32_hash (e_key src)) (n - 1) (um_entries m)
      (replicate n u32_blank) = Some new"
    "table_ok e_state e_key u32_hash new" "length new = n" "count_st e_state ENTRY_TOMBSTONE new = 0"
    "count_st e_state ENTRY_USED new = um_len m"
    "{e \<in> set new. e_state e = ENTRY_USED} = {e \<in> set (um_entries m). e_state e = ENTRY_USED}"
    using rehash_loop_blank [of e_state u32_blank n b "um_entries m" e_key "\<lambda>src. u32_hash (e_key src)" u32_hash]
      u32_map_ok_src [OF ok] n by auto
  let ?m = "m\<lparr>um_entries := new, um_cap := n, um_tombstones := 0\<rparr>"
  have "u32_map_ok ?m"
    using new n True \<open>n \<noteq> 0\<close> by (simp add: u32_map_ok_def calloc_ok_def)
  moreover have "u32_map_abs ?m = u32_map_abs m"
  proof (cases "um_cap m = 0")
    case True
    then have "um_entries m = []" using ok by (simp add: u32_map_ok_def)
    then show ?thesis using new(6) by (auto simp: u32_map_abs_def table_map_def fun_eq_iff map_of_eq_None_iff)
  next
    case False
    then show ?thesis using table_map_eqI [OF new(2) u32_map_ok_table(1) [OF ok False] new(6)]
      by (simp add: u32_map_abs_def)
  qed
  ultimately show ?thesis using new(1) True by (simp add: u32_rehash_def)
qed

lemma u32_make_room_ok:
  assumes ok: "u32_map_ok m"
  shows "\<exists>rc m'. u32_make_room a m = Some (rc, m') \<and> u32_map_ok m' \<and> u32_map_abs m' = u32_map_abs m \<and>
    (if rc = RTC_OK then um_cap m' \<noteq> 0 \<and> Suc (um_len m' + um_tombstones m') < um_cap m'
     else rc = RTC_ERR_NOMEM \<and> m' = m)"
proof (cases "um_cap m = 0")
  case True
  then have len: "um_len m = 0" using ok by (simp add: u32_map_ok_def)
  then have "\<exists>rc m'. u32_rehash a m RTC_U32_MAP_INITIAL_CAP = Some (rc, m') \<and> u32_map_ok m' \<and>
    u32_map_abs m' = u32_map_abs m \<and>
    (if rc = RTC_OK then um_cap m' = RTC_U32_MAP_INITIAL_CAP \<and> um_len m' = um_len m \<and> um_tombstones m' = 0
     else rc = RTC_ERR_NOMEM \<and> m' = m)"
    by (intro u32_rehash_ok [OF ok, where b = 4]) (simp_all add: RTC_U32_MAP_INITIAL_CAP_def)
  then show ?thesis using True len
    by (auto simp: u32_make_room_def RTC_U32_MAP_INITIAL_CAP_def split: if_splits)
next
  case False
  note tab = u32_map_ok_table [OF ok False]
  obtain b where b: "um_cap m = 2 ^ b" using table_ok_len [OF tab(1)] tab(2) by auto
  have "\<exists>rc m'. u32_rehash a m (um_cap m * 2) = Some (rc, m') \<and> u32_map_ok m' \<and>
    u32_map_abs m' = u32_map_abs m \<and>
    (if rc = RTC_OK then um_cap m' = um_cap m * 2 \<and> um_len m' = um_len m \<and> um_tombstones m' = 0
     else rc = RTC_ERR_NOMEM \<and> m' = m)"
    using tab b by (intro u32_rehash_ok [OF ok, where b = "Suc b"]) (simp_all add: mult.commute)
  then obtain rc m' where "u32_rehash a m (um_cap m * 2) = Some (rc, m')" "u32_map_ok m'"
    "u32_map_abs m' = u32_map_abs m"
    "if rc = RTC_OK then um_cap m' = um_cap m * 2 \<and> um_len m' = um_len m \<and> um_tombstones m' = 0
     else rc = RTC_ERR_NOMEM \<and> m' = m" by blast
  then show ?thesis
    using False tab ok by (cases "rc = RTC_OK") (auto simp: u32_make_room_def RTC_U32_MAP_INITIAL_CAP_def)
qed

lemma u32_put_found:
  fixes m :: "'v rtc_u32_map" and v :: "'v option"
  assumes ok: "u32_map_ok m" "um_cap m \<noteq> 0" and i: "i < um_cap m"
    "e_state (um_entries m ! i) = ENTRY_USED" "e_key (um_entries m ! i) = key"
  defines "m' \<equiv> m\<lparr>um_entries := (um_entries m)[i := (um_entries m ! i)\<lparr>e_value := v\<rparr>]\<rparr>"
  shows "u32_map_ok m'" "u32_map_abs m' = (u32_map_abs m)(key \<mapsto> v)"
proof -
  note tab = u32_map_ok_table [OF ok]
  let ?es = "um_entries m" and ?e = "(um_entries m ! i)\<lparr>e_value := v\<rparr>"
  have il: "i < length ?es" using i tab by simp
  have new: "table_ok e_state e_key u32_hash (?es[i := ?e])"
  proof (rule table_ok_update [OF tab(1) il, where k = key])
    show "reaches e_state ?es (u32_hash key) i" using table_ok_reaches [OF tab(1) il] i by simp
    show "e_key (?es ! j) \<noteq> key" if "j < length ?es" "j \<noteq> i" "e_state (?es ! j) = ENTRY_USED" for j
      using table_ok_inj [OF tab(1) that(1) il that(3) i(2)] that(2) i(3) by metis
  qed (use i in simp_all)
  have "count_st e_state s (?es[i := ?e]) = count_st e_state s ?es" for s
    using count_st_update [OF il, of e_state s ?e] i by (simp split: if_splits)
  then show "u32_map_ok m'" using new tab ok by (simp add: u32_map_ok_def m'_def)
  show "u32_map_abs m' = (u32_map_abs m)(key \<mapsto> v)"
    using table_map_insert [OF tab(1) new il, of e_value] i by (simp add: u32_map_abs_def m'_def)
qed

lemma u32_put_new:
  fixes m :: "'v rtc_u32_map" and v :: "'v option"
  assumes ok: "u32_map_ok m" "um_cap m \<noteq> 0" and i: "i < um_cap m"
    "e_state (um_entries m ! i) \<noteq> ENTRY_USED" "reaches e_state (um_entries m) (u32_hash key) i"
    and fresh: "u32_map_abs m key = None" and room: "Suc (um_len m + um_tombstones m) < um_cap m"
  defines "m' \<equiv> m\<lparr>um_tombstones := (if e_state (um_entries m ! i) = ENTRY_TOMBSTONE
        then um_tombstones m - 1 else um_tombstones m),
      um_entries := (um_entries m)[i := \<lparr>e_key = key, e_state = ENTRY_USED, e_value = v\<rparr>],
      um_len := um_len m + 1\<rparr>"
  shows "u32_map_ok m'" "u32_map_abs m' = (u32_map_abs m)(key \<mapsto> v)"
proof -
  note tab = u32_map_ok_table [OF ok]
  let ?es = "um_entries m" and ?e = "\<lparr>e_key = key, e_state = ENTRY_USED, e_value = v\<rparr>"
  have il: "i < length ?es" using i tab by simp
  have new: "table_ok e_state e_key u32_hash (?es[i := ?e])"
  proof (rule table_ok_update [OF tab(1) il, where k = key])
    show "e_key (?es ! j) \<noteq> key" if "j < length ?es" "e_state (?es ! j) = ENTRY_USED" for j
      using fresh that by (simp add: u32_map_abs_def table_map_None)
  qed (use i in simp_all)
  have used: "count_st e_state ENTRY_USED (?es[i := ?e]) = um_len m + 1"
    using count_st_update [OF il, of e_state ENTRY_USED ?e] i tab by simp
  have tomb: "count_st e_state ENTRY_TOMBSTONE (?es[i := ?e]) = um_tombstones m'"
    using count_st_update [OF il, of e_state ENTRY_TOMBSTONE ?e] tab
    by (auto simp: m'_def split: if_splits)
  then have "um_tombstones m' \<le> um_tombstones m" by (simp add: m'_def)
  then show "u32_map_ok m'" using new used tomb room tab ok by (simp add: u32_map_ok_def m'_def)
  show "u32_map_abs m' = (u32_map_abs m)(key \<mapsto> v)"
    using table_map_insert [OF tab(1) new il, of e_value] i by (simp add: u32_map_abs_def m'_def)
qed

lemma rtc_u32_map_set_ok:
  assumes "u32_map_ok m"
  shows "\<exists>rc m'. rtc_u32_map_set a m key v = Some (rc, m') \<and> u32_map_ok m' \<and>
    (rc = RTC_OK \<or> rc = RTC_ERR_NOMEM) \<and>
    u32_map_abs m' = (if rc = RTC_OK then (u32_map_abs m)(key \<mapsto> v) else u32_map_abs m)"
proof -
  obtain rc m1 where r: "u32_make_room a m = Some (rc, m1)" "u32_map_ok m1"
    "u32_map_abs m1 = u32_map_abs m"
    "if rc = RTC_OK then um_cap m1 \<noteq> 0 \<and> Suc (um_len m1 + um_tombstones m1) < um_cap m1
     else rc = RTC_ERR_NOMEM \<and> m1 = m"
    using u32_make_room_ok [OF assms] by blast
  show ?thesis
  proof (cases "rc = RTC_OK")
    case False
    then show ?thesis using r by (simp add: rtc_u32_map_set_def)
  next
    case True
    then have c: "um_cap m1 \<noteq> 0" "Suc (um_len m1 + um_tombstones m1) < um_cap m1" using r(4) by auto
    show ?thesis
    proof (cases "u32_map_abs m1 key")
      case None
      obtain i where i: "i < um_cap m1" "u32_find_slot m1 key = Some (i, False)"
        "e_state (um_entries m1 ! i) \<noteq> ENTRY_USED" "reaches e_state (um_entries m1) (u32_hash key) i"
        using u32_find_miss [OF r(2) c(1) None] by blast
      show ?thesis
        using u32_put_new [OF r(2) c(1) i(1,3,4) None c(2), of v] i(2) r(1,3) True
        by (simp add: rtc_u32_map_set_def Let_def)
    next
      case (Some w)
      obtain i where i: "i < um_cap m1" "u32_find_slot m1 key = Some (i, True)"
        "e_state (um_entries m1 ! i) = ENTRY_USED" "e_key (um_entries m1 ! i) = key"
        using u32_find_hit [OF r(2) c(1) Some] by blast
      show ?thesis
        using u32_put_found [OF r(2) c(1) i(1,3,4), of v] i(2) r(1,3) True
        by (simp add: rtc_u32_map_set_def Let_def)
    qed
  qed
qed

lemma u32_map_abs_cap0: "u32_map_ok m \<Longrightarrow> um_cap m = 0 \<Longrightarrow> u32_map_abs m = Map.empty"
  by (auto simp: u32_map_ok_def u32_map_abs_def table_map_def)

lemma u32_find_abs:
  assumes "u32_map_ok m" "um_cap m \<noteq> 0"
  shows "\<exists>i < um_cap m. u32_find_slot m key = Some (i, key \<in> dom (u32_map_abs m)) \<and>
    (key \<in> dom (u32_map_abs m) \<longrightarrow> e_state (um_entries m ! i) = ENTRY_USED \<and>
       e_key (um_entries m ! i) = key \<and> u32_map_abs m key = Some (e_value (um_entries m ! i)))"
proof (cases "u32_map_abs m key")
  case None
  with u32_find_miss [OF assms None] show ?thesis by auto
next
  case (Some v)
  with u32_find_hit [OF assms Some] show ?thesis by auto
qed

lemma rtc_u32_map_get_ok:
  assumes "u32_map_ok m"
  shows "rtc_u32_map_get m key = Some (ptr_at (u32_map_abs m) key)"
proof (cases "um_cap m = 0")
  case True
  then show ?thesis using u32_map_abs_cap0 [OF assms] by (simp add: rtc_u32_map_get_def ptr_at_def)
next
  case False
  then show ?thesis using u32_find_abs [OF assms False, of key]
    by (auto simp: rtc_u32_map_get_def ptr_at_def split: option.splits)
qed

lemma rtc_u32_map_has_ok:
  assumes "u32_map_ok m"
  shows "rtc_u32_map_has m key = Some (key \<in> dom (u32_map_abs m))"
proof (cases "um_cap m = 0")
  case True
  then show ?thesis using u32_map_abs_cap0 [OF assms] by (simp add: rtc_u32_map_has_def)
next
  case False
  then show ?thesis using u32_find_abs [OF assms False, of key] by (auto simp: rtc_u32_map_has_def)
qed

lemma u32_kill:
  assumes ok: "u32_map_ok m" "um_cap m \<noteq> 0" and i: "i < um_cap m"
    "e_state (um_entries m ! i) = ENTRY_USED" "e_key (um_entries m ! i) = key"
  defines "m' \<equiv> m\<lparr>um_entries := (um_entries m)[i := (um_entries m ! i)
      \<lparr>e_state := ENTRY_TOMBSTONE, e_value := None\<rparr>],
      um_len := um_len m - 1, um_tombstones := um_tombstones m + 1\<rparr>"
  shows "u32_map_ok m'" "u32_map_abs m' = (u32_map_abs m)(key := None)"
proof -
  note tab = u32_map_ok_table [OF ok]
  let ?es = "um_entries m" and ?e = "(um_entries m ! i)\<lparr>e_state := ENTRY_TOMBSTONE, e_value := None\<rparr>"
  have il: "i < length ?es" using i tab by simp
  have new: "table_ok e_state e_key u32_hash (?es[i := ?e])"
    by (rule table_ok_delete [OF tab(1) il]) simp
  have used: "count_st e_state ENTRY_USED (?es[i := ?e]) + 1 = um_len m"
    using count_st_update [OF il, of e_state ENTRY_USED ?e] i tab by simp
  have tomb: "count_st e_state ENTRY_TOMBSTONE (?es[i := ?e]) = um_tombstones m + 1"
    using count_st_update [OF il, of e_state ENTRY_TOMBSTONE ?e] i tab by simp
  show "u32_map_ok m'" using new used tomb tab ok by (simp add: u32_map_ok_def m'_def)
  show "u32_map_abs m' = (u32_map_abs m)(key := None)"
    using table_map_delete [OF tab(1) il, of ?e e_value] i by (simp add: u32_map_abs_def m'_def)
qed

lemma u32_compact_ok:
  assumes ok: "u32_map_ok m" "um_cap m \<noteq> 0"
  shows "\<exists>rc m'. u32_rehash a m (um_cap m) = Some (rc, m') \<and> u32_map_ok m' \<and> u32_map_abs m' = u32_map_abs m"
proof -
  note tab = u32_map_ok_table [OF ok]
  obtain b where "um_cap m = 2 ^ b" using table_ok_len [OF tab(1)] tab(2) by auto
  then show ?thesis using u32_rehash_ok [OF ok(1), of "um_cap m" b a] tab by auto
qed

lemma rtc_u32_map_remove_ok:
  assumes "u32_map_ok m"
  shows "\<exists>m'. rtc_u32_map_remove a m key = Some (key \<in> dom (u32_map_abs m), m') \<and> u32_map_ok m' \<and>
    u32_map_abs m' = (u32_map_abs m)(key := None)"
proof (cases "um_cap m = 0")
  case True
  then show ?thesis using assms u32_map_abs_cap0 [OF assms] by (simp add: rtc_u32_map_remove_def)
next
  case False
  obtain i where i: "i < um_cap m" "u32_find_slot m key = Some (i, key \<in> dom (u32_map_abs m))"
    "key \<in> dom (u32_map_abs m) \<longrightarrow> e_state (um_entries m ! i) = ENTRY_USED \<and> e_key (um_entries m ! i) = key"
    using u32_find_abs [OF assms False, of key] by blast
  show ?thesis
  proof (cases "key \<in> dom (u32_map_abs m)")
    case False
    then have "(u32_map_abs m)(key := None) = u32_map_abs m" by (auto simp: domIff)
    then show ?thesis using False i assms \<open>um_cap m \<noteq> 0\<close> by (simp add: rtc_u32_map_remove_def)
  next
    case True
    let ?m = "m\<lparr>um_entries := (um_entries m)[i := (um_entries m ! i)
      \<lparr>e_state := ENTRY_TOMBSTONE, e_value := None\<rparr>],
      um_len := um_len m - 1, um_tombstones := um_tombstones m + 1\<rparr>"
    have m: "u32_map_ok ?m" "u32_map_abs ?m = (u32_map_abs m)(key := None)"
      using u32_kill [OF assms False i(1), of key] i(3) True by auto
    show ?thesis
      using u32_compact_ok [of ?m a] m i(2) True False
      by (auto simp: rtc_u32_map_remove_def Let_def split: prod.splits)
  qed
qed

lemma rtc_u32_map_clear_ok:
  assumes "u32_map_ok m"
  shows "u32_map_ok (rtc_u32_map_clear m)" "u32_map_abs (rtc_u32_map_clear m) = Map.empty"
proof -
  have *: "\<exists>b. um_cap m = 2 ^ b" if "um_cap m \<noteq> 0"
    using table_ok_len [OF u32_map_ok_table(1) [OF assms that]] u32_map_ok_table(2) [OF assms that] by simp
  show "u32_map_ok (rtc_u32_map_clear m)"
    using assms * table_ok_blank [of e_state u32_blank e_key u32_hash]
    by (auto simp: u32_map_ok_def rtc_u32_map_clear_def split: if_splits)
  show "u32_map_abs (rtc_u32_map_clear m) = Map.empty"
    by (auto simp: u32_map_abs_def rtc_u32_map_clear_def table_map_def)
qed

lemma rtc_u32_map_len_ok: "u32_map_ok m \<Longrightarrow> rtc_u32_map_len m = card (dom (u32_map_abs m))"
  by (cases "um_cap m = 0")
    (auto simp: rtc_u32_map_len_def u32_map_abs_def table_map_dom_card [OF u32_map_ok_table(1)]
      u32_map_ok_table(3) dest: u32_map_abs_cap0, simp add: u32_map_ok_def table_map_def)

lemma rtc_u32_map_init_ok: "u32_map_ok rtc_u32_map_init" "u32_map_abs rtc_u32_map_init = Map.empty"
  by (simp_all add: u32_map_ok_def u32_map_abs_def rtc_u32_map_init_def table_map_def)

interpretation u32: ptr_map rtc_u32_map_init rtc_u32_map_set rtc_u32_map_get rtc_u32_map_has
  rtc_u32_map_remove rtc_u32_map_clear rtc_u32_map_len u32_map_ok u32_map_abs
proof
  fix m :: "'v rtc_u32_map" and a k v rc m'
  assume ok: "u32_map_ok m"
  show "\<exists>rc m'. rtc_u32_map_set a m k v = Some (rc, m')"
    "\<exists>m'. rtc_u32_map_remove a m k = Some (k \<in> dom (u32_map_abs m), m') \<and> u32_map_ok m' \<and>
      u32_map_abs m' = (u32_map_abs m)(k := None)"
    using rtc_u32_map_set_ok [OF ok] rtc_u32_map_remove_ok [OF ok] by blast+
  assume "rtc_u32_map_set a m k v = Some (rc, m')"
  then show "u32_map_ok m'" "rc = RTC_OK \<or> rc = RTC_ERR_NOMEM"
    "u32_map_abs m' = (if rc = RTC_OK then (u32_map_abs m)(k \<mapsto> v) else u32_map_abs m)"
    using rtc_u32_map_set_ok [OF ok, of a k v] by auto
qed (simp_all add: rtc_u32_map_init_ok rtc_u32_map_get_ok rtc_u32_map_has_ok rtc_u32_map_clear_ok
  rtc_u32_map_len_ok)

subsection \<open>Iteration\<close>

lemma u32_map_items_filter:
  assumes "um_cap m \<noteq> 0" "length (um_entries m) < fuel + idx"
  shows "u32_map_items fuel m idx =
    map (\<lambda>e. (e_key e, e_value e)) (filter (\<lambda>e. e_state e = ENTRY_USED) (drop idx (um_entries m)))"
  using assms(2)
proof (induction fuel arbitrary: idx)
  case (Suc fuel)
  let ?es = "um_entries m" and ?u = "\<lambda>e :: 'a rtc_u32_map_entry. e_state e = ENTRY_USED"
  obtain idx' r where n: "next_loop e_state (drop idx ?es) idx = (idx', r)" by fastforce
  show ?case
  proof (cases r)
    case None
    then have "filter ?u (drop idx ?es) = []"
      using next_loop_None [of e_state "drop idx ?es" idx] n by (simp add: filter_empty_conv)
    then show ?thesis using n None assms(1) by (simp add: rtc_u32_map_next_def)
  next
    case (Some e)
    note s = next_loop_Some [OF n [unfolded Some]]
    have "filter ?u (drop idx ?es) = e # filter ?u (drop idx' ?es)"
      using s by (simp add: drop_drop)
    moreover have "u32_map_items fuel m idx' =
        map (\<lambda>e. (e_key e, e_value e)) (filter ?u (drop idx' ?es))"
      using s Suc.prems by (intro Suc.IH) simp
    ultimately show ?thesis using n Some assms(1) by (simp add: rtc_u32_map_next_def)
  qed
qed simp

lemma u32_items_map:
  assumes "u32_map_ok m" "um_cap m < fuel"
  shows "map_of (u32_map_items fuel m 0) = u32_map_abs m \<and>
    distinct (map fst (u32_map_items fuel m 0))"
proof (cases "um_cap m = 0")
  case True
  have "u32_map_items fuel m 0 = []" using True by (cases fuel) (simp_all add: rtc_u32_map_next_def)
  then show ?thesis using u32_map_abs_cap0 [OF assms(1) True] by simp
next
  case False
  note tab = u32_map_ok_table [OF assms(1) False]
  have "u32_map_items fuel m 0 =
    map (\<lambda>e. (e_key e, e_value e)) (filter (\<lambda>e. e_state e = ENTRY_USED) (um_entries m))"
    using u32_map_items_filter [OF False, of fuel 0] assms(2) tab(2) by simp
  then show ?thesis using table_ok_distinct [OF tab(1)]
    by (simp add: u32_map_abs_def table_map_def comp_def)
qed

text \<open>The whole loop \<^verbatim>\<open>rtc_u32_map_iter_t it = {0}; while (rtc_u32_map_next (...))\<close>.\<close>

definition u32_map_all :: "'v rtc_u32_map \<Rightarrow> (u32 \<times> 'v option) list" where
  "u32_map_all m = u32_map_items (Suc (um_cap m)) m 0"

interpretation u32_iter: iter_ptr_map rtc_u32_map_init rtc_u32_map_set rtc_u32_map_get rtc_u32_map_has
  rtc_u32_map_remove rtc_u32_map_clear rtc_u32_map_len u32_map_ok u32_map_abs u32_map_all
  by unfold_locales (simp_all add: u32_items_map u32_map_all_def del: u32_map_items.simps)

subsection \<open>Room\<close>

text \<open>A table grows only when at least half of it is live, so with \<open>L\<close> live keys its capacity is bounded.\<close>

definition u32_fits :: "nat \<Rightarrow> 'v rtc_u32_map \<Rightarrow> bool" where
  "u32_fits L m \<longleftrightarrow> L \<le> 2 ^ 32 \<and> um_len m \<le> L \<and> um_cap m \<le> max 32 (4 * L) \<and>
    (um_tombstones m * 8 < um_cap m \<or> um_cap m \<le> 16 \<or> um_cap m \<le> 2 * L)"

lemma u32_rehash_good: "calloc_ok a n 24 \<Longrightarrow> u32_rehash a m n = Some (rc, m') \<Longrightarrow> rc = RTC_OK"
  by (auto simp: u32_rehash_def split: Option.bind_splits)

lemma u32_make_room_fits:
  assumes ok: "u32_map_ok m" and fits: "u32_fits L m"
  shows "\<exists>m'. u32_make_room True m = Some (RTC_OK, m') \<and> um_len m' = um_len m \<and> u32_fits L m'"
proof (cases "um_cap m = 0")
  case True
  then have "um_len m = 0" using ok by (simp add: u32_map_ok_def)
  then obtain rc m' where r: "u32_rehash True m 16 = Some (rc, m')"
    "if rc = RTC_OK then um_cap m' = 16 \<and> um_len m' = um_len m \<and> um_tombstones m' = 0 else rc = RTC_ERR_NOMEM \<and> m' = m"
    using u32_rehash_ok [OF ok, of 16 4 True] by (auto simp: RTC_U32_MAP_INITIAL_CAP_def)
  then have "rc = RTC_OK" using u32_rehash_good [of True 16 m rc m'] by (simp add: calloc_ok_def SIZE_MAX_def)
  then show ?thesis using r True fits by (auto simp: u32_make_room_def RTC_U32_MAP_INITIAL_CAP_def u32_fits_def)
next
  case False
  show ?thesis
  proof (cases "(um_len m + um_tombstones m) * 4 \<ge> um_cap m * 3")
    case small: False
    then show ?thesis using False fits by (simp add: u32_make_room_def)
  next
    case True
    note tab = u32_map_ok_table [OF ok False]
    obtain b where b: "um_cap m = 2 ^ b" using table_ok_len [OF tab(1)] tab(2) by auto
    have cap: "um_cap m * 2 \<le> max 32 (4 * L)"
    proof -
      have "um_cap m \<le> 16 \<or> um_cap m \<le> 2 * L" using True fits unfolding u32_fits_def by auto
      then show ?thesis by auto
    qed
    then have "um_cap m * 2 \<le> 2 ^ 35" using fits by (simp add: u32_fits_def max_def split: if_splits)
    then have "calloc_ok True (um_cap m * 2) 24" "\<not> um_cap m > SIZE_MAX div 2" by (simp_all add: calloc_ok_def SIZE_MAX_def)
    moreover obtain rc m' where r: "u32_rehash True m (um_cap m * 2) = Some (rc, m')"
      "if rc = RTC_OK then um_cap m' = um_cap m * 2 \<and> um_len m' = um_len m \<and> um_tombstones m' = 0 else rc = RTC_ERR_NOMEM \<and> m' = m"
      using u32_rehash_ok [OF ok, of "um_cap m * 2" "Suc b" True] tab b by (auto simp: mult.commute)
    ultimately show ?thesis using False True cap fits u32_rehash_good [OF _ r(1)] by (auto simp: u32_make_room_def u32_fits_def)
  qed
qed

lemma u32_fits_len: "u32_fits L m \<Longrightarrow> u32_map_ok m \<Longrightarrow> card (dom (u32_map_abs m)) \<le> L"
  using rtc_u32_map_len_ok [of m] by (simp add: u32_fits_def rtc_u32_map_len_def)

lemma u32_set_fits:
  assumes ok: "u32_map_ok m" and fits: "u32_fits L m" and room: "k \<in> dom (u32_map_abs m) \<or> card (dom (u32_map_abs m)) < L"
  shows "\<exists>m'. rtc_u32_map_set True m k v = Some (RTC_OK, m') \<and> u32_fits L m'"
proof -
  obtain m1 where m1: "u32_make_room True m = Some (RTC_OK, m1)" "um_len m1 = um_len m" "u32_fits L m1"
    using u32_make_room_fits [OF ok fits] by blast
  obtain rc m' where set: "rtc_u32_map_set True m k v = Some (rc, m')" using u32.set_returns [OF ok] by blast
  note s = u32.inv_set [OF ok set] u32.abs_set [OF ok set]
  have rc: "rc = RTC_OK" using set m1(1) by (auto simp: rtc_u32_map_set_def Let_def split: if_splits Option.bind_splits)
  have cap: "um_cap m' = um_cap m1" "um_tombstones m' \<le> um_tombstones m1"
    using set m1(1) by (auto simp: rtc_u32_map_set_def Let_def split: if_splits Option.bind_splits)
  have "um_len m' = card (dom ((u32_map_abs m)(k \<mapsto> v)))"
    using rtc_u32_map_len_ok [OF s(1)] s(2) rc by (simp add: rtc_u32_map_len_def)
  also have "\<dots> \<le> L" using room u32_fits_len [OF fits ok] u32_iter.finite_dom [OF ok] by (auto simp: insert_absorb card_insert_if)
  finally have "um_len m' \<le> L" .
  then show ?thesis using set rc cap m1(3) by (auto simp: u32_fits_def)
qed

lemma u32_remove_fits:
  assumes ok: "u32_map_ok m" and fits: "u32_fits L m" and rm: "rtc_u32_map_remove True m k = Some (f, m')"
  shows "u32_fits L m'"
proof (cases "m' = m")
  case True
  then show ?thesis using fits by simp
next
  case False
  then obtain i where c: "um_cap m \<noteq> 0" "u32_find_slot m k = Some (i, True)"
    using rm by (auto simp: rtc_u32_map_remove_def split: if_splits Option.bind_splits)
  define m1 where "m1 = m\<lparr>um_entries := (um_entries m)[i := (um_entries m ! i)\<lparr>e_state := ENTRY_TOMBSTONE, e_value := None\<rparr>],
      um_len := um_len m - 1, um_tombstones := um_tombstones m + 1\<rparr>"
  have m1: "um_cap m1 = um_cap m" "um_len m1 = um_len m - 1" by (simp_all add: m1_def)
  have step: "rtc_u32_map_remove True m k =
      (if um_tombstones m1 * 8 \<ge> um_cap m1 \<and> um_len m1 * 2 < um_cap m1 \<and> um_cap m1 > RTC_U32_MAP_INITIAL_CAP
       then do { (rc, m2) \<leftarrow> u32_rehash True m1 (um_cap m1); Some (True, m2) } else Some (True, m1))"
    unfolding m1_def using c by (simp add: rtc_u32_map_remove_def Let_def)
  show ?thesis
  proof (cases "um_tombstones m1 * 8 \<ge> um_cap m1 \<and> um_len m1 * 2 < um_cap m1 \<and> um_cap m1 > RTC_U32_MAP_INITIAL_CAP")
    case True
    have cap: "calloc_ok True (um_cap m1) 24" using ok c by (simp add: u32_map_ok_def calloc_ok_def m1)
    have "(do { (rc, m2) \<leftarrow> u32_rehash True m1 (um_cap m1); Some (True, m2) }) = Some (f, m')"
      using rm unfolding step if_P [OF True] .
    then have "um_cap m' = um_cap m1 \<and> um_len m' = um_len m1 \<and> um_tombstones m' = 0"
      using cap by (auto simp: u32_rehash_def split: Option.bind_splits)
    then show ?thesis using fits m1 c by (auto simp: u32_fits_def)
  next
    case False
    then have "m' = m1" using rm unfolding step by (simp only: if_False) simp
    then show ?thesis using False fits m1 by (auto simp: u32_fits_def RTC_U32_MAP_INITIAL_CAP_def)
  qed
qed

interpretation u32_room: bounded_ptr_map rtc_u32_map_init rtc_u32_map_set rtc_u32_map_get rtc_u32_map_has
  rtc_u32_map_remove rtc_u32_map_clear rtc_u32_map_len u32_map_ok u32_map_abs True u32_fits
proof
  show "u32_fits L rtc_u32_map_init" if "L \<le> 2 ^ 32" for L using that by (simp add: u32_fits_def rtc_u32_map_init_def)
qed (use u32_set_fits u32_remove_fits in blast)+

subsection \<open>Properties\<close>

text \<open>
  C7. Every sequence of insertions, removals and clears on a fresh map returns (no probe
  runs forever, whichever allocations fail), and afterwards every lookup, membership test and the
  length agree with the abstract map that the successful insertions and the removals build.
\<close>

theorem u32_map_run_correct:
  "\<exists>rcs m. map_run rtc_u32_map_set rtc_u32_map_remove rtc_u32_map_clear ops rtc_u32_map_init
      = Some (rcs, m) \<and>
     rtc_u32_map_get m k = Some (ptr_at (map_spec ops rcs Map.empty) k) \<and>
     rtc_u32_map_has m k = Some (k \<in> dom (map_spec ops rcs Map.empty)) \<and>
     rtc_u32_map_len m = card (dom (map_spec ops rcs Map.empty))"
  by (rule u32.run_lookup)

text \<open>
  C40. Iterating with \<^verbatim>\<open>rtc_u32_map_next\<close> from a zero cursor yields every binding of
  the map exactly once and then stops, within one call per table slot and one more.
\<close>

theorem u32_map_iteration_complete:
  assumes "u32_map_ok m" "um_cap m < fuel"
  shows "map_of (u32_map_items fuel m 0) = u32_map_abs m \<and>
    distinct (map fst (u32_map_items fuel m 0))"
  using u32_items_map [OF assms] .

lemmas u32_eval = rtc_u32_map_set_def u32_make_room_def rtc_u32_map_init_def
  RTC_U32_MAP_INITIAL_CAP_def u32_rehash_def u32_blank_def calloc_ok_def SIZE_MAX_def
  u32_find_slot_def u32_probe_def u32_hash_def FIB_MUL_def rtc_u32_map_remove_def Let_def
  rtc_u32_map_get_def rtc_u32_map_next_def probe_loop.simps free_loop.simps eval_simps

definition u32_map_sample :: "nat rtc_u32_map" where
  "u32_map_sample = (case map_run rtc_u32_map_set rtc_u32_map_remove rtc_u32_map_clear
     [Op_set True 7 (Some 5), Op_set True 9 (Some 2), Op_remove True 7] rtc_u32_map_init of
       Some (_, m) \<Rightarrow> m | None \<Rightarrow> rtc_u32_map_init)"

lemma u32_map_sample_ok: "u32_map_ok u32_map_sample"
  using u32.run_refines [OF u32.inv_new,
    of "[Op_set True 7 (Some 5), Op_set True 9 (Some (2::nat)), Op_remove True 7]"]
  by (auto simp del: map_run.simps simp add: u32_map_sample_def)

lemma u32_map_sample_eval:
  "um_cap u32_map_sample = 16"
  "filter (\<lambda>e. e_state e = ENTRY_USED) (um_entries u32_map_sample) =
    [\<lparr>e_key = 9, e_state = ENTRY_USED, e_value = Some 2\<rparr>]"
  by (simp_all add: u32_map_sample_def u32_eval)

theorem u32_map_iteration_complete_witness:
  "u32_map_ok u32_map_sample \<and> um_cap u32_map_sample < 17 \<and>
   u32_map_items 17 u32_map_sample 0 = [(9, Some 2)] \<and>
   map_of (u32_map_items 17 u32_map_sample 0) = u32_map_abs u32_map_sample"
proof -
  have "u32_map_items 17 u32_map_sample 0 = [(9, Some 2)]"
    using u32_map_items_filter [of u32_map_sample 17 0] u32_map_ok_table(2) [OF u32_map_sample_ok]
    by (simp add: u32_map_sample_eval)
  then show ?thesis using u32_map_iteration_complete [OF u32_map_sample_ok, of 17] u32_map_sample_ok
    by (simp add: u32_map_sample_eval)
qed

end
