(* ===== verification/Str_Map.thy ===== *)
theory Str_Map
  imports Open_Addressing Map_Interface
begin

text \<open>
  \<^verbatim>\<open>common/src/rtc_str_map.c\<close>: the open-addressing map from strings to pointers behind the
  listener's routes, the conference's indices and the signaling server's meeting names. It differs
  from the 32-bit map in the FNV-1a hash, which is cached in the entry and compared before the
  string, and in the key copies of the owned mode, whose allocation is a second way for an insertion
  to fail. A borrowed key is the string the caller keeps alive and unchanged. The invariant is
  \<open>str_map_ok\<close>, the abstraction \<open>str_map_abs\<close>, the interpretation \<open>str\<close>.
\<close>

subsection \<open>Data and operations\<close>

record 'v rtc_str_map_entry =
  se_key :: "string option"
  se_value :: "'v option"
  se_hash :: u32
  se_state :: entry_state

record 'v rtc_str_map =
  sm_entries :: "'v rtc_str_map_entry list"
  sm_cap :: nat
  sm_len :: nat
  sm_tombstones :: nat
  sm_owns_keys :: bool

definition RTC_STR_MAP_INITIAL_CAP :: nat where
  "RTC_STR_MAP_INITIAL_CAP = 16"

fun fnv1a_loop :: "string \<Rightarrow> u32 \<Rightarrow> u32" where
  "fnv1a_loop [] h = h"
| "fnv1a_loop (c # s) h = fnv1a_loop s ((h XOR ucast (of_char c :: u8)) * 16777619)"

definition fnv1a :: "string \<Rightarrow> u32" where
  "fnv1a s = fnv1a_loop s 2166136261"

definition str_blank :: "'v rtc_str_map_entry" where
  "str_blank = \<lparr>se_key = None, se_value = None, se_hash = 0, se_state = ENTRY_EMPTY\<rparr>"

definition str_rehash :: "bool \<Rightarrow> 'v rtc_str_map \<Rightarrow> nat \<Rightarrow> (rtc_err \<times> 'v rtc_str_map) option" where
  "str_rehash a m new_cap =
    (if \<not> calloc_ok a new_cap 24 then Some (RTC_ERR_NOMEM, m)
     else do {
       new_entries \<leftarrow> rehash_loop se_state (\<lambda>src. unat (se_hash src)) (new_cap - 1) (sm_entries m)
         (replicate new_cap str_blank);
       Some (RTC_OK, m\<lparr>sm_entries := new_entries, sm_cap := new_cap, sm_tombstones := 0\<rparr>)
     })"

definition init_common :: "bool \<Rightarrow> 'v rtc_str_map" where
  "init_common owns_keys =
    \<lparr>sm_entries = [], sm_cap = 0, sm_len = 0, sm_tombstones = 0, sm_owns_keys = owns_keys\<rparr>"

definition rtc_str_map_init :: "'v rtc_str_map" where
  "rtc_str_map_init = init_common False"

definition rtc_str_map_init_owned :: "'v rtc_str_map" where
  "rtc_str_map_init_owned = init_common True"

definition str_find_slot :: "'v rtc_str_map \<Rightarrow> string \<Rightarrow> u32 \<Rightarrow> (nat \<times> bool) option" where
  "str_find_slot m key h =
    probe_loop se_state (\<lambda>e. se_hash e = h \<and> se_key e = Some key) (sm_entries m) (sm_cap m - 1)
      (unat h AND (sm_cap m - 1)) None"

text \<open>The first half of \<^verbatim>\<open>rtc_str_map_set\<close>: the table is created or doubled.\<close>

definition str_make_room :: "bool \<Rightarrow> 'v rtc_str_map \<Rightarrow> (rtc_err \<times> 'v rtc_str_map) option" where
  "str_make_room a m =
    (if sm_cap m = 0 then str_rehash a m RTC_STR_MAP_INITIAL_CAP
     else if (sm_len m + sm_tombstones m) * 4 \<ge> sm_cap m * 3 then
       (if sm_cap m > SIZE_MAX div 2 then Some (RTC_ERR_NOMEM, m)
        else str_rehash a m (sm_cap m * 2))
     else Some (RTC_OK, m))"

text \<open>The allocator's answers \<open>(a, d)\<close>: for the table, and for the copy of the key.\<close>

definition rtc_str_map_set ::
  "bool \<times> bool \<Rightarrow> 'v rtc_str_map \<Rightarrow> string \<Rightarrow> 'v option \<Rightarrow> (rtc_err \<times> 'v rtc_str_map) option" where
  "rtc_str_map_set ad m key val = do {
     (rc, m) \<leftarrow> str_make_room (fst ad) m;
     if rc \<noteq> RTC_OK then Some (rc, m)
     else do {
       let h = fnv1a key;
       (slot, found) \<leftarrow> str_find_slot m key h;
       let e = sm_entries m ! slot;
       if found then Some (RTC_OK, m\<lparr>sm_entries := (sm_entries m)[slot := e\<lparr>se_value := val\<rparr>]\<rparr>)
       else if sm_owns_keys m \<and> \<not> snd ad then Some (RTC_ERR_NOMEM, m)
       else Some (RTC_OK,
         m\<lparr>sm_tombstones := (if se_state e = ENTRY_TOMBSTONE then sm_tombstones m - 1 else sm_tombstones m),
           sm_entries := (sm_entries m)[slot :=
             \<lparr>se_key = Some key, se_value = val, se_hash = h, se_state = ENTRY_USED\<rparr>],
           sm_len := sm_len m + 1\<rparr>)
     }
   }"

definition rtc_str_map_get :: "'v rtc_str_map \<Rightarrow> string \<Rightarrow> 'v option option" where
  "rtc_str_map_get m key =
    (if sm_cap m = 0 then Some None
     else do {
       (slot, found) \<leftarrow> str_find_slot m key (fnv1a key);
       Some (if found then se_value (sm_entries m ! slot) else None)
     })"

definition rtc_str_map_has :: "'v rtc_str_map \<Rightarrow> string \<Rightarrow> bool option" where
  "rtc_str_map_has m key =
    (if sm_cap m = 0 then Some False
     else do { (slot, found) \<leftarrow> str_find_slot m key (fnv1a key); Some found })"

definition rtc_str_map_remove ::
  "bool \<times> bool \<Rightarrow> 'v rtc_str_map \<Rightarrow> string \<Rightarrow> (bool \<times> 'v rtc_str_map) option" where
  "rtc_str_map_remove ad m key =
    (if sm_cap m = 0 then Some (False, m)
     else do {
       (slot, found) \<leftarrow> str_find_slot m key (fnv1a key);
       if \<not> found then Some (False, m)
       else do {
         let m = m\<lparr>sm_entries := (sm_entries m)[slot :=
                     \<lparr>se_key = None, se_value = None, se_hash = 0, se_state = ENTRY_TOMBSTONE\<rparr>],
                   sm_len := sm_len m - 1, sm_tombstones := sm_tombstones m + 1\<rparr>;
         if sm_tombstones m * 8 \<ge> sm_cap m \<and> sm_len m * 2 < sm_cap m \<and> sm_cap m > RTC_STR_MAP_INITIAL_CAP
         then do { (rc, m) \<leftarrow> str_rehash (fst ad) m (sm_cap m); Some (True, m) }
         else Some (True, m)
       }
     })"

definition rtc_str_map_len :: "'v rtc_str_map \<Rightarrow> nat" where
  "rtc_str_map_len m = sm_len m"

definition rtc_str_map_clear :: "'v rtc_str_map \<Rightarrow> 'v rtc_str_map" where
  "rtc_str_map_clear m =
    (if sm_entries m = [] then m
     else m\<lparr>sm_entries := replicate (sm_cap m) str_blank, sm_len := 0, sm_tombstones := 0\<rparr>)"

definition rtc_str_map_free :: "'v rtc_str_map \<Rightarrow> 'v rtc_str_map" where
  "rtc_str_map_free m = m\<lparr>sm_entries := [], sm_cap := 0, sm_len := 0, sm_tombstones := 0\<rparr>"

definition rtc_str_map_next :: "'v rtc_str_map \<Rightarrow> nat \<Rightarrow> nat \<times> (string option \<times> 'v option) option" where
  "rtc_str_map_next m idx =
    (if sm_cap m = 0 then (idx, None)
     else case next_loop se_state (drop idx (sm_entries m)) idx of
       (idx', None) \<Rightarrow> (idx', None)
     | (idx', Some e) \<Rightarrow> (idx', Some (se_key e, se_value e)))"

subsection \<open>Invariant and abstraction\<close>

text \<open>The key of a used entry, its home slot, and the entries the code leaves behind: a used one
  has a key and its hash.\<close>

definition skey :: "'v rtc_str_map_entry \<Rightarrow> string" where
  "skey e = (case se_key e of None \<Rightarrow> [] | Some k \<Rightarrow> k)"

definition str_hash :: "string \<Rightarrow> nat" where
  "str_hash k = unat (fnv1a k)"

definition str_entry_ok :: "'v rtc_str_map_entry \<Rightarrow> bool" where
  "str_entry_ok e \<longleftrightarrow> (se_state e = ENTRY_USED \<longrightarrow> se_key e = Some (skey e) \<and> se_hash e = fnv1a (skey e))"

definition str_map_ok :: "'v rtc_str_map \<Rightarrow> bool" where
  "str_map_ok m \<longleftrightarrow>
    (if sm_cap m = 0 then sm_entries m = [] \<and> sm_len m = 0 \<and> sm_tombstones m = 0
     else RTC_STR_MAP_INITIAL_CAP \<le> sm_cap m \<and> length (sm_entries m) = sm_cap m \<and>
       table_ok se_state skey str_hash (sm_entries m) \<and>
       (\<forall>e \<in> set (sm_entries m). str_entry_ok e) \<and>
       sm_len m = count_st se_state ENTRY_USED (sm_entries m) \<and>
       sm_tombstones m = count_st se_state ENTRY_TOMBSTONE (sm_entries m) \<and>
       sm_len m + sm_tombstones m < sm_cap m \<and> sm_cap m * 24 \<le> SIZE_MAX)"

definition str_map_abs :: "'v rtc_str_map \<Rightarrow> string \<rightharpoonup> 'v option" where
  "str_map_abs m = table_map se_state skey se_value (sm_entries m)"

lemma skey_simps [simp]:
  "skey (e\<lparr>se_value := v\<rparr>) = skey e"
  "skey \<lparr>se_key = Some k, se_value = v, se_hash = h, se_state = s\<rparr> = k"
  by (simp_all add: skey_def)

lemma str_blank_state [simp]: "se_state str_blank = ENTRY_EMPTY"
  by (simp add: str_blank_def)

lemma str_entry_ok_blank [simp]: "str_entry_ok str_blank"
  by (simp add: str_entry_ok_def)

lemma str_map_ok_table:
  assumes "str_map_ok m" "sm_cap m \<noteq> 0"
  shows "table_ok se_state skey str_hash (sm_entries m)" "length (sm_entries m) = sm_cap m"
    "sm_len m = count_st se_state ENTRY_USED (sm_entries m)"
    "sm_tombstones m = count_st se_state ENTRY_TOMBSTONE (sm_entries m)"
    "sm_len m + sm_tombstones m < sm_cap m" "RTC_STR_MAP_INITIAL_CAP \<le> sm_cap m"
    "sm_cap m * 24 \<le> SIZE_MAX" "\<forall>e \<in> set (sm_entries m). str_entry_ok e"
  using assms by (auto simp: str_map_ok_def)

lemma str_find_hit:
  assumes "str_map_ok m" "sm_cap m \<noteq> 0" "str_map_abs m key = Some v"
  shows "\<exists>i < sm_cap m. str_find_slot m key (fnv1a key) = Some (i, True) \<and>
    se_state (sm_entries m ! i) = ENTRY_USED \<and> skey (sm_entries m ! i) = key \<and> se_value (sm_entries m ! i) = v"
proof -
  note tab = str_map_ok_table [OF assms(1,2)]
  obtain i where i: "i < sm_cap m" "se_state (sm_entries m ! i) = ENTRY_USED" "skey (sm_entries m ! i) = key"
    "se_value (sm_entries m ! i) = v"
    using assms(3) tab(2) unfolding str_map_abs_def table_map_Some [OF tab(1)] bex_set_nth by auto
  have "(se_hash e = fnv1a key \<and> se_key e = Some key) \<longleftrightarrow> skey e = key"
    if "e \<in> set (sm_entries m)" "se_state e = ENTRY_USED" for e
    using tab(8) that by (auto simp: str_entry_ok_def)
  then show ?thesis
    using probe_loop_hit [OF tab(1), of i key "\<lambda>e. se_hash e = fnv1a key \<and> se_key e = Some key"] i tab(2)
    by (auto simp: str_find_slot_def str_hash_def)
qed

lemma str_find_miss:
  assumes "str_map_ok m" "sm_cap m \<noteq> 0" "str_map_abs m key = None"
  shows "\<exists>i < sm_cap m. str_find_slot m key (fnv1a key) = Some (i, False) \<and>
    se_state (sm_entries m ! i) \<noteq> ENTRY_USED \<and> reaches se_state (sm_entries m) (str_hash key) i"
proof -
  note tab = str_map_ok_table [OF assms(1,2)]
  have free: "\<exists>e \<in> set (sm_entries m). se_state e = ENTRY_EMPTY"
    using tab by (intro count_st_free) simp
  have "\<not> (se_hash e = fnv1a key \<and> se_key e = Some key)"
    if "e \<in> set (sm_entries m)" "se_state e = ENTRY_USED" for e
    using assms(3) that by (auto simp: str_map_abs_def table_map_None skey_def)
  then show ?thesis
    using probe_loop_miss [OF tab(1) free, of "\<lambda>e. se_hash e = fnv1a key \<and> se_key e = Some key" key] tab(2)
    by (auto simp: str_find_slot_def str_hash_def)
qed

subsection \<open>The operations keep the invariant and implement the abstract map\<close>

lemma str_map_ok_src:
  assumes "str_map_ok m"
  shows "distinct (map skey (filter (\<lambda>e. se_state e = ENTRY_USED) (sm_entries m)))"
    "count_st se_state ENTRY_USED (sm_entries m) = sm_len m"
    "\<forall>e \<in> set (sm_entries m). se_state e = ENTRY_USED \<longrightarrow> unat (se_hash e) = str_hash (skey e)"
    "\<forall>e \<in> set (sm_entries m). str_entry_ok e"
  using assms by (auto simp: str_map_ok_def count_st_def str_entry_ok_def str_hash_def
      intro: table_ok_distinct split: if_splits)

lemma str_rehash_ok:
  assumes ok: "str_map_ok m" and n: "n = 2 ^ b" "RTC_STR_MAP_INITIAL_CAP \<le> n" "sm_len m < n"
  shows "\<exists>rc m'. str_rehash a m n = Some (rc, m') \<and> str_map_ok m' \<and> str_map_abs m' = str_map_abs m \<and>
    (if rc = RTC_OK then sm_cap m' = n \<and> sm_len m' = sm_len m \<and> sm_tombstones m' = 0
     else rc = RTC_ERR_NOMEM \<and> m' = m)"
proof (cases "calloc_ok a n 24")
  case False
  then show ?thesis using ok by (simp add: str_rehash_def)
next
  case True
  have "n \<noteq> 0" using n by simp
  obtain new where new: "rehash_loop se_state (\<lambda>src. unat (se_hash src)) (n - 1) (sm_entries m)
      (replicate n str_blank) = Some new"
    "table_ok se_state skey str_hash new" "length new = n" "count_st se_state ENTRY_TOMBSTONE new = 0"
    "count_st se_state ENTRY_USED new = sm_len m"
    "{e \<in> set new. se_state e = ENTRY_USED} = {e \<in> set (sm_entries m). se_state e = ENTRY_USED}"
    using rehash_loop_blank [of se_state str_blank n b "sm_entries m" skey "\<lambda>src. unat (se_hash src)" str_hash]
      str_map_ok_src [OF ok] n by auto
  let ?m = "m\<lparr>sm_entries := new, sm_cap := n, sm_tombstones := 0\<rparr>"
  have "\<forall>e \<in> set new. str_entry_ok e"
    using new(6) str_map_ok_src(4) [OF ok] unfolding str_entry_ok_def by blast
  then have "str_map_ok ?m"
    using new n True \<open>n \<noteq> 0\<close> by (simp add: str_map_ok_def calloc_ok_def)
  moreover have "str_map_abs ?m = str_map_abs m"
  proof (cases "sm_cap m = 0")
    case True
    then have "sm_entries m = []" using ok by (simp add: str_map_ok_def)
    then show ?thesis using new(6) by (auto simp: str_map_abs_def table_map_def fun_eq_iff map_of_eq_None_iff)
  next
    case False
    then show ?thesis using table_map_eqI [OF new(2) str_map_ok_table(1) [OF ok False] new(6)]
      by (simp add: str_map_abs_def)
  qed
  ultimately show ?thesis using new(1) True by (simp add: str_rehash_def)
qed

lemma str_make_room_ok:
  assumes ok: "str_map_ok m"
  shows "\<exists>rc m'. str_make_room a m = Some (rc, m') \<and> str_map_ok m' \<and> str_map_abs m' = str_map_abs m \<and>
    (if rc = RTC_OK then sm_cap m' \<noteq> 0 \<and> Suc (sm_len m' + sm_tombstones m') < sm_cap m'
     else rc = RTC_ERR_NOMEM \<and> m' = m)"
proof (cases "sm_cap m = 0")
  case True
  then have len: "sm_len m = 0" using ok by (simp add: str_map_ok_def)
  then have "\<exists>rc m'. str_rehash a m RTC_STR_MAP_INITIAL_CAP = Some (rc, m') \<and> str_map_ok m' \<and>
    str_map_abs m' = str_map_abs m \<and>
    (if rc = RTC_OK then sm_cap m' = RTC_STR_MAP_INITIAL_CAP \<and> sm_len m' = sm_len m \<and> sm_tombstones m' = 0
     else rc = RTC_ERR_NOMEM \<and> m' = m)"
    by (intro str_rehash_ok [OF ok, where b = 4]) (simp_all add: RTC_STR_MAP_INITIAL_CAP_def)
  then show ?thesis using True len
    by (auto simp: str_make_room_def RTC_STR_MAP_INITIAL_CAP_def split: if_splits)
next
  case False
  note tab = str_map_ok_table [OF ok False]
  obtain b where b: "sm_cap m = 2 ^ b" using table_ok_len [OF tab(1)] tab(2) by auto
  have "\<exists>rc m'. str_rehash a m (sm_cap m * 2) = Some (rc, m') \<and> str_map_ok m' \<and>
    str_map_abs m' = str_map_abs m \<and>
    (if rc = RTC_OK then sm_cap m' = sm_cap m * 2 \<and> sm_len m' = sm_len m \<and> sm_tombstones m' = 0
     else rc = RTC_ERR_NOMEM \<and> m' = m)"
    using tab b by (intro str_rehash_ok [OF ok, where b = "Suc b"]) (simp_all add: mult.commute)
  then obtain rc m' where "str_rehash a m (sm_cap m * 2) = Some (rc, m')" "str_map_ok m'"
    "str_map_abs m' = str_map_abs m"
    "if rc = RTC_OK then sm_cap m' = sm_cap m * 2 \<and> sm_len m' = sm_len m \<and> sm_tombstones m' = 0
     else rc = RTC_ERR_NOMEM \<and> m' = m" by blast
  then show ?thesis
    using False tab ok by (cases "rc = RTC_OK") (auto simp: str_make_room_def RTC_STR_MAP_INITIAL_CAP_def)
qed

lemma str_put_found:
  fixes m :: "'v rtc_str_map" and v :: "'v option"
  assumes ok: "str_map_ok m" "sm_cap m \<noteq> 0" and i: "i < sm_cap m"
    "se_state (sm_entries m ! i) = ENTRY_USED" "skey (sm_entries m ! i) = key"
  defines "m' \<equiv> m\<lparr>sm_entries := (sm_entries m)[i := (sm_entries m ! i)\<lparr>se_value := v\<rparr>]\<rparr>"
  shows "str_map_ok m'" "str_map_abs m' = (str_map_abs m)(key \<mapsto> v)"
proof -
  note tab = str_map_ok_table [OF ok]
  let ?es = "sm_entries m" and ?e = "(sm_entries m ! i)\<lparr>se_value := v\<rparr>"
  have il: "i < length ?es" using i tab by simp
  have new: "table_ok se_state skey str_hash (?es[i := ?e])"
  proof (rule table_ok_update [OF tab(1) il, where k = key])
    show "reaches se_state ?es (str_hash key) i" using table_ok_reaches [OF tab(1) il] i by simp
    show "skey (?es ! j) \<noteq> key" if "j < length ?es" "j \<noteq> i" "se_state (?es ! j) = ENTRY_USED" for j
      using table_ok_inj [OF tab(1) that(1) il that(3) i(2)] that(2) i(3) by metis
  qed (use i in simp_all)
  have "count_st se_state s (?es[i := ?e]) = count_st se_state s ?es" for s
    using count_st_update [OF il, of se_state s ?e] i by (simp split: if_splits)
  moreover have "str_entry_ok ?e" using tab(8) il by (auto simp: str_entry_ok_def skey_def ball_set_nth)
  then have "\<forall>x \<in> set (?es[i := ?e]). str_entry_ok x"
    using tab(8) set_update_subset_insert [of ?es i ?e] by blast
  ultimately show "str_map_ok m'" using new tab ok by (simp add: str_map_ok_def m'_def)
  show "str_map_abs m' = (str_map_abs m)(key \<mapsto> v)"
    using table_map_insert [OF tab(1) new il, of se_value] i by (simp add: str_map_abs_def m'_def)
qed

lemma str_put_new:
  fixes m :: "'v rtc_str_map" and v :: "'v option"
  assumes ok: "str_map_ok m" "sm_cap m \<noteq> 0" and i: "i < sm_cap m"
    "se_state (sm_entries m ! i) \<noteq> ENTRY_USED" "reaches se_state (sm_entries m) (str_hash key) i"
    and fresh: "str_map_abs m key = None" and room: "Suc (sm_len m + sm_tombstones m) < sm_cap m"
  defines "m' \<equiv> m\<lparr>sm_tombstones := (if se_state (sm_entries m ! i) = ENTRY_TOMBSTONE
        then sm_tombstones m - 1 else sm_tombstones m),
      sm_entries := (sm_entries m)[i := \<lparr>se_key = Some key, se_value = v, se_hash = fnv1a key, se_state = ENTRY_USED\<rparr>],
      sm_len := sm_len m + 1\<rparr>"
  shows "str_map_ok m'" "str_map_abs m' = (str_map_abs m)(key \<mapsto> v)"
proof -
  note tab = str_map_ok_table [OF ok]
  let ?es = "sm_entries m" and ?e = "\<lparr>se_key = Some key, se_value = v, se_hash = fnv1a key, se_state = ENTRY_USED\<rparr>"
  have il: "i < length ?es" using i tab by simp
  have new: "table_ok se_state skey str_hash (?es[i := ?e])"
  proof (rule table_ok_update [OF tab(1) il, where k = key])
    show "skey (?es ! j) \<noteq> key" if "j < length ?es" "se_state (?es ! j) = ENTRY_USED" for j
      using fresh that by (simp add: str_map_abs_def table_map_None)
  qed (use i in simp_all)
  have used: "count_st se_state ENTRY_USED (?es[i := ?e]) = sm_len m + 1"
    using count_st_update [OF il, of se_state ENTRY_USED ?e] i tab by simp
  have tomb: "count_st se_state ENTRY_TOMBSTONE (?es[i := ?e]) = sm_tombstones m'"
    using count_st_update [OF il, of se_state ENTRY_TOMBSTONE ?e] tab
    by (auto simp: m'_def split: if_splits)
  then have "sm_tombstones m' \<le> sm_tombstones m" by (simp add: m'_def)
  moreover have "str_entry_ok ?e" by (simp add: str_entry_ok_def skey_def)
  then have "\<forall>x \<in> set (?es[i := ?e]). str_entry_ok x"
    using tab(8) set_update_subset_insert [of ?es i ?e] by blast
  ultimately show "str_map_ok m'" using new used tomb room tab ok by (simp add: str_map_ok_def m'_def)
  show "str_map_abs m' = (str_map_abs m)(key \<mapsto> v)"
    using table_map_insert [OF tab(1) new il, of se_value] i by (simp add: str_map_abs_def m'_def)
qed

lemma rtc_str_map_set_ok:
  assumes "str_map_ok m"
  shows "\<exists>rc m'. rtc_str_map_set a m key v = Some (rc, m') \<and> str_map_ok m' \<and>
    (rc = RTC_OK \<or> rc = RTC_ERR_NOMEM) \<and>
    str_map_abs m' = (if rc = RTC_OK then (str_map_abs m)(key \<mapsto> v) else str_map_abs m)"
proof -
  obtain rc m1 where r: "str_make_room (fst a) m = Some (rc, m1)" "str_map_ok m1"
    "str_map_abs m1 = str_map_abs m"
    "if rc = RTC_OK then sm_cap m1 \<noteq> 0 \<and> Suc (sm_len m1 + sm_tombstones m1) < sm_cap m1
     else rc = RTC_ERR_NOMEM \<and> m1 = m"
    using str_make_room_ok [OF assms] by blast
  show ?thesis
  proof (cases "rc = RTC_OK")
    case False
    then show ?thesis using r by (simp add: rtc_str_map_set_def)
  next
    case True
    then have c: "sm_cap m1 \<noteq> 0" "Suc (sm_len m1 + sm_tombstones m1) < sm_cap m1" using r(4) by auto
    show ?thesis
    proof (cases "str_map_abs m1 key")
      case None
      obtain i where i: "i < sm_cap m1" "str_find_slot m1 key (fnv1a key) = Some (i, False)"
        "se_state (sm_entries m1 ! i) \<noteq> ENTRY_USED" "reaches se_state (sm_entries m1) (str_hash key) i"
        using str_find_miss [OF r(2) c(1) None] by blast
      show ?thesis
        using str_put_new [OF r(2) c(1) i(1,3,4) None c(2), of v] i(2) r True
        by (simp add: rtc_str_map_set_def Let_def)
    next
      case (Some w)
      obtain i where i: "i < sm_cap m1" "str_find_slot m1 key (fnv1a key) = Some (i, True)"
        "se_state (sm_entries m1 ! i) = ENTRY_USED" "skey (sm_entries m1 ! i) = key"
        using str_find_hit [OF r(2) c(1) Some] by blast
      show ?thesis
        using str_put_found [OF r(2) c(1) i(1,3,4), of v] i(2) r(1,3) True
        by (simp add: rtc_str_map_set_def Let_def)
    qed
  qed
qed

lemma str_map_abs_cap0: "str_map_ok m \<Longrightarrow> sm_cap m = 0 \<Longrightarrow> str_map_abs m = Map.empty"
  by (auto simp: str_map_ok_def str_map_abs_def table_map_def)

lemma str_find_abs:
  assumes "str_map_ok m" "sm_cap m \<noteq> 0"
  shows "\<exists>i < sm_cap m. str_find_slot m key (fnv1a key) = Some (i, key \<in> dom (str_map_abs m)) \<and>
    (key \<in> dom (str_map_abs m) \<longrightarrow> se_state (sm_entries m ! i) = ENTRY_USED \<and>
       skey (sm_entries m ! i) = key \<and> str_map_abs m key = Some (se_value (sm_entries m ! i)))"
proof (cases "str_map_abs m key")
  case None
  with str_find_miss [OF assms None] show ?thesis by auto
next
  case (Some v)
  with str_find_hit [OF assms Some] show ?thesis by auto
qed

lemma rtc_str_map_get_ok:
  assumes "str_map_ok m"
  shows "rtc_str_map_get m key = Some (ptr_at (str_map_abs m) key)"
proof (cases "sm_cap m = 0")
  case True
  then show ?thesis using str_map_abs_cap0 [OF assms] by (simp add: rtc_str_map_get_def ptr_at_def)
next
  case False
  then show ?thesis using str_find_abs [OF assms False, of key]
    by (auto simp: rtc_str_map_get_def ptr_at_def split: option.splits)
qed

lemma rtc_str_map_has_ok:
  assumes "str_map_ok m"
  shows "rtc_str_map_has m key = Some (key \<in> dom (str_map_abs m))"
proof (cases "sm_cap m = 0")
  case True
  then show ?thesis using str_map_abs_cap0 [OF assms] by (simp add: rtc_str_map_has_def)
next
  case False
  then show ?thesis using str_find_abs [OF assms False, of key] by (auto simp: rtc_str_map_has_def)
qed

lemma str_kill:
  assumes ok: "str_map_ok m" "sm_cap m \<noteq> 0" and i: "i < sm_cap m"
    "se_state (sm_entries m ! i) = ENTRY_USED" "skey (sm_entries m ! i) = key"
  defines "m' \<equiv> m\<lparr>sm_entries := (sm_entries m)[i := \<lparr>se_key = None, se_value = None, se_hash = 0, se_state = ENTRY_TOMBSTONE\<rparr>],
      sm_len := sm_len m - 1, sm_tombstones := sm_tombstones m + 1\<rparr>"
  shows "str_map_ok m'" "str_map_abs m' = (str_map_abs m)(key := None)"
proof -
  note tab = str_map_ok_table [OF ok]
  let ?es = "sm_entries m" and ?e = "\<lparr>se_key = None, se_value = None, se_hash = 0, se_state = ENTRY_TOMBSTONE\<rparr>"
  have il: "i < length ?es" using i tab by simp
  have new: "table_ok se_state skey str_hash (?es[i := ?e])"
    by (rule table_ok_delete [OF tab(1) il]) simp
  have used: "count_st se_state ENTRY_USED (?es[i := ?e]) + 1 = sm_len m"
    using count_st_update [OF il, of se_state ENTRY_USED ?e] i tab by simp
  have tomb: "count_st se_state ENTRY_TOMBSTONE (?es[i := ?e]) = sm_tombstones m + 1"
    using count_st_update [OF il, of se_state ENTRY_TOMBSTONE ?e] i tab by simp
  have "\<forall>x \<in> set (?es[i := ?e]). str_entry_ok x"
    using tab(8) set_update_subset_insert [of ?es i ?e] by (auto simp: str_entry_ok_def)
  then show "str_map_ok m'" using new used tomb tab ok by (simp add: str_map_ok_def m'_def)
  show "str_map_abs m' = (str_map_abs m)(key := None)"
    using table_map_delete [OF tab(1) il, of ?e se_value] i by (simp add: str_map_abs_def m'_def)
qed

lemma str_compact_ok:
  assumes ok: "str_map_ok m" "sm_cap m \<noteq> 0"
  shows "\<exists>rc m'. str_rehash a m (sm_cap m) = Some (rc, m') \<and> str_map_ok m' \<and> str_map_abs m' = str_map_abs m"
proof -
  note tab = str_map_ok_table [OF ok]
  obtain b where "sm_cap m = 2 ^ b" using table_ok_len [OF tab(1)] tab(2) by auto
  then show ?thesis using str_rehash_ok [OF ok(1), of "sm_cap m" b a] tab by auto
qed

lemma rtc_str_map_remove_ok:
  assumes "str_map_ok m"
  shows "\<exists>m'. rtc_str_map_remove a m key = Some (key \<in> dom (str_map_abs m), m') \<and> str_map_ok m' \<and>
    str_map_abs m' = (str_map_abs m)(key := None)"
proof (cases "sm_cap m = 0")
  case True
  then show ?thesis using assms str_map_abs_cap0 [OF assms] by (simp add: rtc_str_map_remove_def)
next
  case False
  obtain i where i: "i < sm_cap m" "str_find_slot m key (fnv1a key) = Some (i, key \<in> dom (str_map_abs m))"
    "key \<in> dom (str_map_abs m) \<longrightarrow> se_state (sm_entries m ! i) = ENTRY_USED \<and> skey (sm_entries m ! i) = key"
    using str_find_abs [OF assms False, of key] by blast
  show ?thesis
  proof (cases "key \<in> dom (str_map_abs m)")
    case False
    then have "(str_map_abs m)(key := None) = str_map_abs m" by (auto simp: domIff)
    then show ?thesis using False i assms \<open>sm_cap m \<noteq> 0\<close> by (simp add: rtc_str_map_remove_def)
  next
    case True
    let ?m = "m\<lparr>sm_entries := (sm_entries m)[i := \<lparr>se_key = None, se_value = None, se_hash = 0, se_state = ENTRY_TOMBSTONE\<rparr>],
      sm_len := sm_len m - 1, sm_tombstones := sm_tombstones m + 1\<rparr>"
    have m: "str_map_ok ?m" "str_map_abs ?m = (str_map_abs m)(key := None)"
      using str_kill [OF assms False i(1), of key] i(3) True by auto
    show ?thesis
      using str_compact_ok [of ?m "fst a"] m i(2) True False
      by (auto simp: rtc_str_map_remove_def Let_def split: prod.splits)
  qed
qed

lemma rtc_str_map_clear_ok:
  assumes "str_map_ok m"
  shows "str_map_ok (rtc_str_map_clear m)" "str_map_abs (rtc_str_map_clear m) = Map.empty"
proof -
  have *: "\<exists>b. sm_cap m = 2 ^ b" if "sm_cap m \<noteq> 0"
    using table_ok_len [OF str_map_ok_table(1) [OF assms that]] str_map_ok_table(2) [OF assms that] by simp
  show "str_map_ok (rtc_str_map_clear m)"
    using assms * table_ok_blank [of se_state str_blank skey str_hash]
    by (auto simp: str_map_ok_def rtc_str_map_clear_def split: if_splits)
  show "str_map_abs (rtc_str_map_clear m) = Map.empty"
    by (auto simp: str_map_abs_def rtc_str_map_clear_def table_map_def)
qed

lemma rtc_str_map_len_ok: "str_map_ok m \<Longrightarrow> rtc_str_map_len m = card (dom (str_map_abs m))"
  by (cases "sm_cap m = 0")
    (auto simp: rtc_str_map_len_def str_map_abs_def table_map_dom_card [OF str_map_ok_table(1)]
      str_map_ok_table(3) dest: str_map_abs_cap0, simp add: str_map_ok_def table_map_def)

lemma init_common_ok: "str_map_ok (init_common owns)" "str_map_abs (init_common owns) = Map.empty"
  by (simp_all add: str_map_ok_def str_map_abs_def init_common_def table_map_def)

interpretation str: ptr_map "init_common owns" rtc_str_map_set rtc_str_map_get rtc_str_map_has
  rtc_str_map_remove rtc_str_map_clear rtc_str_map_len str_map_ok str_map_abs for owns
proof
  fix m :: "'v rtc_str_map" and a k v rc m'
  assume ok: "str_map_ok m"
  show "\<exists>rc m'. rtc_str_map_set a m k v = Some (rc, m')"
    "\<exists>m'. rtc_str_map_remove a m k = Some (k \<in> dom (str_map_abs m), m') \<and> str_map_ok m' \<and>
      str_map_abs m' = (str_map_abs m)(k := None)"
    using rtc_str_map_set_ok [OF ok] rtc_str_map_remove_ok [OF ok] by blast+
  assume "rtc_str_map_set a m k v = Some (rc, m')"
  then show "str_map_ok m'" "rc = RTC_OK \<or> rc = RTC_ERR_NOMEM"
    "str_map_abs m' = (if rc = RTC_OK then (str_map_abs m)(k \<mapsto> v) else str_map_abs m)"
    using rtc_str_map_set_ok [OF ok, of a k v] by auto
qed (simp_all add: init_common_ok rtc_str_map_get_ok rtc_str_map_has_ok rtc_str_map_clear_ok
  rtc_str_map_len_ok)

subsection \<open>Properties\<close>

text \<open>
  C8. In both key modes, every sequence of insertions, removals and clears on a fresh string
  map returns, whichever of the two allocations of an insertion fail, and every later lookup,
  membership test and the length agree with the abstract map the successful insertions build.
\<close>

theorem str_map_run_correct:
  "\<exists>rcs m. map_run rtc_str_map_set rtc_str_map_remove rtc_str_map_clear ops (init_common owns)
      = Some (rcs, m) \<and>
     rtc_str_map_get m k = Some (ptr_at (map_spec ops rcs Map.empty) k) \<and>
     rtc_str_map_has m k = Some (k \<in> dom (map_spec ops rcs Map.empty)) \<and>
     rtc_str_map_len m = card (dom (map_spec ops rcs Map.empty))"
  by (rule str.run_lookup)

end
