(* ===== verification/Vec.thy ===== *)
theory Vec
  imports Prelude
begin

text \<open>
  \<^verbatim>\<open>common/src/rtc_vec.c\<close>: the growable array, at the level of its raw byte buffer. An element
  is \<open>elem_size\<close> bytes; a copy outside the buffer is the value \<open>None\<close>. Under \<open>vec_ok\<close> no
  operation makes one, and through \<open>vec_abs\<close> (the list of element images) push, remove and
  swap-remove are the list operations they stand for.
\<close>

subsection \<open>Data and operations\<close>

record rtc_vec =
  vec_data :: bytes
  vec_len :: nat
  vec_cap :: nat
  vec_elem_size :: nat

definition RTC_VEC_INITIAL_CAP :: nat where
  "RTC_VEC_INITIAL_CAP = 8"

definition rtc_vec_init :: "nat \<Rightarrow> rtc_err + rtc_vec" where
  "rtc_vec_init elem_size =
    (if elem_size = 0 then Inl RTC_ERR_INVALID
     else Inr \<lparr>vec_data = [], vec_len = 0, vec_cap = 0, vec_elem_size = elem_size\<rparr>)"

text \<open>The doubling loop; \<open>None\<close> is a loop that never ends.\<close>

partial_function (option) vec_grow :: "nat \<Rightarrow> nat \<Rightarrow> (rtc_err + nat) option" where
  [code]: "vec_grow new_cap min_cap =
    (if new_cap < min_cap then
       (if new_cap > SIZE_MAX div 2 then Some (Inl RTC_ERR_NOMEM) else vec_grow (new_cap * 2) min_cap)
     else Some (Inr new_cap))"

text \<open>\<open>a\<close> is the answer of \<^verbatim>\<open>realloc\<close>, \<open>junk\<close> the contents of the bytes it adds.\<close>

definition rtc_vec_reserve ::
  "bool \<Rightarrow> (nat \<Rightarrow> u8) \<Rightarrow> rtc_vec \<Rightarrow> nat \<Rightarrow> (rtc_err \<times> rtc_vec) option" where
  "rtc_vec_reserve a junk v min_cap =
    (if vec_elem_size v = 0 then Some (RTC_ERR_INVALID, v)
     else if min_cap \<le> vec_cap v then Some (RTC_OK, v)
     else do {
       r \<leftarrow> vec_grow (if vec_cap v \<noteq> 0 then vec_cap v else RTC_VEC_INITIAL_CAP) min_cap;
       case r of
         Inl e \<Rightarrow> Some (e, v)
       | Inr new_cap \<Rightarrow>
           if new_cap > SIZE_MAX div vec_elem_size v then Some (RTC_ERR_NOMEM, v)
           else if \<not> a then Some (RTC_ERR_NOMEM, v)
           else Some (RTC_OK,
             v\<lparr>vec_data := vec_data v @ map junk [length (vec_data v) ..< new_cap * vec_elem_size v],
               vec_cap := new_cap\<rparr>)
     })"

definition rtc_vec_push ::
  "bool \<Rightarrow> (nat \<Rightarrow> u8) \<Rightarrow> rtc_vec \<Rightarrow> bytes \<Rightarrow> (rtc_err \<times> rtc_vec) option" where
  "rtc_vec_push a junk v elem =
    (if vec_elem_size v = 0 then Some (RTC_ERR_INVALID, v)
     else do {
       (rc, v) \<leftarrow> (if vec_len v \<ge> vec_cap v then rtc_vec_reserve a junk v (vec_len v + 1)
                   else Some (RTC_OK, v));
       if rc \<noteq> RTC_OK then Some (rc, v)
       else do {
         data \<leftarrow> mem_write (vec_data v) (vec_len v * vec_elem_size v) elem;
         Some (RTC_OK, v\<lparr>vec_data := data, vec_len := vec_len v + 1\<rparr>)
       }
     })"

text \<open>The element image at an index: \<open>Some None\<close> is \<^verbatim>\<open>NULL\<close>.\<close>

definition rtc_vec_at :: "rtc_vec \<Rightarrow> nat \<Rightarrow> bytes option option" where
  "rtc_vec_at v idx =
    (if vec_data v = [] \<or> idx \<ge> vec_len v then Some None
     else do { b \<leftarrow> rd_bytes (vec_data v) (idx * vec_elem_size v) (vec_elem_size v); Some (Some b) })"

definition rtc_vec_len :: "rtc_vec \<Rightarrow> nat" where
  "rtc_vec_len v = vec_len v"

definition rtc_vec_remove :: "rtc_vec \<Rightarrow> nat \<Rightarrow> rtc_vec option" where
  "rtc_vec_remove v idx =
    (if idx \<ge> vec_len v then Some v
     else do {
       let tail = vec_len v - idx - 1;
       let base = idx * vec_elem_size v;
       data \<leftarrow> (if tail > 0 then do {
           src \<leftarrow> rd_bytes (vec_data v) (base + vec_elem_size v) (tail * vec_elem_size v);
           mem_write (vec_data v) base src
         } else Some (vec_data v));
       Some (v\<lparr>vec_data := data, vec_len := vec_len v - 1\<rparr>)
     })"

definition rtc_vec_swap_remove :: "rtc_vec \<Rightarrow> nat \<Rightarrow> rtc_vec option" where
  "rtc_vec_swap_remove v idx =
    (if idx \<ge> vec_len v then Some v
     else do {
       let last = vec_len v - 1;
       data \<leftarrow> (if idx \<noteq> last then do {
           src \<leftarrow> rd_bytes (vec_data v) (last * vec_elem_size v) (vec_elem_size v);
           mem_write (vec_data v) (idx * vec_elem_size v) src
         } else Some (vec_data v));
       Some (v\<lparr>vec_data := data, vec_len := vec_len v - 1\<rparr>)
     })"

definition rtc_vec_clear :: "rtc_vec \<Rightarrow> rtc_vec" where
  "rtc_vec_clear v = v\<lparr>vec_len := 0\<rparr>"

definition rtc_vec_free :: "rtc_vec \<Rightarrow> rtc_vec" where
  "rtc_vec_free v = v\<lparr>vec_data := [], vec_len := 0, vec_cap := 0\<rparr>"

subsection \<open>Invariant, abstraction, and the list specification\<close>

definition vec_ok :: "rtc_vec \<Rightarrow> bool" where
  "vec_ok v \<longleftrightarrow> 0 < vec_elem_size v \<and> length (vec_data v) = vec_cap v * vec_elem_size v \<and>
     vec_len v \<le> vec_cap v \<and> vec_cap v * vec_elem_size v \<le> SIZE_MAX"

definition elem_at :: "bytes \<Rightarrow> nat \<Rightarrow> nat \<Rightarrow> bytes" where
  "elem_at buf es i = take es (drop (i * es) buf)"

definition vec_abs :: "rtc_vec \<Rightarrow> bytes list" where
  "vec_abs v = map (elem_at (vec_data v) (vec_elem_size v)) [0 ..< vec_len v]"

datatype vec_op =
    Vec_push bool "nat \<Rightarrow> u8" bytes
  | Vec_remove nat
  | Vec_swap_remove nat
  | Vec_clear

fun vec_run :: "vec_op list \<Rightarrow> rtc_vec \<Rightarrow> (rtc_err list \<times> rtc_vec) option" where
  "vec_run [] v = Some ([], v)"
| "vec_run (op # ops) v = do {
     (rc, v) \<leftarrow> (case op of
         Vec_push a junk elem \<Rightarrow> rtc_vec_push a junk v elem
       | Vec_remove i \<Rightarrow> do { v \<leftarrow> rtc_vec_remove v i; Some (RTC_OK, v) }
       | Vec_swap_remove i \<Rightarrow> do { v \<leftarrow> rtc_vec_swap_remove v i; Some (RTC_OK, v) }
       | Vec_clear \<Rightarrow> Some (RTC_OK, rtc_vec_clear v));
     (rcs, v) \<leftarrow> vec_run ops v;
     Some (rc # rcs, v)
   }"

definition swap_del :: "nat \<Rightarrow> 'a list \<Rightarrow> 'a list" where
  "swap_del i xs = (if i < length xs then butlast (xs[i := last xs]) else xs)"

fun vec_spec_step :: "vec_op \<Rightarrow> rtc_err \<Rightarrow> bytes list \<Rightarrow> bytes list" where
  "vec_spec_step (Vec_push a junk elem) rc xs = (if rc = RTC_OK then xs @ [elem] else xs)"
| "vec_spec_step (Vec_remove i) rc xs = take i xs @ drop (Suc i) xs"
| "vec_spec_step (Vec_swap_remove i) rc xs = swap_del i xs"
| "vec_spec_step Vec_clear rc xs = []"

fun vec_spec :: "vec_op list \<Rightarrow> rtc_err list \<Rightarrow> bytes list \<Rightarrow> bytes list" where
  "vec_spec (op # ops) (rc # rcs) xs = vec_spec ops rcs (vec_spec_step op rc xs)"
| "vec_spec _ _ xs = xs"

subsection \<open>Lemmas\<close>

lemma elem_at_end: "i < n \<Longrightarrow> i * es + es \<le> n * (es::nat)"
  by (metis Suc_leI add.commute mult_Suc mult_le_mono1)

lemma length_elem_at: "i * es + es \<le> length buf \<Longrightarrow> length (elem_at buf es i) = es"
  by (simp add: elem_at_def)

lemma nth_elem_at: "i * es + es \<le> length buf \<Longrightarrow> t < es \<Longrightarrow> elem_at buf es i ! t = buf ! (i * es + t)"
  by (simp add: elem_at_def)

lemma elem_at_write_other:
  assumes w: "mem_write buf (j * es) e = Some buf'" and e: "length e = k * es" and i: "i < j \<or> j + k \<le> i"
    "i * es + es \<le> length buf"
  shows "elem_at buf' es i = elem_at buf es i"
proof (rule nth_equalityI)
  show "length (elem_at buf' es i) = length (elem_at buf es i)"
    using i(2) mem_write_length [OF w] by (simp add: length_elem_at)
next
  fix t assume "t < length (elem_at buf' es i)"
  then have t: "t < es" using i(2) mem_write_length [OF w] by (simp add: length_elem_at)
  from i(1) have "i * es + es \<le> j * es \<or> j * es + k * es \<le> i * es"
    using elem_at_end [of i j es] by (auto simp: add_mult_distrib [symmetric])
  then have "\<not> (j * es \<le> i * es + t \<and> i * es + t < j * es + k * es)" using t by linarith
  moreover have "i * es + t < length buf" using t i(2) by linarith
  ultimately have "buf' ! (i * es + t) = buf ! (i * es + t)" using nth_mem_write [OF w] e by auto
  then show "elem_at buf' es i ! t = elem_at buf es i ! t"
    using i(2) t mem_write_length [OF w] by (simp add: nth_elem_at)
qed

lemma elem_at_write_in:
  assumes w: "mem_write buf (j * es) e = Some buf'" and "i < k" "length e = k * es"
  shows "elem_at buf' es (j + i) = elem_at e es i"
proof (rule nth_equalityI)
  have ik: "i * es + es \<le> length e" using elem_at_end [OF assms(2)] assms(3) by simp
  then have l: "(j + i) * es + es \<le> length buf'"
    using mem_write_length [OF w] mem_write_fits [OF w] by (simp add: add_mult_distrib)
  show "length (elem_at buf' es (j + i)) = length (elem_at e es i)" using ik l by (simp add: length_elem_at)
  fix t assume "t < length (elem_at buf' es (j + i))"
  then have t: "t < es" using l by (simp add: length_elem_at)
  have "buf' ! ((j + i) * es + t) = e ! (i * es + t)"
    using nth_mem_write [OF w, of "(j + i) * es + t"] l t ik mem_write_length [OF w]
    by (simp add: add_mult_distrib)
  then show "elem_at buf' es (j + i) ! t = elem_at e es i ! t"
    using nth_elem_at [OF l t] nth_elem_at [OF ik t] by simp
qed

lemma vec_grow_ok:
  assumes "0 < c"
  shows "\<exists>r. vec_grow c m = Some r \<and> (case r of Inl e \<Rightarrow> e = RTC_ERR_NOMEM | Inr c' \<Rightarrow> c \<le> c' \<and> m \<le> c')"
  using assms
proof (induction "m - c" arbitrary: c rule: less_induct)
  case less
  show ?case
  proof (cases "c < m \<and> \<not> c > SIZE_MAX div 2")
    case True
    then have "m - c * 2 < m - c" using less.prems by auto
    then show ?thesis
      using less.hyps [of "c * 2"] less.prems True
      by (subst vec_grow.simps) (auto split: sum.splits)
  next
    case False
    then show ?thesis by (subst vec_grow.simps) auto
  qed
qed

lemma vec_ok_elem:
  assumes "vec_ok v" "i < vec_cap v"
  shows "i * vec_elem_size v + vec_elem_size v \<le> length (vec_data v)"
  using assms elem_at_end [of i "vec_cap v" "vec_elem_size v"] by (simp add: vec_ok_def)

lemma vec_ok_used:
  assumes "vec_ok v" "i < vec_len v"
  shows "i * vec_elem_size v + vec_elem_size v \<le> length (vec_data v)"
  using vec_ok_elem [OF assms(1), of i] assms by (simp add: vec_ok_def)

lemma length_vec_abs [simp]: "length (vec_abs v) = vec_len v"
  by (simp add: vec_abs_def)

lemma nth_vec_abs [simp]: "i < vec_len v \<Longrightarrow> vec_abs v ! i = elem_at (vec_data v) (vec_elem_size v) i"
  by (simp add: vec_abs_def)

lemma rtc_vec_reserve_ok:
  assumes ok: "vec_ok v"
  shows "\<exists>rc v'. rtc_vec_reserve a junk v n = Some (rc, v') \<and> vec_ok v' \<and> vec_abs v' = vec_abs v \<and>
    vec_elem_size v' = vec_elem_size v \<and>
    (if rc = RTC_OK then n \<le> vec_cap v' \<and> vec_len v' = vec_len v else v' = v)"
proof (cases "n \<le> vec_cap v")
  case True
  then show ?thesis using ok by (simp add: rtc_vec_reserve_def vec_ok_def)
next
  case False
  let ?es = "vec_elem_size v"
  let ?c = "if vec_cap v \<noteq> 0 then vec_cap v else RTC_VEC_INITIAL_CAP"
  have es: "0 < ?es" using ok by (simp add: vec_ok_def)
  have "0 < ?c" by (simp add: RTC_VEC_INITIAL_CAP_def)
  then obtain r where r: "vec_grow ?c n = Some r"
    "case r of Inl e \<Rightarrow> e = RTC_ERR_NOMEM | Inr c' \<Rightarrow> ?c \<le> c' \<and> n \<le> c'"
    using vec_grow_ok [of ?c n] by blast
  show ?thesis
  proof (cases r)
    case (Inl e)
    then show ?thesis using r False es ok by (simp add: rtc_vec_reserve_def)
  next
    case (Inr c)
    show ?thesis
    proof (cases "c > SIZE_MAX div ?es \<or> \<not> a")
      case True
      then show ?thesis using Inr r False es ok by (auto simp: rtc_vec_reserve_def)
    next
      case room: False
      have c: "vec_cap v \<le> c" "n \<le> c" using r(2) Inr by (auto split: if_splits)
      have le: "c * ?es \<le> SIZE_MAX" using room es by (simp add: less_eq_div_iff_mult_less_eq not_less)
      let ?v = "v\<lparr>vec_data := vec_data v @ map junk [length (vec_data v) ..< c * ?es], vec_cap := c\<rparr>"
      have "vec_cap v * ?es \<le> c * ?es" using c by simp
      then have okv: "vec_ok ?v" using ok le c by (simp add: vec_ok_def)
      have "vec_abs ?v = vec_abs v"
      proof -
        have "elem_at (vec_data v @ xs) ?es i = elem_at (vec_data v) ?es i" if "i < vec_len v" for xs i
        proof -
          have "i < vec_cap v" using ok that by (simp add: vec_ok_def)
          from vec_ok_elem [OF ok this] show ?thesis by (simp add: elem_at_def)
        qed
        then show ?thesis by (simp add: vec_abs_def)
      qed
      then show ?thesis using Inr r False es room okv c by (simp add: rtc_vec_reserve_def)
    qed
  qed
qed

lemma vec_append_elem:
  assumes ok: "vec_ok v" and room: "vec_len v < vec_cap v" and e: "length e = vec_elem_size v"
  shows "\<exists>data. mem_write (vec_data v) (vec_len v * vec_elem_size v) e = Some data \<and>
    vec_ok (v\<lparr>vec_data := data, vec_len := vec_len v + 1\<rparr>) \<and>
    vec_abs (v\<lparr>vec_data := data, vec_len := vec_len v + 1\<rparr>) = vec_abs v @ [e]"
proof -
  let ?es = "vec_elem_size v"
  obtain data where w: "mem_write (vec_data v) (vec_len v * ?es) e = Some data"
    using mem_write_ok [of "vec_len v * ?es" e "vec_data v"] vec_ok_elem [OF ok room] e by auto
  have "vec_abs (v\<lparr>vec_data := data, vec_len := vec_len v + 1\<rparr>) = vec_abs v @ [e]"
  proof (rule nth_equalityI)
    fix i assume "i < length (vec_abs (v\<lparr>vec_data := data, vec_len := vec_len v + 1\<rparr>))"
    then consider "i < vec_len v" | "i = vec_len v" by fastforce
    then show "vec_abs (v\<lparr>vec_data := data, vec_len := vec_len v + 1\<rparr>) ! i = (vec_abs v @ [e]) ! i"
    proof cases
      case 1
      have "i * ?es + ?es \<le> length (vec_data v)" using vec_ok_elem [OF ok, of i] 1 room by simp
      with 1 e show ?thesis using elem_at_write_other [OF w, of 1 i] by (simp add: nth_append)
    next
      case 2
      then show ?thesis using elem_at_write_in [OF w, of 0 1] e by (simp add: nth_append elem_at_def)
    qed
  qed simp
  moreover have "vec_ok (v\<lparr>vec_data := data, vec_len := vec_len v + 1\<rparr>)"
    using ok room mem_write_length [OF w] by (simp add: vec_ok_def)
  ultimately show ?thesis using w by blast
qed

lemma rtc_vec_push_ok:
  assumes ok: "vec_ok v" and e: "length e = vec_elem_size v"
  shows "\<exists>rc v'. rtc_vec_push a junk v e = Some (rc, v') \<and> vec_ok v' \<and>
    vec_elem_size v' = vec_elem_size v \<and> vec_abs v' = vec_spec_step (Vec_push a junk e) rc (vec_abs v)"
proof (cases "vec_cap v \<le> vec_len v")
  case False
  then show ?thesis using vec_append_elem [OF ok _ e] ok by (auto simp: rtc_vec_push_def vec_ok_def)
next
  case True
  obtain rc v' where r: "rtc_vec_reserve a junk v (vec_len v + 1) = Some (rc, v')" "vec_ok v'"
    "vec_abs v' = vec_abs v" "vec_elem_size v' = vec_elem_size v"
    "if rc = RTC_OK then vec_len v + 1 \<le> vec_cap v' \<and> vec_len v' = vec_len v else v' = v"
    using rtc_vec_reserve_ok [OF ok] by blast
  show ?thesis
  proof (cases "rc = RTC_OK")
    case False
    then show ?thesis using r True ok by (simp add: rtc_vec_push_def vec_ok_def)
  next
    case rc: True
    then have "vec_len v' < vec_cap v'" using r(5) by simp
    from vec_append_elem [OF r(2) this] e r(4) obtain data where
      "mem_write (vec_data v') (vec_len v' * vec_elem_size v') e = Some data"
      "vec_ok (v'\<lparr>vec_data := data, vec_len := vec_len v' + 1\<rparr>)"
      "vec_abs (v'\<lparr>vec_data := data, vec_len := vec_len v' + 1\<rparr>) = vec_abs v' @ [e]" by auto
    then show ?thesis using r rc True ok by (simp add: rtc_vec_push_def vec_ok_def)
  qed
qed

lemma rtc_vec_remove_ok:
  assumes ok: "vec_ok v"
  shows "\<exists>v'. rtc_vec_remove v idx = Some v' \<and> vec_ok v' \<and> vec_elem_size v' = vec_elem_size v \<and>
    vec_abs v' = take idx (vec_abs v) @ drop (Suc idx) (vec_abs v)"
proof (cases "idx + 1 < vec_len v")
  case False
  let ?v = "v\<lparr>vec_len := vec_len v - 1\<rparr>"
  have "vec_ok ?v" "vec_ok v" using ok by (auto simp: vec_ok_def)
  moreover have "idx = vec_len v - 1" if "\<not> vec_len v \<le> idx" using that False by simp
  ultimately show ?thesis
    using False by (auto simp: rtc_vec_remove_def vec_abs_def take_map)
next
  case True
  let ?es = "vec_elem_size v" and ?tail = "vec_len v - idx - 1" and ?d = "vec_data v"
  let ?src = "take (?tail * ?es) (drop (idx * ?es + ?es) ?d)"
  have fit: "idx * ?es + ?es + ?tail * ?es \<le> length ?d"
  proof -
    have "idx * ?es + ?es + ?tail * ?es = (idx + 1 + ?tail) * ?es" by (simp add: add_mult_distrib)
    also have "\<dots> \<le> vec_cap v * ?es" using True ok by (intro mult_le_mono1) (simp add: vec_ok_def)
    finally show ?thesis using ok by (simp add: vec_ok_def)
  qed
  then have len: "length ?src = ?tail * ?es" by simp
  then obtain data where w: "mem_write ?d (idx * ?es) ?src = Some data"
    using mem_write_ok [of "idx * ?es" ?src ?d] fit by auto
  let ?v = "v\<lparr>vec_data := data, vec_len := vec_len v - 1\<rparr>"
  have "vec_abs ?v = take idx (vec_abs v) @ drop (Suc idx) (vec_abs v)"
  proof (rule nth_equalityI)
    fix i assume "i < length (vec_abs ?v)"
    then have i: "i < vec_len v - 1" "i < vec_len v" by simp_all
    show "vec_abs ?v ! i = (take idx (vec_abs v) @ drop (Suc idx) (vec_abs v)) ! i"
    proof (cases "i < idx")
      case True
      have "i * ?es + ?es \<le> length ?d" using vec_ok_used [OF ok, of i] i by simp
      then show ?thesis using elem_at_write_other [OF w len, of i] True i by (simp add: nth_append)
    next
      case False
      then have t: "i - idx < ?tail" using i by simp
      have "elem_at ?src ?es (i - idx) = elem_at ?d ?es (idx + 1 + (i - idx))"
        using elem_at_end [OF t, of ?es]
        by (simp add: elem_at_def take_drop min_def add_mult_distrib add_ac)
      then show ?thesis using elem_at_write_in [OF w t len] False i by (simp add: nth_append)
    qed
  qed (use True in simp)
  moreover have "vec_ok ?v" using ok mem_write_length [OF w] by (auto simp: vec_ok_def)
  ultimately show ?thesis using True w fit by (simp add: rtc_vec_remove_def Let_def)
qed

lemma rtc_vec_swap_remove_ok:
  assumes ok: "vec_ok v"
  shows "\<exists>v'. rtc_vec_swap_remove v idx = Some v' \<and> vec_ok v' \<and> vec_elem_size v' = vec_elem_size v \<and>
    vec_abs v' = swap_del idx (vec_abs v)"
proof (cases "idx + 1 < vec_len v")
  case False
  let ?v = "v\<lparr>vec_len := vec_len v - 1\<rparr>"
  have "vec_ok ?v" "vec_ok v" using ok by (auto simp: vec_ok_def)
  moreover have "vec_abs ?v = swap_del idx (vec_abs v)" if "\<not> vec_len v \<le> idx"
  proof -
    have "idx = vec_len v - 1" using that False by simp
    then show ?thesis using that
      by (auto simp: swap_del_def butlast_list_update nth_butlast intro!: nth_equalityI)
  qed
  moreover have "idx = vec_len v - 1" if "\<not> vec_len v \<le> idx" using that False by simp
  ultimately show ?thesis
    using False by (auto simp: rtc_vec_swap_remove_def swap_del_def Let_def)
next
  case True
  let ?es = "vec_elem_size v" and ?last = "vec_len v - 1" and ?d = "vec_data v"
  let ?src = "take ?es (drop (?last * ?es) ?d)"
  have fit: "?last * ?es + ?es \<le> length ?d" using vec_ok_used [OF ok, of ?last] True by simp
  have fit': "idx * ?es + ?es \<le> length ?d" using vec_ok_used [OF ok, of idx] True by simp
  have len: "length ?src = 1 * ?es" using fit by simp
  then obtain data where w: "mem_write ?d (idx * ?es) ?src = Some data"
    using mem_write_ok [of "idx * ?es" ?src ?d] fit' by auto
  let ?v = "v\<lparr>vec_data := data, vec_len := vec_len v - 1\<rparr>"
  have "vec_abs ?v = swap_del idx (vec_abs v)"
  proof (rule nth_equalityI)
    show "length (vec_abs ?v) = length (swap_del idx (vec_abs v))" using True by (simp add: swap_del_def)
    fix i assume "i < length (vec_abs ?v)"
    then have i: "i < vec_len v - 1" "i < vec_len v" by simp_all
    have "i * ?es + ?es \<le> length ?d" using vec_ok_used [OF ok, of i] i by simp
    moreover have "elem_at ?src ?es 0 = elem_at ?d ?es ?last" by (simp add: elem_at_def)
    moreover have "vec_abs v \<noteq> []" using True by (metis length_vec_abs list.size(3) not_less_zero)
    ultimately show "vec_abs ?v ! i = swap_del idx (vec_abs v) ! i"
      using elem_at_write_other [OF w len, of i] elem_at_write_in [OF w, of 0 1] len i True
      by (cases i idx rule: linorder_cases) (auto simp: swap_del_def nth_butlast nth_list_update last_conv_nth)
  qed
  moreover have "vec_ok ?v" using ok mem_write_length [OF w] by (auto simp: vec_ok_def)
  moreover have "idx \<noteq> ?last" using True by simp
  ultimately show ?thesis using True w fit by (simp add: rtc_vec_swap_remove_def Let_def)
qed

lemma rtc_vec_at_ok:
  assumes "vec_ok v"
  shows "rtc_vec_at v idx = Some (if idx < vec_len v then Some (vec_abs v ! idx) else None)"
proof (cases "idx < vec_len v")
  case True
  then have "idx < vec_cap v" using assms by (simp add: vec_ok_def)
  with vec_ok_elem [OF assms this] True assms show ?thesis
    by (auto simp: rtc_vec_at_def elem_at_def vec_ok_def)
qed (simp add: rtc_vec_at_def)

definition vec_op_fits :: "nat \<Rightarrow> vec_op \<Rightarrow> bool" where
  "vec_op_fits es op \<longleftrightarrow> (case op of Vec_push a junk e \<Rightarrow> length e = es | _ \<Rightarrow> True)"

lemma vec_run_refines:
  assumes "vec_ok v" "list_all (vec_op_fits (vec_elem_size v)) ops"
  shows "\<exists>rcs v'. vec_run ops v = Some (rcs, v') \<and> vec_ok v' \<and> vec_abs v' = vec_spec ops rcs (vec_abs v)"
  using assms
proof (induction ops arbitrary: v)
  case (Cons op ops)
  have "\<exists>rc v1. (case op of
         Vec_push a junk elem \<Rightarrow> rtc_vec_push a junk v elem
       | Vec_remove i \<Rightarrow> do { v \<leftarrow> rtc_vec_remove v i; Some (RTC_OK, v) }
       | Vec_swap_remove i \<Rightarrow> do { v \<leftarrow> rtc_vec_swap_remove v i; Some (RTC_OK, v) }
       | Vec_clear \<Rightarrow> Some (RTC_OK, rtc_vec_clear v)) = Some (rc, v1) \<and> vec_ok v1 \<and>
       vec_elem_size v1 = vec_elem_size v \<and> vec_abs v1 = vec_spec_step op rc (vec_abs v)"
  proof (cases op)
    case (Vec_push a junk e)
    then show ?thesis using rtc_vec_push_ok [OF Cons.prems(1), of e a junk] Cons.prems(2)
      by (simp add: vec_op_fits_def)
  next
    case (Vec_remove i)
    then show ?thesis using rtc_vec_remove_ok [OF Cons.prems(1), of i] by auto
  next
    case (Vec_swap_remove i)
    then show ?thesis using rtc_vec_swap_remove_ok [OF Cons.prems(1), of i] by auto
  next
    case Vec_clear
    then show ?thesis using Cons.prems(1) by (simp add: rtc_vec_clear_def vec_ok_def vec_abs_def)
  qed
  then obtain rc v1 where step: "(case op of
         Vec_push a junk elem \<Rightarrow> rtc_vec_push a junk v elem
       | Vec_remove i \<Rightarrow> do { v \<leftarrow> rtc_vec_remove v i; Some (RTC_OK, v) }
       | Vec_swap_remove i \<Rightarrow> do { v \<leftarrow> rtc_vec_swap_remove v i; Some (RTC_OK, v) }
       | Vec_clear \<Rightarrow> Some (RTC_OK, rtc_vec_clear v)) = Some (rc, v1)" "vec_ok v1"
       "vec_elem_size v1 = vec_elem_size v" "vec_abs v1 = vec_spec_step op rc (vec_abs v)" by blast
  from Cons.IH [OF step(2)] Cons.prems(2) step(3) obtain rcs v2 where
    "vec_run ops v1 = Some (rcs, v2)" "vec_ok v2" "vec_abs v2 = vec_spec ops rcs (vec_abs v1)" by auto
  then show ?case using step by (simp del: vec_spec_step.simps)
qed simp

subsection \<open>Properties\<close>

text \<open>
  C24. Any sequence of pushes (of elements of the vector's size), removals, swap-removals and
  clears on a fresh vector stays inside its buffer, and every later access returns the element of the
  list those operations build, or \<^verbatim>\<open>NULL\<close> past its end.
\<close>

theorem vec_run_correct:
  assumes "rtc_vec_init es = Inr v" "list_all (vec_op_fits es) ops"
  shows "\<exists>rcs v'. vec_run ops v = Some (rcs, v') \<and>
    rtc_vec_len v' = length (vec_spec ops rcs []) \<and>
    (\<forall>i. rtc_vec_at v' i =
      Some (if i < length (vec_spec ops rcs []) then Some (vec_spec ops rcs [] ! i) else None))"
proof -
  have v: "vec_ok v" "vec_abs v = []" "vec_elem_size v = es"
    using assms(1) by (auto simp: rtc_vec_init_def vec_ok_def vec_abs_def split: if_splits)
  then obtain rcs v' where "vec_run ops v = Some (rcs, v')" "vec_ok v'" "vec_abs v' = vec_spec ops rcs []"
    using vec_run_refines [OF v(1), of ops] assms(2) by auto
  moreover from this have "length (vec_spec ops rcs []) = vec_len v'" by (metis length_vec_abs)
  ultimately show ?thesis using rtc_vec_at_ok [of v'] by (simp add: rtc_vec_len_def)
qed

definition vec_sample_ops :: "vec_op list" where
  "vec_sample_ops = [Vec_push True (\<lambda>_. 0) [1, 2], Vec_push True (\<lambda>_. 0) [3, 4],
     Vec_push True (\<lambda>_. 0) [5, 6], Vec_swap_remove 0]"

theorem vec_run_correct_witness:
  "\<exists>v. rtc_vec_init 2 = Inr v \<and> list_all (vec_op_fits 2) vec_sample_ops \<and>
    (\<exists>rcs v'. vec_run vec_sample_ops v = Some (rcs, v') \<and>
      rtc_vec_len v' = length (vec_spec vec_sample_ops rcs []))"
proof -
  obtain v where v: "rtc_vec_init 2 = Inr v" by (simp add: rtc_vec_init_def)
  have "list_all (vec_op_fits 2) vec_sample_ops" by (simp add: vec_sample_ops_def vec_op_fits_def)
  with vec_run_correct [OF v this] v show ?thesis by blast
qed

end
