(* ===== verification/Rtp_Ext.thy ===== *)
theory Rtp_Ext
  imports Prelude
begin

text \<open>
  \<^verbatim>\<open>rtc/src/rtc_rtp_ext.c\<close>: RTP header extensions in the one-byte form. An extension value is
  the defined prefix of the 16-byte array of \<^verbatim>\<open>rtc_rtp_ext_t\<close>. The parser reads only inside
  the body it is given and inverts the writer.
\<close>

subsection \<open>Data and operations\<close>

definition RTC_RTP_EXT_PROFILE_ONE_BYTE :: u16 where
  "RTC_RTP_EXT_PROFILE_ONE_BYTE = 0xBEDE"

definition RTC_RTP_EXT_MAX_ENTRIES :: nat where
  "RTC_RTP_EXT_MAX_ENTRIES = 8"

definition RTC_RTP_EXT_MAX_DATA :: u8 where
  "RTC_RTP_EXT_MAX_DATA = 16"

record rtc_rtp_ext =
  ext_id :: u8
  ext_vlen :: u8
  ext_val :: bytes

text \<open>The entry loop of \<^verbatim>\<open>rtc_rtp_ext_write_block\<close>; \<open>body\<close> is what has been written after the
  four header bytes.\<close>

fun ext_write_loop :: "nat \<Rightarrow> bytes \<Rightarrow> rtc_rtp_ext list \<Rightarrow> rtc_err + bytes" where
  "ext_write_loop cap body [] = Inr body"
| "ext_write_loop cap body (e # exts) =
    (if ext_id e < 1 \<or> ext_id e > 14 then Inl RTC_ERR_INVALID
     else if ext_vlen e < 1 \<or> ext_vlen e > RTC_RTP_EXT_MAX_DATA then Inl RTC_ERR_INVALID
     else if 4 + length body + 1 + unat (ext_vlen e) > cap then Inl RTC_ERR_INVALID
     else ext_write_loop cap
       (body @ (push_bit 4 (ext_id e) OR (ext_vlen e - 1)) # take (unat (ext_vlen e)) (ext_val e)) exts)"

definition rtc_rtp_ext_write_block :: "nat \<Rightarrow> rtc_rtp_ext list \<Rightarrow> rtc_err + bytes" where
  "rtc_rtp_ext_write_block cap exts =
    (if cap < 4 then Inl RTC_ERR_INVALID
     else case ext_write_loop cap [] exts of
       Inl e \<Rightarrow> Inl e
     | Inr body \<Rightarrow>
         let pad = (4 - (length body mod 4)) mod 4;
             total_body = length body + pad
         in if 4 + length body + pad > cap then Inl RTC_ERR_INVALID
            else Inr (write_u16 RTC_RTP_EXT_PROFILE_ONE_BYTE @ write_u16 (of_nat (total_body div 4)) @
                   body @ replicate pad 0))"

text \<open>The scan of \<^verbatim>\<open>rtc_rtp_ext_parse_body\<close> over \<open>ext_len\<close> bytes at \<open>ext_data\<close>; \<open>out\<close> holds the
  entries found so far and \<open>cap\<close> is the caller's \<^verbatim>\<open>*count\<close>.\<close>

function ext_parse_loop :: "bytes \<Rightarrow> nat \<Rightarrow> nat \<Rightarrow> nat \<Rightarrow> rtc_rtp_ext list \<Rightarrow> (rtc_err + rtc_rtp_ext list) option" where
  "ext_parse_loop ext_data ext_len cap i out =
    (if i < ext_len then do {
       b \<leftarrow> rd8 ext_data i;
       let i = i + 1;
       if b = 0 then ext_parse_loop ext_data ext_len cap i out
       else do {
         let eid = drop_bit 4 b AND 0x0F;
         let len = (b AND 0x0F) + 1;
         if eid = 15 then Some (Inr out)
         else if i + unat len > ext_len then Some (Inl RTC_ERR_INVALID)
         else if length out < cap \<and> eid \<ge> 1 \<and> eid \<le> 14 \<and> len \<le> RTC_RTP_EXT_MAX_DATA then do {
           v \<leftarrow> rd_bytes ext_data i (unat len);
           ext_parse_loop ext_data ext_len cap (i + unat len)
             (out @ [\<lparr>ext_id = eid, ext_vlen = len, ext_val = v\<rparr>])
         }
         else ext_parse_loop ext_data ext_len cap (i + unat len) out
       }
     } else Some (Inr out))"
  by pat_completeness auto
termination by (relation "measure (\<lambda>(d, n, c, i, out). n - i)") auto

definition rtc_rtp_ext_parse_body :: "bytes \<Rightarrow> nat \<Rightarrow> nat \<Rightarrow> (rtc_err + rtc_rtp_ext list) option" where
  "rtc_rtp_ext_parse_body ext_data ext_len cap = ext_parse_loop ext_data ext_len cap 0 []"

definition rtc_rtp_ext_find :: "rtc_rtp_ext list \<Rightarrow> u8 \<Rightarrow> rtc_rtp_ext option" where
  "rtc_rtp_ext_find exts eid = find (\<lambda>e. ext_id e = eid) exts"

definition rtc_rtp_ext_make_abs_send_time :: "u8 \<Rightarrow> u64 \<Rightarrow> rtc_rtp_ext" where
  "rtc_rtp_ext_make_abs_send_time eid now_us =
    (let ticks = (now_us * 262144) div 1000000;
         v = ucast (ticks AND 0x00FFFFFF) :: u32
     in \<lparr>ext_id = eid, ext_vlen = 3, ext_val = write_u24 v\<rparr>)"

definition rtc_rtp_ext_make_transport_cc :: "u8 \<Rightarrow> u16 \<Rightarrow> rtc_rtp_ext" where
  "rtc_rtp_ext_make_transport_cc eid seq = \<lparr>ext_id = eid, ext_vlen = 2, ext_val = write_u16 seq\<rparr>"

definition rtc_rtp_ext_read_transport_cc :: "rtc_rtp_ext \<Rightarrow> u16 option" where
  "rtc_rtp_ext_read_transport_cc ext =
    (if ext_vlen ext < 2 then Some 0 else rd16 (ext_val ext) 0)"

text \<open>A C string is its bytes without the terminating zero.\<close>

definition rtc_rtp_ext_make_string :: "u8 \<Rightarrow> bytes \<Rightarrow> rtc_rtp_ext" where
  "rtc_rtp_ext_make_string eid s =
    (let n = (if length s > unat RTC_RTP_EXT_MAX_DATA then unat RTC_RTP_EXT_MAX_DATA else length s);
         n = (if n = 0 then 1 else n)
     in \<lparr>ext_id = eid, ext_vlen = of_nat n, ext_val = take n (s @ [0]) @ replicate (16 - n) 0\<rparr>)"

text \<open>The copied bytes, without the terminator the function appends.\<close>

definition rtc_rtp_ext_read_string :: "rtc_rtp_ext \<Rightarrow> nat \<Rightarrow> bytes option" where
  "rtc_rtp_ext_read_string ext cap =
    (if cap = 0 then Some []
     else let n = unat (ext_vlen ext);
              n = (if n > unat RTC_RTP_EXT_MAX_DATA then unat RTC_RTP_EXT_MAX_DATA else n);
              n = (if n > cap - 1 then cap - 1 else n)
          in rd_bytes (ext_val ext) 0 n)"

definition rtc_rtp_ext_get_string :: "bytes \<Rightarrow> nat \<Rightarrow> u8 \<Rightarrow> nat \<Rightarrow> bytes option" where
  "rtc_rtp_ext_get_string ext_data ext_len eid cap =
    (if ext_len = 0 \<or> eid = 0 then Some []
     else do {
       r \<leftarrow> rtc_rtp_ext_parse_body ext_data ext_len RTC_RTP_EXT_MAX_ENTRIES;
       case r of
         Inl _ \<Rightarrow> Some []
       | Inr exts \<Rightarrow>
           (case rtc_rtp_ext_find exts eid of
              None \<Rightarrow> Some []
            | Some e \<Rightarrow> rtc_rtp_ext_read_string e cap)
     })"

declare ext_parse_loop.simps [simp del]

subsection \<open>Well-formed extensions\<close>

text \<open>What the one-byte form can carry: ids 1 to 14, 1 to 16 bytes.\<close>

definition ext_ok :: "rtc_rtp_ext \<Rightarrow> bool" where
  "ext_ok e \<longleftrightarrow> 1 \<le> unat (ext_id e) \<and> unat (ext_id e) \<le> 14 \<and> 1 \<le> length (ext_val e) \<and>
     length (ext_val e) \<le> 16 \<and> unat (ext_vlen e) = length (ext_val e)"

definition ext_image :: "rtc_rtp_ext \<Rightarrow> bytes" where
  "ext_image e = (push_bit 4 (ext_id e) OR (ext_vlen e - 1)) # ext_val e"

lemma ext_ok_fields:
  assumes "ext_ok e"
  shows "\<not> ext_id e < 1" "\<not> ext_id e > 14" "\<not> ext_vlen e < 1" "\<not> ext_vlen e > RTC_RTP_EXT_MAX_DATA"
    "1 \<le> ext_id e" "ext_id e \<le> 14" "ext_vlen e \<le> RTC_RTP_EXT_MAX_DATA" "ext_id e \<noteq> 15"
    "unat (ext_vlen e) = length (ext_val e)"
  using assms by (auto simp: ext_ok_def word_less_nat_alt word_le_nat_alt RTC_RTP_EXT_MAX_DATA_def)

lemma ext_head:
  assumes "ext_ok e"
  defines "b \<equiv> push_bit 4 (ext_id e) OR (ext_vlen e - 1)"
  shows "drop_bit 4 b AND 0x0F = ext_id e" "(b AND 0x0F) + 1 = ext_vlen e" "b \<noteq> 0"
proof -
  have "unat (ext_vlen e - 1) = unat (ext_vlen e) - 1"
    using assms by (intro unat_minus_one) (auto simp: ext_ok_def)
  then have l: "unat (ext_vlen e - 1) < 2 ^ 4" using assms by (auto simp: ext_ok_def)
  have i: "unat (ext_id e) < 2 ^ 4" using assms by (simp add: ext_ok_def)
  show eid: "drop_bit 4 b AND 0x0F = ext_id e"
    unfolding b_def and_masks nibble_high drop_bit_zero [OF l] by (simp add: take_bit_self [OF i])
  show "(b AND 0x0F) + 1 = ext_vlen e"
    unfolding b_def and_masks nibble_low take_bit_self [OF l] by simp
  show "b \<noteq> 0" using eid assms(1) by (auto simp: ext_ok_def)
qed

subsection \<open>Writing and parsing\<close>

lemma ext_write_loop_ok:
  assumes "list_all ext_ok exts" "4 + length body + length (concat (map ext_image exts)) \<le> cap"
  shows "ext_write_loop cap body exts = Inr (body @ concat (map ext_image exts))"
  using assms
proof (induction exts arbitrary: body)
  case (Cons e exts)
  then have "ext_ok e" by simp
  note f = ext_ok_fields [OF this]
  have "ext_write_loop cap (body @ ext_image e) exts =
      Inr ((body @ ext_image e) @ concat (map ext_image exts))"
    using Cons.prems by (intro Cons.IH) auto
  then show ?case using f Cons.prems(2) by (simp add: ext_image_def [of e])
qed simp

lemma ext_write_loop_Inr:
  assumes "ext_write_loop cap body exts = Inr b" "\<forall>e \<in> set exts. unat (ext_vlen e) = length (ext_val e)"
  shows "list_all ext_ok exts \<and> b = body @ concat (map ext_image exts)"
  using assms
proof (induction exts arbitrary: body)
  case (Cons e exts)
  from Cons.prems have "ext_ok e"
    by (auto simp: ext_ok_def word_less_nat_alt RTC_RTP_EXT_MAX_DATA_def not_less Suc_le_eq split: if_splits)
  moreover have "list_all ext_ok exts \<and> b = (body @ ext_image e) @ concat (map ext_image exts)"
    using Cons.prems by (intro Cons.IH) (auto simp: ext_image_def [of e] split: if_splits)
  ultimately show ?case by simp
qed simp

lemma ext_parse_pad:
  "ext_parse_loop (pre @ replicate p 0 @ rest) (length pre + p) cap (length pre) out = Some (Inr out)"
proof (induction p arbitrary: pre)
  case 0
  then show ?case by (simp add: ext_parse_loop.simps)
next
  case (Suc p)
  have "rd8 (pre @ replicate (Suc p) 0 @ rest) (length pre) = Some 0"
    using rd8_at [of pre "length pre" 0 "replicate p 0 @ rest"] by simp
  then have "ext_parse_loop (pre @ replicate (Suc p) 0 @ rest) (length pre + Suc p) cap (length pre) out =
      ext_parse_loop ((pre @ [0]) @ replicate p 0 @ rest) (length (pre @ [0]) + p) cap (length (pre @ [0])) out"
    by (subst ext_parse_loop.simps) simp
  then show ?case using Suc [of "pre @ [0]"] by simp
qed

lemma ext_parse_images:
  assumes "list_all ext_ok exts" "length out + length exts \<le> cap"
  shows "ext_parse_loop (pre @ concat (map ext_image exts) @ replicate p 0 @ rest)
      (length pre + length (concat (map ext_image exts)) + p) cap (length pre) out = Some (Inr (out @ exts))"
  using assms
proof (induction exts arbitrary: pre out)
  case Nil
  then show ?case by (simp add: ext_parse_pad)
next
  case (Cons e exts)
  then have ok: "ext_ok e" by simp
  note f = ext_ok_fields [OF ok]
  define b where "b = push_bit 4 (ext_id e) OR (ext_vlen e - 1)"
  have h: "drop_bit 4 b AND 0x0F = ext_id e" "(b AND 0x0F) + 1 = ext_vlen e" "b \<noteq> 0"
    unfolding b_def by (fact ext_head [OF ok])+
  let ?tl = "concat (map ext_image exts) @ replicate p 0 @ rest"
  let ?n = "length pre + length (concat (map ext_image (e # exts))) + p"
  have d: "pre @ concat (map ext_image (e # exts)) @ replicate p 0 @ rest = pre @ b # ext_val e @ ?tl"
    "pre @ b # ext_val e @ ?tl = (pre @ ext_image e) @ ?tl"
    by (simp_all add: ext_image_def b_def)
  have r8: "rd8 (pre @ b # ext_val e @ ?tl) (length pre) = Some b" by (simp add: rd8_at)
  have rv: "rd_bytes (pre @ b # ext_val e @ ?tl) (length pre + 1) (unat (ext_vlen e)) = Some (ext_val e)"
    using rd_bytes_at [of "pre @ [b]" "length pre + 1" "ext_val e" "unat (ext_vlen e)" ?tl] f(9) by simp
  have e: "\<lparr>ext_id = ext_id e, ext_vlen = ext_vlen e, ext_val = ext_val e\<rparr> = e" by simp
  have "length pre < ?n" "\<not> length pre + 1 + unat (ext_vlen e) > ?n" using f(9) by (simp_all add: ext_image_def [of e])
  then have "ext_parse_loop (pre @ b # ext_val e @ ?tl) ?n cap (length pre) out =
      ext_parse_loop (pre @ b # ext_val e @ ?tl) ?n cap (length pre + 1 + unat (ext_vlen e)) (out @ [e])"
    using Cons.prems(2) f(5-8) h(3) r8 rv
    by (subst ext_parse_loop.simps) (simp add: h(1,2) e Let_def)
  also have "\<dots> = ext_parse_loop ((pre @ ext_image e) @ ?tl)
      (length (pre @ ext_image e) + length (concat (map ext_image exts)) + p) cap
      (length (pre @ ext_image e)) (out @ [e])"
    using f(9) by (simp add: ext_image_def [of e] b_def add_ac)
  also have "\<dots> = Some (Inr ((out @ [e]) @ exts))"
    using Cons.prems by (intro Cons.IH) auto
  finally show ?case unfolding d(1) by simp
qed

lemma ext_parse_safe:
  assumes "ext_len \<le> length ext_data"
  shows "ext_parse_loop ext_data ext_len cap i out \<noteq> None"
  using assms
proof (induction ext_data ext_len cap i out rule: ext_parse_loop.induct)
  case (1 ext_data ext_len cap i out)
  show ?case
  proof (cases "i < ext_len")
    case True
    then have "rd8 ext_data i = Some (ext_data ! i)" using 1 by simp
    then show ?thesis using 1 True
      by (subst ext_parse_loop.simps) (auto simp: Let_def)
  qed (simp add: ext_parse_loop.simps)
qed

lemma ext_step_ok:
  assumes "rd_bytes d i (unat len) = Some v" "len = (b AND 0x0F) + 1" "1 \<le> eid" "eid \<le> 14"
  shows "ext_ok \<lparr>ext_id = eid, ext_vlen = len, ext_val = v\<rparr>"
proof -
  have "unat (b AND 0x0F) < 16" by (simp add: and_masks unat_take_bit)
  then have "unat len = unat (b AND 0x0F) + 1"
    unfolding assms(2) by (simp add: unat_word_ariths)
  moreover have "length v = unat len" using assms(1) by (auto simp: rd_bytes_def split: if_splits)
  ultimately show ?thesis
    using \<open>unat (b AND 0x0F) < 16\<close> assms(3,4) by (simp add: ext_ok_def word_le_nat_alt)
qed

lemma ext_parse_step:
  assumes "i < n" "rd8 d i = Some b"
  defines "eid \<equiv> drop_bit 4 b AND 0x0F" and "len \<equiv> (b AND 0x0F) + 1"
  shows "ext_parse_loop d n cap i out =
      (if b = 0 then ext_parse_loop d n cap (i + 1) out
       else if eid = 15 then Some (Inr out)
       else if i + 1 + unat len > n then Some (Inl RTC_ERR_INVALID)
       else if length out < cap \<and> eid \<ge> 1 \<and> eid \<le> 14 \<and> len \<le> RTC_RTP_EXT_MAX_DATA then
         rd_bytes d (i + 1) (unat len) \<bind> (\<lambda>v. ext_parse_loop d n cap (i + 1 + unat len)
           (out @ [\<lparr>ext_id = eid, ext_vlen = len, ext_val = v\<rparr>]))
       else ext_parse_loop d n cap (i + 1 + unat len) out)"
  apply (subst ext_parse_loop.simps)
  unfolding Let_def eid_def len_def using assms(1,2) apply simp
  done

lemma ext_parse_loop_result:
  assumes "ext_len \<le> length ext_data" "ext_parse_loop ext_data ext_len cap i out = Some (Inr exts)"
    "list_all ext_ok out" "length out \<le> cap"
  shows "length exts \<le> cap \<and> list_all ext_ok exts"
  using assms(2-)
proof (induction "ext_len - i" arbitrary: i out rule: less_induct)
  case less
  let ?d = ext_data and ?n = ext_len
  show ?case
  proof (cases "i < ?n")
    case False
    then show ?thesis using less.prems by (simp add: ext_parse_loop.simps)
  next
    case True
    define b where "b = ?d ! i"
    define eid where "eid = drop_bit 4 b AND 0x0F"
    define len where "len = (b AND 0x0F) + 1"
    have IH: "length exts \<le> cap \<and> list_all ext_ok exts"
      if "i < i'" "ext_parse_loop ?d ?n cap i' out' = Some (Inr exts)" "list_all ext_ok out'" "length out' \<le> cap"
      for i' out' using less.hyps [of i' out'] that True by simp
    have "rd8 ?d i = Some b" using True assms(1) by (simp add: b_def)
    note run = less.prems(1) [unfolded ext_parse_step [OF True this], folded eid_def len_def]
    consider "b = 0" | "b \<noteq> 0" "eid = 15" | "b \<noteq> 0" "eid \<noteq> 15" "i + 1 + unat len > ?n"
      | "b \<noteq> 0" "eid \<noteq> 15" "\<not> i + 1 + unat len > ?n" by blast
    then show ?thesis
    proof cases
      case 1
      have "ext_parse_loop ?d ?n cap (i + 1) out = Some (Inr exts)"
        using run unfolding if_P [OF 1] .
      then show ?thesis using IH [OF _ _ less.prems(2,3), of "i + 1"] by simp
    next
      case 2
      then have "exts = out" using run by simp
      then show ?thesis using less.prems(2,3) by blast
    next
      case 3
      then show ?thesis using run by simp
    next
      case F: 4
      then have rd: "rd_bytes ?d (i + 1) (unat len) = Some (take (unat len) (drop (i + 1) ?d))"
        using assms(1) by (intro rd_bytes_in) simp
      let ?e = "\<lparr>ext_id = eid, ext_vlen = len, ext_val = take (unat len) (drop (i + 1) ?d)\<rparr>"
      show ?thesis
      proof (cases "length out < cap \<and> eid \<ge> 1 \<and> eid \<le> 14 \<and> len \<le> RTC_RTP_EXT_MAX_DATA")
        case True
        then have "ext_ok ?e" using ext_step_ok [OF rd len_def] by blast
        moreover have "ext_parse_loop ?d ?n cap (i + 1 + unat len) (out @ [?e]) = Some (Inr exts)"
          using run unfolding if_not_P [OF F(1)] if_not_P [OF F(2)] if_not_P [OF F(3)] if_P [OF True] rd
          by simp
        ultimately show ?thesis
          using IH [of "i + 1 + unat len" "out @ [?e]"] True less.prems(2) by simp
      next
        case False
        have "ext_parse_loop ?d ?n cap (i + 1 + unat len) out = Some (Inr exts)"
          using run unfolding if_not_P [OF F(1)] if_not_P [OF F(2)] if_not_P [OF F(3)] if_not_P [OF False] .
        then show ?thesis using IH [of "i + 1 + unat len" out] less.prems(2,3) by simp
      qed
    qed
  qed
qed

lemma ext_write_block_Inr:
  assumes "rtc_rtp_ext_write_block cap exts = Inr blk"
    and "\<forall>e \<in> set exts. unat (ext_vlen e) = length (ext_val e)"
  obtains p where "list_all ext_ok exts" "p < 4"
    "(length (concat (map ext_image exts)) + p) mod 4 = 0"
    "blk = write_u16 RTC_RTP_EXT_PROFILE_ONE_BYTE @
       write_u16 (of_nat ((length (concat (map ext_image exts)) + p) div 4)) @
       concat (map ext_image exts) @ replicate p 0"
    "length blk \<le> cap"
proof -
  obtain body where body: "ext_write_loop cap [] exts = Inr body"
    using assms(1) by (auto simp: rtc_rtp_ext_write_block_def split: if_splits sum.splits)
  then have b: "list_all ext_ok exts" "body = concat (map ext_image exts)"
    using ext_write_loop_Inr [OF body assms(2)] by auto
  let ?p = "(4 - (length body mod 4)) mod 4"
  show thesis
  proof (rule that [of ?p])
    show "(length (concat (map ext_image exts)) + ?p) mod 4 = 0" using pad4 b(2) by simp
    show "blk = write_u16 RTC_RTP_EXT_PROFILE_ONE_BYTE @
       write_u16 (of_nat ((length (concat (map ext_image exts)) + ?p) div 4)) @
       concat (map ext_image exts) @ replicate ?p 0"
      using assms(1) body b(2) by (simp add: rtc_rtp_ext_write_block_def Let_def split: if_splits)
    then show "length blk \<le> cap"
      using assms(1) body b(2) by (simp add: rtc_rtp_ext_write_block_def Let_def split: if_splits)
  qed (use b in simp_all)
qed

lemma ext_block_roundtrip:
  assumes "rtc_rtp_ext_write_block cap exts = Inr blk" "cap \<le> 262140"
    and "\<forall>e \<in> set exts. unat (ext_vlen e) = length (ext_val e)"
    and "length exts \<le> n"
  shows "rtc_rtp_ext_parse_body (drop 4 blk) (length blk - 4) n = Some (Inr exts) \<and>
    rd16 blk 0 = Some RTC_RTP_EXT_PROFILE_ONE_BYTE \<and>
    (\<exists>words. rd16 blk 2 = Some words \<and> 4 + unat words * 4 = length blk) \<and> length blk \<le> cap"
proof -
  let ?body = "concat (map ext_image exts)"
  obtain p where p: "list_all ext_ok exts" "p < 4" "(length ?body + p) mod 4 = 0"
    "blk = write_u16 RTC_RTP_EXT_PROFILE_ONE_BYTE @ write_u16 (of_nat ((length ?body + p) div 4)) @
       ?body @ replicate p 0" "length blk \<le> cap"
    using ext_write_block_Inr [OF assms(1,3)] .
  have blk: "drop 4 blk = ?body @ replicate p 0" "length blk = 4 + (length ?body + p)"
    unfolding p(4) by simp_all
  have "(length ?body + p) div 4 < 2 ^ 16" using blk(2) p(5) assms(2) by simp
  then have w: "unat (of_nat ((length ?body + p) div 4) :: u16) = (length ?body + p) div 4"
    by (simp add: unat_of_nat)
  have "rtc_rtp_ext_parse_body (drop 4 blk) (length blk - 4) n = Some (Inr exts)"
    using ext_parse_images [OF p(1), of "[]" n "[]" p "[]"] assms(4) blk
    by (simp add: rtc_rtp_ext_parse_body_def)
  moreover have "rd16 blk 0 = Some RTC_RTP_EXT_PROFILE_ONE_BYTE"
    "rd16 blk 2 = Some (of_nat ((length ?body + p) div 4))"
    unfolding p(4) by (simp, rule rd16_at, simp)
  moreover have "4 + (length ?body + p) div 4 * 4 = length blk"
    using p(3) blk(2) by (metis add.right_neutral div_mult_mod_eq)
  ultimately show ?thesis using w p(5) by auto
qed

subsection \<open>Properties\<close>

text \<open>
  Whatever bytes a packet carries in its extension block, the parser reads only inside the
  block and terminates; it returns at most the requested number of entries, each of them one the
  one-byte form can carry.
\<close>

theorem ext_parse_body_safe:
  assumes "ext_len \<le> length ext_data"
  shows "\<exists>r. rtc_rtp_ext_parse_body ext_data ext_len cap = Some r \<and>
    (\<forall>exts. r = Inr exts \<longrightarrow> length exts \<le> cap \<and> list_all ext_ok exts)"
proof -
  obtain r where r: "rtc_rtp_ext_parse_body ext_data ext_len cap = Some r"
    using ext_parse_safe [OF assms, of cap 0 "[]"] by (auto simp: rtc_rtp_ext_parse_body_def)
  have "length exts \<le> cap \<and> list_all ext_ok exts" if "r = Inr exts" for exts
    using r that ext_parse_loop_result [OF assms, of cap 0 "[]" exts]
    by (simp add: rtc_rtp_ext_parse_body_def)
  with r show ?thesis by blast
qed

theorem ext_parse_body_safe_witness:
  "8 \<le> length [0x11, 1, 2, 0, 0x20, 7, 0xF0, 9 :: u8] \<and>
   (\<exists>r. rtc_rtp_ext_parse_body [0x11, 1, 2, 0, 0x20, 7, 0xF0, 9] 8 4 = Some r \<and>
     (\<forall>exts. r = Inr exts \<longrightarrow> length exts \<le> 4 \<and> list_all ext_ok exts))"
proof -
  have "8 \<le> length [0x11, 1, 2, 0, 0x20, 7, 0xF0, 9 :: u8]" by simp
  then show ?thesis by (intro conjI ext_parse_body_safe)
qed

text \<open>
  C27. Parsing the block the writer produced (in a buffer of at most 262140 bytes, from extensions whose length fields are right) gives
  back the extensions that were written, and
  the length field of its header is the length of its body in 32-bit words.
\<close>

theorem ext_write_parse_roundtrip:
  assumes "rtc_rtp_ext_write_block cap exts = Inr blk" "cap \<le> 262140"
    and "\<forall>e \<in> set exts. unat (ext_vlen e) = length (ext_val e)"
    and "length exts \<le> n"
  shows "rtc_rtp_ext_parse_body (drop 4 blk) (length blk - 4) n = Some (Inr exts) \<and>
    rd16 blk 0 = Some RTC_RTP_EXT_PROFILE_ONE_BYTE \<and>
    (\<exists>words. rd16 blk 2 = Some words \<and> 4 + unat words * 4 = length blk) \<and> length blk \<le> cap"
  using assms by (rule ext_block_roundtrip)

definition ext_sample :: "rtc_rtp_ext list" where
  "ext_sample = [rtc_rtp_ext_make_transport_cc 3 0x1234, rtc_rtp_ext_make_transport_cc 5 7]"

lemma ext_sample_block:
  "rtc_rtp_ext_write_block 64 ext_sample = Inr [0xBE, 0xDE, 0, 2, 0x31, 0x12, 0x34, 0x51, 0, 7, 0, 0]"
  by code_simp

theorem ext_write_parse_roundtrip_witness:
  "\<exists>blk. rtc_rtp_ext_write_block 64 ext_sample = Inr blk \<and>
    rtc_rtp_ext_parse_body (drop 4 blk) (length blk - 4) 8 = Some (Inr ext_sample)"
proof -
  have "\<forall>e \<in> set ext_sample. unat (ext_vlen e) = length (ext_val e)"
    by (simp add: ext_sample_def rtc_rtp_ext_make_transport_cc_def)
  then show ?thesis
    using ext_write_parse_roundtrip [OF ext_sample_block, of 8] ext_sample_block
    by (simp add: ext_sample_def)
qed

end
