(* ===== verification/Rtp.thy ===== *)
theory Rtp
  imports Rtp_Ext
begin

text \<open>
  \<^verbatim>\<open>rtc/src/rtc_rtp.c\<close>: building and parsing of RTP packets and the sending session. A packet
  record holds the payload and extension views by value and the first \<^verbatim>\<open>buf_len\<close> bytes of the
  internal buffer. A parse that fails leaves no packet (its callers drop it).
\<close>

subsection \<open>Data\<close>

definition RTP_VERSION :: u8 where "RTP_VERSION = 2"
definition RTP_HEADER_SIZE :: nat where "RTP_HEADER_SIZE = 12"
definition RTP_MAX_PACKET :: nat where "RTP_MAX_PACKET = 1400"
definition RTP_SRTP_PAD :: nat where "RTP_SRTP_PAD = 16"
definition RTP_MAX_EXT_LEN :: nat where "RTP_MAX_EXT_LEN = 64"

definition RTP_BUF_SIZE :: nat where
  "RTP_BUF_SIZE = RTP_MAX_PACKET + RTP_HEADER_SIZE + RTP_MAX_EXT_LEN + RTP_SRTP_PAD"

lemmas rtp_sizes = RTP_HEADER_SIZE_def RTP_MAX_PACKET_def RTP_SRTP_PAD_def RTP_MAX_EXT_LEN_def
  RTP_BUF_SIZE_def

record rtc_rtp_header =
  h_version :: u8
  h_padding :: bool
  h_extension :: bool
  h_csrc_count :: u8
  h_marker :: bool
  h_payload_type :: u8
  h_seq :: u16
  h_timestamp :: u32
  h_ssrc :: u32

record rtc_rtp_packet =
  pkt_header :: rtc_rtp_header
  pkt_payload :: bytes
  pkt_ext_data :: "bytes option"
  pkt_ext_len :: nat
  pkt_buf :: bytes

record rtc_rtp_session =
  s_ssrc :: u32
  s_seq :: u16
  s_timestamp :: u32
  s_payload_type :: u8
  s_clock_rate :: u32

subsection \<open>Operations\<close>

definition rtp_fixed_header :: "bool \<Rightarrow> u8 \<Rightarrow> bool \<Rightarrow> u16 \<Rightarrow> u32 \<Rightarrow> u32 \<Rightarrow> bytes" where
  "rtp_fixed_header ext pt marker seq ts ssrc =
    [push_bit 6 RTP_VERSION OR (if ext then 0x10 else 0),
     (pt AND 0x7F) OR (if marker then 0x80 else 0)] @
    write_u16 seq @ write_u32 ts @ write_u32 ssrc"

definition rtc_rtp_build_with_ext ::
  "u8 \<Rightarrow> u16 \<Rightarrow> u32 \<Rightarrow> u32 \<Rightarrow> bool \<Rightarrow> rtc_rtp_ext list \<Rightarrow> bytes \<Rightarrow> rtc_err + rtc_rtp_packet" where
  "rtc_rtp_build_with_ext pt seq ts ssrc marker exts payload =
    (if length payload > RTP_MAX_PACKET then Inl RTC_ERR_INVALID
     else
       let header = \<lparr>h_version = RTP_VERSION, h_padding = False, h_extension = (length exts > 0),
             h_csrc_count = 0, h_marker = marker, h_payload_type = pt, h_seq = seq,
             h_timestamp = ts, h_ssrc = ssrc\<rparr>;
           b = rtp_fixed_header (length exts > 0) pt marker seq ts ssrc
       in if length exts > 0 then
            (case rtc_rtp_ext_write_block RTP_MAX_EXT_LEN exts of
               Inl e \<Rightarrow> Inl e
             | Inr blk \<Rightarrow> Inr \<lparr>pkt_header = header, pkt_payload = payload,
                 pkt_ext_data = Some (drop 4 blk), pkt_ext_len = length blk - 4,
                 pkt_buf = b @ blk @ payload\<rparr>)
          else Inr \<lparr>pkt_header = header, pkt_payload = payload, pkt_ext_data = None,
                 pkt_ext_len = 0, pkt_buf = b @ payload\<rparr>)"

definition rtc_rtp_build ::
  "u8 \<Rightarrow> u16 \<Rightarrow> u32 \<Rightarrow> u32 \<Rightarrow> bool \<Rightarrow> bytes \<Rightarrow> rtc_err + rtc_rtp_packet" where
  "rtc_rtp_build pt seq ts ssrc marker payload = rtc_rtp_build_with_ext pt seq ts ssrc marker [] payload"

text \<open>\<open>old\<close> is the buffer of the packet structure before the call: it stays when the datagram is
  larger than the buffer.\<close>

definition rtc_rtp_parse :: "bytes \<Rightarrow> bytes \<Rightarrow> (rtc_err + rtc_rtp_packet) option" where
  "rtc_rtp_parse old data =
    (if length data < RTP_HEADER_SIZE then Some (Inl RTC_ERR_INVALID)
     else do {
       b0 \<leftarrow> rd8 data 0;
       let version = drop_bit 6 b0 AND 0x03;
       if version \<noteq> RTP_VERSION then Some (Inl RTC_ERR_INVALID)
       else do {
         b1 \<leftarrow> rd8 data 1;
         seq \<leftarrow> rd16 data 2;
         ts \<leftarrow> rd32 data 4;
         ssrc \<leftarrow> rd32 data 8;
         let extension = (drop_bit 4 b0 AND 0x01 = 1);
         let csrc = b0 AND 0x0F;
         let header = \<lparr>h_version = version, h_padding = (drop_bit 5 b0 AND 0x01 = 1),
           h_extension = extension, h_csrc_count = csrc, h_marker = (drop_bit 7 b1 AND 0x01 = 1),
           h_payload_type = b1 AND 0x7F, h_seq = seq, h_timestamp = ts, h_ssrc = ssrc\<rparr>;
         let hdr_len = RTP_HEADER_SIZE + unat csrc * 4;
         r \<leftarrow> (if extension then
                 (if hdr_len + 4 > length data then Some (Inl RTC_ERR_INVALID)
                  else do {
                    ext_words \<leftarrow> rd16 data (hdr_len + 2);
                    let ext_bytes = unat ext_words * 4;
                    if hdr_len + 4 + ext_bytes > length data then Some (Inl RTC_ERR_INVALID)
                    else Some (Inr (hdr_len + 4 + ext_bytes, ext_bytes))
                  })
               else Some (Inr (hdr_len, 0)));
         case r of
           Inl e \<Rightarrow> Some (Inl e)
         | Inr (hdr_len, ext_len) \<Rightarrow>
             if hdr_len > length data then Some (Inl RTC_ERR_INVALID)
             else do {
               payload \<leftarrow> rd_bytes data hdr_len (length data - hdr_len);
               let fits = (length data \<le> RTP_BUF_SIZE);
               let ext_offset = RTP_HEADER_SIZE + unat csrc * 4 + 4;
               ext_data \<leftarrow> (if fits \<and> extension \<and> ext_len > 0
                 then do { v \<leftarrow> rd_bytes data ext_offset ext_len; Some (Some v) } else Some None);
               Some (Inr \<lparr>pkt_header = header, pkt_payload = payload, pkt_ext_data = ext_data,
                 pkt_ext_len = ext_len, pkt_buf = (if fits then data else old)\<rparr>)
             }
       }
     })"

text \<open>\<open>ssrc\<close> and \<open>seq\<close> are the random values the session starts from.\<close>

definition rtc_rtp_session_init :: "u32 \<Rightarrow> u16 \<Rightarrow> u8 \<Rightarrow> u32 \<Rightarrow> rtc_rtp_session" where
  "rtc_rtp_session_init ssrc seq pt clock_rate =
    \<lparr>s_ssrc = ssrc, s_seq = seq, s_timestamp = 0, s_payload_type = pt, s_clock_rate = clock_rate\<rparr>"

definition rtc_rtp_session_send_with_ext ::
  "rtc_rtp_session \<Rightarrow> rtc_rtp_ext list \<Rightarrow> bytes \<Rightarrow> u32 \<Rightarrow> bool \<Rightarrow>
   (rtc_err + rtc_rtp_packet) \<times> rtc_rtp_session" where
  "rtc_rtp_session_send_with_ext sess exts payload samples marker =
    (case rtc_rtp_build_with_ext (s_payload_type sess) (s_seq sess) (s_timestamp sess) (s_ssrc sess)
            marker exts payload of
       Inl e \<Rightarrow> (Inl e, sess)
     | Inr pkt \<Rightarrow> (Inr pkt, sess\<lparr>s_seq := s_seq sess + 1, s_timestamp := s_timestamp sess + samples\<rparr>))"

definition rtc_rtp_session_send ::
  "rtc_rtp_session \<Rightarrow> bytes \<Rightarrow> u32 \<Rightarrow> bool \<Rightarrow> (rtc_err + rtc_rtp_packet) \<times> rtc_rtp_session" where
  "rtc_rtp_session_send sess payload samples marker =
    (case rtc_rtp_build (s_payload_type sess) (s_seq sess) (s_timestamp sess) (s_ssrc sess)
            marker payload of
       Inl e \<Rightarrow> (Inl e, sess)
     | Inr pkt \<Rightarrow> (Inr pkt, sess\<lparr>s_seq := s_seq sess + 1, s_timestamp := s_timestamp sess + samples\<rparr>))"

text \<open>A sender's run over frames (payload, samples, marker): the packets in order.\<close>

fun rtp_send_all :: "rtc_rtp_session \<Rightarrow> (bytes \<times> u32 \<times> bool) list \<Rightarrow> rtc_rtp_packet list \<times> rtc_rtp_session" where
  "rtp_send_all sess [] = ([], sess)"
| "rtp_send_all sess ((payload, samples, marker) # fs) =
    (let (r, sess') = rtc_rtp_session_send sess payload samples marker;
         (pkts, sess'') = rtp_send_all sess' fs
     in (case r of Inl _ \<Rightarrow> pkts | Inr pkt \<Rightarrow> pkt # pkts, sess''))"

subsection \<open>Lemmas\<close>

lemma length_rtp_fixed_header [simp]: "length (rtp_fixed_header x pt m s t c) = 12"
  by (simp add: rtp_fixed_header_def)

lemma rtp_fixed_header_reads:
  defines "h \<equiv> \<lambda>x pt m s t c r. rtp_fixed_header x pt m s t c @ r"
  shows "rd8 (h x pt m s t c r) 0 = Some (push_bit 6 RTP_VERSION OR (if x then 0x10 else 0))"
    "rd8 (h x pt m s t c r) 1 = Some ((pt AND 0x7F) OR (if m then 0x80 else 0))"
    "rd16 (h x pt m s t c r) 2 = Some s"
    "rd32 (h x pt m s t c r) 4 = Some t"
    "rd32 (h x pt m s t c r) 8 = Some c"
  by (simp_all add: h_def rtp_fixed_header_def write_u16_def write_u32_def rd16_def rd32_def)

lemma rtp_byte0:
  "drop_bit 6 (push_bit 6 RTP_VERSION OR (if x then 0x10 else 0)) AND 0x03 = RTP_VERSION"
  "(drop_bit 4 (push_bit 6 RTP_VERSION OR (if x then 0x10 else 0)) AND 0x01 = 1) = x"
  "(drop_bit 5 (push_bit 6 RTP_VERSION OR (if x then 0x10 else 0)) AND 0x01 = 1) = False"
  "(push_bit 6 RTP_VERSION OR (if x then 0x10 else 0)) AND 0x0F = 0"
  by (cases x; simp add: RTP_VERSION_def)+

lemma rtp_byte1:
  fixes pt :: u8
  assumes "unat pt < 128"
  shows "((pt AND 0x7F) OR (if m then 0x80 else 0)) AND 0x7F = pt"
    "(drop_bit 7 ((pt AND 0x7F) OR (if m then 0x80 else 0)) AND 0x01 = 1) = m"
proof -
  have pt: "pt AND 0x7F = pt" using assms by (simp add: and_masks take_bit_self)
  show "((pt AND 0x7F) OR (if m then 0x80 else 0)) AND 0x7F = pt"
    by (cases m) (simp_all add: bit.conj_disj_distrib2 pt)
  have "drop_bit 7 pt = 0" using assms by (intro drop_bit_zero) simp
  then show "(drop_bit 7 ((pt AND 0x7F) OR (if m then 0x80 else 0)) AND 0x01 = 1) = m"
    unfolding pt by (cases m) simp_all
qed

lemma rtp_build_cases:
  assumes "rtc_rtp_build_with_ext pt seq ts ssrc marker exts payload = Inr pkt"
  obtains (plain) "exts = []" "length payload \<le> 1400" "pkt_ext_data pkt = None" "pkt_ext_len pkt = 0"
      "pkt_buf pkt = rtp_fixed_header False pt marker seq ts ssrc @ payload"
    | (ext) blk where "exts \<noteq> []" "length payload \<le> 1400" "rtc_rtp_ext_write_block 64 exts = Inr blk"
      "pkt_ext_data pkt = Some (drop 4 blk)" "pkt_ext_len pkt = length blk - 4"
      "pkt_buf pkt = rtp_fixed_header True pt marker seq ts ssrc @ blk @ payload"
proof (cases "exts = []")
  case True
  then show thesis using assms plain
    by (auto simp: rtc_rtp_build_with_ext_def Let_def rtp_sizes split: if_splits)
next
  case False
  with assms obtain blk where "rtc_rtp_ext_write_block 64 exts = Inr blk"
    by (auto simp: rtc_rtp_build_with_ext_def Let_def rtp_sizes split: if_splits sum.splits)
  with False show thesis using assms ext [of blk]
    by (auto simp: rtc_rtp_build_with_ext_def Let_def rtp_sizes split: if_splits)
qed

text \<open>The bytes of a built header as the parser decodes them.\<close>

lemma rtp_header_decoded:
  assumes "unat pt < 128"
  obtains b0 b1 where
    "rd8 (rtp_fixed_header x pt m s t c @ r) 0 = Some b0"
    "rd8 (rtp_fixed_header x pt m s t c @ r) 1 = Some b1"
    "drop_bit 6 b0 AND 0x03 = RTP_VERSION" "(drop_bit 4 b0 AND 0x01 = 1) = x"
    "(drop_bit 5 b0 AND 0x01 = 1) = False" "b0 AND 0x0F = 0"
    "b1 AND 0x7F = pt" "(drop_bit 7 b1 AND 0x01 = 1) = m"
  by (rule that) (rule rtp_fixed_header_reads rtp_byte0 rtp_byte1 [OF assms])+

lemma rtp_parse_plain:
  assumes "unat pt < 128" "length payload \<le> 1400"
  shows "rtc_rtp_parse old (rtp_fixed_header False pt marker seq ts ssrc @ payload) =
    Some (Inr \<lparr>pkt_header = \<lparr>h_version = RTP_VERSION, h_padding = False, h_extension = False,
        h_csrc_count = 0, h_marker = marker, h_payload_type = pt, h_seq = seq,
        h_timestamp = ts, h_ssrc = ssrc\<rparr>, pkt_payload = payload, pkt_ext_data = None,
      pkt_ext_len = 0, pkt_buf = rtp_fixed_header False pt marker seq ts ssrc @ payload\<rparr>)"
proof -
  obtain b0 b1 where b: "rd8 (rtp_fixed_header False pt marker seq ts ssrc @ payload) 0 = Some b0"
    "rd8 (rtp_fixed_header False pt marker seq ts ssrc @ payload) 1 = Some b1"
    "drop_bit 6 b0 AND 0x03 = RTP_VERSION" "(drop_bit 4 b0 AND 0x01 = 1) = False"
    "(drop_bit 5 b0 AND 0x01 = 1) = False" "b0 AND 0x0F = 0"
    "b1 AND 0x7F = pt" "(drop_bit 7 b1 AND 0x01 = 1) = marker"
    using rtp_header_decoded [OF assms(1)] .
  show ?thesis
    unfolding rtc_rtp_parse_def b bind.bind_lunit Let_def rtp_fixed_header_reads(3-5)
    using assms(2) by (simp add: rtp_sizes)
qed

lemma rtp_parse_ext:
  assumes "unat pt < 128" "length payload \<le> 1400" "length blk \<le> 64"
    "rd16 blk 2 = Some words" "4 + unat words * 4 = length blk"
  shows "rtc_rtp_parse old (rtp_fixed_header True pt marker seq ts ssrc @ blk @ payload) =
    Some (Inr \<lparr>pkt_header = \<lparr>h_version = RTP_VERSION, h_padding = False, h_extension = True,
        h_csrc_count = 0, h_marker = marker, h_payload_type = pt, h_seq = seq,
        h_timestamp = ts, h_ssrc = ssrc\<rparr>, pkt_payload = payload,
      pkt_ext_data = (if length blk > 4 then Some (drop 4 blk) else None),
      pkt_ext_len = length blk - 4,
      pkt_buf = rtp_fixed_header True pt marker seq ts ssrc @ blk @ payload\<rparr>)"
proof -
  let ?d = "rtp_fixed_header True pt marker seq ts ssrc @ blk @ payload"
  obtain b0 b1 where b: "rd8 ?d 0 = Some b0" "rd8 ?d 1 = Some b1"
    "drop_bit 6 b0 AND 0x03 = RTP_VERSION" "(drop_bit 4 b0 AND 0x01 = 1) = True"
    "(drop_bit 5 b0 AND 0x01 = 1) = False" "b0 AND 0x0F = 0"
    "b1 AND 0x7F = pt" "(drop_bit 7 b1 AND 0x01 = 1) = marker"
    using rtp_header_decoded [OF assms(1)] .
  have w: "rd16 ?d 14 = Some words"
    using assms(4,5) by (subst rd16_append_right) (simp_all add: nth_append)
  have ext: "rd_bytes ?d 16 (length blk - 4) = Some (drop 4 blk)"
    using assms(5) by (simp add: rd_bytes_def)
  have len: "unat words * 4 = length blk - 4" using assms(5) by simp
  show ?thesis
    unfolding rtc_rtp_parse_def b bind.bind_lunit Let_def rtp_fixed_header_reads(3-5)
    using assms(2,3,5) w ext by (simp add: rtp_sizes len)
qed

subsection \<open>Properties\<close>

text \<open>
  C26. The RTP parser never reads outside the datagram, whatever its bytes: CSRC count,
  extension length and truncation included. A packet it accepts has version 2 and is the header
  part followed by its payload.
\<close>

theorem rtp_parse_safe:
  "\<exists>r. rtc_rtp_parse old data = Some r \<and>
    (\<forall>pkt. r = Inr pkt \<longrightarrow> h_version (pkt_header pkt) = RTP_VERSION \<and>
       (\<exists>n \<ge> 12. n \<le> length data \<and> pkt_payload pkt = drop n data))"
proof (cases "length data < 12")
  case True
  then show ?thesis by (simp add: rtc_rtp_parse_def rtp_sizes)
next
  case False
  then have l: "11 < length data" by simp
  have r: "rd8 data 0 = Some (data ! 0)" "rd8 data 1 = Some (data ! 1)"
    using l by (rule_tac rd8_in, linarith)+
  obtain s t c where stc: "rd16 data 2 = Some s" "rd32 data 4 = Some t" "rd32 data 8 = Some c"
    using l by simp
  have cut: "\<exists>m \<ge> 12. m \<le> length data \<and> drop n data = drop m data"
    if "12 \<le> n" "n \<le> length data" for n using that by blast
  show ?thesis
    unfolding rtc_rtp_parse_def r(1,2) stc bind.bind_lunit Let_def
    using False by (auto simp: rtp_sizes not_less not_le intro!: cut)
qed

theorem rtp_parse_safe_witness:
  "\<exists>r. rtc_rtp_parse [] [0x9F, 0, 0, 1] = Some r \<and>
    (\<forall>pkt. r = Inr pkt \<longrightarrow> h_version (pkt_header pkt) = RTP_VERSION \<and>
       (\<exists>n \<ge> 12. n \<le> length [0x9F, 0, 0, 1 :: u8] \<and> pkt_payload pkt = drop n [0x9F, 0, 0, 1]))"
  by (rule rtp_parse_safe)

text \<open>
  C25. Parsing the bytes of a packet that was built, with a payload type below 128 and extensions whose length fields
  are right, returns the fields, the payload and the header extensions it was built from.
\<close>

theorem rtp_build_parse_roundtrip:
  assumes "rtc_rtp_build_with_ext pt seq ts ssrc marker exts payload = Inr pkt" "unat pt < 128"
    and "\<forall>e \<in> set exts. unat (ext_vlen e) = length (ext_val e)"
  shows "\<exists>pkt'. rtc_rtp_parse old (pkt_buf pkt) = Some (Inr pkt') \<and>
    h_payload_type (pkt_header pkt') = pt \<and> h_seq (pkt_header pkt') = seq \<and>
    h_timestamp (pkt_header pkt') = ts \<and> h_ssrc (pkt_header pkt') = ssrc \<and>
    h_marker (pkt_header pkt') = marker \<and> pkt_payload pkt' = payload \<and>
    h_extension (pkt_header pkt') = (exts \<noteq> []) \<and>
    (exts \<noteq> [] \<longrightarrow> (\<exists>d. pkt_ext_data pkt' = Some d \<and>
       rtc_rtp_ext_parse_body d (pkt_ext_len pkt') (length exts) = Some (Inr exts)))"
proof (cases rule: rtp_build_cases [OF assms(1)])
  case 1
  then show ?thesis using rtp_parse_plain [OF assms(2)] by simp
next
  case (2 blk)
  obtain p where p: "list_all ext_ok exts" "p < 4"
    "(length (concat (map ext_image exts)) + p) mod 4 = 0"
    "blk = write_u16 RTC_RTP_EXT_PROFILE_ONE_BYTE @
       write_u16 (of_nat ((length (concat (map ext_image exts)) + p) div 4)) @
       concat (map ext_image exts) @ replicate p 0" "length blk \<le> 64"
    using ext_write_block_Inr [OF 2(3) assms(3)] .
  have rt: "rtc_rtp_ext_parse_body (drop 4 blk) (length blk - 4) (length exts) = Some (Inr exts)"
    "\<exists>words. rd16 blk 2 = Some words \<and> 4 + unat words * 4 = length blk"
    using ext_block_roundtrip [OF 2(3) _ assms(3), of "length exts"] by auto
  then obtain words where w: "rd16 blk 2 = Some words" "4 + unat words * 4 = length blk" by blast
  have "length blk > 4" using 2(1) p(4) by (cases exts) (simp_all add: ext_image_def)
  then show ?thesis using rtp_parse_ext [OF assms(2) 2(2) p(5) w] rt(1) 2 by simp
qed

definition rtp_sample_exts :: "rtc_rtp_ext list" where
  "rtp_sample_exts = [rtc_rtp_ext_make_transport_cc 3 0x1234]"

theorem rtp_build_parse_roundtrip_witness:
  "\<exists>pkt. rtc_rtp_build_with_ext 96 65535 1000 0xCAFE True rtp_sample_exts [1, 2, 3] = Inr pkt \<and>
    (\<exists>pkt'. rtc_rtp_parse [] (pkt_buf pkt) = Some (Inr pkt') \<and> pkt_payload pkt' = [1, 2, 3])"
proof -
  have blk: "rtc_rtp_ext_write_block 64 rtp_sample_exts = Inr [0xBE, 0xDE, 0, 1, 0x31, 0x12, 0x34, 0]"
    by code_simp
  then obtain pkt where pkt: "rtc_rtp_build_with_ext 96 65535 1000 0xCAFE True rtp_sample_exts [1, 2, 3] = Inr pkt"
    by (simp add: rtc_rtp_build_with_ext_def rtp_sizes Let_def rtp_sample_exts_def)
  have "\<forall>e \<in> set rtp_sample_exts. unat (ext_vlen e) = length (ext_val e)"
    by (simp add: rtp_sample_exts_def rtc_rtp_ext_make_transport_cc_def)
  with rtp_build_parse_roundtrip [OF pkt, of "[]"] pkt show ?thesis by auto
qed

text \<open>
  A built packet, extension block included, leaves room for the 16-byte authentication
  tag in the packet's fixed buffer: no build writes past its end.
\<close>

theorem rtp_build_fits:
  assumes "rtc_rtp_build_with_ext pt seq ts ssrc marker exts payload = Inr pkt"
  shows "length (pkt_buf pkt) + RTP_SRTP_PAD \<le> RTP_BUF_SIZE"
proof (cases rule: rtp_build_cases [OF assms])
  case (2 blk)
  have "length blk \<le> 64"
    using 2(3) by (auto simp: rtc_rtp_ext_write_block_def Let_def split: if_splits sum.splits)
  then show ?thesis using 2 by (simp add: rtp_sizes)
qed (simp add: rtp_sizes)

theorem rtp_build_fits_witness:
  "\<exists>pkt. rtc_rtp_build_with_ext 111 0 0 1 False [] (replicate 1400 7) = Inr pkt \<and>
    length (pkt_buf pkt) + RTP_SRTP_PAD \<le> RTP_BUF_SIZE"
proof -
  obtain pkt where "rtc_rtp_build_with_ext 111 0 0 1 False [] (replicate 1400 7) = Inr pkt"
    by (simp add: rtc_rtp_build_with_ext_def rtp_sizes Let_def)
  with rtp_build_fits [OF this] show ?thesis by blast
qed

lemma rtp_session_send_ok:
  assumes "length payload \<le> 1400"
  obtains pkt where "rtc_rtp_session_send sess payload samples marker =
      (Inr pkt, sess\<lparr>s_seq := s_seq sess + 1, s_timestamp := s_timestamp sess + samples\<rparr>)"
    "h_seq (pkt_header pkt) = s_seq sess" "h_timestamp (pkt_header pkt) = s_timestamp sess"
    "pkt_payload pkt = payload"
  using assms
  by (auto simp: rtc_rtp_session_send_def rtc_rtp_build_def rtc_rtp_build_with_ext_def rtp_sizes Let_def)

definition frame_fits :: "bytes \<times> u32 \<times> bool \<Rightarrow> bool" where
  "frame_fits f \<longleftrightarrow> length (fst f) \<le> RTP_MAX_PACKET"

lemma rtp_send_all_fits:
  assumes "list_all frame_fits fs" "rtp_send_all sess fs = (pkts, sess')"
  shows "map pkt_payload pkts = map fst fs \<and>
      map (\<lambda>p. h_seq (pkt_header p)) pkts = map (\<lambda>i. s_seq sess + of_nat i) [0 ..< length fs] \<and>
      map (\<lambda>p. h_timestamp (pkt_header p)) pkts =
        map (\<lambda>i. s_timestamp sess + sum_list (map (\<lambda>f. fst (snd f)) (take i fs))) [0 ..< length fs] \<and>
      s_seq sess' = s_seq sess + of_nat (length fs)"
  using assms
proof (induction fs arbitrary: sess pkts)
  case (Cons f fs)
  obtain payload samples marker where f: "f = (payload, samples, marker)" by (cases f)
  then have fit: "length payload \<le> 1400" using Cons.prems by (simp add: frame_fits_def rtp_sizes)
  let ?s = "sess\<lparr>s_seq := s_seq sess + 1, s_timestamp := s_timestamp sess + samples\<rparr>"
  obtain pkt where pkt: "rtc_rtp_session_send sess payload samples marker = (Inr pkt, ?s)"
    "h_seq (pkt_header pkt) = s_seq sess" "h_timestamp (pkt_header pkt) = s_timestamp sess"
    "pkt_payload pkt = payload"
    using rtp_session_send_ok [OF fit] .
  obtain pkts' where r: "rtp_send_all ?s fs = (pkts', sess')" "pkts = pkt # pkts'"
    using Cons.prems(2) pkt(1) f by (auto split: prod.splits)
  have "list_all frame_fits fs" using Cons.prems by simp
  from Cons.IH [OF this r(1)] show ?case
    using pkt(2-4) f r(2) by (simp add: map_upt_Suc add.assoc del: upt_Suc)
qed simp

lemma rtp_send_all_filter: "rtp_send_all sess fs = rtp_send_all sess (filter frame_fits fs)"
proof (induction fs arbitrary: sess)
  case (Cons f fs)
  obtain payload samples marker where f: "f = (payload, samples, marker)" by (cases f)
  show ?case
  proof (cases "frame_fits f")
    case False
    then have "rtc_rtp_session_send sess payload samples marker = (Inl RTC_ERR_INVALID, sess)"
      by (simp add: rtc_rtp_session_send_def rtc_rtp_build_def rtc_rtp_build_with_ext_def frame_fits_def f)
    then show ?thesis using Cons [of sess] False f by (simp split: prod.splits)
  next
    case True
    then show ?thesis using Cons f by simp
  qed
qed simp

text \<open>
  C38. The packets of a session carry the frames in order, with consecutive sequence
  numbers modulo 65536 and each timestamp advanced by the samples of the frames before it; a frame
  larger than a packet is refused and consumes neither.
\<close>

theorem rtp_session_sequence:
  "case rtp_send_all sess fs of (pkts, sess') \<Rightarrow>
     (let sent = filter frame_fits fs in
      map pkt_payload pkts = map fst sent \<and>
      map (\<lambda>p. h_seq (pkt_header p)) pkts = map (\<lambda>i. s_seq sess + of_nat i) [0 ..< length sent] \<and>
      map (\<lambda>p. h_timestamp (pkt_header p)) pkts =
        map (\<lambda>i. s_timestamp sess + sum_list (map (\<lambda>f. fst (snd f)) (take i sent))) [0 ..< length sent] \<and>
      s_seq sess' = s_seq sess + of_nat (length sent))"
proof -
  obtain pkts sess' where r: "rtp_send_all sess (filter frame_fits fs) = (pkts, sess')" by fastforce
  have "list_all frame_fits (filter frame_fits fs)" by (simp add: list_all_iff)
  from rtp_send_all_fits [OF this r] show ?thesis
    using rtp_send_all_filter [of sess fs] r by (simp add: Let_def)
qed

end
