(* ===== verification/Seq_Ring.thy ===== *)
theory Seq_Ring
  imports Prelude
begin

text \<open>
  The contract of the sender's histories: rings of \<open>size\<close> slots indexed by the low bits of a
  16-bit sequence number, where a slot remembers which number it holds. The retransmission buffer
  (\<^verbatim>\<open>rtc_nack_buf.c\<close>) and the transport-wide history (\<^verbatim>\<open>rtc_twcc_sender.c\<close>) implement it. Under the
  contract the last \<open>size\<close> numbers of a consecutive run are all found, and no lookup ever
  answers with the data of another number.
\<close>

text \<open>Storing values under consecutive sequence numbers from \<open>s\<close> on.\<close>

fun put_run :: "('r \<Rightarrow> u16 \<Rightarrow> 'd \<Rightarrow> 'r) \<Rightarrow> 'r \<Rightarrow> u16 \<Rightarrow> 'd list \<Rightarrow> 'r" where
  "put_run put r s [] = r"
| "put_run put r s (d # ds) = put_run put (put r s d) (s + 1) ds"

definition same_slot :: "nat \<Rightarrow> u16 \<Rightarrow> u16 \<Rightarrow> bool" where
  "same_slot n s t \<longleftrightarrow> unat s mod n = unat t mod n"

locale seq_ring =
  fixes size :: nat
    and put :: "'r \<Rightarrow> u16 \<Rightarrow> 'd \<Rightarrow> 'r"
    and look :: "'r \<Rightarrow> u16 \<Rightarrow> 'd option"
    and ok :: "'r \<Rightarrow> bool"
    and fits :: "'d \<Rightarrow> bool"
  assumes size_dvd: "size dvd 2 ^ 16"
    and ok_put: "ok r \<Longrightarrow> ok (put r s d)"
    and look_put: "ok r \<Longrightarrow> fits d \<Longrightarrow> look (put r s d) t =
      (if t = s then Some d else if same_slot size s t then None else look r t)"
begin

lemma size_pos: "0 < size"
  using size_dvd by (auto intro: Nat.gr0I)

lemma unat_add_mod: "unat (s + of_nat i :: u16) mod size = (unat s + i) mod size"
proof -
  have "unat (s + of_nat i) = (unat s + i) mod 2 ^ 16"
    by (simp add: unat_word_ariths unat_of_nat mod_simps)
  then show ?thesis using size_dvd by (simp add: mod_mod_cancel)
qed

text \<open>Two numbers less than \<open>size\<close> apart never share a slot.\<close>

lemma slots_apart:
  assumes "i < j" "j < i + size"
  shows "\<not> same_slot size (s + of_nat i) (s + of_nat j)"
proof
  assume "same_slot size (s + of_nat i) (s + of_nat j)"
  then have "(unat s + i) mod size = (unat s + j) mod size"
    by (simp add: same_slot_def unat_add_mod)
  then have "size dvd (unat s + j) - (unat s + i)"
    using assms by (subst mod_eq_dvd_iff_nat [symmetric]) auto
  then have "size dvd j - i" by simp
  moreover have "0 < j - i" "j - i < size" using assms by auto
  ultimately show False using dvd_imp_le by fastforce
qed

lemma ok_put_run: "ok r \<Longrightarrow> ok (put_run put r s ds)"
  by (induction ds arbitrary: r s) (auto intro: ok_put)

text \<open>A value survives a run that does not reach its slot again.\<close>

lemma look_run_later:
  assumes "ok r" "list_all fits ds" "look r t = Some d"
    "\<And>i. i < length ds \<Longrightarrow> \<not> same_slot size (s + of_nat i) t"
  shows "look (put_run put r s ds) t = Some d"
  using assms
proof (induction ds arbitrary: r s)
  case (Cons x xs)
  have "\<not> same_slot size s t" using Cons.prems(4) [of 0] by simp
  then have "look (put r s x) t = Some d"
    using look_put [of r x s t] Cons.prems by (auto simp: same_slot_def)
  moreover have "\<not> same_slot size (s + 1 + of_nat i) t" if "i < length xs" for i
    using Cons.prems(4) [of "Suc i"] that by (simp add: add.assoc)
  ultimately show ?case using Cons.IH [OF ok_put [OF Cons.prems(1)]] Cons.prems(2) by simp
qed simp

lemma look_run:
  assumes "ok r" "list_all fits ds" "i < length ds" "length ds \<le> i + size"
  shows "look (put_run put r s ds) (s + of_nat i) = Some (ds ! i)"
  using assms
proof (induction ds arbitrary: r s i)
  case (Cons x xs)
  show ?case
  proof (cases i)
    case 0
    have "look (put r s x) s = Some x" using look_put [OF Cons.prems(1), of x s s] Cons.prems(2) by simp
    moreover have "\<not> same_slot size (s + 1 + of_nat j) s" if "j < length xs" for j
      using slots_apart [of 0 "Suc j" s] that Cons.prems(4) 0 by (auto simp: same_slot_def add.assoc)
    ultimately show ?thesis
      using look_run_later [OF ok_put [OF Cons.prems(1)]] Cons.prems(2) 0 by simp
  next
    case (Suc j)
    then show ?thesis
      using Cons.IH [of "put r s x" j "s + 1"] Cons.prems ok_put by (simp add: add.assoc)
  qed
qed simp

text \<open>No lookup answers with a value that was not stored under that very number.\<close>

lemma look_run_sound:
  assumes "ok r" "list_all fits ds" "look (put_run put r s ds) t = Some d"
  shows "look r t = Some d \<or> (\<exists>i < length ds. t = s + of_nat i \<and> d = ds ! i)"
  using assms
proof (induction ds arbitrary: r s)
  case (Cons x xs)
  from Cons.IH [of "put r s x" "s + 1"] Cons.prems ok_put
  consider "look (put r s x) t = Some d" | i where "i < length xs" "t = s + 1 + of_nat i" "d = xs ! i"
    by auto
  then show ?case
  proof cases
    case 1
    then have "look r t = Some d \<or> t = s \<and> d = x"
      using look_put [of r x s t] Cons.prems by (auto split: if_splits)
    then show ?thesis by (auto intro: exI [of _ 0])
  next
    case 2
    then have "Suc i < length (x # xs) \<and> t = s + of_nat (Suc i) \<and> d = (x # xs) ! Suc i"
      by (simp add: add.assoc)
    then show ?thesis by blast
  qed
qed simp

end

end
