(* ===== verification/Nack_Buf.thy ===== *)
theory Nack_Buf
  imports Seq_Ring
begin

text \<open>
  \<^verbatim>\<open>rtc/src/rtc_nack_buf.c\<close>: the ring of sent packets from which NACKed packets are retransmitted.
  A slot holds the packet bytes and the transport-wide sequence number they carried. The
  interpretation \<open>nack\<close> shows that the buffer meets the contract of \<open>Seq_Ring\<close> for every
  capacity.
\<close>

subsection \<open>Data and operations\<close>

definition NACK_BUF_DEFAULT_SIZE :: int where "NACK_BUF_DEFAULT_SIZE = 512"
definition NACK_BUF_MAX_PKT_SIZE :: nat where "NACK_BUF_MAX_PKT_SIZE = 1500"
definition RTC_NACK_MAX_RETRANSMITS :: u8 where "RTC_NACK_MAX_RETRANSMITS = 10"

record rtc_nack_slot =
  ns_data :: bytes
  ns_seq :: u16
  ns_twcc_seq :: u16
  ns_retransmit_count :: u8
  ns_has_twcc :: bool
  ns_used :: bool

record rtc_nack_buf =
  nb_slots :: "rtc_nack_slot list"
  nb_capacity :: nat
  nb_mask :: nat

text \<open>The shifts of the C code are on a non-negative \<^verbatim>\<open>int\<close>, so they are logical ones.\<close>

definition next_pow2 :: "u32 \<Rightarrow> u32" where
  "next_pow2 v =
    (let v = v - 1;
         v = v OR drop_bit 1 v;
         v = v OR drop_bit 2 v;
         v = v OR drop_bit 4 v;
         v = v OR drop_bit 8 v;
         v = v OR drop_bit 16 v;
         v = v + 1
     in if sint v < 2 then 2 else v)"

definition nack_slot_zero :: rtc_nack_slot where
  "nack_slot_zero = \<lparr>ns_data = [], ns_seq = 0, ns_twcc_seq = 0, ns_retransmit_count = 0,
     ns_has_twcc = False, ns_used = False\<rparr>"

text \<open>\<open>a\<close> is the outcome of the two allocations; \<open>None\<close> is \<^verbatim>\<open>NULL\<close>.\<close>

definition rtc_nack_buf_create :: "bool \<Rightarrow> int \<Rightarrow> rtc_nack_buf option" where
  "rtc_nack_buf_create a max_packets =
    (let max_packets = (if max_packets \<le> 0 then NACK_BUF_DEFAULT_SIZE else max_packets);
         capacity = unat (next_pow2 (word_of_int max_packets))
     in if a then Some \<lparr>nb_slots = replicate capacity nack_slot_zero, nb_capacity = capacity,
          nb_mask = capacity - 1\<rparr> else None)"

definition rtc_nack_buf_store :: "rtc_nack_buf \<Rightarrow> bytes \<Rightarrow> u16 \<Rightarrow> bool \<Rightarrow> u16 \<Rightarrow> rtc_nack_buf" where
  "rtc_nack_buf_store buf pkt seq has_twcc twcc_seq =
    (if length pkt = 0 \<or> length pkt > NACK_BUF_MAX_PKT_SIZE then buf
     else
       let idx = unat seq AND nb_mask buf
       in buf\<lparr>nb_slots := (nb_slots buf)[idx := \<lparr>ns_data = pkt, ns_seq = seq, ns_twcc_seq = twcc_seq,
            ns_retransmit_count = 0, ns_has_twcc = has_twcc, ns_used = True\<rparr>]\<rparr>)"

definition rtc_nack_buf_get :: "rtc_nack_buf \<Rightarrow> u16 \<Rightarrow> bytes option" where
  "rtc_nack_buf_get buf seq =
    (let slot = nb_slots buf ! (unat seq AND nb_mask buf)
     in if \<not> ns_used slot \<or> ns_seq slot \<noteq> seq then None else Some (ns_data slot))"

text \<open>The packet to send and its transport-wide number (0 for none), with the slot's counter
  advanced; \<open>None\<close> when the caller must not send.\<close>

definition rtc_nack_buf_retransmit :: "rtc_nack_buf \<Rightarrow> u16 \<Rightarrow> (bytes \<times> u16) option \<times> rtc_nack_buf" where
  "rtc_nack_buf_retransmit buf seq =
    (let idx = unat seq AND nb_mask buf;
         slot = nb_slots buf ! idx
     in if \<not> ns_used slot \<or> ns_seq slot \<noteq> seq then (None, buf)
        else if ns_retransmit_count slot \<ge> RTC_NACK_MAX_RETRANSMITS then (None, buf)
        else (Some (ns_data slot, if ns_has_twcc slot then ns_twcc_seq slot else 0),
          buf\<lparr>nb_slots := (nb_slots buf)[idx :=
            slot\<lparr>ns_retransmit_count := ns_retransmit_count slot + 1\<rparr>]\<rparr>))"

text \<open>The packets sent when \<open>k\<close> NACKs for the same number arrive.\<close>

fun retransmit_n :: "nat \<Rightarrow> rtc_nack_buf \<Rightarrow> u16 \<Rightarrow> (bytes \<times> u16) list" where
  "retransmit_n 0 buf seq = []"
| "retransmit_n (Suc k) buf seq =
    (case rtc_nack_buf_retransmit buf seq of
       (None, buf') \<Rightarrow> retransmit_n k buf' seq
     | (Some p, buf') \<Rightarrow> p # retransmit_n k buf' seq)"

subsection \<open>The capacity\<close>

lemma smear_step:
  fixes v w :: u32
  assumes "\<And>n. bit v n \<longleftrightarrow> (\<exists>m. n \<le> m \<and> m < n + k \<and> bit w m)"
  shows "bit (v OR drop_bit k v) n \<longleftrightarrow> (\<exists>m. n \<le> m \<and> m < n + 2 * k \<and> bit w m)"
proof -
  have "n \<le> m \<and> m < n + 2 * k \<longleftrightarrow> (n \<le> m \<and> m < n + k) \<or> (k + n \<le> m \<and> m < k + n + k)" for m
    by auto
  then have "(\<exists>m. n \<le> m \<and> m < n + 2 * k \<and> bit w m) \<longleftrightarrow>
    (\<exists>m. n \<le> m \<and> m < n + k \<and> bit w m) \<or> (\<exists>m. k + n \<le> m \<and> m < k + n + k \<and> bit w m)"
    by blast
  then show ?thesis using assms by (simp add: bit_simps)
qed

definition smear :: "u32 \<Rightarrow> u32" where
  "smear v = (let v = v OR drop_bit 1 v; v = v OR drop_bit 2 v; v = v OR drop_bit 4 v;
     v = v OR drop_bit 8 v in v OR drop_bit 16 v)"

lemma bit_smear: "bit (smear w) n \<longleftrightarrow> (\<exists>m \<ge> n. bit w m)"
proof -
  have 0: "bit w n \<longleftrightarrow> (\<exists>m. n \<le> m \<and> m < n + 1 \<and> bit w m)" for n
    by (auto simp: less_Suc_eq_le dest: antisym)
  note 1 = smear_step [OF 0]
  note 2 = smear_step [OF 1, simplified]
  note 3 = smear_step [OF 2, simplified]
  note 4 = smear_step [OF 3, simplified]
  note 5 = smear_step [OF 4, simplified]
  have "(\<exists>m. n \<le> m \<and> m < n + 32 \<and> bit w m) \<longleftrightarrow> (\<exists>m \<ge> n. bit w m)"
    using bit_imp_le_length [of w] by fastforce
  then show ?thesis using 5 [of n] by (simp add: smear_def Let_def)
qed

lemma smear_mask:
  assumes "bit w k" "\<And>m. k < m \<Longrightarrow> \<not> bit w m"
  shows "smear w = mask (Suc k)"
proof (rule bit_word_eqI)
  fix n assume "n < LENGTH(32)"
  have "(\<exists>m \<ge> n. bit w m) \<longleftrightarrow> n \<le> k" using assms by (meson le_trans not_less)
  then show "bit (smear w) n = bit (mask (Suc k) :: u32) n"
    using \<open>n < LENGTH(32)\<close> by (simp add: bit_smear bit_mask_iff less_Suc_eq_le)
qed

lemma smear_top:
  assumes "0 < unat w" "unat w < 2 ^ 30"
  shows "\<exists>k < 30. smear w = mask (Suc k) \<and> 2 ^ k \<le> unat w \<and> unat w < 2 ^ Suc k"
proof -
  obtain k where k: "2 ^ k \<le> unat w" "unat w < 2 ^ Suc k"
    using ex_power_ivl1 [of 2 "unat w"] assms(1) by auto
  then have "(2::nat) ^ k < 2 ^ 30" using assms(2) by linarith
  then have "k < 30" by (rule power_less_imp_less_exp [rotated]) simp
  have bit: "bit w n \<longleftrightarrow> odd (unat w div 2 ^ n)" for n
    using bit_iff_odd [of "unat w" n] by (simp add: bit_unsigned_iff)
  have "unat w div 2 ^ k = 1"
  proof -
    have "unat w div 2 ^ k < 2" using k(2) by (simp add: less_mult_imp_div_less)
    moreover have "1 \<le> unat w div 2 ^ k" using k(1) by (simp add: div_greater_zero_iff Suc_le_eq)
    ultimately show ?thesis by simp
  qed
  then have "bit w k" by (simp add: bit)
  moreover have "\<not> bit w m" if "k < m" for m
  proof -
    have "(2::nat) ^ Suc k \<le> 2 ^ m" using that by (intro power_increasing) auto
    then have "unat w div 2 ^ m = 0" using k(2) by (intro div_less) linarith
    then show ?thesis by (simp add: bit)
  qed
  ultimately show ?thesis using smear_mask \<open>k < 30\<close> k by blast
qed

lemma next_pow2_spec:
  assumes "0 < v" "v \<le> (2::nat) ^ 30"
  shows "\<exists>b \<ge> 1. b \<le> 30 \<and> unat (next_pow2 (of_nat v)) = 2 ^ b \<and> v \<le> 2 ^ b \<and> (v = 1 \<or> 2 ^ b < 2 * v)"
proof (cases "v = 1")
  case True
  then show ?thesis by (intro exI [of _ 1]) (simp add: next_pow2_def)
next
  case False
  let ?w = "of_nat v - 1 :: u32"
  have "unat (of_nat v :: u32) = v" using assms(2) by (simp add: unat_of_nat)
  then have w: "unat ?w = v - 1" using assms(1) by (subst unat_minus_one) auto
  have "0 < v - 1" "v - 1 < 2 ^ 30" using assms False by linarith+
  then obtain k where k: "k < 30" "smear ?w = mask (Suc k)" "2 ^ k \<le> v - 1" "v - 1 < 2 ^ Suc k"
    using smear_top [of ?w] w by auto
  have "mask (Suc k) + 1 = (2 ^ Suc k :: u32)" by (simp add: mask_eq_exp_minus_1)
  then have sm: "smear ?w + 1 = 2 ^ Suc k" using k(2) by simp
  have u: "unat (2 ^ Suc k :: u32) = 2 ^ Suc k"
  proof -
    have "(2::nat) ^ Suc k < 2 ^ 32" using k(1) by (intro power_strict_increasing) auto
    then have "unat (of_nat (2 ^ Suc k) :: u32) = 2 ^ Suc k" by (simp only: unat_of_nat) simp
    then show ?thesis by simp
  qed
  have "\<not> sint (2 ^ Suc k :: u32) < 2"
  proof -
    have "unat (2 ^ Suc k :: u32) < 2 ^ 31"
      unfolding u using k(1) by (intro power_strict_increasing) auto
    then have "sint (2 ^ Suc k :: u32) = int (unat (2 ^ Suc k :: u32))"
      by (simp add: sint_unat)
    then have "sint (2 ^ Suc k :: u32) = 2 ^ Suc k" unfolding u by simp
    moreover have "(1::int) \<le> 2 ^ k" by (rule one_le_power) simp
    ultimately show ?thesis by (simp add: not_less)
  qed
  then have "next_pow2 (of_nat v) = 2 ^ Suc k"
    using sm by (simp add: next_pow2_def smear_def Let_def)
  then show ?thesis using u k assms False by (intro exI [of _ "Suc k"]) auto
qed

subsection \<open>The ring\<close>

definition nack_ok :: "nat \<Rightarrow> rtc_nack_buf \<Rightarrow> bool" where
  "nack_ok b buf \<longleftrightarrow> nb_capacity buf = 2 ^ b \<and> nb_mask buf = nb_capacity buf - 1 \<and>
     length (nb_slots buf) = nb_capacity buf"

text \<open>A stored item: the packet, whether it carried a transport-wide number, and which.\<close>

type_synonym nack_item = "bytes \<times> bool \<times> u16"

definition nack_put :: "rtc_nack_buf \<Rightarrow> u16 \<Rightarrow> nack_item \<Rightarrow> rtc_nack_buf" where
  "nack_put buf seq it = (case it of (pkt, has_twcc, twcc) \<Rightarrow> rtc_nack_buf_store buf pkt seq has_twcc twcc)"

definition nack_look :: "rtc_nack_buf \<Rightarrow> u16 \<Rightarrow> nack_item option" where
  "nack_look buf seq =
    (let slot = nb_slots buf ! (unat seq AND nb_mask buf)
     in if \<not> ns_used slot \<or> ns_seq slot \<noteq> seq then None
        else Some (ns_data slot, ns_has_twcc slot, ns_twcc_seq slot))"

definition nack_fits :: "nack_item \<Rightarrow> bool" where
  "nack_fits it \<longleftrightarrow> 0 < length (fst it) \<and> length (fst it) \<le> NACK_BUF_MAX_PKT_SIZE"

lemma nack_index:
  assumes "nack_ok b buf"
  shows "unat (s::u16) AND nb_mask buf = unat s mod 2 ^ b" "unat s AND nb_mask buf < length (nb_slots buf)"
proof -
  have "nb_mask buf = mask b" using assms by (simp add: nack_ok_def mask_eq_exp_minus_1)
  then show "unat s AND nb_mask buf = unat s mod 2 ^ b" by (simp add: take_bit_eq_mask [symmetric] take_bit_eq_mod)
  then show "unat s AND nb_mask buf < length (nb_slots buf)" using assms by (simp add: nack_ok_def)
qed

lemma same_slot_pow2: "same_slot (2 ^ min b 16) s t \<longleftrightarrow> unat s mod 2 ^ b = unat t mod 2 ^ b"
proof (cases "b \<le> 16")
  case False
  then have "(2::nat) ^ 16 \<le> 2 ^ b" by (intro power_increasing) auto
  moreover have "unat s < 2 ^ 16" "unat t < 2 ^ 16" using unat_range(2) [of s] unat_range(2) [of t] by simp_all
  ultimately show ?thesis using False by (simp add: same_slot_def min_def)
qed (simp add: same_slot_def min_def)

lemma nack_store_ok: "nack_ok b buf \<Longrightarrow> nack_ok b (rtc_nack_buf_store buf pkt seq h t)"
  by (simp add: nack_ok_def rtc_nack_buf_store_def Let_def)

lemma nack_look_store:
  assumes ok: "nack_ok b buf" and fit: "0 < length pkt" "length pkt \<le> NACK_BUF_MAX_PKT_SIZE"
  shows "nack_look (rtc_nack_buf_store buf pkt s h tw) t =
    (if t = s then Some (pkt, h, tw) else if same_slot (2 ^ min b 16) s t then None else nack_look buf t)"
proof -
  define i where "i = unat s AND nb_mask buf"
  define j where "j = unat t AND nb_mask buf"
  define new where "new = \<lparr>ns_data = pkt, ns_seq = s, ns_twcc_seq = tw, ns_retransmit_count = 0,
    ns_has_twcc = h, ns_used = True\<rparr>"
  have st: "rtc_nack_buf_store buf pkt s h tw = buf\<lparr>nb_slots := (nb_slots buf)[i := new]\<rparr>"
    using fit by (simp add: rtc_nack_buf_store_def Let_def i_def new_def)
  have slot: "same_slot (2 ^ min b 16) s t \<longleftrightarrow> i = j"
    unfolding same_slot_pow2 i_def j_def nack_index(1) [OF ok] ..
  have "i < length (nb_slots buf)" unfolding i_def by (rule nack_index(2) [OF ok])
  then have nth: "(nb_slots buf)[i := new] ! j = (if i = j then new else nb_slots buf ! j)"
    by (auto simp: nth_list_update)
  have look: "nack_look (rtc_nack_buf_store buf pkt s h tw) t =
      (let slot = (if i = j then new else nb_slots buf ! j) in
       if \<not> ns_used slot \<or> ns_seq slot \<noteq> t then None
       else Some (ns_data slot, ns_has_twcc slot, ns_twcc_seq slot))"
    unfolding st nack_look_def by (simp add: nth flip: j_def)
  have "i = j" if "t = s" using that by (simp add: i_def j_def)
  then show ?thesis unfolding look slot
    by (auto simp: new_def nack_look_def Let_def simp flip: j_def)
qed

interpretation nack: seq_ring "2 ^ min b 16" nack_put nack_look "nack_ok b" nack_fits for b
proof
  show "(2::nat) ^ min b 16 dvd 2 ^ 16" by (rule le_imp_power_dvd) simp
  fix r s it t
  assume ok: "nack_ok b r"
  then show "nack_ok b (nack_put r s it)" by (simp add: nack_put_def nack_store_ok split: prod.splits)
  assume "nack_fits it"
  then show "nack_look (nack_put r s it) t = (if t = s then Some it
      else if same_slot (2 ^ min b 16) s t then None else nack_look r t)"
    using nack_look_store [OF ok] by (cases it) (simp add: nack_put_def nack_fits_def)
qed

lemma nack_get_look: "rtc_nack_buf_get buf s = map_option fst (nack_look buf s)"
  by (simp add: rtc_nack_buf_get_def nack_look_def Let_def)

lemma nack_retransmit_look:
  assumes "rtc_nack_buf_retransmit buf s = (Some (pkt, tw), buf')"
  shows "\<exists>h t. nack_look buf s = Some (pkt, h, t) \<and> tw = (if h then t else 0)"
  using assms by (auto simp: rtc_nack_buf_retransmit_def nack_look_def Let_def split: if_splits)

subsection \<open>Creation and the retransmission counter\<close>

lemma nack_create_ok:
  assumes "rtc_nack_buf_create a (int n) = Some buf" "0 < n" "n \<le> 2 ^ 16"
  obtains b where "nack_ok b buf" "n \<le> 2 ^ b" "b \<le> 16 \<or> n = 1" "\<forall>s \<in> set (nb_slots buf). s = nack_slot_zero"
proof -
  have n: "n \<le> 2 ^ 30" using assms(3) by simp
  obtain b where b: "1 \<le> b" "unat (next_pow2 (of_nat n)) = 2 ^ b" "n \<le> 2 ^ b" "n = 1 \<or> 2 ^ b < 2 * n"
    using next_pow2_spec [OF assms(2) n] by blast
  have "word_of_int (int n) = (of_nat n :: u32)" by simp
  then have buf: "buf = \<lparr>nb_slots = replicate (2 ^ b) nack_slot_zero, nb_capacity = 2 ^ b, nb_mask = 2 ^ b - 1\<rparr>"
    using assms(1,2) b(2) by (auto simp: rtc_nack_buf_create_def Let_def split: if_splits)
  have "b \<le> 16 \<or> n = 1"
  proof (rule ccontr)
    assume c: "\<not> (b \<le> 16 \<or> n = 1)"
    then have "(2::nat) ^ 17 \<le> 2 ^ b" by (intro power_increasing) auto
    then show False using b(4) c assms(3) by simp
  qed
  then show thesis using that [of b] b buf by (simp add: nack_ok_def)
qed

definition nack_count0 :: "rtc_nack_buf \<Rightarrow> bool" where
  "nack_count0 buf \<longleftrightarrow> (\<forall>s \<in> set (nb_slots buf). ns_retransmit_count s = 0)"

lemma nack_count0_put: "nack_count0 buf \<Longrightarrow> nack_count0 (nack_put buf s it)"
  using set_update_subset_insert
  by (fastforce simp: nack_count0_def nack_put_def rtc_nack_buf_store_def Let_def split: prod.splits if_splits)

lemma nack_count0_run: "nack_count0 buf \<Longrightarrow> nack_count0 (put_run nack_put buf s its)"
  by (induction its arbitrary: buf s) (auto intro: nack_count0_put)

lemma nack_retransmit_fresh:
  assumes "nack_ok b buf" "nack_count0 buf" "nack_look buf s = Some (pkt, h, t)"
  shows "fst (rtc_nack_buf_retransmit buf s) = Some (pkt, if h then t else 0)"
proof -
  have "ns_retransmit_count (nb_slots buf ! (unat s AND nb_mask buf)) = 0"
    using assms(2) nack_index(2) [OF assms(1), of s] by (simp add: nack_count0_def)
  then show ?thesis
    using assms(3) by (auto simp: rtc_nack_buf_retransmit_def nack_look_def Let_def
        RTC_NACK_MAX_RETRANSMITS_def split: if_splits)
qed

lemma retransmit_n_count:
  assumes "nack_ok b buf" "slot = nb_slots buf ! (unat s AND nb_mask buf)" "ns_used slot" "ns_seq slot = s"
    "unat (ns_retransmit_count slot) = c" "c \<le> 10"
  shows "retransmit_n k buf s =
    replicate (min k (10 - c)) (ns_data slot, if ns_has_twcc slot then ns_twcc_seq slot else 0)"
  using assms
proof (induction k arbitrary: buf slot c)
  case (Suc k)
  define i where "i = unat s AND nb_mask buf"
  have i: "i < length (nb_slots buf)" unfolding i_def by (rule nack_index(2) [OF Suc.prems(1)])
  show ?case
  proof (cases "c < 10")
    case False
    then have "rtc_nack_buf_retransmit buf s = (None, buf)"
      using Suc.prems by (simp add: rtc_nack_buf_retransmit_def Let_def RTC_NACK_MAX_RETRANSMITS_def word_le_nat_alt)
    then show ?thesis using Suc.IH [OF Suc.prems] False Suc.prems(6) by simp
  next
    case True
    define slot' where "slot' = slot\<lparr>ns_retransmit_count := ns_retransmit_count slot + 1\<rparr>"
    define buf' where "buf' = buf\<lparr>nb_slots := (nb_slots buf)[i := slot']\<rparr>"
    have "rtc_nack_buf_retransmit buf s =
        (Some (ns_data slot, if ns_has_twcc slot then ns_twcc_seq slot else 0), buf')"
      using True Suc.prems by (simp add: rtc_nack_buf_retransmit_def Let_def RTC_NACK_MAX_RETRANSMITS_def
          word_le_nat_alt buf'_def slot'_def i_def)
    moreover have "nack_ok b buf'" using Suc.prems(1) by (simp add: nack_ok_def buf'_def)
    moreover have "slot' = nb_slots buf' ! (unat s AND nb_mask buf')" using i by (simp add: buf'_def flip: i_def)
    moreover have "unat (ns_retransmit_count slot') = c + 1"
      using Suc.prems(5) True by (simp add: slot'_def unat_word_ariths)
    moreover have "ns_used slot'" "ns_seq slot' = s" using Suc.prems by (simp_all add: slot'_def)
    ultimately have "retransmit_n k buf' s =
        replicate (min k (10 - (c + 1))) (ns_data slot', if ns_has_twcc slot' then ns_twcc_seq slot' else 0)"
      using True by (intro Suc.IH) auto
    then have r: "retransmit_n (Suc k) buf s =
        replicate (Suc (min k (10 - (c + 1)))) (ns_data slot, if ns_has_twcc slot then ns_twcc_seq slot else 0)"
      using \<open>rtc_nack_buf_retransmit buf s = _\<close> by (simp add: slot'_def)
    have "Suc (min k (10 - (c + 1))) = min (Suc k) (10 - c)" using True by simp
    then show ?thesis using r by (simp only:)
  qed
qed simp

subsection \<open>Properties\<close>

text \<open>
  The capacity of a retransmission buffer is the least power of two that holds the
  requested number of packets (at least two).
\<close>

theorem next_pow2_least:
  assumes "0 < v" "v \<le> (2::nat) ^ 30"
  shows "\<exists>b \<ge> 1. unat (next_pow2 (of_nat v)) = 2 ^ b \<and> v \<le> 2 ^ b \<and> (v = 1 \<or> 2 ^ b < 2 * v)"
  using next_pow2_spec [OF assms] by blast

theorem next_pow2_least_witness:
  "(0::nat) < 300 \<and> (300::nat) \<le> 2 ^ 30 \<and> unat (next_pow2 300) = 512 \<and>
   (\<exists>b \<ge> 1. unat (next_pow2 (of_nat 300)) = 2 ^ b \<and> 300 \<le> (2::nat) ^ b \<and> ((300::nat) = 1 \<or> 2 ^ b < 2 * (300::nat)))"
  using next_pow2_least [of 300] by (simp add: next_pow2_def Let_def)

text \<open>
  C28. After sending packets under consecutive sequence numbers (wrapping at 65536), each of
  the last \<open>n\<close> of them, \<open>n\<close> being the requested size, is retransmitted byte for byte on its
  first NACK, with the transport-wide number it carried.
\<close>

theorem nack_window:
  assumes "rtc_nack_buf_create a (int n) = Some buf" "0 < n" "n \<le> 2 ^ 16"
    and "list_all nack_fits items" "i < length items" "length items \<le> i + n"
  shows "fst (rtc_nack_buf_retransmit (put_run nack_put buf s items) (s + of_nat i)) =
    (case items ! i of (pkt, has_twcc, twcc) \<Rightarrow> Some (pkt, if has_twcc then twcc else 0))"
proof -
  obtain b where b: "nack_ok b buf" "n \<le> 2 ^ b" "b \<le> 16 \<or> n = 1"
    "\<forall>s \<in> set (nb_slots buf). s = nack_slot_zero"
    using nack_create_ok [OF assms(1-3)] .
  have "n \<le> 2 ^ min b 16" using b(2,3) by (auto simp: min_def)
  then have look: "nack_look (put_run nack_put buf s items) (s + of_nat i) = Some (items ! i)"
    using assms(4-6) by (intro nack.look_run [OF b(1)]) auto
  have "nack_count0 (put_run nack_put buf s items)"
    using b(4) by (intro nack_count0_run) (auto simp: nack_count0_def nack_slot_zero_def)
  then show ?thesis
    using nack_retransmit_fresh [OF nack.ok_put_run [OF b(1)]] look by (cases "items ! i") auto
qed

definition nack_sample_items :: "nack_item list" where
  "nack_sample_items = [([1, 2], True, 7), ([3], False, 0), ([4, 5], True, 9)]"

theorem nack_window_witness:
  "\<exists>buf. rtc_nack_buf_create True (int 2) = Some buf \<and> list_all nack_fits nack_sample_items \<and>
    fst (rtc_nack_buf_retransmit (put_run nack_put buf 65534 nack_sample_items) (65534 + of_nat 2)) =
      Some ([4, 5], 9)"
proof -
  obtain buf where buf: "rtc_nack_buf_create True (int 2) = Some buf" by (simp add: rtc_nack_buf_create_def Let_def)
  have "list_all nack_fits nack_sample_items"
    by (simp add: nack_sample_items_def nack_fits_def NACK_BUF_MAX_PKT_SIZE_def)
  then show ?thesis
    using nack_window [OF buf, of nack_sample_items 2 65534] buf by (auto simp: nack_sample_items_def)
qed

text \<open>
  A retransmission never answers with the bytes of another packet: what is sent for a
  sequence number was stored under that number.
\<close>

theorem nack_retransmit_sound:
  assumes "rtc_nack_buf_create a (int n) = Some buf" "0 < n" "n \<le> 2 ^ 16" "list_all nack_fits items"
    and "fst (rtc_nack_buf_retransmit (put_run nack_put buf s items) t) = Some (pkt, tw)"
  shows "\<exists>i < length items. t = s + of_nat i \<and> pkt = fst (items ! i)"
proof -
  obtain b where b: "nack_ok b buf" "\<forall>s \<in> set (nb_slots buf). s = nack_slot_zero"
    using nack_create_ok [OF assms(1-3)] .
  have "nb_slots buf ! (unat t AND nb_mask buf) = nack_slot_zero"
    using b(2) nack_index(2) [OF b(1), of t] by simp
  then have "nack_look buf t = None" by (simp add: nack_look_def Let_def nack_slot_zero_def)
  moreover obtain buf' where rt:
    "rtc_nack_buf_retransmit (put_run nack_put buf s items) t = (Some (pkt, tw), buf')"
    using assms(5) by (cases "rtc_nack_buf_retransmit (put_run nack_put buf s items) t") simp
  obtain h t' where "nack_look (put_run nack_put buf s items) t = Some (pkt, h, t')"
    using nack_retransmit_look [OF rt] by blast
  ultimately have "\<exists>i < length items. t = s + of_nat i \<and> (pkt, h, t') = items ! i"
    using nack.look_run_sound [OF b(1) assms(4), of s t "(pkt, h, t')"] by simp
  then show ?thesis by (metis fst_conv)
qed

theorem nack_retransmit_sound_witness:
  "\<exists>buf. rtc_nack_buf_create True (int 4) = Some buf \<and>
    fst (rtc_nack_buf_retransmit (put_run nack_put buf 5 nack_sample_items) 6) = Some ([3], 0) \<and>
    (\<exists>i < length nack_sample_items. 6 = (5 :: u16) + of_nat i \<and> [3] = fst (nack_sample_items ! i))"
proof -
  let ?buf = "\<lparr>nb_slots = replicate 4 nack_slot_zero, nb_capacity = 4, nb_mask = 3\<rparr>"
  have buf: "rtc_nack_buf_create True (int 4) = Some ?buf"
    by (simp add: rtc_nack_buf_create_def Let_def next_pow2_def)
  have fits: "list_all nack_fits nack_sample_items"
    by (simp add: nack_sample_items_def nack_fits_def NACK_BUF_MAX_PKT_SIZE_def)
  have "fst (rtc_nack_buf_retransmit (put_run nack_put ?buf 5 nack_sample_items) 6) = Some ([3], 0)"
    by (simp add: nack_sample_items_def nack_put_def rtc_nack_buf_store_def rtc_nack_buf_retransmit_def
      nack_slot_zero_def NACK_BUF_MAX_PKT_SIZE_def RTC_NACK_MAX_RETRANSMITS_def eval_simps)
  with nack_retransmit_sound [OF buf _ _ fits this] buf show ?thesis by auto
qed

text \<open>
  C39. However many NACKs arrive for one stored packet, it is retransmitted exactly the
  first ten times, each time with the same bytes.
\<close>

theorem nack_retransmit_cap:
  assumes "nack_ok b buf" "0 < length pkt" "length pkt \<le> NACK_BUF_MAX_PKT_SIZE"
  shows "retransmit_n k (rtc_nack_buf_store buf pkt s has_twcc twcc) s =
    replicate (min k 10) (pkt, if has_twcc then twcc else 0)"
proof -
  let ?buf = "rtc_nack_buf_store buf pkt s has_twcc twcc"
  have "nb_slots ?buf ! (unat s AND nb_mask ?buf) = \<lparr>ns_data = pkt, ns_seq = s, ns_twcc_seq = twcc,
      ns_retransmit_count = 0, ns_has_twcc = has_twcc, ns_used = True\<rparr>"
    using nack_index(2) [OF assms(1), of s] assms(2,3) by (simp add: rtc_nack_buf_store_def Let_def)
  from retransmit_n_count [OF nack_store_ok [OF assms(1)] this [symmetric], of 0 k] show ?thesis by simp
qed

theorem nack_retransmit_cap_witness:
  "\<exists>buf. nack_ok 2 buf \<and> retransmit_n 25 (rtc_nack_buf_store buf [1, 2, 3] 9 True 4) 9 =
    replicate 10 ([1, 2, 3], 4)"
proof -
  let ?buf = "\<lparr>nb_slots = replicate 4 nack_slot_zero, nb_capacity = 4, nb_mask = 3\<rparr>"
  have "nack_ok 2 ?buf" by (simp add: nack_ok_def)
  with nack_retransmit_cap [OF this, of "[1, 2, 3]" 25 9 True 4] show ?thesis
    by (auto simp: NACK_BUF_MAX_PKT_SIZE_def)
qed

end
