(* ===== verification/Rate_Control.thy ===== *)
theory Rate_Control
  imports Prelude "HOL-Library.Signed_Division"
begin

text \<open>
  \<^verbatim>\<open>rtc/src/rtc_rate_control.c\<close>: the loss-driven bitrate controller. Bitrates and report fields are C
  \<^verbatim>\<open>int\<close>s: the sums and products that can leave the 32-bit range are checked (\<open>None\<close> is a signed overflow) and
  division is the truncating one. The allocator's outcome is an argument. The fields of the controller are atomics
  with one writer per operation, so an interleaving of its threads is a sequence of operations.
\<close>

subsection \<open>Data and operations\<close>

record rtc_rate_control_config =
  cfg_target_bitrate_kbps :: int
  cfg_min_bitrate_kbps :: int
  cfg_max_bitrate_kbps :: int

record rtc_rate_controller =
  current_bitrate_kbps :: int
  min_bitrate_kbps :: int
  max_bitrate_kbps :: int
  keyframe_requested :: bool

definition rc_clamp :: "int \<Rightarrow> int \<Rightarrow> int \<Rightarrow> int" where
  "rc_clamp lo hi x =
    (let x = (if x < lo then lo else x) in if x > hi then hi else x)"

definition rtc_rate_control_create :: "bool \<Rightarrow> rtc_rate_control_config \<Rightarrow> rtc_rate_controller option" where
  "rtc_rate_control_create alloc cfg =
    (if \<not> alloc then None
     else
       let lo = (if cfg_min_bitrate_kbps cfg > 0 then cfg_min_bitrate_kbps cfg else 100);
           hi = (if cfg_max_bitrate_kbps cfg > 0 then cfg_max_bitrate_kbps cfg else 2500)
       in Some \<lparr>current_bitrate_kbps = rc_clamp lo hi (cfg_target_bitrate_kbps cfg),
           min_bitrate_kbps = lo, max_bitrate_kbps = hi, keyframe_requested = False\<rparr>)"

text \<open>The bitrate before the clamp.\<close>

definition rc_adjust :: "int \<Rightarrow> int \<Rightarrow> int \<Rightarrow> int option" where
  "rc_adjust loss_pct rtt_ms bitrate = do {
     bitrate \<leftarrow> (if loss_pct < 2 then as_int (bitrate + bitrate sdiv 20)
                else if loss_pct > 5 then as_int (bitrate - bitrate sdiv 5) else Some bitrate);
     if rtt_ms > 300 then as_int (bitrate - bitrate sdiv 10) else Some bitrate
   }"

definition rtc_rate_control_on_rtcp_rr :: "rtc_rate_controller \<Rightarrow> int \<Rightarrow> int \<Rightarrow> int \<Rightarrow> rtc_rate_controller option" where
  "rtc_rate_control_on_rtcp_rr rc fraction_lost rtt_ms jitter = do {
     p \<leftarrow> as_int (fraction_lost * 100);
     let loss_pct = p sdiv 256;
     bitrate \<leftarrow> rc_adjust loss_pct rtt_ms (current_bitrate_kbps rc);
     Some (rc\<lparr>keyframe_requested := keyframe_requested rc \<or> loss_pct > 10,
              current_bitrate_kbps := rc_clamp (min_bitrate_kbps rc) (max_bitrate_kbps rc) bitrate\<rparr>)
   }"

definition rtc_rate_control_get_bitrate :: "rtc_rate_controller \<Rightarrow> int" where
  "rtc_rate_control_get_bitrate rc = current_bitrate_kbps rc"

definition rtc_rate_control_should_keyframe :: "rtc_rate_controller \<Rightarrow> bool \<times> rtc_rate_controller" where
  "rtc_rate_control_should_keyframe rc = (keyframe_requested rc, rc\<lparr>keyframe_requested := False\<rparr>)"

text \<open>
  A controller in use: receiver reports (fraction lost, round-trip time, jitter) from the transport thread, queries from the
  encoder, and the answers to the queries.
\<close>

datatype rc_op = Report int int int | Get_bitrate | Should_keyframe

datatype rc_answer = Bitrate int | Keyframe bool

fun rc_run :: "rtc_rate_controller \<Rightarrow> rc_op list \<Rightarrow> (rc_answer list \<times> rtc_rate_controller) option" where
  "rc_run rc [] = Some ([], rc)"
| "rc_run rc (Report fl rtt jitter # ops) = do { rc \<leftarrow> rtc_rate_control_on_rtcp_rr rc fl rtt jitter; rc_run rc ops }"
| "rc_run rc (Get_bitrate # ops) = do { (as, rc') \<leftarrow> rc_run rc ops; Some (Bitrate (rtc_rate_control_get_bitrate rc) # as, rc') }"
| "rc_run rc (Should_keyframe # ops) =
    (let (k, rc) = rtc_rate_control_should_keyframe rc in do { (as, rc') \<leftarrow> rc_run rc ops; Some (Keyframe k # as, rc') })"

subsection \<open>What the controller promises\<close>

definition floor_kbps :: "rtc_rate_control_config \<Rightarrow> int" where
  "floor_kbps cfg = (if 0 < cfg_min_bitrate_kbps cfg then cfg_min_bitrate_kbps cfg else 100)"

definition ceiling_kbps :: "rtc_rate_control_config \<Rightarrow> int" where
  "ceiling_kbps cfg = (if 0 < cfg_max_bitrate_kbps cfg then cfg_max_bitrate_kbps cfg else 2500)"



subsection \<open>Invariant\<close>

definition rc_ok :: "int \<Rightarrow> int \<Rightarrow> rtc_rate_controller \<Rightarrow> bool" where
  "rc_ok lo hi rc \<longleftrightarrow> 0 < lo \<and> 0 < hi \<and> min_bitrate_kbps rc = lo \<and> max_bitrate_kbps rc = hi \<and>
     min lo hi \<le> current_bitrate_kbps rc \<and> current_bitrate_kbps rc \<le> hi"

lemma sdiv_pos: "0 \<le> a \<Longrightarrow> 0 < b \<Longrightarrow> a sdiv b = (a::int) div b"
  by (cases "a = 0") (simp_all add: signed_divide_int_def sgn_mult)

lemma rc_clamp_bounds: "min lo hi \<le> rc_clamp lo hi x" "rc_clamp lo hi x \<le> hi"
  by (auto simp: rc_clamp_def Let_def)

lemma rc_clamp_same: "min lo hi \<le> x \<Longrightarrow> x \<le> hi \<Longrightarrow> rc_clamp lo hi x = x"
  by (auto simp: rc_clamp_def Let_def)

lemma rc_clamp_mono: "x \<le> y \<Longrightarrow> rc_clamp lo hi x \<le> rc_clamp lo hi y"
  by (auto simp: rc_clamp_def Let_def)

lemma rc_create_ok:
  "rtc_rate_control_create True cfg = Some rc \<Longrightarrow> rc_ok (floor_kbps cfg) (ceiling_kbps cfg) rc"
  by (auto simp: rc_ok_def rtc_rate_control_create_def rc_clamp_def floor_kbps_def ceiling_kbps_def Let_def)

lemma rc_step_ok: "rc_ok lo hi rc \<Longrightarrow> rtc_rate_control_on_rtcp_rr rc fl rtt j = Some rc' \<Longrightarrow> rc_ok lo hi rc'"
  using rc_clamp_bounds by (auto simp: rc_ok_def rtc_rate_control_on_rtcp_rr_def Let_def bind_eq_Some_conv)

lemma rc_run_ok: "rc_run rc ops = Some (as, rc') \<Longrightarrow> rc_ok lo hi rc \<Longrightarrow> rc_ok lo hi rc'"
proof (induction rc ops arbitrary: as rule: rc_run.induct)
  case (4 rc ops)
  then show ?case by (auto simp: rtc_rate_control_should_keyframe_def rc_ok_def bind_eq_Some_conv)
qed (auto simp: bind_eq_Some_conv intro: rc_step_ok)

text \<open>The adjusted bitrate stays in range and moves in the direction of the report.\<close>

lemma rc_adjust_moves:
  assumes "0 < b" "b \<le> 2045222521"
  shows "\<exists>y. rc_adjust loss rtt b = Some y \<and> (loss < 2 \<and> rtt \<le> 300 \<longrightarrow> y = b + b div 20) \<and> (2 \<le> loss \<longrightarrow> y \<le> b)"
proof -
  define x where "x = (if loss < 2 then b + b sdiv 20 else if loss > 5 then b - b sdiv 5 else b)"
  have d: "0 \<le> b div 20" "0 \<le> b div 5" "b div 5 \<le> b" using assms(1) by auto
  have x: "0 \<le> x" "x < 2 ^ 31" "2 \<le> loss \<longrightarrow> x \<le> b" using d assms by (auto simp: x_def sdiv_pos)
  have z: "0 \<le> x sdiv 10" "x sdiv 10 \<le> x" using x(1) by (simp_all add: sdiv_pos)
  have "rc_adjust loss rtt b = do { x \<leftarrow> as_int x; if rtt > 300 then as_int (x - x sdiv 10) else Some x }"
    using assms by (auto simp: rc_adjust_def x_def as_int_def)
  also have "\<dots> = Some (if rtt > 300 then x - x sdiv 10 else x)"
    using x(1,2) z by (simp add: as_int_Some)
  finally show ?thesis using x(3) z assms(1) by (auto simp: x_def sdiv_pos)
qed

lemma loss_percent:
  assumes "0 \<le> fl" "fl \<le> 255"
  shows "as_int (fl * 100) = Some (fl * 100)" "(fl * 100) sdiv 256 < 2 \<longleftrightarrow> fl \<le> 5" "(fl * 100) sdiv 256 > 10 \<longleftrightarrow> 29 \<le> fl"
  using assms by (auto simp: as_int_def sdiv_pos)

lemma rc_report:
  assumes "rc_ok lo hi rc" "hi \<le> 2045222521" "0 \<le> fl" "fl \<le> 255"
  shows "\<exists>rc'. rtc_rate_control_on_rtcp_rr rc fl rtt j = Some rc' \<and> rc_ok lo hi rc' \<and>
    keyframe_requested rc' = (keyframe_requested rc \<or> 29 \<le> fl) \<and>
    (fl \<le> 5 \<and> rtt \<le> 300 \<longrightarrow> current_bitrate_kbps rc' = min hi (current_bitrate_kbps rc + current_bitrate_kbps rc div 20)) \<and>
    (6 \<le> fl \<longrightarrow> current_bitrate_kbps rc' \<le> current_bitrate_kbps rc)"
proof -
  let ?b = "current_bitrate_kbps rc"
  have b: "0 < ?b" "?b \<le> 2045222521" and m: "min_bitrate_kbps rc = lo" "max_bitrate_kbps rc = hi" "min lo hi \<le> ?b" "?b \<le> hi"
    using assms(1,2) by (auto simp: rc_ok_def)
  obtain y where y: "rc_adjust ((fl * 100) sdiv 256) rtt ?b = Some y"
      "fl \<le> 5 \<and> rtt \<le> 300 \<longrightarrow> y = ?b + ?b div 20" "6 \<le> fl \<longrightarrow> y \<le> ?b"
    using rc_adjust_moves [OF b, of "(fl * 100) sdiv 256" rtt] loss_percent(2) [OF assms(3,4)] by fastforce
  define rc' where "rc' = rc\<lparr>keyframe_requested := keyframe_requested rc \<or> 29 \<le> fl, current_bitrate_kbps := rc_clamp lo hi y\<rparr>"
  have s: "rtc_rate_control_on_rtcp_rr rc fl rtt j = Some rc'"
    using loss_percent [OF assms(3,4)] y(1) m by (simp add: rtc_rate_control_on_rtcp_rr_def rc'_def)
  have "rc_clamp lo hi (?b + ?b div 20) = min hi (?b + ?b div 20)" using m b(1) by (auto simp: rc_clamp_def Let_def)
  moreover have "6 \<le> fl \<longrightarrow> rc_clamp lo hi y \<le> ?b" using y(3) rc_clamp_mono [of y ?b lo hi] rc_clamp_same [OF m(3,4)] by simp
  ultimately show ?thesis using s y(2) rc_step_ok [OF assms(1) s] by (intro exI [of _ rc']) (auto simp: rc'_def)
qed


text \<open>Reports of at most 5/256 loss over a round trip of at most 300 ms.\<close>

fun good_report :: "rc_op \<Rightarrow> bool" where
  "good_report (Report fl rtt jitter) \<longleftrightarrow> 0 \<le> fl \<and> fl \<le> 5 \<and> rtt \<le> 300"
| "good_report op \<longleftrightarrow> False"

lemma rc_recovers:
  assumes "rc_ok lo hi rc" "lo \<le> hi" "hi \<le> 2045222521" "20 \<le> current_bitrate_kbps rc" "list_all good_report ops"
  shows "\<exists>rc'. rc_run rc ops = Some ([], rc') \<and> min hi (current_bitrate_kbps rc + int (length ops)) \<le> current_bitrate_kbps rc'"
  using assms
proof (induction ops arbitrary: rc)
  case (Cons op ops)
  obtain fl rtt j where op: "op = Report fl rtt j" "0 \<le> fl" "fl \<le> 5" "rtt \<le> 300" using Cons.prems(5) by (cases op) auto
  then have fl: "fl \<le> 255" by simp
  obtain rc1 where r: "rtc_rate_control_on_rtcp_rr rc fl rtt j = Some rc1" "rc_ok lo hi rc1"
    "current_bitrate_kbps rc1 = min hi (current_bitrate_kbps rc + current_bitrate_kbps rc div 20)"
    using rc_report [OF Cons.prems(1,3) op(2) fl, of rtt j] op(3,4) by blast
  have ge: "1 \<le> current_bitrate_kbps rc div 20" "current_bitrate_kbps rc \<le> hi" using Cons.prems(1,4) by (auto simp: rc_ok_def)
  then have "20 \<le> current_bitrate_kbps rc1" using r(3) Cons.prems(4) by simp
  from Cons.IH [OF r(2) Cons.prems(2,3) this] Cons.prems(5) show ?case using r(1,3) ge op(1) by auto
qed (simp add: rc_ok_def)

subsection \<open>Properties\<close>


definition toy_cfg :: rtc_rate_control_config where
  "toy_cfg = \<lparr>cfg_target_bitrate_kbps = 1000, cfg_min_bitrate_kbps = 100, cfg_max_bitrate_kbps = 2500\<rparr>"


text \<open>
  C35. Once losses stop, the controller recovers: with a configured minimum not above the maximum, from a bitrate of at least 20 kbps
  reached after any operations, as many reports of less than 2 percent loss over round trips of at most 300 ms as there are kbps
  missing bring it to the configured maximum, and further ones keep it there.
\<close>

theorem rate_control_recovers:
  assumes "rtc_rate_control_create True cfg = Some rc" "rc_run rc ops = Some (as, rc1)"
    "floor_kbps cfg \<le> ceiling_kbps cfg" "ceiling_kbps cfg \<le> 2045222521" "20 \<le> rtc_rate_control_get_bitrate rc1"
    "list_all good_report rs" "ceiling_kbps cfg - rtc_rate_control_get_bitrate rc1 \<le> int (length rs)"
  shows "\<exists>rc2. rc_run rc1 rs = Some ([], rc2) \<and> rtc_rate_control_get_bitrate rc2 = ceiling_kbps cfg"
proof -
  have ok: "rc_ok (floor_kbps cfg) (ceiling_kbps cfg) rc1" using rc_run_ok [OF assms(2) rc_create_ok [OF assms(1)]] .
  obtain rc2 where r: "rc_run rc1 rs = Some ([], rc2)"
      "min (ceiling_kbps cfg) (current_bitrate_kbps rc1 + int (length rs)) \<le> current_bitrate_kbps rc2"
    using rc_recovers [OF ok assms(3,4) _ assms(6)] assms(5) by (auto simp: rtc_rate_control_get_bitrate_def)
  then show ?thesis
    using rc_run_ok [OF r(1) ok] assms(7) by (auto simp: rc_ok_def rtc_rate_control_get_bitrate_def)
qed

theorem rate_control_recovers_witness:
  "\<exists>rc rc1 rc2. rtc_rate_control_create True toy_cfg = Some rc \<and> rc_run rc [Report 255 20 0] = Some ([], rc1) \<and>
    rtc_rate_control_get_bitrate rc1 = 800 \<and> rc_run rc1 (replicate 1700 (Report 4 20 0)) = Some ([], rc2) \<and>
    rtc_rate_control_get_bitrate rc2 = 2500"
proof -
  define rc where "rc = \<lparr>current_bitrate_kbps = 1000, min_bitrate_kbps = 100, max_bitrate_kbps = 2500, keyframe_requested = False\<rparr>"
  define rc1 where "rc1 = \<lparr>current_bitrate_kbps = 800, min_bitrate_kbps = 100, max_bitrate_kbps = 2500, keyframe_requested = True\<rparr>"
  have c: "rtc_rate_control_create True toy_cfg = Some rc"
    by (simp add: rtc_rate_control_create_def toy_cfg_def rc_clamp_def rc_def)
  have r: "rc_run rc [Report 255 20 0] = Some ([], rc1)"
    by (simp add: rtc_rate_control_on_rtcp_rr_def rc_adjust_def rc_clamp_def as_int_def sdiv_pos rc_def rc1_def)
  have "\<exists>rc2. rc_run rc1 (replicate 1700 (Report 4 20 0)) = Some ([], rc2) \<and> rtc_rate_control_get_bitrate rc2 = ceiling_kbps toy_cfg"
    by (rule rate_control_recovers [OF c r])
      (simp_all add: toy_cfg_def floor_kbps_def ceiling_kbps_def rtc_rate_control_get_bitrate_def rc1_def list_all_iff)
  then show ?thesis using c r by (auto simp: ceiling_kbps_def toy_cfg_def rtc_rate_control_get_bitrate_def rc1_def)
qed

text \<open>
  Below 20 kbps the increase of a twentieth rounds to nothing: a controller that a burst of losses
  (or its configuration) has brought there never recovers by itself.
\<close>

theorem rate_control_stuck_below_20:
  assumes "rc_ok lo hi rc" "hi \<le> 2045222521" "current_bitrate_kbps rc < 20" "list_all good_report ops"
  shows "\<exists>rc'. rc_run rc ops = Some ([], rc') \<and> current_bitrate_kbps rc' = current_bitrate_kbps rc"
  using assms
proof (induction ops arbitrary: rc)
  case (Cons op ops)
  obtain fl rtt j where op: "op = Report fl rtt j" "0 \<le> fl" "fl \<le> 5" "rtt \<le> 300" using Cons.prems(4) by (cases op) auto
  then have fl: "fl \<le> 255" by simp
  obtain rc1 where r: "rtc_rate_control_on_rtcp_rr rc fl rtt j = Some rc1" "rc_ok lo hi rc1"
    "current_bitrate_kbps rc1 = min hi (current_bitrate_kbps rc + current_bitrate_kbps rc div 20)"
    using rc_report [OF Cons.prems(1,2) op(2) fl, of rtt j] op(3,4) by blast
  have "current_bitrate_kbps rc div 20 = 0" "current_bitrate_kbps rc \<le> hi" using Cons.prems(1,3) by (auto simp: rc_ok_def)
  then have "current_bitrate_kbps rc1 = current_bitrate_kbps rc" using r(3) by simp
  then show ?case using Cons.IH [OF r(2) Cons.prems(2)] Cons.prems(3,4) r(1) op(1) by simp
qed simp

end
