(* ===== verification/Srtp_Replay.thy ===== *)
theory Srtp_Replay
  imports Prelude
begin

text \<open>
  The replay window of \<^verbatim>\<open>rtc/src/rtc_srtp.c\<close> (\<^verbatim>\<open>srtp_replay_check\<close>) and its refinement to the set of
  accepted packet indices: a window state stands for the set of the indices it has accepted, as far
  as they are within 128 of the highest.
\<close>

subsection \<open>Data and operation\<close>

definition SRTP_REPLAY_WINDOW_SIZE :: u64 where "SRTP_REPLAY_WINDOW_SIZE = 128"

text \<open>The two words of the bitmap are separate fields.\<close>

record rtc_srtp_replay =
  highest_index :: u64
  window_0 :: u64
  window_1 :: u64
  initialized :: bool

definition srtp_replay_zero :: rtc_srtp_replay where
  "srtp_replay_zero = \<lparr>highest_index = 0, window_0 = 0, window_1 = 0, initialized = False\<rparr>"

definition srtp_replay_check :: "rtc_srtp_replay \<Rightarrow> u64 \<Rightarrow> rtc_err \<times> rtc_srtp_replay" where
  "srtp_replay_check r index =
    (if \<not> initialized r then
       (RTC_OK, r\<lparr>initialized := True, highest_index := index, window_0 := 1, window_1 := 0\<rparr>)
     else if index > highest_index r then
       let delta = index - highest_index r;
           r' = (if delta \<ge> SRTP_REPLAY_WINDOW_SIZE then r\<lparr>window_0 := 1, window_1 := 0\<rparr>
                 else if delta \<ge> 64 then
                   r\<lparr>window_1 := push_bit (unat (delta - 64)) (window_0 r), window_0 := 0 OR 1\<rparr>
                 else
                   r\<lparr>window_1 := push_bit (unat delta) (window_1 r) OR
                       (if delta = 0 then 0 else drop_bit (unat (64 - delta)) (window_0 r)),
                     window_0 := push_bit (unat delta) (window_0 r) OR 1\<rparr>)
       in (RTC_OK, r'\<lparr>highest_index := index\<rparr>)
     else
       let delta = highest_index r - index
       in if delta \<ge> SRTP_REPLAY_WINDOW_SIZE then (RTC_ERR_SRTP, r)
          else
            let mask = push_bit (unat (delta AND 63)) 1;
                w = (if drop_bit 6 delta = 0 then window_0 r else window_1 r)
            in if w AND mask \<noteq> 0 then (RTC_ERR_SRTP, r)
               else (RTC_OK, if drop_bit 6 delta = 0 then r\<lparr>window_0 := w OR mask\<rparr>
                             else r\<lparr>window_1 := w OR mask\<rparr>))"

text \<open>The verdicts over a sequence of authenticated packets.\<close>

fun replay_run :: "rtc_srtp_replay \<Rightarrow> u64 list \<Rightarrow> bool list" where
  "replay_run r [] = []"
| "replay_run r (i # is) = (case srtp_replay_check r i of (rc, r') \<Rightarrow> (rc = RTC_OK) # replay_run r' is)"

subsection \<open>The abstract window\<close>

text \<open>An index is fresh when nothing was accepted yet, when it is beyond the highest accepted
  one, or when it is less than 128 behind it and was not accepted before.\<close>

definition fresh :: "nat set \<Rightarrow> nat \<Rightarrow> bool" where
  "fresh A i \<longleftrightarrow> A = {} \<or> Max A < i \<or> (i \<notin> A \<and> Max A < i + 128)"

fun fresh_run :: "nat set \<Rightarrow> nat list \<Rightarrow> bool list" where
  "fresh_run A [] = []"
| "fresh_run A (i # is) = fresh A i # fresh_run (if fresh A i then insert i A else A) is"

definition bit_at :: "rtc_srtp_replay \<Rightarrow> nat \<Rightarrow> bool" where
  "bit_at r k = (if k < 64 then bit (window_0 r) k else bit (window_1 r) (k - 64))"

definition replay_rel :: "rtc_srtp_replay \<Rightarrow> nat set \<Rightarrow> bool" where
  "replay_rel r A \<longleftrightarrow> finite A \<and>
    (if initialized r then
       A \<noteq> {} \<and> Max A = unat (highest_index r) \<and>
       (\<forall>k < 128. k \<le> unat (highest_index r) \<longrightarrow> (bit_at r k \<longleftrightarrow> unat (highest_index r) - k \<in> A))
     else A = {})"

subsection \<open>Refinement\<close>

lemma bit_u64_ge [simp]: "64 \<le> n \<Longrightarrow> \<not> bit (a :: u64) n"
  using bit_imp_le_length [of a n] by auto

lemma unat_diff_u64: "(b::u64) \<le> a \<Longrightarrow> unat (a - b) = unat a - unat b"
  by (simp add: unat_sub_if' word_le_nat_alt)

lemma bit_at_advance:
  assumes "initialized r" "highest_index r < i" "srtp_replay_check r i = (rc, r')" "k < 128"
  defines "d \<equiv> unat i - unat (highest_index r)"
  shows "bit_at r' k \<longleftrightarrow> k = 0 \<or> (d \<le> k \<and> bit_at r (k - d))"
proof -
  have lt: "unat (highest_index r) < unat i" using assms(2) by (simp add: word_less_nat_alt)
  let ?delta = "i - highest_index r"
  have delta: "unat ?delta = d" using assms(2) by (simp add: unat_diff_u64 d_def)
  then have "0 < d" using lt by (simp add: d_def)
  then have nz: "?delta \<noteq> 0" using delta by auto
  consider "128 \<le> d" | "64 \<le> d" "d < 128" | "d < 64" by linarith
  then show ?thesis
  proof cases
    case 1
    then have "?delta \<ge> SRTP_REPLAY_WINDOW_SIZE"
      using delta by (simp add: word_le_nat_alt SRTP_REPLAY_WINDOW_SIZE_def)
    then have "window_0 r' = 1" "window_1 r' = 0"
      using assms(1-3) by (auto simp: srtp_replay_check_def Let_def)
    then show ?thesis using 1 assms(4) \<open>0 < d\<close> by (auto simp: bit_at_def bit_1_iff)
  next
    case 2
    then have c: "\<not> ?delta \<ge> SRTP_REPLAY_WINDOW_SIZE" "?delta \<ge> 64"
      using delta by (simp_all add: word_le_nat_alt SRTP_REPLAY_WINDOW_SIZE_def)
    have s: "unat (?delta - 64) = d - 64" using c(2) delta by (simp add: unat_diff_u64)
    have "window_0 r' = 1" "window_1 r' = push_bit (d - 64) (window_0 r)"
      using assms(1-3) c s by (auto simp: srtp_replay_check_def Let_def)
    then show ?thesis using 2 assms(4) \<open>0 < d\<close>
      by (auto simp: bit_at_def bit_1_iff bit_push_bit_iff)
  next
    case 3
    then have c: "\<not> ?delta \<ge> SRTP_REPLAY_WINDOW_SIZE" "\<not> ?delta \<ge> 64"
      using delta by (simp_all add: word_le_nat_alt SRTP_REPLAY_WINDOW_SIZE_def)
    have "unat (64 - ?delta) = 64 - d" using c(2) delta by (simp add: unat_diff_u64)
    then have "window_0 r' = push_bit d (window_0 r) OR 1"
      "window_1 r' = push_bit d (window_1 r) OR drop_bit (64 - d) (window_0 r)"
      using assms(1-3) c delta nz by (auto simp: srtp_replay_check_def Let_def)
    then show ?thesis using 3 assms(4) \<open>0 < d\<close>
      by (auto simp: bit_at_def bit_1_iff bit_push_bit_iff bit_or_iff bit_drop_bit_eq add.commute)
  qed
qed

lemma replay_advance:
  assumes rel: "replay_rel r A" and init: "initialized r" and gt: "highest_index r < i"
    and run: "srtp_replay_check r i = (rc, r')"
  shows "rc = RTC_OK \<and> fresh A (unat i) \<and> replay_rel r' (insert (unat i) A)"
proof -
  let ?h = "unat (highest_index r)"
  have lt: "?h < unat i" using gt by (simp add: word_less_nat_alt)
  have A: "finite A" "A \<noteq> {}" "Max A = ?h" and bits:
    "\<And>k. k < 128 \<Longrightarrow> k \<le> ?h \<Longrightarrow> bit_at r k \<longleftrightarrow> ?h - k \<in> A"
    using rel init by (auto simp: replay_rel_def)
  have r': "initialized r'" "highest_index r' = i" "rc = RTC_OK"
    using run init gt by (auto simp: srtp_replay_check_def Let_def)
  have max: "Max (insert (unat i) A) = unat i" using A lt by simp
  have "bit_at r' k \<longleftrightarrow> unat i - k \<in> insert (unat i) A" if k: "k < 128" "k \<le> unat i" for k
  proof -
    let ?d = "unat i - ?h"
    have "\<not> unat i - k \<in> A" if "k < ?d"
    proof
      assume "unat i - k \<in> A"
      then have "unat i - k \<le> ?h" using A Max_ge by metis
      then show False using that k(2) by simp
    qed
    moreover have "unat i - k = ?h - (k - ?d)" if "?d \<le> k" using that lt by simp
    moreover have "unat i - k = unat i \<longleftrightarrow> k = 0" using k(2) by auto
    ultimately show ?thesis
      using bit_at_advance [OF init gt run k(1)] bits [of "k - ?d"] k lt by (cases "k < ?d") auto
  qed
  then have "replay_rel r' (insert (unat i) A)" using A r' max by (simp add: replay_rel_def)
  then show ?thesis using r' A lt by (simp add: fresh_def)
qed

lemma replay_word_bit:
  fixes d :: u64
  assumes "d < 128" "w = (if drop_bit 6 d = 0 then window_0 r else window_1 r)"
  shows "w AND push_bit (unat (d AND 63)) 1 \<noteq> 0 \<longleftrightarrow> bit_at r (unat d)"
    and "drop_bit 6 d = 0 \<longleftrightarrow> unat d < 64" "unat (d AND 63) = unat d mod 64"
proof -
  show m: "unat (d AND 63) = unat d mod 64" by (simp add: and_masks unat_take_bit)
  have "unat (drop_bit 6 d) = unat d div 64" by (simp add: unat_drop_bit)
  then show z: "drop_bit 6 d = 0 \<longleftrightarrow> unat d < 64" by (simp add: word_unat_eq_iff div_eq_0_iff del: drop_bit_eq_div)
  have "w AND push_bit n 1 \<noteq> 0 \<longleftrightarrow> bit w n" if "n < 64" for n
  proof
    assume "w AND push_bit n 1 \<noteq> 0"
    then show "bit w n"
    proof (rule contrapos_np)
      assume "\<not> bit w n"
      then show "w AND push_bit n 1 = 0" by (intro bit_word_eqI) (auto simp: bit_simps)
    qed
  next
    assume "bit w n"
    then have "bit (w AND push_bit n 1) n" using that by (simp add: bit_simps)
    then show "w AND push_bit n 1 \<noteq> 0" by auto
  qed
  then have "w AND push_bit (unat (d AND 63)) 1 \<noteq> 0 \<longleftrightarrow> bit w (unat d mod 64)"
    unfolding m by simp
  moreover have "unat d mod 64 = unat d - 64" if "\<not> unat d < 64"
    using that assms(1) by (simp add: word_less_nat_alt mod_if)
  ultimately show "w AND push_bit (unat (d AND 63)) 1 \<noteq> 0 \<longleftrightarrow> bit_at r (unat d)"
    using assms(2) z by (auto simp: bit_at_def)
qed

lemma replay_mark:
  fixes d :: u64
  assumes "d < 128" "w = (if drop_bit 6 d = 0 then window_0 r else window_1 r)"
    "r' = (if drop_bit 6 d = 0 then r\<lparr>window_0 := w OR push_bit (unat (d AND 63)) 1\<rparr>
           else r\<lparr>window_1 := w OR push_bit (unat (d AND 63)) 1\<rparr>)" "k < 128"
  shows "bit_at r' k \<longleftrightarrow> k = unat d \<or> bit_at r k"
proof (cases "unat d < 64")
  case True
  then show ?thesis
    using assms replay_word_bit(2,3) [OF assms(1,2)] by (auto simp: bit_at_def bit_simps)
next
  case False
  moreover have "unat d mod 64 = unat d - 64"
    using False assms(1) by (simp add: word_less_nat_alt mod_if)
  ultimately show ?thesis
    using assms replay_word_bit(2,3) [OF assms(1,2)] by (auto simp: bit_at_def bit_simps)
qed

lemma replay_inside:
  assumes rel: "replay_rel r A" and init: "initialized r" and le: "\<not> highest_index r < i"
    and run: "srtp_replay_check r i = (rc, r')"
  shows "(rc = RTC_OK \<longleftrightarrow> fresh A (unat i)) \<and>
    replay_rel r' (if fresh A (unat i) then insert (unat i) A else A)"
proof -
  let ?h = "unat (highest_index r)" and ?delta = "highest_index r - i"
  have A: "finite A" "A \<noteq> {}" "Max A = ?h" and bits:
    "\<And>k. k < 128 \<Longrightarrow> k \<le> ?h \<Longrightarrow> bit_at r k \<longleftrightarrow> ?h - k \<in> A"
    using rel init by (auto simp: replay_rel_def)
  have ih: "unat i \<le> ?h" using le by (simp add: word_less_nat_alt not_less)
  then have d: "unat ?delta = ?h - unat i" by (simp add: unat_diff_u64 word_le_nat_alt)
  show ?thesis
  proof (cases "128 \<le> ?h - unat i")
    case True
    then have "?delta \<ge> SRTP_REPLAY_WINDOW_SIZE"
      using d by (simp add: word_le_nat_alt SRTP_REPLAY_WINDOW_SIZE_def)
    then have "rc = RTC_ERR_SRTP" "r' = r" using run init le by (auto simp: srtp_replay_check_def Let_def)
    moreover have "\<not> fresh A (unat i)" using A ih True by (auto simp: fresh_def)
    ultimately show ?thesis using rel by simp
  next
    case False
    then have lt: "?delta < 128" using d by (simp add: word_less_nat_alt)
    then have nge: "\<not> ?delta \<ge> SRTP_REPLAY_WINDOW_SIZE" by (simp add: SRTP_REPLAY_WINDOW_SIZE_def not_le)
    define w where "w = (if drop_bit 6 ?delta = 0 then window_0 r else window_1 r)"
    have hit: "w AND push_bit (unat (?delta AND 63)) 1 \<noteq> 0 \<longleftrightarrow> unat i \<in> A"
      using replay_word_bit(1) [OF lt w_def] bits [of "?h - unat i"] False ih d by simp
    have fr: "fresh A (unat i) \<longleftrightarrow> unat i \<notin> A" using A ih False by (auto simp: fresh_def)
    show ?thesis
    proof (cases "unat i \<in> A")
      case True
      then have "rc = RTC_ERR_SRTP" "r' = r"
        using run init le nge hit by (auto simp: srtp_replay_check_def Let_def w_def)
      then show ?thesis using rel True fr by simp
    next
      case out: False
      have r': "rc = RTC_OK" "r' = (if drop_bit 6 ?delta = 0
          then r\<lparr>window_0 := w OR push_bit (unat (?delta AND 63)) 1\<rparr>
          else r\<lparr>window_1 := w OR push_bit (unat (?delta AND 63)) 1\<rparr>)"
        using run init le nge hit out unfolding srtp_replay_check_def Let_def w_def [symmetric] by auto
      have same: "initialized r'" "highest_index r' = highest_index r" using r'(2) init by auto
      have "bit_at r' k \<longleftrightarrow> ?h - k \<in> insert (unat i) A" if "k < 128" "k \<le> ?h" for k
      proof -
        have "?h - k = unat i \<longleftrightarrow> k = unat ?delta" using that ih d by auto
        then show ?thesis using replay_mark [OF lt w_def r'(2) that(1)] bits [OF that] by auto
      qed
      moreover have "Max (insert (unat i) A) = ?h" using A ih by simp
      ultimately have "replay_rel r' (insert (unat i) A)" using A same by (simp add: replay_rel_def)
      then show ?thesis using r'(1) fr out by simp
    qed
  qed
qed

lemma replay_first:
  assumes "replay_rel r A" "\<not> initialized r" "srtp_replay_check r i = (rc, r')"
  shows "rc = RTC_OK \<and> fresh A (unat i) \<and> replay_rel r' (insert (unat i) A)"
proof -
  have r': "rc = RTC_OK" "r' = r\<lparr>initialized := True, highest_index := i, window_0 := 1, window_1 := 0\<rparr>"
    using assms(2,3) by (simp_all add: srtp_replay_check_def)
  have A: "A = {}" using assms(1,2) by (simp add: replay_rel_def)
  have "bit_at r' k \<longleftrightarrow> unat i - k \<in> {unat i}" if "k \<le> unat i" for k
    using r'(2) that by (auto simp: bit_at_def bit_1_iff)
  then show ?thesis using r' A by (simp add: replay_rel_def fresh_def)
qed

text \<open>The window implements the abstract verdict and keeps representing the accepted set.\<close>

lemma replay_check_refines:
  assumes "replay_rel r A" "srtp_replay_check r i = (rc, r')"
  shows "(rc = RTC_OK \<longleftrightarrow> fresh A (unat i)) \<and>
    replay_rel r' (if fresh A (unat i) then insert (unat i) A else A)"
  using replay_first [OF assms(1) _ assms(2)] replay_advance [OF assms(1) _ _ assms(2)]
    replay_inside [OF assms(1) _ _ assms(2)] by metis

lemma replay_run_refines: "replay_rel r A \<Longrightarrow> replay_run r is = fresh_run A (map unat is)"
proof (induction "is" arbitrary: r A)
  case (Cons i "is")
  obtain rc r' where c: "srtp_replay_check r i = (rc, r')" by fastforce
  show ?case using replay_check_refines [OF Cons.prems c] Cons.IH c by simp
qed simp

text \<open>The indices accepted in a run.\<close>

definition accepted :: "u64 list \<Rightarrow> bool list \<Rightarrow> u64 list" where
  "accepted is vs = map fst (filter snd (zip is vs))"

lemma accepted_Cons [simp]:
  "accepted (i # is) (v # vs) = (if v then i # accepted is vs else accepted is vs)"
  by (simp add: accepted_def)

lemma accepted_Nil [simp]: "accepted [] vs = []"
  by (simp add: accepted_def)

lemma fresh_not_member: "finite A \<Longrightarrow> fresh A i \<Longrightarrow> i \<notin> A"
  using Max_ge by (force simp: fresh_def)

lemma fresh_run_distinct:
  assumes "finite A"
  shows "distinct (accepted is (fresh_run A (map unat is))) \<and>
    unat ` set (accepted is (fresh_run A (map unat is))) \<inter> A = {}"
  using assms
proof (induction "is" arbitrary: A)
  case (Cons i "is")
  show ?case
  proof (cases "fresh A (unat i)")
    case True
    have "unat i \<notin> A" using fresh_not_member [OF Cons.prems True] .
    then show ?thesis using True Cons.IH [of "insert (unat i) A"] Cons.prems by auto
  next
    case False
    then show ?thesis using Cons by simp
  qed
qed simp

subsection \<open>Properties\<close>

text \<open>
  C13. Over any sequence of authenticated packets, the 128-bit window gives exactly the
  verdicts of the abstract rule (fresh: beyond the highest accepted index, or less than 128 behind it
  and not accepted before), shifts across the two words included.
\<close>

theorem replay_window_refines_set:
  "replay_run srtp_replay_zero is = fresh_run {} (map unat is)"
  by (rule replay_run_refines) (simp add: replay_rel_def srtp_replay_zero_def)

text \<open>
  No packet index is accepted twice, however packets are reordered, repeated or
  delayed; the first packet of a stream is accepted.
\<close>

theorem replay_never_twice:
  "distinct (accepted is (replay_run srtp_replay_zero is)) \<and>
   (is \<noteq> [] \<longrightarrow> hd (replay_run srtp_replay_zero is))"
proof -
  have run: "replay_run srtp_replay_zero is = fresh_run {} (map unat is)"
    by (rule replay_run_refines) (simp add: replay_rel_def srtp_replay_zero_def)
  have "is \<noteq> [] \<longrightarrow> hd (fresh_run {} (map unat is))" by (cases "is") (simp_all add: fresh_def)
  then show ?thesis using fresh_run_distinct [of "{}" "is"] run by simp
qed

theorem replay_never_twice_witness:
  "accepted [5, 7, 5, 6, 200, 6] (replay_run srtp_replay_zero [5, 7, 5, 6, 200, 6]) = [5, 7, 6, 200] \<and>
   distinct (accepted [5, 7, 5, 6, 200, 6] (replay_run srtp_replay_zero [5, 7, 5, 6, 200, 6]))"
proof -
  have "replay_run srtp_replay_zero [5, 7, 5, 6, 200, 6] = [True, True, False, True, True, False]"
    by code_simp
  then show ?thesis using replay_never_twice [of "[5, 7, 5, 6, 200, 6]"] by (simp del: replay_run.simps)
qed

end
