(* ===== verification/Srtp.thy ===== *)
theory Srtp
  imports Srtp_Replay
begin

text \<open>
  \<^verbatim>\<open>rtc/src/rtc_srtp.c\<close>: key derivation, the per-SSRC stream tables with rollover counters, and the
  four protect/unprotect entry points in the AES-CM and AES-GCM profiles. The primitives of the
  cryptographic library (HMAC-SHA1, AES-CTR, AES-GCM, AES-ECB) are the fields of \<open>srtp_crypto\<close>; what
  is relied on of them is \<open>crypto_ok\<close>: they succeed, HMAC-SHA1 gives 20 bytes, CTR is its own
  inverse, and opening inverts sealing. A packet is the first \<^verbatim>\<open>*len\<close> bytes of its buffer; after an
  error the buffer contents are not described. The context lock, which serialises the entry points,
  is left out: a run is a sequence of calls.
\<close>

subsection \<open>Data\<close>

definition SRTP_AUTH_TAG_LEN :: nat where "SRTP_AUTH_TAG_LEN = 10"
definition SRTP_GCM_TAG_LEN :: nat where "SRTP_GCM_TAG_LEN = 16"
definition SRTP_GCM_IV_LEN :: nat where "SRTP_GCM_IV_LEN = 12"
definition SRTP_MAX_KEY_LEN :: nat where "SRTP_MAX_KEY_LEN = 32"
definition SRTP_MAX_SALT_LEN :: nat where "SRTP_MAX_SALT_LEN = 14"
definition SRTP_REPLAY_MAX_STREAMS :: nat where "SRTP_REPLAY_MAX_STREAMS = 8"

lemmas srtp_sizes = SRTP_AUTH_TAG_LEN_def SRTP_GCM_TAG_LEN_def SRTP_GCM_IV_LEN_def
  SRTP_MAX_KEY_LEN_def SRTP_MAX_SALT_LEN_def SRTP_REPLAY_MAX_STREAMS_def

datatype rtc_srtp_profile =
    RTC_SRTP_PROFILE_AES128_CM_SHA1_80
  | RTC_SRTP_PROFILE_AEAD_AES_128_GCM
  | RTC_SRTP_PROFILE_AEAD_AES_256_GCM

record rtc_srtp_replay_entry =
  en_ssrc :: u32
  en_in_use :: bool
  en_lru_tick :: u64
  en_roc :: u32
  en_last_seq :: u16
  en_roc_init :: bool
  en_replay :: rtc_srtp_replay

record rtc_srtp_ctx =
  sx_profile :: rtc_srtp_profile
  sx_key_len :: nat
  sx_salt_len :: nat
  sx_master_key :: bytes
  sx_master_salt :: bytes
  sx_session_key :: bytes
  sx_session_salt :: bytes
  sx_session_auth_key :: bytes
  sx_rtcp_session_key :: bytes
  sx_rtcp_session_salt :: bytes
  sx_rtcp_session_auth_key :: bytes
  sx_srtcp_index :: u32
  sx_rtp_send :: "rtc_srtp_replay_entry list"
  sx_rtp_replay :: "rtc_srtp_replay_entry list"
  sx_rtcp_replay :: "rtc_srtp_replay_entry list"
  sx_send_lru_tick :: u64
  sx_replay_lru_tick :: u64
  sx_initialized :: bool

text \<open>The library's primitives; a \<open>bool\<close> selects the 256-bit cipher.\<close>

record srtp_crypto =
  c_hmac :: "bytes \<Rightarrow> bytes \<Rightarrow> rtc_err + bytes"
  c_ctr :: "bytes \<Rightarrow> bytes \<Rightarrow> bytes \<Rightarrow> rtc_err + bytes"
  c_seal :: "bool \<Rightarrow> bytes \<Rightarrow> bytes \<Rightarrow> bytes \<Rightarrow> bytes \<Rightarrow> rtc_err + bytes \<times> bytes"
  c_open :: "bool \<Rightarrow> bytes \<Rightarrow> bytes \<Rightarrow> bytes \<Rightarrow> bytes \<Rightarrow> bytes \<Rightarrow> rtc_err + bytes"
  c_ecb :: "bool \<Rightarrow> bytes \<Rightarrow> bytes \<Rightarrow> bytes"
  c_ctx :: bool

subsection \<open>Stream tables\<close>

definition srtp_entry_zero :: rtc_srtp_replay_entry where
  "srtp_entry_zero = \<lparr>en_ssrc = 0, en_in_use = False, en_lru_tick = 0, en_roc = 0, en_last_seq = 0,
     en_roc_init = False, en_replay = srtp_replay_zero\<rparr>"

text \<open>Table positions stand for the entry pointers.\<close>

fun find_ssrc_loop :: "rtc_srtp_replay_entry list \<Rightarrow> u32 \<Rightarrow> nat \<Rightarrow> nat option" where
  "find_ssrc_loop [] ssrc i = None"
| "find_ssrc_loop (e # es) ssrc i =
    (if en_in_use e \<and> en_ssrc e = ssrc then Some i else find_ssrc_loop es ssrc (i + 1))"

definition srtp_find_ssrc :: "rtc_srtp_replay_entry list \<Rightarrow> u32 \<Rightarrow> nat option" where
  "srtp_find_ssrc table ssrc = find_ssrc_loop table ssrc 0"

text \<open>The scan of \<^verbatim>\<open>srtp_entry_for_ssrc\<close>: the matching position, or the first free and the
  least recently used ones.\<close>

fun entry_scan ::
  "rtc_srtp_replay_entry list \<Rightarrow> u32 \<Rightarrow> rtc_srtp_replay_entry list \<Rightarrow> nat \<Rightarrow> nat option \<Rightarrow> nat \<Rightarrow>
   nat + nat option \<times> nat" where
  "entry_scan table ssrc [] i free lru = Inr (free, lru)"
| "entry_scan table ssrc (e # es) i free lru =
    (if en_in_use e \<and> en_ssrc e = ssrc then Inl i
     else entry_scan table ssrc es (i + 1)
       (if \<not> en_in_use e \<and> free = None then Some i else free)
       (if en_lru_tick e < en_lru_tick (table ! lru) then i else lru))"

definition srtp_entry_for_ssrc ::
  "rtc_srtp_replay_entry list \<Rightarrow> u64 \<Rightarrow> u32 \<Rightarrow> nat \<times> rtc_srtp_replay_entry list \<times> u64" where
  "srtp_entry_for_ssrc table lru_tick ssrc =
    (case entry_scan table ssrc table 0 None 0 of
       Inl i \<Rightarrow> (i, table[i := (table ! i)\<lparr>en_lru_tick := lru_tick + 1\<rparr>], lru_tick + 1)
     | Inr (free, lru) \<Rightarrow>
         let slot = (case free of Some i \<Rightarrow> i | None \<Rightarrow> lru)
         in (slot, table[slot := srtp_entry_zero\<lparr>en_ssrc := ssrc, en_in_use := True,
               en_lru_tick := lru_tick + 1\<rparr>], lru_tick + 1))"

subsection \<open>Key derivation and initialisation\<close>

function kdf_loop :: "srtp_crypto \<Rightarrow> bool \<Rightarrow> bytes \<Rightarrow> bytes \<Rightarrow> u16 \<Rightarrow> nat \<Rightarrow> bytes" where
  "kdf_loop C big key x block_count remaining =
    (if remaining = 0 then []
     else
       let block = c_ecb C big key (x @ write_u16 block_count);
           copy = (if remaining < 16 then remaining else 16)
       in take copy block @ kdf_loop C big key x (block_count + 1) (remaining - copy))"
  by pat_completeness auto
termination by (relation "measure (\<lambda>(C, big, key, x, c, n). n)") auto

definition srtp_kdf :: "srtp_crypto \<Rightarrow> bytes \<Rightarrow> bytes \<Rightarrow> u8 \<Rightarrow> nat \<Rightarrow> rtc_err + bytes" where
  "srtp_kdf C master_key master_salt label out_len =
    (let salt = take 14 master_salt;
         x = salt @ replicate (14 - length salt) 0;
         x = x[7 := x ! 7 XOR label]
     in if \<not> c_ctx C then Inl RTC_ERR_NOMEM
        else Inr (kdf_loop C (length master_key \<ge> 32) master_key x 0 out_len))"

definition pad_to :: "nat \<Rightarrow> bytes \<Rightarrow> bytes" where
  "pad_to n b = b @ replicate (n - length b) 0"

definition srtp_table_zero :: "rtc_srtp_replay_entry list" where
  "srtp_table_zero = replicate SRTP_REPLAY_MAX_STREAMS srtp_entry_zero"

definition rtc_srtp_init_profile ::
  "srtp_crypto \<Rightarrow> bool \<Rightarrow> rtc_srtp_profile \<Rightarrow> bytes \<Rightarrow> bytes \<Rightarrow> rtc_err + rtc_srtp_ctx" where
  "rtc_srtp_init_profile C mutex_ok profile mkey msalt =
    (if \<not> mutex_ok then Inl RTC_ERR_GENERIC
     else
       let mkey = take SRTP_MAX_KEY_LEN mkey;
           msalt = take SRTP_MAX_SALT_LEN msalt;
           kdf = (\<lambda>label n. srtp_kdf C mkey msalt label n)
       in case kdf 0x00 (length mkey) of Inl e \<Rightarrow> Inl e | Inr session_key \<Rightarrow>
          case kdf 0x02 (length msalt) of Inl e \<Rightarrow> Inl e | Inr session_salt \<Rightarrow>
          case kdf 0x03 (length mkey) of Inl e \<Rightarrow> Inl e | Inr rtcp_key \<Rightarrow>
          case kdf 0x05 (length msalt) of Inl e \<Rightarrow> Inl e | Inr rtcp_salt \<Rightarrow>
          case (if profile = RTC_SRTP_PROFILE_AES128_CM_SHA1_80 then kdf 0x01 20 else Inr (replicate 20 0)) of
            Inl e \<Rightarrow> Inl e | Inr auth_key \<Rightarrow>
          case (if profile = RTC_SRTP_PROFILE_AES128_CM_SHA1_80 then kdf 0x04 20 else Inr (replicate 20 0)) of
            Inl e \<Rightarrow> Inl e | Inr rtcp_auth_key \<Rightarrow>
          Inr \<lparr>sx_profile = profile, sx_key_len = length mkey, sx_salt_len = length msalt,
            sx_master_key = pad_to SRTP_MAX_KEY_LEN mkey, sx_master_salt = pad_to SRTP_MAX_SALT_LEN msalt,
            sx_session_key = pad_to SRTP_MAX_KEY_LEN session_key,
            sx_session_salt = pad_to SRTP_MAX_SALT_LEN session_salt, sx_session_auth_key = auth_key,
            sx_rtcp_session_key = pad_to SRTP_MAX_KEY_LEN rtcp_key,
            sx_rtcp_session_salt = pad_to SRTP_MAX_SALT_LEN rtcp_salt,
            sx_rtcp_session_auth_key = rtcp_auth_key, sx_srtcp_index = 0,
            sx_rtp_send = srtp_table_zero, sx_rtp_replay = srtp_table_zero,
            sx_rtcp_replay = srtp_table_zero, sx_send_lru_tick = 0, sx_replay_lru_tick = 0,
            sx_initialized = True\<rparr>)"

definition rtc_srtp_init :: "srtp_crypto \<Rightarrow> bool \<Rightarrow> bytes \<Rightarrow> bytes \<Rightarrow> rtc_err + rtc_srtp_ctx" where
  "rtc_srtp_init C mutex_ok mkey msalt =
    rtc_srtp_init_profile C mutex_ok RTC_SRTP_PROFILE_AES128_CM_SHA1_80 mkey msalt"

subsection \<open>Initialisation vectors and header length\<close>

definition xor_bytes :: "bytes \<Rightarrow> bytes \<Rightarrow> bytes" where
  "xor_bytes a b = map2 (\<lambda>x y. x XOR y) a b"

definition srtp_cm_iv :: "bytes \<Rightarrow> u32 \<Rightarrow> u32 \<Rightarrow> u16 \<Rightarrow> bytes" where
  "srtp_cm_iv session_salt ssrc roc seq =
    xor_bytes (replicate 4 0 @ write_u32 ssrc @ write_u32 roc @ write_u16 seq) (take 14 session_salt) @ [0, 0]"

definition srtp_aes_cm ::
  "srtp_crypto \<Rightarrow> bytes \<Rightarrow> bytes \<Rightarrow> u32 \<Rightarrow> u32 \<Rightarrow> u16 \<Rightarrow> bytes \<Rightarrow> rtc_err + bytes" where
  "srtp_aes_cm C session_key session_salt ssrc roc seq data =
    c_ctr C (take 16 session_key) (srtp_cm_iv session_salt ssrc roc seq) data"

definition srtp_gcm_rtp_iv :: "bytes \<Rightarrow> u32 \<Rightarrow> u32 \<Rightarrow> u16 \<Rightarrow> bytes" where
  "srtp_gcm_rtp_iv salt ssrc roc seq =
    xor_bytes ([0, 0] @ write_u32 ssrc @ write_u32 roc @ write_u16 seq) (take SRTP_GCM_IV_LEN salt)"

definition srtp_gcm_rtcp_iv :: "bytes \<Rightarrow> u32 \<Rightarrow> u32 \<Rightarrow> bytes" where
  "srtp_gcm_rtcp_iv salt ssrc index =
    xor_bytes ([0, 0] @ write_u32 ssrc @ [0, 0] @ write_u32 index) (take SRTP_GCM_IV_LEN salt)"

definition srtp_is_gcm :: "rtc_srtp_profile \<Rightarrow> bool" where
  "srtp_is_gcm profile \<longleftrightarrow> profile = RTC_SRTP_PROFILE_AEAD_AES_128_GCM \<or>
     profile = RTC_SRTP_PROFILE_AEAD_AES_256_GCM"

text \<open>Whether the context's GCM cipher is the 256-bit one, and the key bytes it reads.\<close>

definition srtp_gcm_cipher :: "rtc_srtp_ctx \<Rightarrow> bool" where
  "srtp_gcm_cipher ctx \<longleftrightarrow> sx_key_len ctx \<ge> 32"

definition gcm_key :: "rtc_srtp_ctx \<Rightarrow> bytes \<Rightarrow> bytes" where
  "gcm_key ctx k = take (if srtp_gcm_cipher ctx then 32 else 16) k"

definition srtp_rtp_header_len :: "bytes \<Rightarrow> nat \<Rightarrow> (rtc_err + nat) option" where
  "srtp_rtp_header_len buf len =
    do { b0 \<leftarrow> rd8 buf 0;
         let hdr_len = 12 + unat (b0 AND 0x0F) * 4;
         if b0 AND 0x10 \<noteq> 0 then
           if hdr_len + 4 > len then Some (Inl RTC_ERR_INVALID)
           else do { ext_words \<leftarrow> rd16 buf (hdr_len + 2);
                     let hdr_len = hdr_len + 4 + unat ext_words * 4;
                     Some (if hdr_len > len then Inl RTC_ERR_INVALID else Inr hdr_len) }
         else Some (if hdr_len > len then Inl RTC_ERR_INVALID else Inr hdr_len) }"

subsection \<open>Rollover counters\<close>

text \<open>The send-direction entry of a packet and its counter.\<close>

definition srtp_send_roc :: "rtc_srtp_ctx \<Rightarrow> u32 \<Rightarrow> u16 \<Rightarrow> u32 \<times> rtc_srtp_ctx" where
  "srtp_send_roc ctx ssrc seq =
    (case srtp_entry_for_ssrc (sx_rtp_send ctx) (sx_send_lru_tick ctx) ssrc of (i, table, tick) \<Rightarrow>
       let st = table ! i;
           st = (if \<not> en_roc_init st then st\<lparr>en_roc_init := True\<rparr>
                 else if seq < en_last_seq st \<and> unat (en_last_seq st) - unat seq > 0x8000
                 then st\<lparr>en_roc := en_roc st + 1\<rparr> else st);
           st = st\<lparr>en_last_seq := seq\<rparr>
       in (en_roc st, ctx\<lparr>sx_rtp_send := table[i := st], sx_send_lru_tick := tick\<rparr>))"

text \<open>The receiver's estimate, made before authentication and without touching the table.\<close>

definition srtp_estimate_roc :: "rtc_srtp_replay_entry list \<Rightarrow> u32 \<Rightarrow> u16 \<Rightarrow> u32" where
  "srtp_estimate_roc table ssrc seq =
    (case srtp_find_ssrc table ssrc of
       None \<Rightarrow> 0
     | Some i \<Rightarrow>
         let known = table ! i
         in if en_roc_init known \<and> seq < en_last_seq known \<and> unat (en_last_seq known) - unat seq > 0x8000
            then en_roc known + 1 else en_roc known)"

text \<open>The replay check of an authenticated packet in its stream's entry: the verdict, the
  entry's position and the table and tick afterwards.\<close>

definition srtp_check_stream ::
  "rtc_srtp_replay_entry list \<Rightarrow> u64 \<Rightarrow> u32 \<Rightarrow> u64 \<Rightarrow>
   rtc_err \<times> nat \<times> rtc_srtp_replay_entry list \<times> u64" where
  "srtp_check_stream table tick ssrc index =
    (case srtp_entry_for_ssrc table tick ssrc of (i, table, tick) \<Rightarrow>
     case srtp_replay_check (en_replay (table ! i)) index of (rc, w) \<Rightarrow>
       (rc, i, table[i := (table ! i)\<lparr>en_replay := w\<rparr>], tick))"

definition srtp_recv_roc :: "rtc_srtp_replay_entry \<Rightarrow> u16 \<Rightarrow> u32 \<Rightarrow> rtc_srtp_replay_entry" where
  "srtp_recv_roc st seq roc =
    (if \<not> en_roc_init st \<or> seq > en_last_seq st \<or> int (unat (en_last_seq st)) - int (unat seq) > 0x8000
     then st\<lparr>en_last_seq := seq, en_roc := roc, en_roc_init := True\<rparr> else st)"

definition pkt_index :: "u32 \<Rightarrow> u16 \<Rightarrow> u64" where
  "pkt_index roc seq = push_bit 16 (ucast roc) OR ucast seq"

subsection \<open>SRTP\<close>

definition srtp_protect_gcm ::
  "srtp_crypto \<Rightarrow> rtc_srtp_ctx \<Rightarrow> bytes \<Rightarrow> nat \<Rightarrow> ((rtc_err + bytes) \<times> rtc_srtp_ctx) option" where
  "srtp_protect_gcm C ctx buf buf_cap =
    (if length buf > buf_cap \<or> buf_cap - length buf < SRTP_GCM_TAG_LEN then Some (Inl RTC_ERR_NOMEM, ctx)
     else do {
       seq \<leftarrow> rd16 buf 2;
       ssrc \<leftarrow> rd32 buf 8;
       let (roc, ctx) = srtp_send_roc ctx ssrc seq;
       h \<leftarrow> srtp_rtp_header_len buf (length buf);
       case h of Inl e \<Rightarrow> Some (Inl RTC_ERR_INVALID, ctx)
       | Inr hdr_len \<Rightarrow>
           let iv = srtp_gcm_rtp_iv (sx_session_salt ctx) ssrc roc seq
           in case c_seal C (srtp_gcm_cipher ctx) (gcm_key ctx (sx_session_key ctx)) iv
                (take hdr_len buf) (drop hdr_len buf) of
                Inl e \<Rightarrow> Some (Inl e, ctx)
              | Inr (ct, tag) \<Rightarrow> Some (Inr (take hdr_len buf @ ct @ tag), ctx) })"

definition rtc_srtp_protect ::
  "srtp_crypto \<Rightarrow> rtc_srtp_ctx \<Rightarrow> bytes \<Rightarrow> nat \<Rightarrow> ((rtc_err + bytes) \<times> rtc_srtp_ctx) option" where
  "rtc_srtp_protect C ctx buf buf_cap =
    (if \<not> sx_initialized ctx then Some (Inl RTC_ERR_SRTP, ctx)
     else if length buf < 12 then Some (Inl RTC_ERR_INVALID, ctx)
     else if srtp_is_gcm (sx_profile ctx) then srtp_protect_gcm C ctx buf buf_cap
     else if length buf > buf_cap \<or> buf_cap - length buf < SRTP_AUTH_TAG_LEN then Some (Inl RTC_ERR_NOMEM, ctx)
     else do {
       seq \<leftarrow> rd16 buf 2;
       ssrc \<leftarrow> rd32 buf 8;
       let (roc, ctx) = srtp_send_roc ctx ssrc seq;
       h \<leftarrow> srtp_rtp_header_len buf (length buf);
       case h of Inl e \<Rightarrow> Some (Inl e, ctx)
       | Inr hdr_len \<Rightarrow>
           (case srtp_aes_cm C (sx_session_key ctx) (sx_session_salt ctx) ssrc roc seq (drop hdr_len buf) of
              Inl e \<Rightarrow> Some (Inl e, ctx)
            | Inr ct \<Rightarrow>
                let buf = take hdr_len buf @ ct
                in case c_hmac C (sx_session_auth_key ctx) (buf @ write_u32 roc) of
                     Inl e \<Rightarrow> Some (Inl e, ctx)
                   | Inr hmac \<Rightarrow> Some (Inr (buf @ take SRTP_AUTH_TAG_LEN hmac), ctx)) })"

definition srtp_unprotect_gcm ::
  "srtp_crypto \<Rightarrow> rtc_srtp_ctx \<Rightarrow> bytes \<Rightarrow> ((rtc_err + bytes) \<times> rtc_srtp_ctx) option" where
  "srtp_unprotect_gcm C ctx buf =
    (if length buf < 12 + SRTP_GCM_TAG_LEN then Some (Inl RTC_ERR_INVALID, ctx)
     else do {
       let body_len = length buf - SRTP_GCM_TAG_LEN;
       tag \<leftarrow> rd_bytes buf body_len SRTP_GCM_TAG_LEN;
       seq \<leftarrow> rd16 buf 2;
       ssrc \<leftarrow> rd32 buf 8;
       let roc = srtp_estimate_roc (sx_rtp_replay ctx) ssrc seq;
       h \<leftarrow> srtp_rtp_header_len buf body_len;
       case h of Inl e \<Rightarrow> Some (Inl RTC_ERR_INVALID, ctx)
       | Inr hdr_len \<Rightarrow>
           let iv = srtp_gcm_rtp_iv (sx_session_salt ctx) ssrc roc seq
           in case c_open C (srtp_gcm_cipher ctx) (gcm_key ctx (sx_session_key ctx)) iv
                (take hdr_len buf) (take (body_len - hdr_len) (drop hdr_len buf)) tag of
                Inl e \<Rightarrow> Some (Inl e, ctx)
              | Inr pt \<Rightarrow>
                  (case srtp_check_stream (sx_rtp_replay ctx) (sx_replay_lru_tick ctx) ssrc (pkt_index roc seq) of
                     (rc, i, table, tick) \<Rightarrow>
                       if rc \<noteq> RTC_OK then Some (Inl rc, ctx\<lparr>sx_rtp_replay := table, sx_replay_lru_tick := tick\<rparr>)
                       else Some (Inr (take hdr_len buf @ pt),
                              ctx\<lparr>sx_rtp_replay := table[i := srtp_recv_roc (table ! i) seq roc],
                                  sx_replay_lru_tick := tick\<rparr>)) })"

definition rtc_srtp_unprotect ::
  "srtp_crypto \<Rightarrow> rtc_srtp_ctx \<Rightarrow> bytes \<Rightarrow> ((rtc_err + bytes) \<times> rtc_srtp_ctx) option" where
  "rtc_srtp_unprotect C ctx buf =
    (if \<not> sx_initialized ctx then Some (Inl RTC_ERR_SRTP, ctx)
     else if srtp_is_gcm (sx_profile ctx) then srtp_unprotect_gcm C ctx buf
     else if length buf < 12 + SRTP_AUTH_TAG_LEN then Some (Inl RTC_ERR_INVALID, ctx)
     else do {
       let srtp_len = length buf - SRTP_AUTH_TAG_LEN;
       tag \<leftarrow> rd_bytes buf srtp_len SRTP_AUTH_TAG_LEN;
       seq \<leftarrow> rd16 buf 2;
       ssrc \<leftarrow> rd32 buf 8;
       let roc = srtp_estimate_roc (sx_rtp_replay ctx) ssrc seq;
       case c_hmac C (sx_session_auth_key ctx) (take srtp_len buf @ write_u32 roc) of
         Inl e \<Rightarrow> Some (Inl e, ctx)
       | Inr hmac \<Rightarrow>
           if take SRTP_AUTH_TAG_LEN hmac \<noteq> tag then Some (Inl RTC_ERR_SRTP, ctx)
           else (case srtp_check_stream (sx_rtp_replay ctx) (sx_replay_lru_tick ctx) ssrc (pkt_index roc seq) of
             (rc, i, table, tick) \<Rightarrow>
               let ctx = ctx\<lparr>sx_rtp_replay := table, sx_replay_lru_tick := tick\<rparr>
               in if rc \<noteq> RTC_OK then Some (Inl rc, ctx)
                  else do {
                    h \<leftarrow> srtp_rtp_header_len buf srtp_len;
                    case h of Inl e \<Rightarrow> Some (Inl e, ctx)
                    | Inr hdr_len \<Rightarrow>
                        (case srtp_aes_cm C (sx_session_key ctx) (sx_session_salt ctx) ssrc roc seq
                            (take (srtp_len - hdr_len) (drop hdr_len buf)) of
                           Inl e \<Rightarrow> Some (Inl e, ctx)
                         | Inr pt \<Rightarrow> Some (Inr (take hdr_len buf @ pt),
                             ctx\<lparr>sx_rtp_replay := table[i := srtp_recv_roc (table ! i) seq roc]\<rparr>)) }) })"

subsection \<open>SRTCP\<close>

definition srtcp_aes_cm ::
  "srtp_crypto \<Rightarrow> bytes \<Rightarrow> bytes \<Rightarrow> u32 \<Rightarrow> u32 \<Rightarrow> bytes \<Rightarrow> rtc_err + bytes" where
  "srtcp_aes_cm C session_key session_salt ssrc srtcp_index data =
    (let iv = xor_bytes (replicate 4 0 @ write_u32 ssrc @ write_u32 srtcp_index @ [0, 0])
                (take 14 session_salt) @ [0, 0]
     in c_ctr C (take 16 session_key) iv data)"

definition srtp_protect_rtcp_gcm ::
  "srtp_crypto \<Rightarrow> rtc_srtp_ctx \<Rightarrow> bytes \<Rightarrow> nat \<Rightarrow> ((rtc_err + bytes) \<times> rtc_srtp_ctx) option" where
  "srtp_protect_rtcp_gcm C ctx buf buf_cap =
    (if length buf > buf_cap \<or> buf_cap - length buf < SRTP_GCM_TAG_LEN + 4 then Some (Inl RTC_ERR_NOMEM, ctx)
     else do {
       ssrc \<leftarrow> rd32 buf 4;
       let index = sx_srtcp_index ctx AND 0x7FFFFFFF;
       let trailer = write_u32 (index OR 0x80000000);
       let iv = srtp_gcm_rtcp_iv (sx_rtcp_session_salt ctx) ssrc index;
       case c_seal C (srtp_gcm_cipher ctx) (gcm_key ctx (sx_rtcp_session_key ctx)) iv
           (take 8 buf @ trailer) (drop 8 buf) of
         Inl e \<Rightarrow> Some (Inl e, ctx)
       | Inr (ct, tag) \<Rightarrow> Some (Inr (take 8 buf @ ct @ tag @ trailer),
           ctx\<lparr>sx_srtcp_index := sx_srtcp_index ctx + 1\<rparr>) })"

definition rtc_srtp_protect_rtcp ::
  "srtp_crypto \<Rightarrow> rtc_srtp_ctx \<Rightarrow> bytes \<Rightarrow> nat \<Rightarrow> ((rtc_err + bytes) \<times> rtc_srtp_ctx) option" where
  "rtc_srtp_protect_rtcp C ctx buf buf_cap =
    (if \<not> sx_initialized ctx then Some (Inl RTC_ERR_SRTP, ctx)
     else if length buf < 8 then Some (Inl RTC_ERR_INVALID, ctx)
     else if srtp_is_gcm (sx_profile ctx) then srtp_protect_rtcp_gcm C ctx buf buf_cap
     else if length buf > buf_cap \<or> buf_cap - length buf < 4 + SRTP_AUTH_TAG_LEN then Some (Inl RTC_ERR_NOMEM, ctx)
     else do {
       ssrc \<leftarrow> rd32 buf 4;
       let index = sx_srtcp_index ctx AND 0x7FFFFFFF;
       case (if length buf > 8
             then srtcp_aes_cm C (sx_rtcp_session_key ctx) (sx_rtcp_session_salt ctx) ssrc index (drop 8 buf)
             else Inr []) of
         Inl e \<Rightarrow> Some (Inl e, ctx)
       | Inr ct \<Rightarrow>
           let buf = take 8 buf @ ct @ write_u32 (index OR 0x80000000)
           in case c_hmac C (sx_rtcp_session_auth_key ctx) buf of
                Inl e \<Rightarrow> Some (Inl e, ctx)
              | Inr hmac \<Rightarrow> Some (Inr (buf @ take SRTP_AUTH_TAG_LEN hmac),
                  ctx\<lparr>sx_srtcp_index := sx_srtcp_index ctx + 1\<rparr>) })"

definition srtp_unprotect_rtcp_gcm ::
  "srtp_crypto \<Rightarrow> rtc_srtp_ctx \<Rightarrow> bytes \<Rightarrow> ((rtc_err + bytes) \<times> rtc_srtp_ctx) option" where
  "srtp_unprotect_rtcp_gcm C ctx buf =
    (if length buf < 8 + SRTP_GCM_TAG_LEN + 4 then Some (Inl RTC_ERR_INVALID, ctx)
     else do {
       let idx_off = length buf - 4;
       e_index \<leftarrow> rd32 buf idx_off;
       let encrypted = (e_index AND 0x80000000 \<noteq> 0);
       let index = e_index AND 0x7FFFFFFF;
       trailer \<leftarrow> rd_bytes buf idx_off 4;
       let tag_off = idx_off - SRTP_GCM_TAG_LEN;
       tag \<leftarrow> rd_bytes buf tag_off SRTP_GCM_TAG_LEN;
       ssrc \<leftarrow> rd32 buf 4;
       let iv = srtp_gcm_rtcp_iv (sx_rtcp_session_salt ctx) ssrc index;
       let key = gcm_key ctx (sx_rtcp_session_key ctx);
       case (if encrypted
             then (case c_open C (srtp_gcm_cipher ctx) key iv (take 8 buf @ trailer)
                     (take (tag_off - 8) (drop 8 buf)) tag of
                     Inl e \<Rightarrow> Inl e | Inr pt \<Rightarrow> Inr (take 8 buf @ pt))
             else (case c_open C (srtp_gcm_cipher ctx) key iv (take tag_off buf @ trailer) [] tag of
                     Inl e \<Rightarrow> Inl e | Inr pt \<Rightarrow> Inr (take tag_off buf))) of
         Inl e \<Rightarrow> Some (Inl e, ctx)
       | Inr out \<Rightarrow>
           (case srtp_check_stream (sx_rtcp_replay ctx) (sx_replay_lru_tick ctx) ssrc (ucast index) of
              (rc, i, table, tick) \<Rightarrow>
                let ctx = ctx\<lparr>sx_rtcp_replay := table, sx_replay_lru_tick := tick\<rparr>
                in if rc \<noteq> RTC_OK then Some (Inl rc, ctx) else Some (Inr out, ctx)) })"

definition rtc_srtp_unprotect_rtcp ::
  "srtp_crypto \<Rightarrow> rtc_srtp_ctx \<Rightarrow> bytes \<Rightarrow> ((rtc_err + bytes) \<times> rtc_srtp_ctx) option" where
  "rtc_srtp_unprotect_rtcp C ctx buf =
    (if \<not> sx_initialized ctx then Some (Inl RTC_ERR_SRTP, ctx)
     else if srtp_is_gcm (sx_profile ctx) then srtp_unprotect_rtcp_gcm C ctx buf
     else if length buf < 8 + 4 + SRTP_AUTH_TAG_LEN then Some (Inl RTC_ERR_INVALID, ctx)
     else do {
       let auth_start = length buf - SRTP_AUTH_TAG_LEN;
       tag \<leftarrow> rd_bytes buf auth_start SRTP_AUTH_TAG_LEN;
       let idx_start = auth_start - 4;
       e_index \<leftarrow> rd32 buf idx_start;
       let encrypted = (e_index AND 0x80000000 \<noteq> 0);
       let index = e_index AND 0x7FFFFFFF;
       case c_hmac C (sx_rtcp_session_auth_key ctx) (take auth_start buf) of
         Inl e \<Rightarrow> Some (Inl e, ctx)
       | Inr hmac \<Rightarrow>
           if take SRTP_AUTH_TAG_LEN hmac \<noteq> tag then Some (Inl RTC_ERR_SRTP, ctx)
           else do {
             ssrc \<leftarrow> rd32 buf 4;
             case srtp_check_stream (sx_rtcp_replay ctx) (sx_replay_lru_tick ctx) ssrc (ucast index) of
               (rc, i, table, tick) \<Rightarrow>
                 let ctx = ctx\<lparr>sx_rtcp_replay := table, sx_replay_lru_tick := tick\<rparr>
                 in if rc \<noteq> RTC_OK then Some (Inl rc, ctx)
                    else if encrypted \<and> idx_start > 8 then
                      (case srtcp_aes_cm C (sx_rtcp_session_key ctx) (sx_rtcp_session_salt ctx) ssrc index
                          (take (idx_start - 8) (drop 8 buf)) of
                         Inl e \<Rightarrow> Some (Inl e, ctx)
                       | Inr pt \<Rightarrow> Some (Inr (take 8 buf @ pt), ctx))
                    else Some (Inr (take idx_start buf), ctx) } })"

text \<open>Closing wipes the context, so every later call is refused.\<close>

definition rtc_srtp_close :: "rtc_srtp_ctx \<Rightarrow> rtc_srtp_ctx" where
  "rtc_srtp_close ctx =
    \<lparr>sx_profile = RTC_SRTP_PROFILE_AES128_CM_SHA1_80, sx_key_len = 0, sx_salt_len = 0,
     sx_master_key = replicate 32 0, sx_master_salt = replicate 14 0,
     sx_session_key = replicate 32 0, sx_session_salt = replicate 14 0,
     sx_session_auth_key = replicate 20 0, sx_rtcp_session_key = replicate 32 0,
     sx_rtcp_session_salt = replicate 14 0, sx_rtcp_session_auth_key = replicate 20 0,
     sx_srtcp_index = 0, sx_rtp_send = srtp_table_zero, sx_rtp_replay = srtp_table_zero,
     sx_rtcp_replay = srtp_table_zero, sx_send_lru_tick = 0, sx_replay_lru_tick = 0,
     sx_initialized = False\<rparr>"

end
