(* ===== verification/Srtp_Streams.thy ===== *)
theory Srtp_Streams
  imports Srtp
begin

text \<open>
  What the SRTP context of \<^verbatim>\<open>rtc/src/rtc_srtp.c\<close> achieves on whole packet streams. A stream table
  is abstracted to a finite map from SSRCs to entries (recency aside), the extended packet index
  \<open>roc * 65536 + seq\<close> to a natural number, and a receive entry to the set of accepted indices.
\<close>

subsection \<open>Stream tables as finite maps\<close>

definition strip :: "rtc_srtp_replay_entry \<Rightarrow> rtc_srtp_replay_entry" where
  "strip e = e\<lparr>en_lru_tick := 0\<rparr>"

definition tbl_map :: "rtc_srtp_replay_entry list \<Rightarrow> u32 \<Rightarrow> rtc_srtp_replay_entry option" where
  "tbl_map t ssrc = map_option (\<lambda>i. strip (t ! i)) (srtp_find_ssrc t ssrc)"

definition tbl_ok :: "rtc_srtp_replay_entry list \<Rightarrow> bool" where
  "tbl_ok t \<longleftrightarrow> length t = SRTP_REPLAY_MAX_STREAMS \<and>
    (\<forall>i < length t. \<forall>j < length t. en_in_use (t ! i) \<and> en_in_use (t ! j) \<and>
       en_ssrc (t ! i) = en_ssrc (t ! j) \<longrightarrow> i = j)"

lemma find_ssrc_loop_Some:
  "find_ssrc_loop es ssrc k = Some j \<Longrightarrow>
    k \<le> j \<and> j < k + length es \<and> en_in_use (es ! (j - k)) \<and> en_ssrc (es ! (j - k)) = ssrc"
proof (induction es arbitrary: k)
  case (Cons e es)
  show ?case
  proof (cases "en_in_use e \<and> en_ssrc e = ssrc")
    case False
    then have "find_ssrc_loop es ssrc (k + 1) = Some j" using Cons.prems by auto
    from Cons.IH [OF this] show ?thesis by (auto simp: nth_Cons split: nat.split) (metis Suc_diff_le diff_Suc_Suc nat.inject)+
  qed (use Cons.prems in auto)
qed simp

lemma find_ssrc_loop_None:
  "find_ssrc_loop es ssrc k = None \<longleftrightarrow> (\<forall>e \<in> set es. \<not> (en_in_use e \<and> en_ssrc e = ssrc))"
  by (induction es arbitrary: k) auto

lemma find_ssrc_Some:
  assumes "tbl_ok t"
  shows "srtp_find_ssrc t ssrc = Some i \<longleftrightarrow> i < length t \<and> en_in_use (t ! i) \<and> en_ssrc (t ! i) = ssrc"
proof
  assume "srtp_find_ssrc t ssrc = Some i"
  then show "i < length t \<and> en_in_use (t ! i) \<and> en_ssrc (t ! i) = ssrc"
    using find_ssrc_loop_Some [of t ssrc 0 i] by (simp add: srtp_find_ssrc_def)
next
  assume i: "i < length t \<and> en_in_use (t ! i) \<and> en_ssrc (t ! i) = ssrc"
  then have "srtp_find_ssrc t ssrc \<noteq> None"
    using find_ssrc_loop_None [of t ssrc 0] nth_mem by (fastforce simp: srtp_find_ssrc_def)
  then obtain j where j: "srtp_find_ssrc t ssrc = Some j" by blast
  then have "j < length t" "en_in_use (t ! j)" "en_ssrc (t ! j) = ssrc"
    using find_ssrc_loop_Some [of t ssrc 0 j] by (simp_all add: srtp_find_ssrc_def)
  then have "i = j" using assms i unfolding tbl_ok_def by blast
  then show "srtp_find_ssrc t ssrc = Some i" using j by simp
qed

lemma find_ssrc_None:
  "srtp_find_ssrc t ssrc = None \<longleftrightarrow> (\<forall>e \<in> set t. \<not> (en_in_use e \<and> en_ssrc e = ssrc))"
  by (simp add: srtp_find_ssrc_def find_ssrc_loop_None)

lemma tbl_ok_zero: "tbl_ok srtp_table_zero"
  by (simp add: tbl_ok_def srtp_table_zero_def srtp_entry_zero_def)

lemma tbl_map_zero: "tbl_map srtp_table_zero = Map.empty"
  by (rule ext) (simp add: tbl_map_def find_ssrc_None srtp_table_zero_def srtp_entry_zero_def)

text \<open>Writing an entry at a free position, or at the position of its own SSRC.\<close>

lemma tbl_put:
  assumes ok: "tbl_ok t" and i: "i < length t" and e: "en_in_use e" "en_ssrc e = ssrc"
    and at: "\<not> en_in_use (t ! i) \<and> srtp_find_ssrc t ssrc = None \<or> srtp_find_ssrc t ssrc = Some i"
  shows "tbl_ok (t[i := e])" and "tbl_map (t[i := e]) = (tbl_map t)(ssrc \<mapsto> strip e)"
    and "srtp_find_ssrc (t[i := e]) ssrc = Some i"
proof -
  have only: "j = i" if "j < length t" "en_in_use (t ! j)" "en_ssrc (t ! j) = ssrc" for j
    using at find_ssrc_Some [OF ok, of ssrc j] that by auto
  show ok': "tbl_ok (t[i := e])"
  proof -
    have "a = b" if "a < length t" "b < length t" "en_in_use (t[i := e] ! a)" "en_in_use (t[i := e] ! b)"
      "en_ssrc (t[i := e] ! a) = en_ssrc (t[i := e] ! b)" for a b
    proof -
      consider "a = i" "b = i" | "a = i" "b \<noteq> i" | "a \<noteq> i" "b = i" | "a \<noteq> i" "b \<noteq> i" by blast
      then show ?thesis
      proof cases
        case 1
        then show ?thesis by (rule trans [OF _ sym])
      next
        case 2
        then have "en_in_use (t ! b)" "en_ssrc (t ! b) = ssrc" using that(4,5) e i by simp_all
        then show ?thesis using only [OF that(2)] 2 by blast
      next
        case 3
        then have "en_in_use (t ! a)" "en_ssrc (t ! a) = ssrc" using that(3,5) e i by simp_all
        then show ?thesis using only [OF that(1)] 3 by blast
      next
        case 4
        then have "en_in_use (t ! a)" "en_in_use (t ! b)" "en_ssrc (t ! a) = en_ssrc (t ! b)"
          using that(3-5) by simp_all
        then show ?thesis using ok that(1,2) unfolding tbl_ok_def by blast
      qed
    qed
    then show ?thesis using ok unfolding tbl_ok_def by simp
  qed
  show f: "srtp_find_ssrc (t[i := e]) ssrc = Some i" using find_ssrc_Some [OF ok'] i e by simp
  have "srtp_find_ssrc (t[i := e]) s = Some j \<longleftrightarrow> srtp_find_ssrc t s = Some j" if "s \<noteq> ssrc" for s j
    using that find_ssrc_Some [OF ok'] find_ssrc_Some [OF ok] at e i
    by (auto simp: nth_list_update)
  then have *: "srtp_find_ssrc (t[i := e]) s = srtp_find_ssrc t s" if "s \<noteq> ssrc" for s
    using that by (metis not_Some_eq)
  have "tbl_map (t[i := e]) s = ((tbl_map t)(ssrc \<mapsto> strip e)) s" for s
  proof (cases "s = ssrc")
    case False
    show ?thesis
    proof (cases "srtp_find_ssrc t s")
      case (Some j)
      then have "j \<noteq> i" using at False find_ssrc_Some [OF ok, of s j] find_ssrc_Some [OF ok, of ssrc i] by auto
      then show ?thesis using Some False * by (simp add: tbl_map_def)
    qed (use False * in \<open>simp add: tbl_map_def\<close>)
  qed (use f i in \<open>simp add: tbl_map_def\<close>)
  then show "tbl_map (t[i := e]) = (tbl_map t)(ssrc \<mapsto> strip e)" by blast
qed

lemma entry_scan_spec:
  "entry_scan t ssrc es k free lru =
    (case find_ssrc_loop es ssrc k of
       Some j \<Rightarrow> Inl j
     | None \<Rightarrow> Inr (case free of Some f \<Rightarrow> Some f
         | None \<Rightarrow> if (\<exists>e \<in> set es. \<not> en_in_use e)
             then Some (k + length (takeWhile en_in_use es)) else None,
         snd (projr (entry_scan t ssrc es k free lru))))"
proof (induction es arbitrary: k free lru)
  case (Cons e es)
  show ?case
    by (subst (1 2) entry_scan.simps, subst (1 2) Cons.IH)
      (auto split: option.split simp: takeWhile_append)
qed (auto split: option.split)

lemma tbl_full:
  assumes ok: "tbl_ok t" and full: "\<forall>e \<in> set t. en_in_use e"
  shows "card (dom (tbl_map t)) = SRTP_REPLAY_MAX_STREAMS"
proof -
  have *: "dom (tbl_map t) = (\<lambda>i. en_ssrc (t ! i)) ` {..<length t}"
  proof (intro equalityI subsetI)
    fix s assume "s \<in> dom (tbl_map t)"
    then obtain i where "srtp_find_ssrc t s = Some i" by (auto simp: tbl_map_def)
    then show "s \<in> (\<lambda>i. en_ssrc (t ! i)) ` {..<length t}" using find_ssrc_Some [OF ok] by auto
  next
    fix s assume "s \<in> (\<lambda>i. en_ssrc (t ! i)) ` {..<length t}"
    then obtain i where i: "i < length t" "s = en_ssrc (t ! i)" by auto
    then have "srtp_find_ssrc t s = Some i" using find_ssrc_Some [OF ok] full nth_mem by blast
    then show "s \<in> dom (tbl_map t)" by (auto simp: tbl_map_def)
  qed
  have "inj_on (\<lambda>i. en_ssrc (t ! i)) {..<length t}"
  proof (rule inj_onI)
    fix x y assume "x \<in> {..<length t}" "y \<in> {..<length t}" "en_ssrc (t ! x) = en_ssrc (t ! y)"
    moreover from this have "en_in_use (t ! x)" "en_in_use (t ! y)" using full by simp_all
    ultimately show "x = y" using ok unfolding tbl_ok_def by (simp del: One_nat_def)
  qed
  then show ?thesis unfolding * using ok by (simp add: card_image tbl_ok_def)
qed

definition stream_entry :: "rtc_srtp_replay_entry list \<Rightarrow> u32 \<Rightarrow> rtc_srtp_replay_entry" where
  "stream_entry t ssrc = (case tbl_map t ssrc of Some e \<Rightarrow> e
     | None \<Rightarrow> srtp_entry_zero\<lparr>en_ssrc := ssrc, en_in_use := True\<rparr>)"

definition room :: "rtc_srtp_replay_entry list \<Rightarrow> u32 \<Rightarrow> bool" where
  "room t ssrc \<longleftrightarrow> ssrc \<in> dom (tbl_map t) \<or> card (dom (tbl_map t)) < SRTP_REPLAY_MAX_STREAMS"

text \<open>With room in the table, looking a stream up disturbs no other stream.\<close>

lemma entry_for_ssrc_spec:
  assumes ok: "tbl_ok t" and room: "room t ssrc" and run: "srtp_entry_for_ssrc t tick ssrc = (i, t', tick')"
  shows "tbl_ok t'" "i < length t'" "srtp_find_ssrc t' ssrc = Some i" "strip (t' ! i) = stream_entry t ssrc"
    "tbl_map t' = (tbl_map t)(ssrc \<mapsto> stream_entry t ssrc)"
proof -
  have "\<exists>e. t' = t[i := e] \<and> i < length t \<and> en_in_use e \<and> en_ssrc e = ssrc \<and> strip e = stream_entry t ssrc \<and>
    (\<not> en_in_use (t ! i) \<and> srtp_find_ssrc t ssrc = None \<or> srtp_find_ssrc t ssrc = Some i)"
  proof (cases "srtp_find_ssrc t ssrc")
    case (Some j)
    then have "entry_scan t ssrc t 0 None 0 = Inl j"
      by (subst entry_scan_spec) (simp add: srtp_find_ssrc_def)
    then have "i = j" "t' = t[j := (t ! j)\<lparr>en_lru_tick := tick + 1\<rparr>]"
      using run by (auto simp: srtp_entry_for_ssrc_def)
    then show ?thesis using Some find_ssrc_Some [OF ok, of ssrc j]
      by (auto simp: stream_entry_def tbl_map_def strip_def)
  next
    case None
    then have "card (dom (tbl_map t)) < SRTP_REPLAY_MAX_STREAMS"
      using room by (auto simp: room_def tbl_map_def)
    then have free: "\<exists>e \<in> set t. \<not> en_in_use e" using tbl_full [OF ok] by fastforce
    define f where "f = length (takeWhile en_in_use t)"
    have "takeWhile en_in_use t \<noteq> t" using free by (auto simp: takeWhile_eq_all_conv)
    then have f: "f < length t"
      unfolding f_def by (metis length_takeWhile_le linorder_le_less_linear order.antisym takeWhile_eq_take take_all)
    then have f: "f < length t" "\<not> en_in_use (t ! f)"
      unfolding f_def using nth_length_takeWhile by blast+
    obtain l where "entry_scan t ssrc t 0 None 0 = Inr (Some f, l)"
      using entry_scan_spec [of t ssrc t 0 None 0] None free by (simp add: srtp_find_ssrc_def f_def)
    then have "i = f" "t' = t[f := srtp_entry_zero\<lparr>en_ssrc := ssrc, en_in_use := True, en_lru_tick := tick + 1\<rparr>]"
      using run by (auto simp: srtp_entry_for_ssrc_def)
    then show ?thesis using None f
      by (auto simp: stream_entry_def tbl_map_def strip_def srtp_entry_zero_def)
  qed
  then obtain e where e: "t' = t[i := e]" "i < length t" "en_in_use e" "en_ssrc e = ssrc"
    "strip e = stream_entry t ssrc"
    "\<not> en_in_use (t ! i) \<and> srtp_find_ssrc t ssrc = None \<or> srtp_find_ssrc t ssrc = Some i" by blast
  note put = tbl_put [OF ok e(2-4,6)]
  show "tbl_ok t'" "i < length t'" "srtp_find_ssrc t' ssrc = Some i" "strip (t' ! i) = stream_entry t ssrc"
    "tbl_map t' = (tbl_map t)(ssrc \<mapsto> stream_entry t ssrc)"
    using put e(1,2,5) by simp_all
qed

text \<open>Writing back an entry that keeps its SSRC.\<close>

lemma tbl_write_back:
  assumes "tbl_ok t" "srtp_find_ssrc t ssrc = Some i" "en_in_use e" "en_ssrc e = ssrc"
  shows "tbl_ok (t[i := e])" "tbl_map (t[i := e]) = (tbl_map t)(ssrc \<mapsto> strip e)"
    "srtp_find_ssrc (t[i := e]) ssrc = Some i"
  using tbl_put [OF assms(1) _ assms(3,4)] find_ssrc_Some [OF assms(1)] assms(2) by auto

subsection \<open>Extended packet indices\<close>

definition index_of :: "rtc_srtp_replay_entry \<Rightarrow> nat" where
  "index_of e = unat (en_roc e) * 65536 + unat (en_last_seq e)"

lemma unat_pkt_index: "unat (pkt_index roc seq) = unat roc * 65536 + unat seq"
proof -
  have "pkt_index roc seq = push_bit 16 (ucast roc) + ucast seq"
    unfolding pkt_index_def by (rule disjunctive_add [symmetric]) (auto simp: bit_simps dest: bit_imp_le_length)
  moreover have "unat (ucast roc :: u64) = unat roc" "unat (ucast seq :: u64) = unat seq"
    using unat_range(2) [of seq] unat_range(3) [of roc] by (simp_all add: unsigned_ucast_eq take_bit_nat_eq_self_iff)
  ultimately show ?thesis using unat_range(2) [of seq] unat_range(3) [of roc]
    by (simp add: push_bit_eq_mult unat_word_ariths)
qed

text \<open>A forward move of less than half the sequence space is recognised with the right
  rollover counter, across the wrap of the sequence number too.\<close>

lemma roll_forward:
  fixes last_seq seq :: u16 and roc :: u32
  defines "l \<equiv> unat roc * 65536 + unat last_seq"
  assumes "l < e" "e < l + 32768" "e < 2 ^ 48" "unat seq = e mod 65536"
  shows "unat (if seq < last_seq \<and> unat last_seq - unat seq > 0x8000 then roc + 1 else roc) = e div 65536"
proof -
  let ?r = "unat roc" and ?s = "unat last_seq"
  have s: "?s < 65536" "unat seq < 65536" by (rule unat_range)+
  have e: "e = e div 65536 * 65536 + unat seq" using assms(5) by simp
  have "e div 65536 = ?r \<or> e div 65536 = ?r + 1" using assms(2,3) s e unfolding l_def by linarith
  then show ?thesis
  proof
    assume *: "e div 65536 = ?r"
    then have "?s < unat seq" using e assms(2) unfolding l_def by linarith
    then show ?thesis using * by (simp add: word_less_nat_alt)
  next
    assume *: "e div 65536 = ?r + 1"
    then have lt: "unat seq < ?s" "?s - unat seq > 0x8000" using e assms(3) s unfolding l_def by linarith+
    have "e div 65536 < 2 ^ 32" using assms(4) by (simp add: div_less_iff_less_mult)
    then have "?r + 1 < 2 ^ 32" using * by simp
    then show ?thesis using * lt by (simp add: word_less_nat_alt unat_word_ariths)
  qed
qed

subsection \<open>One packet\<close>

text \<open>What is relied on of the cryptographic library.\<close>

definition crypto_ok :: "srtp_crypto \<Rightarrow> bool" where
  "crypto_ok C \<longleftrightarrow>
    (\<forall>k d. \<exists>t. c_hmac C k d = Inr t \<and> length t = 20) \<and>
    (\<forall>k iv d. \<exists>e. c_ctr C k iv d = Inr e \<and> length e = length d \<and> c_ctr C k iv e = Inr d) \<and>
    (\<forall>b k iv a d. \<exists>e t. c_seal C b k iv a d = Inr (e, t) \<and> length e = length d \<and> length t = 16 \<and>
       c_open C b k iv a e t = Inr d)"

definition hdr_len :: "bytes \<Rightarrow> nat" where
  "hdr_len p = (case srtp_rtp_header_len p (length p) of Some (Inr h) \<Rightarrow> h | _ \<Rightarrow> 0)"

definition rtp_packet :: "bytes \<Rightarrow> bool" where
  "rtp_packet p \<longleftrightarrow> 12 \<le> length p \<and> srtp_rtp_header_len p (length p) = Some (Inr (hdr_len p))"

definition pkt_seq :: "bytes \<Rightarrow> u16" where "pkt_seq p = u16_of (p ! 2) (p ! 3)"

definition pkt_ssrc :: "bytes \<Rightarrow> u32" where "pkt_ssrc p = u32_of (p ! 8) (p ! 9) (p ! 10) (p ! 11)"

definition tag_len :: "rtc_srtp_ctx \<Rightarrow> nat" where
  "tag_len ctx = (if srtp_is_gcm (sx_profile ctx) then SRTP_GCM_TAG_LEN else SRTP_AUTH_TAG_LEN)"

text \<open>The protected form of a packet under given keys and rollover counter.\<close>

definition wire :: "srtp_crypto \<Rightarrow> rtc_srtp_ctx \<Rightarrow> u32 \<Rightarrow> bytes \<Rightarrow> bytes" where
  "wire C ctx roc p =
    (let h = take (hdr_len p) p; body = drop (hdr_len p) p
     in if srtp_is_gcm (sx_profile ctx) then
          (case c_seal C (srtp_gcm_cipher ctx) (gcm_key ctx (sx_session_key ctx))
               (srtp_gcm_rtp_iv (sx_session_salt ctx) (pkt_ssrc p) roc (pkt_seq p)) h body of
             Inr (ct, tag) \<Rightarrow> h @ ct @ tag | Inl e \<Rightarrow> [])
        else
          (case srtp_aes_cm C (sx_session_key ctx) (sx_session_salt ctx) (pkt_ssrc p) roc (pkt_seq p) body of
             Inr ct \<Rightarrow> (case c_hmac C (sx_session_auth_key ctx) ((h @ ct) @ write_u32 roc) of
               Inr m \<Rightarrow> (h @ ct) @ take SRTP_AUTH_TAG_LEN m | Inl e \<Rightarrow> [])
           | Inl e \<Rightarrow> []))"

definition same_keys :: "rtc_srtp_ctx \<Rightarrow> rtc_srtp_ctx \<Rightarrow> bool" where
  "same_keys a b \<longleftrightarrow> sx_initialized a = sx_initialized b \<and> sx_profile a = sx_profile b \<and>
    sx_key_len a = sx_key_len b \<and> sx_session_key a = sx_session_key b \<and>
    sx_session_salt a = sx_session_salt b \<and> sx_session_auth_key a = sx_session_auth_key b"

lemma wire_cong: "same_keys a b \<Longrightarrow> wire C a = wire C b"
  by (rule ext)+ (auto simp: wire_def same_keys_def srtp_gcm_cipher_def gcm_key_def Let_def split: sum.split)

lemma header_len_facts:
  assumes "srtp_rtp_header_len p n = Some (Inr h)"
  shows "12 \<le> h" "h \<le> n" "h \<le> n \<Longrightarrow> p \<noteq> []"
  using assms by (auto simp: srtp_rtp_header_len_def Let_def rd8_def bind_eq_Some_conv split: if_splits)

lemma rd16_cong: "i + 1 < h \<Longrightarrow> h \<le> length p \<Longrightarrow> h \<le> length q \<Longrightarrow> take h q = take h p \<Longrightarrow> rd16 q i = rd16 p i"
proof -
  assume a: "i + 1 < h" "h \<le> length p" "h \<le> length q" "take h q = take h p"
  have "q ! j = p ! j" if "j < h" for j using a(4) that by (metis nth_take)
  then show ?thesis using a(1-3) by simp
qed

lemma rd32_cong: "i + 3 < h \<Longrightarrow> h \<le> length p \<Longrightarrow> h \<le> length q \<Longrightarrow> take h q = take h p \<Longrightarrow> rd32 q i = rd32 p i"
proof -
  assume a: "i + 3 < h" "h \<le> length p" "h \<le> length q" "take h q = take h p"
  have "q ! j = p ! j" if "j < h" for j using a(4) that by (metis nth_take)
  then show ?thesis using a(1-3) by simp
qed

text \<open>The header length depends on the header only.\<close>

lemma header_len_cong:
  assumes h: "srtp_rtp_header_len p (length p) = Some (Inr h)" and eq: "take h q = take h p"
    and n: "h \<le> n" "n \<le> length q"
  shows "srtp_rtp_header_len q n = Some (Inr h)"
proof -
  note f = header_len_facts [OF h]
  have nth: "q ! j = p ! j" if "j < h" for j using eq that by (metis nth_take)
  have b0: "rd8 p 0 = Some (p ! 0)" "rd8 q 0 = Some (p ! 0)"
    using nth [of 0] f n by (auto simp: rd8_def)
  let ?k = "12 + unat (p ! 0 AND 15) * 4"
  show ?thesis
  proof (cases "p ! 0 AND 0x10 = 0")
    case True
    then have "h = ?k" using h b0 by (auto simp: srtp_rtp_header_len_def Let_def split: if_splits)
    then show ?thesis using True b0 n by (simp add: srtp_rtp_header_len_def Let_def)
  next
    case False
    then have k: "?k + 4 \<le> length p" using h b0 by (auto simp: srtp_rtp_header_len_def Let_def split: if_splits)
    then obtain w where w: "rd16 p (?k + 2) = Some w" by simp
    then have hw: "h = ?k + 4 + unat w * 4"
      using False h b0 k by (auto simp: srtp_rtp_header_len_def Let_def split: if_splits)
    then have "rd16 q (?k + 2) = Some w"
      using w rd16_cong [of "?k + 2" h p q] f n eq by simp
    then show ?thesis using False b0 n hw by (simp add: srtp_rtp_header_len_def Let_def)
  qed
qed

lemma send_roc_frame:
  "srtp_send_roc ctx ssrc seq = (roc, ctx') \<Longrightarrow> same_keys ctx ctx' \<and> sx_rtp_replay ctx' = sx_rtp_replay ctx \<and>
    sx_replay_lru_tick ctx' = sx_replay_lru_tick ctx"
  by (auto simp: srtp_send_roc_def Let_def same_keys_def split: prod.splits)

lemma packet_reads:
  assumes "rtp_packet p"
  shows "rd16 p 2 = Some (pkt_seq p)" "rd32 p 8 = Some (pkt_ssrc p)" "12 \<le> hdr_len p" "hdr_len p \<le> length p"
    "12 \<le> length p" "srtp_rtp_header_len p (length p) = Some (Inr (hdr_len p))"
  using assms header_len_facts [of p "length p"] by (auto simp: rtp_packet_def pkt_seq_def pkt_ssrc_def)

lemma protect_step:
  assumes C: "crypto_ok C" and p: "rtp_packet p" and init: "sx_initialized ctx"
    and cap: "length p + tag_len ctx \<le> cap"
    and roc: "srtp_send_roc ctx (pkt_ssrc p) (pkt_seq p) = (roc, ctx')"
  shows "rtc_srtp_protect C ctx p cap = Some (Inr (wire C ctx roc p), ctx')"
proof -
  note r = packet_reads [OF p]
  have k: "same_keys ctx ctx'" using send_roc_frame [OF roc] by blast
  note w = wire_cong [OF k, of C]
  show ?thesis
  proof (cases "srtp_is_gcm (sx_profile ctx)")
    case True
    then have g: "srtp_is_gcm (sx_profile ctx')" using k by (simp add: same_keys_def)
    obtain ct tag where "c_seal C (srtp_gcm_cipher ctx') (gcm_key ctx' (sx_session_key ctx'))
        (srtp_gcm_rtp_iv (sx_session_salt ctx') (pkt_ssrc p) roc (pkt_seq p)) (take (hdr_len p) p)
        (drop (hdr_len p) p) = Inr (ct, tag)"
      using C unfolding crypto_ok_def by blast
    then show ?thesis
      using r roc g True init cap unfolding w
      by (simp add: rtc_srtp_protect_def srtp_protect_gcm_def tag_len_def wire_def Let_def)
  next
    case False
    then have g: "\<not> srtp_is_gcm (sx_profile ctx')" using k by (simp add: same_keys_def)
    obtain ct where ct: "srtp_aes_cm C (sx_session_key ctx') (sx_session_salt ctx') (pkt_ssrc p) roc
        (pkt_seq p) (drop (hdr_len p) p) = Inr ct"
      using C unfolding crypto_ok_def srtp_aes_cm_def by blast
    obtain m where "c_hmac C (sx_session_auth_key ctx') ((take (hdr_len p) p @ ct) @ write_u32 roc) = Inr m"
      using C unfolding crypto_ok_def by blast
    then show ?thesis
      using r roc g False init cap ct unfolding w
      by (simp add: rtc_srtp_protect_def tag_len_def wire_def Let_def)
  qed
qed

text \<open>The protected packet carries the header of the packet, so the receiver finds the same
  stream, sequence number and header length.\<close>

lemma wire_shape:
  assumes C: "crypto_ok C" and p: "rtp_packet p"
  obtains body tag where "wire C ctx roc p = take (hdr_len p) p @ body @ tag"
    "length body = length p - hdr_len p" "length tag = tag_len ctx"
    "srtp_is_gcm (sx_profile ctx) \<longrightarrow> c_open C (srtp_gcm_cipher ctx) (gcm_key ctx (sx_session_key ctx))
        (srtp_gcm_rtp_iv (sx_session_salt ctx) (pkt_ssrc p) roc (pkt_seq p)) (take (hdr_len p) p) body tag
        = Inr (drop (hdr_len p) p)"
    "\<not> srtp_is_gcm (sx_profile ctx) \<longrightarrow> srtp_aes_cm C (sx_session_key ctx) (sx_session_salt ctx) (pkt_ssrc p)
        roc (pkt_seq p) body = Inr (drop (hdr_len p) p)"
    "\<not> srtp_is_gcm (sx_profile ctx) \<longrightarrow> (\<exists>m. c_hmac C (sx_session_auth_key ctx)
        ((take (hdr_len p) p @ body) @ write_u32 roc) = Inr m \<and> take SRTP_AUTH_TAG_LEN m = tag)"
proof (cases "srtp_is_gcm (sx_profile ctx)")
  case True
  obtain ct tag where s: "c_seal C (srtp_gcm_cipher ctx) (gcm_key ctx (sx_session_key ctx))
      (srtp_gcm_rtp_iv (sx_session_salt ctx) (pkt_ssrc p) roc (pkt_seq p)) (take (hdr_len p) p)
      (drop (hdr_len p) p) = Inr (ct, tag)" "length ct = length p - hdr_len p" "length tag = 16"
      "c_open C (srtp_gcm_cipher ctx) (gcm_key ctx (sx_session_key ctx))
        (srtp_gcm_rtp_iv (sx_session_salt ctx) (pkt_ssrc p) roc (pkt_seq p)) (take (hdr_len p) p) ct tag
        = Inr (drop (hdr_len p) p)"
    using C unfolding crypto_ok_def by (metis length_drop)
  show ?thesis
    by (rule that [of ct tag]) (use s True in \<open>simp_all add: wire_def tag_len_def srtp_sizes\<close>)
next
  case False
  obtain ct where ct: "srtp_aes_cm C (sx_session_key ctx) (sx_session_salt ctx) (pkt_ssrc p) roc
      (pkt_seq p) (drop (hdr_len p) p) = Inr ct" "length ct = length p - hdr_len p"
      "srtp_aes_cm C (sx_session_key ctx) (sx_session_salt ctx) (pkt_ssrc p) roc (pkt_seq p) ct
        = Inr (drop (hdr_len p) p)"
    using C unfolding crypto_ok_def srtp_aes_cm_def by (metis length_drop)
  obtain m where m: "c_hmac C (sx_session_auth_key ctx) ((take (hdr_len p) p @ ct) @ write_u32 roc) = Inr m"
      "length m = 20"
    using C unfolding crypto_ok_def by blast
  show ?thesis
    by (rule that [of ct "take SRTP_AUTH_TAG_LEN m"])
      (use ct m False in \<open>simp_all add: wire_def tag_len_def srtp_sizes Let_def\<close>)
qed

lemma unprotect_step:
  assumes C: "crypto_ok C" and p: "rtp_packet p" and init: "sx_initialized ctx"
    and roc: "srtp_estimate_roc (sx_rtp_replay ctx) (pkt_ssrc p) (pkt_seq p) = roc"
    and check: "srtp_check_stream (sx_rtp_replay ctx) (sx_replay_lru_tick ctx) (pkt_ssrc p)
      (pkt_index roc (pkt_seq p)) = (rc, i, t, tick)"
  shows "rtc_srtp_unprotect C ctx (wire C ctx roc p) =
    Some (if rc = RTC_OK then Inr p else Inl rc,
      ctx\<lparr>sx_rtp_replay := if rc = RTC_OK then t[i := srtp_recv_roc (t ! i) (pkt_seq p) roc] else t,
          sx_replay_lru_tick := tick\<rparr>)"
proof -
  note r = packet_reads [OF p]
  obtain body tag where w: "wire C ctx roc p = take (hdr_len p) p @ body @ tag"
    "length body = length p - hdr_len p" "length tag = tag_len ctx"
    "srtp_is_gcm (sx_profile ctx) \<longrightarrow> c_open C (srtp_gcm_cipher ctx) (gcm_key ctx (sx_session_key ctx))
        (srtp_gcm_rtp_iv (sx_session_salt ctx) (pkt_ssrc p) roc (pkt_seq p)) (take (hdr_len p) p) body tag
        = Inr (drop (hdr_len p) p)"
    "\<not> srtp_is_gcm (sx_profile ctx) \<longrightarrow> srtp_aes_cm C (sx_session_key ctx) (sx_session_salt ctx) (pkt_ssrc p)
        roc (pkt_seq p) body = Inr (drop (hdr_len p) p)"
    "\<not> srtp_is_gcm (sx_profile ctx) \<longrightarrow> (\<exists>m. c_hmac C (sx_session_auth_key ctx)
        ((take (hdr_len p) p @ body) @ write_u32 roc) = Inr m \<and> take SRTP_AUTH_TAG_LEN m = tag)"
    using wire_shape [OF C p, where ctx = ctx and roc = roc] .
  define q where "q = wire C ctx roc p"
  have len: "length q = length p + tag_len ctx" using w(1-3) r(4) by (simp add: q_def)
  have hd: "take (hdr_len p) q = take (hdr_len p) p" using w(1) r(4) by (simp add: q_def)
  have q: "rd16 q 2 = Some (pkt_seq p)" "rd32 q 8 = Some (pkt_ssrc p)"
    using rd16_cong [of 2 "hdr_len p" p q] rd32_cong [of 8 "hdr_len p" p q] r hd len by simp_all
  have h: "srtp_rtp_header_len q (length p) = Some (Inr (hdr_len p))"
    by (rule header_len_cong [OF r(6) hd]) (use r len in simp_all)
  have tag: "rd_bytes q (length p) (tag_len ctx) = Some tag"
    using rd_bytes_at [of "take (hdr_len p) p @ body" "length p" tag "tag_len ctx" "[]"] w(1-3) r(4)
    by (simp add: q_def)
  have body: "take (length p - hdr_len p) (drop (hdr_len p) q) = body" "take (length p) q = take (hdr_len p) p @ body"
    using w(1,2) r(4) by (simp_all add: q_def)
  note facts = q h tag body hd len init roc check r(5)
  have "rtc_srtp_unprotect C ctx q = Some (if rc = RTC_OK then Inr p else Inl rc,
      ctx\<lparr>sx_rtp_replay := if rc = RTC_OK then t[i := srtp_recv_roc (t ! i) (pkt_seq p) roc] else t,
          sx_replay_lru_tick := tick\<rparr>)"
  proof (cases "srtp_is_gcm (sx_profile ctx)")
    case True
    then show ?thesis
      using facts w(4) by (simp add: rtc_srtp_unprotect_def srtp_unprotect_gcm_def tag_len_def Let_def
          del: rd_bytes_in rd16_in rd32_in)
  next
    case False
    then obtain m where m: "c_hmac C (sx_session_auth_key ctx)
        ((take (hdr_len p) p @ body) @ write_u32 roc) = Inr m" "take SRTP_AUTH_TAG_LEN m = tag"
      using w(6) by blast
    then show ?thesis
      using facts w(5) False by (simp add: rtc_srtp_unprotect_def tag_len_def Let_def
          del: rd_bytes_in rd16_in rd32_in)
  qed
  then show ?thesis by (simp add: q_def)
qed

subsection \<open>Sending\<close>

fun protect_run :: "srtp_crypto \<Rightarrow> rtc_srtp_ctx \<Rightarrow> nat \<Rightarrow> bytes list \<Rightarrow> (rtc_err + bytes) list option" where
  "protect_run C ctx cap [] = Some []"
| "protect_run C ctx cap (p # ps) =
    do { (r, ctx') \<leftarrow> rtc_srtp_protect C ctx p cap; rs \<leftarrow> protect_run C ctx' cap ps; Some (r # rs) }"

text \<open>A trace pairs each packet with its extended index. A sender's streams start below the first
  wrap and move forward by less than half the sequence space.\<close>

fun tx_ok :: "(u32 \<Rightarrow> nat option) \<Rightarrow> (bytes \<times> nat) list \<Rightarrow> bool" where
  "tx_ok m [] \<longleftrightarrow> True"
| "tx_ok m ((p, e) # tr) \<longleftrightarrow> rtp_packet p \<and> e < 2 ^ 48 \<and> unat (pkt_seq p) = e mod 65536 \<and>
    (case m (pkt_ssrc p) of None \<Rightarrow> e < 65536 | Some l \<Rightarrow> l < e \<and> e < l + 32768) \<and>
    tx_ok (m(pkt_ssrc p \<mapsto> e)) tr"

definition tx_inv :: "(u32 \<Rightarrow> nat option) \<Rightarrow> rtc_srtp_ctx \<Rightarrow> bool" where
  "tx_inv m ctx \<longleftrightarrow> tbl_ok (sx_rtp_send ctx) \<and> sx_initialized ctx \<and>
    m = map_option index_of \<circ> tbl_map (sx_rtp_send ctx) \<and>
    (\<forall>s e. tbl_map (sx_rtp_send ctx) s = Some e \<longrightarrow> en_roc_init e)"

lemma strip_sel [simp]:
  "en_ssrc (strip e) = en_ssrc e" "en_in_use (strip e) = en_in_use e" "en_roc (strip e) = en_roc e"
  "en_last_seq (strip e) = en_last_seq e" "en_roc_init (strip e) = en_roc_init e"
  "en_replay (strip e) = en_replay e" "index_of (strip e) = index_of e"
  by (simp_all add: strip_def index_of_def)

lemma room_in:
  assumes "finite U" "card U \<le> SRTP_REPLAY_MAX_STREAMS" "dom (tbl_map t) \<subseteq> U" "ssrc \<in> U"
  shows "room t ssrc"
proof (cases "ssrc \<in> dom (tbl_map t)")
  case False
  then have "dom (tbl_map t) \<subset> U" using assms(3,4) by blast
  then have "card (dom (tbl_map t)) < card U" by (rule psubset_card_mono [OF assms(1)])
  then show ?thesis using assms(2) by (simp add: room_def)
qed (simp add: room_def)

lemma div_index: "unat (s::u16) = e mod 65536 \<Longrightarrow> unat r = e div 65536 \<Longrightarrow> unat r * 65536 + unat s = e"
  by simp

lemma send_roc_step:
  assumes inv: "tx_inv m ctx" and ok: "tx_ok m ((p, e) # tr)" and room: "room (sx_rtp_send ctx) (pkt_ssrc p)"
    and run: "srtp_send_roc ctx (pkt_ssrc p) (pkt_seq p) = (roc, ctx')"
  shows "unat roc = e div 65536" "tx_inv (m(pkt_ssrc p \<mapsto> e)) ctx'"
proof -
  let ?t = "sx_rtp_send ctx" and ?s = "pkt_ssrc p" and ?q = "pkt_seq p"
  obtain i t tick where f: "srtp_entry_for_ssrc ?t (sx_send_lru_tick ctx) ?s = (i, t, tick)"
    using prod_cases3 by blast
  have tok: "tbl_ok ?t" using inv by (simp add: tx_inv_def)
  note sp = entry_for_ssrc_spec [OF tok room f]
  define st where "st = (let st = t ! i;
           st = (if \<not> en_roc_init st then st\<lparr>en_roc_init := True\<rparr>
                 else if ?q < en_last_seq st \<and> unat (en_last_seq st) - unat ?q > 0x8000
                 then st\<lparr>en_roc := en_roc st + 1\<rparr> else st)
       in st\<lparr>en_last_seq := ?q\<rparr>)"
  have r: "roc = en_roc st" "ctx' = ctx\<lparr>sx_rtp_send := t[i := st], sx_send_lru_tick := tick\<rparr>"
    using run f unfolding srtp_send_roc_def st_def Let_def by simp_all
  have e: "e < 2 ^ 48" "unat ?q = e mod 65536" using ok by simp_all
  have sel: "en_roc_init (t ! i) = en_roc_init (stream_entry ?t ?s)" "en_roc (t ! i) = en_roc (stream_entry ?t ?s)"
    "en_last_seq (t ! i) = en_last_seq (stream_entry ?t ?s)"
    unfolding sp(4) [symmetric] by simp_all
  have roc: "unat (en_roc st) = e div 65536"
  proof (cases "tbl_map ?t ?s")
    case None
    then have "m ?s = None" using inv by (simp add: tx_inv_def)
    then have "e < 65536" using ok by simp
    then show ?thesis using None sel by (simp add: st_def stream_entry_def srtp_entry_zero_def)
  next
    case (Some en)
    then have en: "m ?s = Some (index_of en)" "en_roc_init en" using inv by (auto simp: tx_inv_def)
    then have "index_of en < e" "e < index_of en + 32768" using ok by simp_all
    from roll_forward [OF this [unfolded index_of_def] e] show ?thesis
      using Some en(2) sel by (auto simp: st_def stream_entry_def Let_def split: if_splits)
  qed
  have st: "en_in_use st" "en_ssrc st = ?s" "en_last_seq st = ?q" "en_roc_init st"
    using find_ssrc_Some [OF sp(1), of ?s i] sp(3) by (simp_all add: st_def Let_def)
  note wb = tbl_write_back [OF sp(1,3) st(1,2)]
  have "index_of st = e" using div_index [OF e(2) roc] st(3) by (simp add: index_of_def)
  then show "tx_inv (m(?s \<mapsto> e)) ctx'"
    using inv wb st(4) sp(5) r(2) unfolding tx_inv_def by (auto simp: fun_eq_iff)
  show "unat roc = e div 65536" using roc r(1) by simp
qed

lemma unat_of_div: "unat roc = n \<Longrightarrow> roc = of_nat n"
  by (auto simp: ucast_id)

lemma protect_run_wire:
  assumes C: "crypto_ok C" and U: "finite U" "card U \<le> SRTP_REPLAY_MAX_STREAMS"
  shows "tx_inv m ctx \<Longrightarrow> tx_ok m tr \<Longrightarrow> dom m \<subseteq> U \<Longrightarrow> pkt_ssrc ` fst ` set tr \<subseteq> U \<Longrightarrow>
    \<forall>(p, e) \<in> set tr. length p + tag_len ctx \<le> cap \<Longrightarrow>
    protect_run C ctx cap (map fst tr) = Some (map (\<lambda>(p, e). Inr (wire C ctx (of_nat (e div 65536)) p)) tr)"
proof (induction tr arbitrary: m ctx)
  case (Cons pe tr)
  obtain p e where pe: "pe = (p, e)" by fastforce
  have ok: "tx_ok m ((p, e) # tr)" and inv: "tx_inv m ctx" using Cons.prems pe by simp_all
  have "dom (tbl_map (sx_rtp_send ctx)) = dom m" using inv by (auto simp: tx_inv_def)
  then have room: "room (sx_rtp_send ctx) (pkt_ssrc p)"
    by (intro room_in [OF U]) (use Cons.prems pe in auto)
  obtain roc ctx' where run: "srtp_send_roc ctx (pkt_ssrc p) (pkt_seq p) = (roc, ctx')" by fastforce
  note st = send_roc_step [OF inv ok room run]
  have k: "same_keys ctx ctx'" using send_roc_frame [OF run] by blast
  have tl: "tag_len ctx' = tag_len ctx" using k by (simp add: same_keys_def tag_len_def)
  have "rtc_srtp_protect C ctx p cap = Some (Inr (wire C ctx roc p), ctx')"
    by (rule protect_step [OF C _ _ _ run]) (use ok inv Cons.prems pe in \<open>auto simp: tx_inv_def\<close>)
  moreover have "protect_run C ctx' cap (map fst tr) =
      Some (map (\<lambda>(p, e). Inr (wire C ctx' (of_nat (e div 65536)) p)) tr)"
  proof (rule Cons.IH [OF st(2)])
    show "tx_ok (m(pkt_ssrc p \<mapsto> e)) tr" using ok by simp
    show "dom (m(pkt_ssrc p \<mapsto> e)) \<subseteq> U" using Cons.prems(3,4) pe by simp
  qed (use Cons.prems(4,5) pe tl in simp_all)
  ultimately show ?case using pe unat_of_div [OF st(1)] wire_cong [OF k, of C] by simp
qed simp

subsection \<open>Receiving\<close>

fun unprotect_run :: "srtp_crypto \<Rightarrow> rtc_srtp_ctx \<Rightarrow> bytes list \<Rightarrow> (rtc_err + bytes) list option" where
  "unprotect_run C ctx [] = Some []"
| "unprotect_run C ctx (q # qs) =
    do { (r, ctx') \<leftarrow> rtc_srtp_unprotect C ctx q; rs \<leftarrow> unprotect_run C ctx' qs; Some (r # rs) }"

text \<open>The receiver's specification: each stream has the set of indices accepted so far, and a packet
  is delivered when its index is fresh for that set. It covers packets in reach of the estimate: the
  first one before the first wrap, later ones less than half the sequence space ahead of the highest
  index, or behind it in the same rollover period.\<close>

definition reach :: "nat set \<Rightarrow> nat \<Rightarrow> bool" where
  "reach A e \<longleftrightarrow> (if A = {} then e < 65536
     else e < Max A + 32768 \<and> (e \<le> Max A \<longrightarrow> e div 65536 = Max A div 65536 \<and> Max A \<le> e + 32768))"

definition accept :: "(u32 \<Rightarrow> nat set) \<Rightarrow> u32 \<Rightarrow> nat \<Rightarrow> u32 \<Rightarrow> nat set" where
  "accept A s e = (if fresh (A s) e then A(s := insert e (A s)) else A)"

fun rx_ok :: "(u32 \<Rightarrow> nat set) \<Rightarrow> (bytes \<times> nat) list \<Rightarrow> bool" where
  "rx_ok A [] \<longleftrightarrow> True"
| "rx_ok A ((p, e) # tr) \<longleftrightarrow> rtp_packet p \<and> e < 2 ^ 48 \<and> unat (pkt_seq p) = e mod 65536 \<and>
    reach (A (pkt_ssrc p)) e \<and> rx_ok (accept A (pkt_ssrc p) e) tr"

fun rx_spec :: "(u32 \<Rightarrow> nat set) \<Rightarrow> (bytes \<times> nat) list \<Rightarrow> (rtc_err + bytes) list" where
  "rx_spec A [] = []"
| "rx_spec A ((p, e) # tr) =
    (if fresh (A (pkt_ssrc p)) e then Inr p else Inl RTC_ERR_SRTP) # rx_spec (accept A (pkt_ssrc p) e) tr"

definition rx_entry :: "nat set \<Rightarrow> rtc_srtp_replay_entry option \<Rightarrow> bool" where
  "rx_entry A x \<longleftrightarrow> (case x of None \<Rightarrow> A = {}
     | Some en \<Rightarrow> A \<noteq> {} \<and> en_roc_init en \<and> Max A = index_of en \<and> replay_rel (en_replay en) A)"

definition rx_inv :: "(u32 \<Rightarrow> nat set) \<Rightarrow> rtc_srtp_ctx \<Rightarrow> bool" where
  "rx_inv A ctx \<longleftrightarrow> tbl_ok (sx_rtp_replay ctx) \<and> sx_initialized ctx \<and>
    (\<forall>s. rx_entry (A s) (tbl_map (sx_rtp_replay ctx) s))"

lemma replay_check_codes: "srtp_replay_check r i = (rc, r') \<Longrightarrow> rc \<noteq> RTC_OK \<Longrightarrow> rc = RTC_ERR_SRTP"
  by (auto simp: srtp_replay_check_def Let_def split: if_splits)

lemma check_stream_spec:
  assumes ok: "tbl_ok t" and room: "room t ssrc"
    and run: "srtp_check_stream t tick ssrc idx = (rc, i, t', tick')"
    and chk: "srtp_replay_check (en_replay (stream_entry t ssrc)) idx = (rc0, w)"
  shows "rc = rc0" "tbl_ok t'" "srtp_find_ssrc t' ssrc = Some i"
    "strip (t' ! i) = (stream_entry t ssrc)\<lparr>en_replay := w\<rparr>"
    "tbl_map t' = (tbl_map t)(ssrc \<mapsto> (stream_entry t ssrc)\<lparr>en_replay := w\<rparr>)"
proof -
  obtain j u k where f: "srtp_entry_for_ssrc t tick ssrc = (j, u, k)" using prod_cases3 by blast
  note sp = entry_for_ssrc_spec [OF ok room f]
  have en: "en_replay (u ! j) = en_replay (stream_entry t ssrc)" unfolding sp(4) [symmetric] by simp
  have r: "rc = rc0" "i = j" "t' = u[j := (u ! j)\<lparr>en_replay := w\<rparr>]"
    using run f chk en by (auto simp: srtp_check_stream_def)
  show "rc = rc0" by (rule r(1))
  have s: "strip ((u ! j)\<lparr>en_replay := w\<rparr>) = (stream_entry t ssrc)\<lparr>en_replay := w\<rparr>"
    unfolding sp(4) [symmetric] by (simp add: strip_def)
  have use: "en_in_use ((u ! j)\<lparr>en_replay := w\<rparr>)" "en_ssrc ((u ! j)\<lparr>en_replay := w\<rparr>) = ssrc"
    using find_ssrc_Some [OF sp(1), of ssrc j] sp(3) by simp_all
  note wb = tbl_write_back [OF sp(1,3) use]
  show "tbl_ok t'" "srtp_find_ssrc t' ssrc = Some i" unfolding r using wb(1,3) by simp_all
  show "strip (t' ! i) = (stream_entry t ssrc)\<lparr>en_replay := w\<rparr>" unfolding r using sp(2) s by simp
  show "tbl_map t' = (tbl_map t)(ssrc \<mapsto> (stream_entry t ssrc)\<lparr>en_replay := w\<rparr>)"
    unfolding r wb(2) s sp(5) by simp
qed

text \<open>The estimate is right for every packet in reach.\<close>

lemma estimate_in_reach:
  assumes en: "rx_entry A (tbl_map t s)" and reach: "reach A e" and e: "e < 2 ^ 48" "unat seq = e mod 65536"
  shows "unat (srtp_estimate_roc t s seq) = e div 65536"
proof (cases "srtp_find_ssrc t s")
  case None
  then have "e < 65536" using en reach by (simp add: rx_entry_def tbl_map_def reach_def)
  then show ?thesis using None by (simp add: srtp_estimate_roc_def)
next
  case (Some i)
  let ?k = "t ! i"
  have k: "en_roc_init ?k" "A \<noteq> {}" "Max A = index_of ?k"
    using en Some by (simp_all add: rx_entry_def tbl_map_def)
  have est: "srtp_estimate_roc t s seq = (if seq < en_last_seq ?k \<and> unat (en_last_seq ?k) - unat seq > 0x8000
      then en_roc ?k + 1 else en_roc ?k)"
    using Some k(1) by (simp add: srtp_estimate_roc_def Let_def)
  have lt: "e < index_of ?k + 32768" using reach k by (simp add: reach_def)
  show ?thesis
  proof (cases "index_of ?k < e")
    case True
    from roll_forward [OF True [unfolded index_of_def] lt [unfolded index_of_def] e] show ?thesis
      unfolding est .
  next
    case False
    then have b: "e div 65536 = index_of ?k div 65536" "index_of ?k \<le> e + 32768"
      using reach k by (simp_all add: reach_def)
    have m: "index_of ?k div 65536 = unat (en_roc ?k)" "index_of ?k mod 65536 = unat (en_last_seq ?k)"
      using unat_range(2) [of "en_last_seq ?k"] by (simp_all add: index_of_def)
    have "unat (en_last_seq ?k) - unat seq \<le> 32768"
      using div_mult_mod_eq [of e 65536] div_mult_mod_eq [of "index_of ?k" 65536] b e(2) m by linarith
    then show ?thesis unfolding est using b m by simp
  qed
qed

lemma recv_roc_step:
  assumes en: "rx_entry A (tbl_map t s)" and reach: "reach A e" and fresh: "fresh A e"
    and seq: "unat seq = e mod 65536" and roc: "unat roc = e div 65536" and w: "replay_rel w (insert e A)"
    and x: "strip x = (stream_entry t s)\<lparr>en_replay := w\<rparr>"
  shows "rx_entry (insert e A) (Some (strip (srtp_recv_roc x seq roc)))"
proof -
  have fin: "finite A" using w by (simp add: replay_rel_def)
  have sel: "en_roc_init x = en_roc_init (stream_entry t s)" "en_roc x = en_roc (stream_entry t s)"
    "en_last_seq x = en_last_seq (stream_entry t s)" "en_replay x = w"
    using arg_cong [OF x, of en_roc_init] arg_cong [OF x, of en_roc] arg_cong [OF x, of en_last_seq]
      arg_cong [OF x, of en_replay] by simp_all
  have upd: ?thesis if "Max (insert e A) = e"
    "\<not> en_roc_init x \<or> seq > en_last_seq x \<or> int (unat (en_last_seq x)) - int (unat seq) > 0x8000"
    using that sel(4) w div_index [OF seq roc] by (simp add: rx_entry_def srtp_recv_roc_def index_of_def)
  show ?thesis
  proof (cases "tbl_map t s")
    case None
    then have "A = {}" "\<not> en_roc_init x"
      using en sel by (simp_all add: rx_entry_def stream_entry_def srtp_entry_zero_def)
    then show ?thesis using upd by simp
  next
    case (Some k)
    then have k: "A \<noteq> {}" "Max A = index_of k" "en_roc x = en_roc k" "en_last_seq x = en_last_seq k" "en_roc_init x"
      using en sel by (simp_all add: rx_entry_def stream_entry_def)
    have ix: "index_of k = unat (en_roc x) * 65536 + unat (en_last_seq x)" using k by (simp add: index_of_def)
    have e: "e = unat roc * 65536 + unat seq" using div_index [OF seq roc] by simp
    have b: "unat (en_last_seq x) < 65536" "unat seq < 65536" by (rule unat_range)+
    have lt: "e < index_of k + 32768" using reach k by (simp add: reach_def)
    show ?thesis
    proof (cases "index_of k < e")
      case True
      have "unat roc = unat (en_roc x) \<or> unat roc = unat (en_roc x) + 1" using True lt e ix b by linarith
      then have "seq > en_last_seq x \<or> int (unat (en_last_seq x)) - int (unat seq) > 0x8000"
      proof
        assume "unat roc = unat (en_roc x)"
        then have "unat (en_last_seq x) < unat seq" using True e ix by linarith
        then show ?thesis unfolding word_less_nat_alt ..
      next
        assume "unat roc = unat (en_roc x) + 1"
        then have "int (unat (en_last_seq x)) - int (unat seq) > 0x8000" using lt e ix by linarith
        then show ?thesis ..
      qed
      then have "\<not> en_roc_init x \<or> seq > en_last_seq x \<or> int (unat (en_last_seq x)) - int (unat seq) > 0x8000" ..
      moreover have "Max (insert e A) = e" using True k(1,2) fin by simp
      ultimately show ?thesis by (rule upd [rotated])
    next
      case False
      moreover have "e \<notin> A" using fresh_not_member [OF fin fresh] .
      then have "e \<noteq> index_of k" using k(1,2) fin Max_in by metis
      ultimately have less: "e < index_of k" by simp
      then have same: "e div 65536 = index_of k div 65536" "index_of k \<le> e + 32768"
        using reach k by (simp_all add: reach_def)
      have "index_of k div 65536 = unat (en_roc x)" using ix b(1) by simp
      then have r: "unat roc = unat (en_roc x)" using same(1) roc by simp
      have "unat seq < unat (en_last_seq x)" "int (unat (en_last_seq x)) - int (unat seq) \<le> 0x8000"
        using less same(2) e ix r by linarith+
      then have "srtp_recv_roc x seq roc = x" using k(5) by (simp add: srtp_recv_roc_def word_less_nat_alt)
      moreover have "Max (insert e A) = index_of k" using k(1,2) fin less by simp
      ultimately show ?thesis using k(5) sel(4) w ix by (simp add: rx_entry_def index_of_def)
    qed
  qed
qed

lemma unprotect_stream_step:
  assumes C: "crypto_ok C" and inv: "rx_inv A ctx" and ok: "rx_ok A ((p, e) # tr)"
    and room: "room (sx_rtp_replay ctx) (pkt_ssrc p)"
  obtains ctx' where "rtc_srtp_unprotect C ctx (wire C ctx (of_nat (e div 65536)) p) =
      Some (if fresh (A (pkt_ssrc p)) e then Inr p else Inl RTC_ERR_SRTP, ctx')"
    "rx_inv (accept A (pkt_ssrc p) e) ctx'" "same_keys ctx ctx'"
    "dom (tbl_map (sx_rtp_replay ctx')) = insert (pkt_ssrc p) (dom (tbl_map (sx_rtp_replay ctx)))"
proof -
  let ?t = "sx_rtp_replay ctx" and ?s = "pkt_ssrc p" and ?q = "pkt_seq p"
  define roc where "roc = srtp_estimate_roc ?t ?s ?q"
  have p: "rtp_packet p" "e < 2 ^ 48" "unat ?q = e mod 65536" "reach (A ?s) e" using ok by simp_all
  have tok: "tbl_ok ?t" "sx_initialized ctx" and en: "rx_entry (A s) (tbl_map ?t s)" for s
    using inv by (simp_all add: rx_inv_def)
  have roc: "unat roc = e div 65536" unfolding roc_def by (rule estimate_in_reach [OF en p(4,2,3)])
  obtain rc0 w where chk: "srtp_replay_check (en_replay (stream_entry ?t ?s)) (pkt_index roc ?q) = (rc0, w)"
    by fastforce
  obtain rc i t tick where run: "srtp_check_stream ?t (sx_replay_lru_tick ctx) ?s (pkt_index roc ?q) = (rc, i, t, tick)"
    using prod_cases4 by blast
  note cs = check_stream_spec [OF tok(1) room run chk]
  have rel: "replay_rel (en_replay (stream_entry ?t ?s)) (A ?s)"
    using en [of ?s] by (auto simp: stream_entry_def rx_entry_def replay_rel_def srtp_entry_zero_def
        srtp_replay_zero_def split: option.splits)
  have idx: "unat (pkt_index roc ?q) = e" unfolding unat_pkt_index using div_index [OF p(3) roc] .
  note rr = replay_check_refines [OF rel chk, unfolded idx]
  define ctx' where "ctx' = ctx\<lparr>sx_rtp_replay := if rc = RTC_OK then t[i := srtp_recv_roc (t ! i) ?q roc] else t,
      sx_replay_lru_tick := tick\<rparr>"
  have st: "rtc_srtp_unprotect C ctx (wire C ctx roc p) = Some (if rc = RTC_OK then Inr p else Inl rc, ctx')"
    unfolding ctx'_def by (rule unprotect_step [OF C p(1) tok(2) _ run]) (simp add: roc_def)
  let ?en = "(stream_entry ?t ?s)\<lparr>en_replay := w\<rparr>"
  have use: "en_in_use (srtp_recv_roc (t ! i) ?q roc)" "en_ssrc (srtp_recv_roc (t ! i) ?q roc) = ?s"
    using find_ssrc_Some [OF cs(2), of ?s i] cs(3) by (simp_all add: srtp_recv_roc_def)
  note wb = tbl_write_back [OF cs(2,3) use]
  have rc: "rc = RTC_OK \<longleftrightarrow> fresh (A ?s) e" using rr cs(1) by simp
  have inv': "rx_inv (accept A ?s e) ctx' \<and> dom (tbl_map (sx_rtp_replay ctx')) = insert ?s (dom (tbl_map ?t))"
  proof (cases "fresh (A ?s) e")
    case True
    then have t': "sx_rtp_replay ctx' = t[i := srtp_recv_roc (t ! i) ?q roc]" using rc by (simp add: ctx'_def)
    have "replay_rel w (insert e (A ?s))" using rr True by simp
    from recv_roc_step [OF en p(4) True p(3) roc this cs(4)]
    have "rx_entry (accept A ?s e s) (tbl_map (sx_rtp_replay ctx') s)" for s
      using True en [of s] unfolding t' wb(2) cs(5) accept_def by (cases "s = ?s") simp_all
    then show ?thesis using wb(1,2) cs(5) tok(2) t' unfolding rx_inv_def by (auto simp: ctx'_def)
  next
    case False
    then have t': "sx_rtp_replay ctx' = t" using rc by (simp add: ctx'_def)
    have "A ?s \<noteq> {}" using False by (auto simp: fresh_def)
    then obtain k where k: "tbl_map ?t ?s = Some k" using en [of ?s] by (auto simp: rx_entry_def split: option.splits)
    have "rx_entry (A ?s) (Some ?en)"
      using en [of ?s] k rr False by (simp add: rx_entry_def stream_entry_def index_of_def)
    then have "rx_entry (accept A ?s e s) (tbl_map (sx_rtp_replay ctx') s)" for s
      using False en [of s] unfolding t' cs(5) accept_def by (cases "s = ?s") simp_all
    then show ?thesis using cs(2,5) tok(2) t' unfolding rx_inv_def by (auto simp: ctx'_def)
  qed
  have "rc \<noteq> RTC_OK \<Longrightarrow> rc = RTC_ERR_SRTP" using replay_check_codes [OF chk] cs(1) by simp
  then have "rtc_srtp_unprotect C ctx (wire C ctx (of_nat (e div 65536)) p) =
      Some (if fresh (A ?s) e then Inr p else Inl RTC_ERR_SRTP, ctx')"
    using st rc unat_of_div [OF roc] by auto
  then show ?thesis using that inv' by (simp add: ctx'_def same_keys_def)
qed

lemma unprotect_run_spec:
  assumes C: "crypto_ok C" and U: "finite U" "card U \<le> SRTP_REPLAY_MAX_STREAMS"
  shows "rx_inv A ctx \<Longrightarrow> rx_ok A tr \<Longrightarrow> dom (tbl_map (sx_rtp_replay ctx)) \<subseteq> U \<Longrightarrow> pkt_ssrc ` fst ` set tr \<subseteq> U \<Longrightarrow>
    unprotect_run C ctx (map (\<lambda>(p, e). wire C ctx (of_nat (e div 65536)) p) tr) = Some (rx_spec A tr)"
proof (induction tr arbitrary: A ctx)
  case (Cons pe tr)
  obtain p e where pe: "pe = (p, e)" by fastforce
  have ok: "rx_ok A ((p, e) # tr)" using Cons.prems(2) pe by simp
  have room: "room (sx_rtp_replay ctx) (pkt_ssrc p)"
    by (rule room_in [OF U Cons.prems(3)]) (use Cons.prems(4) pe in simp)
  obtain ctx' where st: "rtc_srtp_unprotect C ctx (wire C ctx (of_nat (e div 65536)) p) =
      Some (if fresh (A (pkt_ssrc p)) e then Inr p else Inl RTC_ERR_SRTP, ctx')"
    "rx_inv (accept A (pkt_ssrc p) e) ctx'" "same_keys ctx ctx'"
    "dom (tbl_map (sx_rtp_replay ctx')) = insert (pkt_ssrc p) (dom (tbl_map (sx_rtp_replay ctx)))"
    using unprotect_stream_step [OF C Cons.prems(1) ok room] .
  have "unprotect_run C ctx' (map (\<lambda>(p, e). wire C ctx' (of_nat (e div 65536)) p) tr) =
      Some (rx_spec (accept A (pkt_ssrc p) e) tr)"
    by (rule Cons.IH [OF st(2)]) (use ok st(4) Cons.prems(3,4) pe in simp_all)
  then show ?case using pe st(1) wire_cong [OF st(3), of C] by simp
qed simp

lemma init_profile_fields:
  assumes "rtc_srtp_init_profile C m profile key salt = Inr ctx"
  shows "sx_initialized ctx" "sx_rtp_send ctx = srtp_table_zero" "sx_rtp_replay ctx = srtp_table_zero"
    "sx_rtcp_replay ctx = srtp_table_zero" "sx_srtcp_index ctx = 0" "sx_profile ctx = profile"
  using assms unfolding rtc_srtp_init_profile_def Let_def by (auto split: if_splits sum.splits)

subsection \<open>Initialisation vectors over a run\<close>

definition srtp_iv :: "rtc_srtp_ctx \<Rightarrow> u32 \<Rightarrow> u32 \<Rightarrow> u16 \<Rightarrow> bytes" where
  "srtp_iv ctx ssrc roc seq =
    (if srtp_is_gcm (sx_profile ctx) then srtp_gcm_rtp_iv (sx_session_salt ctx) ssrc roc seq
     else srtp_cm_iv (sx_session_salt ctx) ssrc roc seq)"

text \<open>The vectors the sender uses for a sequence of packets.\<close>

fun iv_run :: "rtc_srtp_ctx \<Rightarrow> bytes list \<Rightarrow> bytes list" where
  "iv_run ctx [] = []"
| "iv_run ctx (p # ps) =
    (case srtp_send_roc ctx (pkt_ssrc p) (pkt_seq p) of
       (roc, ctx') \<Rightarrow> srtp_iv ctx (pkt_ssrc p) roc (pkt_seq p) # iv_run ctx' ps)"

text \<open>These are the vectors that \<^verbatim>\<open>rtc_srtp_protect\<close> hands to the cipher: under a cipher that answers with its vector, they are what it appends to
  the header.\<close>

definition iv_probe :: srtp_crypto where
  "iv_probe = \<lparr>c_hmac = \<lambda>key data. Inr [], c_ctr = \<lambda>key iv data. Inr iv, c_seal = \<lambda>big key iv aad data. Inr (iv, []),
     c_open = \<lambda>big key iv aad data tag. Inr data, c_ecb = \<lambda>big key block. block, c_ctx = True\<rparr>"

lemma protect_probe:
  assumes "rtp_packet p" "sx_initialized ctx" "length p + tag_len ctx \<le> cap"
    "srtp_send_roc ctx (pkt_ssrc p) (pkt_seq p) = (roc, ctx')"
  shows "rtc_srtp_protect iv_probe ctx p cap = Some (Inr (take (hdr_len p) p @ srtp_iv ctx (pkt_ssrc p) roc (pkt_seq p)), ctx')"
proof -
  have k: "same_keys ctx ctx'" using send_roc_frame [OF assms(4)] by blast
  show ?thesis using packet_reads [OF assms(1)] assms k
    by (cases "srtp_is_gcm (sx_profile ctx)")
      (simp_all add: rtc_srtp_protect_def srtp_protect_gcm_def srtp_aes_cm_def tag_len_def srtp_iv_def same_keys_def iv_probe_def Let_def)
qed

lemma protect_probe_run:
  assumes "sx_initialized ctx" "\<forall>p \<in> set ps. rtp_packet p \<and> length p + tag_len ctx \<le> cap"
  shows "protect_run iv_probe ctx cap ps = Some (map2 (\<lambda>p iv. Inr (take (hdr_len p) p @ iv)) ps (iv_run ctx ps))"
  using assms
proof (induction ps arbitrary: ctx)
  case (Cons p ps)
  obtain roc ctx' where run: "srtp_send_roc ctx (pkt_ssrc p) (pkt_seq p) = (roc, ctx')" by fastforce
  have k: "same_keys ctx ctx'" using send_roc_frame [OF run] by blast
  then have "tag_len ctx' = tag_len ctx" "sx_initialized ctx'" using Cons.prems(1) by (simp_all add: same_keys_def tag_len_def)
  then show ?case using Cons.IH [of ctx'] Cons.prems run protect_probe [OF _ Cons.prems(1) _ run, of cap] by simp
qed simp

lemma xor_cancel: "(a XOR c = b XOR c) \<longleftrightarrow> a = (b :: u8)"
  by (metis xor.assoc xor_self_eq xor.right_neutral)

lemma xor_bytes_inject:
  assumes "length a = length b" "length a \<le> length c"
  shows "xor_bytes a c = xor_bytes b c \<longleftrightarrow> a = b"
  using assms
proof (induction a b arbitrary: c rule: list_induct2)
  case (Cons x xs y ys)
  then show ?case by (cases c) (auto simp: xor_bytes_def xor_cancel)
qed (simp add: xor_bytes_def)

lemma srtp_iv_inject:
  assumes "length (sx_session_salt ctx) = SRTP_MAX_SALT_LEN"
  shows "srtp_iv ctx s r q = srtp_iv ctx s' r' q' \<longleftrightarrow> s = s' \<and> r = r' \<and> q = q'"
  using assms by (auto simp: srtp_iv_def srtp_gcm_rtp_iv_def srtp_cm_iv_def xor_bytes_inject srtp_sizes)

lemma tx_ok_later:
  "tx_ok m tr \<Longrightarrow> (p, e) \<in> set tr \<Longrightarrow> m (pkt_ssrc p) = Some l \<Longrightarrow> l < e"
proof (induction tr arbitrary: m l)
  case (Cons pe tr)
  obtain p' e' where pe: "pe = (p', e')" by fastforce
  show ?case
  proof (cases "pe = (p, e)")
    case True
    then show ?thesis using Cons.prems by simp
  next
    case False
    then have mem: "(p, e) \<in> set tr" using Cons.prems by simp
    have rest: "tx_ok (m(pkt_ssrc p' \<mapsto> e')) tr" using Cons.prems pe by simp
    show ?thesis
    proof (cases "pkt_ssrc p' = pkt_ssrc p")
      case True
      then have "e' < e" using Cons.IH [OF rest mem] by simp
      moreover have "l < e'" using Cons.prems pe True by simp
      ultimately show ?thesis by simp
    next
      case False
      then show ?thesis using Cons.IH [OF rest mem] Cons.prems(3) by simp
    qed
  qed
qed simp

lemma tx_ok_distinct: "tx_ok m tr \<Longrightarrow> distinct (map (\<lambda>(p, e). (pkt_ssrc p, e)) tr)"
proof (induction tr arbitrary: m)
  case (Cons pe tr)
  obtain p e where pe: "pe = (p, e)" by fastforce
  have rest: "tx_ok (m(pkt_ssrc p \<mapsto> e)) tr" using Cons.prems pe by simp
  have "e < e'" if "(p', e') \<in> set tr" "pkt_ssrc p' = pkt_ssrc p" for p' e'
    using tx_ok_later [OF rest that(1)] that(2) by simp
  then have "(pkt_ssrc p, e) \<notin> (\<lambda>(p, e). (pkt_ssrc p, e)) ` set tr" by force
  then show ?case using pe Cons.IH [OF rest] by simp
qed simp

lemma iv_run_trace:
  assumes U: "finite U" "card U \<le> SRTP_REPLAY_MAX_STREAMS"
  shows "tx_inv m ctx \<Longrightarrow> tx_ok m tr \<Longrightarrow> dom m \<subseteq> U \<Longrightarrow> pkt_ssrc ` fst ` set tr \<subseteq> U \<Longrightarrow>
    iv_run ctx (map fst tr) = map (\<lambda>(p, e). srtp_iv ctx (pkt_ssrc p) (of_nat (e div 65536)) (of_nat e)) tr"
proof (induction tr arbitrary: m ctx)
  case (Cons pe tr)
  obtain p e where pe: "pe = (p, e)" by fastforce
  have ok: "tx_ok m ((p, e) # tr)" and inv: "tx_inv m ctx" using Cons.prems pe by simp_all
  have "dom (tbl_map (sx_rtp_send ctx)) = dom m" using inv by (auto simp: tx_inv_def)
  then have room: "room (sx_rtp_send ctx) (pkt_ssrc p)"
    by (intro room_in [OF U]) (use Cons.prems pe in auto)
  obtain roc ctx' where run: "srtp_send_roc ctx (pkt_ssrc p) (pkt_seq p) = (roc, ctx')" by fastforce
  note st = send_roc_step [OF inv ok room run]
  have k: "srtp_iv ctx' = srtp_iv ctx"
    using send_roc_frame [OF run] by (auto simp: same_keys_def srtp_iv_def fun_eq_iff)
  have "pkt_seq p = of_nat e" using ok by (simp add: word_unat_eq_iff unat_of_nat)
  moreover have "iv_run ctx' (map fst tr) =
      map (\<lambda>(p, e). srtp_iv ctx' (pkt_ssrc p) (of_nat (e div 65536)) (of_nat e)) tr"
  proof (rule Cons.IH [OF st(2)])
    show "tx_ok (m(pkt_ssrc p \<mapsto> e)) tr" using ok by simp
    show "dom (m(pkt_ssrc p \<mapsto> e)) \<subseteq> U" using Cons.prems(3,4) pe by simp
  qed (use Cons.prems(4) pe in simp_all)
  ultimately show ?case using pe unat_of_div [OF st(1)] run k by simp
qed simp

lemma tx_ok_packets: "tx_ok m tr \<Longrightarrow> (p, e) \<in> set tr \<Longrightarrow> rtp_packet p"
  by (induction m tr rule: tx_ok.induct) auto

lemma tx_ok_bound: "tx_ok m tr \<Longrightarrow> (p, e) \<in> set tr \<Longrightarrow> e < 2 ^ 48"
  by (induction tr arbitrary: m) auto

lemma index_split_inject:
  assumes "e < 2 ^ 48" "e' < 2 ^ 48" "(of_nat (e div 65536) :: u32) = of_nat (e' div 65536)" "(of_nat e :: u16) = of_nat e'"
  shows "e = e'"
proof -
  have "e div 65536 < 2 ^ 32" "e' div 65536 < 2 ^ 32"
    using assms(1,2) by (simp_all add: div_less_iff_less_mult)
  then have "e div 65536 = e' div 65536" using assms(3) by (simp add: word_unat_eq_iff unat_of_nat)
  moreover have "e mod 65536 = e' mod 65536" using assms(4) by (simp add: word_unat_eq_iff unat_of_nat)
  ultimately show ?thesis by (metis div_mult_mod_eq)
qed

lemma kdf_length: "length (kdf_loop C big key x n r) \<le> r"
proof (induction C big key x n r rule: kdf_loop.induct)
  case (1 C big key x n r)
  show ?case
  proof (cases "r = 0")
    case False
    then have "length (kdf_loop C big key x (n + 1) (r - (if r < 16 then r else 16))) \<le> r - (if r < 16 then r else 16)"
      by (rule "1.IH") simp_all
    then show ?thesis by (subst kdf_loop.simps) (use False in \<open>auto simp: Let_def min_def simp del: kdf_loop.simps\<close>)
  qed simp
qed

lemma kdf_out_length: "srtp_kdf C key salt label n = Inr out \<Longrightarrow> length out \<le> n"
  unfolding srtp_kdf_def Let_def by (split if_splits) (auto intro: kdf_length simp del: kdf_loop.simps)

lemma init_profile_salt:
  assumes "rtc_srtp_init_profile C m profile key salt = Inr ctx"
  shows "length (sx_session_salt ctx) = SRTP_MAX_SALT_LEN"
proof -
  obtain ss where "srtp_kdf C (take SRTP_MAX_KEY_LEN key) (take SRTP_MAX_SALT_LEN salt) 2
      (length (take SRTP_MAX_SALT_LEN salt)) = Inr ss" "sx_session_salt ctx = pad_to SRTP_MAX_SALT_LEN ss"
    using assms unfolding rtc_srtp_init_profile_def Let_def by (auto split: if_splits sum.splits)
  moreover from this have "length ss \<le> length (take SRTP_MAX_SALT_LEN salt)"
    by (intro kdf_out_length)
  ultimately show ?thesis by (simp add: pad_to_def)
qed

end
