(* ===== verification/Srtp_Delivery.thy ===== *)
theory Srtp_Delivery
  imports Srtp_Streams
begin

text \<open>
  The properties of SRTP streams (\<^verbatim>\<open>rtc/src/rtc_srtp.c\<close>): delivery between a sender and a receiver
  over a network that loses, repeats and reorders packets, distinctness of the initialisation vectors,
  and that only authenticated packets have an effect.
\<close>

subsection \<open>A concrete library\<close>

text \<open>A total instance of the primitives (an additive checksum and byte complement), on which
  the witnesses evaluate.\<close>

definition sum_crypto :: srtp_crypto where
  "sum_crypto = \<lparr>
     c_hmac = (\<lambda>k d. Inr (replicate 20 (sum_list k + sum_list d))),
     c_ctr = (\<lambda>k iv d. Inr (map (\<lambda>b. NOT b) d)),
     c_seal = (\<lambda>big k iv a d. Inr (map (\<lambda>b. NOT b) d, replicate 16 (sum_list k + sum_list iv + sum_list a + sum_list d))),
     c_open = (\<lambda>big k iv a d t. if t = replicate 16 (sum_list k + sum_list iv + sum_list a + sum_list (map (\<lambda>b. NOT b) d))
       then Inr (map (\<lambda>b. NOT b) d) else Inl RTC_ERR_SRTP),
     c_ecb = (\<lambda>big k b. map (\<lambda>x. x + 1) b),
     c_ctx = True\<rparr>"

lemma crypto_ok_sum: "crypto_ok sum_crypto"
  by (simp add: crypto_ok_def sum_crypto_def comp_def)

definition demo_ctx :: "rtc_srtp_profile \<Rightarrow> rtc_srtp_ctx" where
  "demo_ctx profile = projr (rtc_srtp_init_profile sum_crypto True profile (replicate 16 1) (replicate 14 2))"

lemma demo_init:
  "rtc_srtp_init_profile sum_crypto True profile (replicate 16 1) (replicate 14 2) = Inr (demo_ctx profile)"
  by (simp add: demo_ctx_def rtc_srtp_init_profile_def srtp_kdf_def sum_crypto_def Let_def
      del: kdf_loop.simps)

text \<open>A packet with the given sequence number, SSRC and payload.\<close>

definition demo_packet :: "u16 \<Rightarrow> u32 \<Rightarrow> bytes \<Rightarrow> bytes" where
  "demo_packet seq ssrc payload = [0x80, 96] @ write_u16 seq @ [0, 0, 0, 0] @ write_u32 ssrc @ payload"

lemma demo_packet_fields:
  "rtp_packet (demo_packet seq ssrc d)" "pkt_seq (demo_packet seq ssrc d) = seq"
  "pkt_ssrc (demo_packet seq ssrc d) = ssrc" "length (demo_packet seq ssrc d) = 12 + length d"
  by (simp_all add: demo_packet_def rtp_packet_def hdr_len_def srtp_rtp_header_len_def pkt_seq_def
      pkt_ssrc_def write_u16_def write_u32_def u16_of_bytes [unfolded ucast_id] Let_def)

subsection \<open>Properties\<close>

text \<open>Both ends of a run, over the protected forms of the packets.\<close>

lemma delivery_runs:
  assumes C: "crypto_ok C" and init: "rtc_srtp_init_profile C True profile key salt = Inr ctx"
    and tx: "tx_ok Map.empty tr" and streams: "card (pkt_ssrc ` fst ` set tr) \<le> SRTP_REPLAY_MAX_STREAMS"
    and cap: "\<forall>(p, e) \<in> set tr. length p + tag_len ctx \<le> cap"
    and ks: "\<forall>k \<in> set ks. k < length tr" and rx: "rx_ok (\<lambda>s. {}) (map ((!) tr) ks)"
  defines "w \<equiv> \<lambda>(p, e). wire C ctx (of_nat (e div 65536)) p"
  shows "protect_run C ctx cap (map fst tr) = Some (map Inr (map w tr))"
    "unprotect_run C ctx (map ((!) (map w tr)) ks) = Some (rx_spec (\<lambda>s. {}) (map ((!) tr) ks))"
proof -
  let ?U = "pkt_ssrc ` fst ` set tr"
  have U: "finite ?U" by simp
  note f = init_profile_fields [OF init]
  have txi: "tx_inv Map.empty ctx"
    using f tbl_ok_zero by (simp add: tx_inv_def tbl_map_zero fun_eq_iff)
  have rxi: "rx_inv (\<lambda>s. {}) ctx"
    using f tbl_ok_zero by (simp add: rx_inv_def tbl_map_zero rx_entry_def)
  show "protect_run C ctx cap (map fst tr) = Some (map Inr (map w tr))"
    using protect_run_wire [OF C U streams txi tx _ _ cap] by (simp add: w_def comp_def case_prod_unfold)
  have sub: "pkt_ssrc ` fst ` set (map ((!) tr) ks) \<subseteq> ?U" using ks by (auto intro!: imageI)
  have eq: "map ((!) (map w tr)) ks = map w (map ((!) tr) ks)" using ks by simp
  have "dom (tbl_map (sx_rtp_replay ctx)) \<subseteq> ?U" using f(3) by (simp add: tbl_map_zero)
  then show "unprotect_run C ctx (map ((!) (map w tr)) ks) = Some (rx_spec (\<lambda>s. {}) (map ((!) tr) ks))"
    unfolding eq unfolding w_def by (rule unprotect_run_spec [OF C U streams rxi rx _ sub])
qed


text \<open>
  C3. End-to-end delivery. A sender and a receiver set up from the same key exchange a
  multiplex of at most eight streams in any profile. Every packet is protected without error, and
  whatever the network does (the receiver sees the protected packets at the positions \<open>ks\<close>: lost,
  repeated, reordered), each arriving packet in reach of the rollover estimate is returned unchanged
  when its index is fresh and refused as a replay otherwise.
\<close>

theorem srtp_delivery:
  assumes C: "crypto_ok C" and init: "rtc_srtp_init_profile C True profile key salt = Inr ctx"
    and tx: "tx_ok Map.empty tr" and streams: "card (pkt_ssrc ` fst ` set tr) \<le> SRTP_REPLAY_MAX_STREAMS"
    and cap: "\<forall>(p, e) \<in> set tr. length p + tag_len ctx \<le> cap"
    and ks: "\<forall>k \<in> set ks. k < length tr" and rx: "rx_ok (\<lambda>s. {}) (map ((!) tr) ks)"
  shows "\<exists>ws. protect_run C ctx cap (map fst tr) = Some (map Inr ws) \<and>
    unprotect_run C ctx (map ((!) ws) ks) = Some (rx_spec (\<lambda>s. {}) (map ((!) tr) ks))"
  using delivery_runs [OF assms] by blast

theorem srtp_delivery_witness:
  "let p = demo_packet 65535 7 [1, 2]; q = demo_packet 0 7 [3]; a = demo_packet 10 8 [4];
       ctx = demo_ctx RTC_SRTP_PROFILE_AES128_CM_SHA1_80
   in \<exists>ws. protect_run sum_crypto ctx 1500 [p, a, q] = Some (map Inr ws) \<and>
     unprotect_run sum_crypto ctx (map ((!) ws) [0, 2, 2, 1]) = Some [Inr p, Inr q, Inl RTC_ERR_SRTP, Inr a]"
proof -
  let ?tr = "[(demo_packet 65535 7 [1, 2], 65535), (demo_packet 10 8 [4], 10), (demo_packet 0 7 [3], 65536 :: nat)]"
  let ?ctx = "demo_ctx RTC_SRTP_PROFILE_AES128_CM_SHA1_80"
  have spec: "rx_spec (\<lambda>s. {}) (map ((!) ?tr) [0, 2, 2, 1]) =
      [Inr (demo_packet 65535 7 [1, 2]), Inr (demo_packet 0 7 [3]), Inl RTC_ERR_SRTP, Inr (demo_packet 10 8 [4])]"
    by (simp add: demo_packet_fields accept_def fresh_def)
  have "\<exists>ws. protect_run sum_crypto ?ctx 1500 (map fst ?tr) = Some (map Inr ws) \<and>
      unprotect_run sum_crypto ?ctx (map ((!) ws) [0, 2, 2, 1]) = Some (rx_spec (\<lambda>s. {}) (map ((!) ?tr) [0, 2, 2, 1]))"
  proof (rule srtp_delivery [OF crypto_ok_sum demo_init])
    show "tx_ok Map.empty ?tr" by (simp add: demo_packet_fields)
    show "card (pkt_ssrc ` fst ` set ?tr) \<le> SRTP_REPLAY_MAX_STREAMS"
      by (simp add: demo_packet_fields card_insert_if SRTP_REPLAY_MAX_STREAMS_def)
    show "\<forall>(p, e) \<in> set ?tr. length p + tag_len ?ctx \<le> 1500"
      by (simp add: demo_packet_fields tag_len_def srtp_sizes)
    show "rx_ok (\<lambda>s. {}) (map ((!) ?tr) [0, 2, 2, 1])"
      by (simp add: demo_packet_fields accept_def fresh_def reach_def)
  qed simp
  then show ?thesis unfolding spec Let_def by simp
qed

text \<open>
  C12. No initialisation vector is used twice: over any run of at most eight streams
  whose packets move forward by less than half the sequence space, up to 2^48 packets per stream, the
  vectors the sender feeds to the cipher are pairwise distinct, across sequence number wraps too. That they are the ones fed to the cipher
  is read off the output for a cipher that answers with its vector.
\<close>

theorem srtp_iv_unique:
  assumes "rtc_srtp_init_profile C True profile key salt = Inr ctx" "tx_ok Map.empty tr"
    "card (pkt_ssrc ` fst ` set tr) \<le> SRTP_REPLAY_MAX_STREAMS"
  shows "distinct (iv_run ctx (map fst tr)) \<and>
    (\<forall>cap. (\<forall>(p, e) \<in> set tr. length p + tag_len ctx \<le> cap) \<longrightarrow>
      protect_run iv_probe ctx cap (map fst tr) =
        Some (map2 (\<lambda>p iv. Inr (take (hdr_len p) p @ iv)) (map fst tr) (iv_run ctx (map fst tr))))"
proof -
  note f = init_profile_fields [OF assms(1)]
  have txi: "tx_inv Map.empty ctx"
    using f tbl_ok_zero by (simp add: tx_inv_def tbl_map_zero fun_eq_iff)
  have run: "iv_run ctx (map fst tr) = map (\<lambda>(p, e). srtp_iv ctx (pkt_ssrc p) (of_nat (e div 65536)) (of_nat e)) tr"
    by (rule iv_run_trace [OF _ assms(3) txi assms(2)]) simp_all
  have d: "distinct (map (\<lambda>(p, e). (pkt_ssrc p, e)) tr)" using tx_ok_distinct [OF assms(2)] .
  have "inj_on (\<lambda>(p, e). srtp_iv ctx (pkt_ssrc p) (of_nat (e div 65536)) (of_nat e)) (set tr)"
  proof (rule inj_onI)
    fix x y assume "x \<in> set tr" "y \<in> set tr"
      and eq: "(\<lambda>(p, e). srtp_iv ctx (pkt_ssrc p) (of_nat (e div 65536)) (of_nat e)) x =
        (\<lambda>(p, e). srtp_iv ctx (pkt_ssrc p) (of_nat (e div 65536)) (of_nat e)) y"
    obtain p e q e' where xy: "x = (p, e)" "y = (q, e')" by fastforce
    have "pkt_ssrc p = pkt_ssrc q" "e = e'"
      using eq index_split_inject [of e e'] tx_ok_bound [OF assms(2)] \<open>x \<in> set tr\<close> \<open>y \<in> set tr\<close>
      unfolding xy by (simp_all add: srtp_iv_inject [OF init_profile_salt [OF assms(1)]])
    then have "(\<lambda>(p, e). (pkt_ssrc p, e)) x = (\<lambda>(p, e). (pkt_ssrc p, e)) y" unfolding xy by simp
    then show "x = y" using d \<open>x \<in> set tr\<close> \<open>y \<in> set tr\<close> unfolding distinct_map inj_on_def by blast
  qed
  moreover have "distinct tr" using d by (simp add: distinct_map)
  ultimately have "distinct (iv_run ctx (map fst tr))" unfolding run by (simp add: distinct_map)
  moreover have "protect_run iv_probe ctx cap (map fst tr) =
      Some (map2 (\<lambda>p iv. Inr (take (hdr_len p) p @ iv)) (map fst tr) (iv_run ctx (map fst tr)))"
    if "\<forall>(p, e) \<in> set tr. length p + tag_len ctx \<le> cap" for cap
    by (rule protect_probe_run [OF f(1)]) (use that tx_ok_packets [OF assms(2)] in auto)
  ultimately show ?thesis by blast
qed

theorem srtp_iv_unique_witness:
  "distinct (iv_run (demo_ctx RTC_SRTP_PROFILE_AEAD_AES_128_GCM)
     [demo_packet 65535 7 [1, 2], demo_packet 10 8 [4], demo_packet 0 7 [3]])"
proof -
  let ?tr = "[(demo_packet 65535 7 [1, 2], 65535), (demo_packet 10 8 [4], 10), (demo_packet 0 7 [3], 65536 :: nat)]"
  have "distinct (iv_run (demo_ctx RTC_SRTP_PROFILE_AEAD_AES_128_GCM) (map fst ?tr))"
    by (rule conjunct1 [OF srtp_iv_unique [OF demo_init]])
      (simp_all add: demo_packet_fields card_insert_if SRTP_REPLAY_MAX_STREAMS_def)
  then show ?thesis by simp
qed

text \<open>The authentication a packet must pass before it has any effect.\<close>

definition srtp_authentic :: "srtp_crypto \<Rightarrow> rtc_srtp_ctx \<Rightarrow> bytes \<Rightarrow> bool" where
  "srtp_authentic C ctx q =
    (let n = length q - tag_len ctx; tag = drop n q;
         roc = srtp_estimate_roc (sx_rtp_replay ctx) (pkt_ssrc q) (pkt_seq q)
     in tag_len ctx + 12 \<le> length q \<and>
       (if srtp_is_gcm (sx_profile ctx) then
          (case srtp_rtp_header_len q n of
             Some (Inr h) \<Rightarrow> \<not> isl (c_open C (srtp_gcm_cipher ctx) (gcm_key ctx (sx_session_key ctx))
               (srtp_gcm_rtp_iv (sx_session_salt ctx) (pkt_ssrc q) roc (pkt_seq q)) (take h q)
               (drop h (take n q)) tag)
           | _ \<Rightarrow> False)
        else (case c_hmac C (sx_session_auth_key ctx) (take n q @ write_u32 roc) of
            Inr m \<Rightarrow> take SRTP_AUTH_TAG_LEN m = tag | Inl e \<Rightarrow> False)))"

lemma header_len_total:
  assumes "12 \<le> length buf" "n \<le> length buf"
  shows "\<exists>r. srtp_rtp_header_len buf n = Some r"
proof -
  obtain b where "rd8 buf 0 = Some b" using assms(1) by (cases buf) auto
  then show ?thesis using assms by (auto simp: srtp_rtp_header_len_def Let_def)
qed

lemma reads_total:
  "12 \<le> length q \<Longrightarrow> rd16 q 2 = Some (pkt_seq q)" "12 \<le> length q \<Longrightarrow> rd32 q 8 = Some (pkt_ssrc q)"
  by (simp_all add: pkt_seq_def pkt_ssrc_def)

text \<open>
  C11. Arbitrary datagrams are harmless: unprotecting any bytes reads only inside the datagram,
  and a datagram is delivered, or changes the context at all (stream table, replay window, rollover
  counter), only if it carries a valid authentication tag for the estimated rollover counter.
\<close>

theorem srtp_unprotect_authentic:
  "\<exists>r ctx'. rtc_srtp_unprotect C ctx q = Some (r, ctx') \<and>
    (\<not> isl r \<or> ctx' \<noteq> ctx \<longrightarrow> srtp_authentic C ctx q)"
proof (cases "\<not> sx_initialized ctx \<or> length q < 12 + tag_len ctx")
  case True
  then show ?thesis
    by (auto simp: rtc_srtp_unprotect_def srtp_unprotect_gcm_def tag_len_def srtp_sizes split: if_splits)
next
  case False
  let ?n = "length q - tag_len ctx"
  have len: "sx_initialized ctx" "tag_len ctx + 12 \<le> length q" "12 \<le> length q" using False by auto
  then obtain h where h: "srtp_rtp_header_len q ?n = Some h" using header_len_total [of q ?n] by auto
  have tag: "rd_bytes q ?n (tag_len ctx) = Some (drop ?n q)" using len by (simp add: rd_bytes_def)
  note facts = h tag len reads_total [OF len(3)]
  show ?thesis
  proof (cases "srtp_is_gcm (sx_profile ctx)")
    case True
    then have tl: "tag_len ctx = SRTP_GCM_TAG_LEN" by (simp add: tag_len_def)
    show ?thesis
      using facts True unfolding tl rtc_srtp_unprotect_def srtp_unprotect_gcm_def srtp_authentic_def
      by (auto simp: Let_def tl drop_take simp del: rd_bytes_in rd16_in rd32_in split: sum.splits prod.splits)
  next
    case cm: False
    then have tl: "tag_len ctx = SRTP_AUTH_TAG_LEN" by (simp add: tag_len_def)
    show ?thesis
      using facts cm unfolding tl rtc_srtp_unprotect_def srtp_authentic_def
      by (auto simp: Let_def tl simp del: rd_bytes_in rd16_in rd32_in split: sum.splits prod.splits)
  qed
qed

theorem srtp_unprotect_authentic_witness:
  "\<exists>e. rtc_srtp_unprotect sum_crypto (demo_ctx RTC_SRTP_PROFILE_AES128_CM_SHA1_80) (replicate 30 9) =
    Some (Inl e, demo_ctx RTC_SRTP_PROFILE_AES128_CM_SHA1_80)"
proof -
  have "\<not> srtp_authentic sum_crypto (demo_ctx RTC_SRTP_PROFILE_AES128_CM_SHA1_80) (replicate 30 9)"
    by code_simp
  then show ?thesis
    using srtp_unprotect_authentic [of sum_crypto "demo_ctx RTC_SRTP_PROFILE_AES128_CM_SHA1_80" "replicate 30 9"]
    by (auto simp: isl_def)
qed

text \<open>The bound of eight streams is needed: a ninth stream evicts the least recently used entry,
  and when the evicted stream resumes its rollover counter restarts at zero. Here stream 1 has moved to
  index 65542 (sequence number 6 again) after packets of eight other streams, and the vector of its
  packet with index 6 is used a second time.\<close>

fun table_after :: "rtc_srtp_ctx \<Rightarrow> (u32 \<times> u16) list \<Rightarrow> rtc_srtp_ctx" where
  "table_after ctx [] = ctx"
| "table_after ctx ((s, q) # r) = table_after (snd (srtp_send_roc ctx s q)) r"

lemma eviction_reuses_iv:
  "fst (srtp_send_roc (table_after (demo_ctx RTC_SRTP_PROFILE_AES128_CM_SHA1_80)
     [(1, 6), (1, 30000), (1, 60000), (2, 0), (3, 0), (4, 0), (5, 0), (6, 0), (7, 0), (8, 0), (9, 0)]) 1 6) = 0"
  by code_simp

end
