(* ===== verification/Srtcp.thy ===== *)
theory Srtcp
  imports Srtp_Delivery
begin

text \<open>
  SRTCP (\<^verbatim>\<open>rtc/src/rtc_srtp.c\<close>): a sender's compound packets carry an explicit 31-bit index, and
  the receiver keeps one replay window per sender. The theory shows delivery over a network that loses,
  repeats and reorders packets, for both profiles.
\<close>

subsection \<open>One packet\<close>

definition rtcp_ssrc :: "bytes \<Rightarrow> u32" where "rtcp_ssrc p = u32_of (p ! 4) (p ! 5) (p ! 6) (p ! 7)"

definition rtcp_overhead :: "rtc_srtp_ctx \<Rightarrow> nat" where
  "rtcp_overhead ctx = 4 + tag_len ctx"

text \<open>The protected form of a packet under a given index.\<close>

definition rtcp_wire :: "srtp_crypto \<Rightarrow> rtc_srtp_ctx \<Rightarrow> u32 \<Rightarrow> bytes \<Rightarrow> bytes" where
  "rtcp_wire C ctx index p =
    (let h = take 8 p; body = drop 8 p; trailer = write_u32 (index OR 0x80000000)
     in if srtp_is_gcm (sx_profile ctx) then
          (case c_seal C (srtp_gcm_cipher ctx) (gcm_key ctx (sx_rtcp_session_key ctx))
               (srtp_gcm_rtcp_iv (sx_rtcp_session_salt ctx) (rtcp_ssrc p) index) (h @ trailer) body of
             Inr (ct, tag) \<Rightarrow> h @ ct @ tag @ trailer | Inl e \<Rightarrow> [])
        else
          (case (if length p > 8 then srtcp_aes_cm C (sx_rtcp_session_key ctx) (sx_rtcp_session_salt ctx)
                   (rtcp_ssrc p) index body else Inr []) of
             Inr ct \<Rightarrow> (case c_hmac C (sx_rtcp_session_auth_key ctx) (h @ ct @ trailer) of
               Inr m \<Rightarrow> (h @ ct @ trailer) @ take SRTP_AUTH_TAG_LEN m | Inl e \<Rightarrow> [])
           | Inl e \<Rightarrow> []))"

definition same_rtcp_keys :: "rtc_srtp_ctx \<Rightarrow> rtc_srtp_ctx \<Rightarrow> bool" where
  "same_rtcp_keys a b \<longleftrightarrow> sx_initialized a = sx_initialized b \<and> sx_profile a = sx_profile b \<and>
    sx_key_len a = sx_key_len b \<and> sx_rtcp_session_key a = sx_rtcp_session_key b \<and>
    sx_rtcp_session_salt a = sx_rtcp_session_salt b \<and> sx_rtcp_session_auth_key a = sx_rtcp_session_auth_key b"

lemma rtcp_wire_cong: "same_rtcp_keys a b \<Longrightarrow> rtcp_wire C a = rtcp_wire C b"
  by (rule ext)+ (auto simp: rtcp_wire_def same_rtcp_keys_def srtp_gcm_cipher_def gcm_key_def Let_def split: sum.split)

lemma index_mask: "k < 2 ^ 31 \<Longrightarrow> (of_nat k :: u32) AND 0x7FFFFFFF = of_nat k"
proof -
  assume "k < 2 ^ 31"
  then have "take_bit 31 (of_nat k :: u32) = of_nat k" by (intro take_bit_self) (simp add: unat_of_nat)
  moreover have "(of_nat k :: u32) AND 0x7FFFFFFF = take_bit 31 (of_nat k)"
    by (simp add: take_bit_eq_mask mask_eq_exp_minus_1)
  ultimately show ?thesis by simp
qed

lemma index_flag:
  fixes i :: u32
  assumes "i AND 0x7FFFFFFF = i"
  shows "(i OR 0x80000000) AND 0x80000000 \<noteq> 0" "(i OR 0x80000000) AND 0x7FFFFFFF = i"
proof -
  have "(0x80000000 :: u32) AND 0x80000000 = 0x80000000" "(0x80000000 :: u32) AND 0x7FFFFFFF = 0" by simp_all
  then show "(i OR 0x80000000) AND 0x7FFFFFFF = i" using assms
    by (simp only: and.commute [of _ "0x7FFFFFFF"] bit.conj_disj_distrib) simp
  have "bit ((i OR 0x80000000) AND 0x80000000) 31" by (simp add: bit_simps bit_numeral_word_iff)
  then show "(i OR 0x80000000) AND 0x80000000 \<noteq> 0" by (metis bit_0_eq bot_apply bot_bool_def)
qed

lemma protect_rtcp_step:
  assumes C: "crypto_ok C" and len: "8 \<le> length p" "length p + rtcp_overhead ctx \<le> cap"
    and init: "sx_initialized ctx" and k: "sx_srtcp_index ctx = of_nat k" "k < 2 ^ 31"
  shows "rtc_srtp_protect_rtcp C ctx p cap =
    Some (Inr (rtcp_wire C ctx (of_nat k) p), ctx\<lparr>sx_srtcp_index := sx_srtcp_index ctx + 1\<rparr>)"
proof -
  have r: "rd32 p 4 = Some (rtcp_ssrc p)" using len(1) by (simp add: rtcp_ssrc_def)
  note m = index_mask [OF k(2)]
  show ?thesis
  proof (cases "srtp_is_gcm (sx_profile ctx)")
    case True
    obtain ct tag where "c_seal C (srtp_gcm_cipher ctx) (gcm_key ctx (sx_rtcp_session_key ctx))
        (srtp_gcm_rtcp_iv (sx_rtcp_session_salt ctx) (rtcp_ssrc p) (of_nat k))
        (take 8 p @ write_u32 (of_nat k OR 0x80000000)) (drop 8 p) = Inr (ct, tag)"
      using C unfolding crypto_ok_def by blast
    then show ?thesis using True len init r m k(1)
      by (simp add: rtc_srtp_protect_rtcp_def srtp_protect_rtcp_gcm_def rtcp_wire_def rtcp_overhead_def
          tag_len_def Let_def del: rd32_in)
  next
    case False
    obtain ct where ct: "(if length p > 8 then srtcp_aes_cm C (sx_rtcp_session_key ctx)
        (sx_rtcp_session_salt ctx) (rtcp_ssrc p) (of_nat k) (drop 8 p) else Inr []) = Inr ct"
      using C unfolding crypto_ok_def srtcp_aes_cm_def Let_def by (metis (full_types))
    obtain mac where "c_hmac C (sx_rtcp_session_auth_key ctx)
        (take 8 p @ ct @ write_u32 (of_nat k OR 0x80000000)) = Inr mac"
      using C unfolding crypto_ok_def by blast
    then show ?thesis using False len init r m k(1) ct
      by (simp add: rtc_srtp_protect_rtcp_def rtcp_wire_def rtcp_overhead_def tag_len_def Let_def del: rd32_in)
  qed
qed

lemma unprotect_rtcp_step:
  assumes C: "crypto_ok C" and len: "8 \<le> length p" and init: "sx_initialized ctx"
    and i: "i AND 0x7FFFFFFF = (i :: u32)"
    and check: "srtp_check_stream (sx_rtcp_replay ctx) (sx_replay_lru_tick ctx) (rtcp_ssrc p) (ucast i) = (rc, j, t, tick)"
  shows "rtc_srtp_unprotect_rtcp C ctx (rtcp_wire C ctx i p) =
    Some (if rc = RTC_OK then Inr p else Inl rc, ctx\<lparr>sx_rtcp_replay := t, sx_replay_lru_tick := tick\<rparr>)"
proof -
  define tr where "tr = write_u32 (i OR 0x80000000)"
  have tr: "length tr = 4" by (simp add: tr_def)
  have ssrc: "rd32 (take 8 p @ ys) 4 = Some (rtcp_ssrc p)" for ys
    using len by (simp add: rtcp_ssrc_def nth_append)
  have idx: "rd32 (xs @ tr @ ys) n = Some (i OR 0x80000000)" if "length xs = n" for xs ys n
    using rd32_at [OF that] by (simp add: tr_def)
  note flag = index_flag [OF i]
  show ?thesis
  proof (cases "srtp_is_gcm (sx_profile ctx)")
    case True
    obtain ct tag where s: "c_seal C (srtp_gcm_cipher ctx) (gcm_key ctx (sx_rtcp_session_key ctx))
        (srtp_gcm_rtcp_iv (sx_rtcp_session_salt ctx) (rtcp_ssrc p) i) (take 8 p @ tr) (drop 8 p) = Inr (ct, tag)"
        "length ct = length p - 8" "length tag = 16"
        "c_open C (srtp_gcm_cipher ctx) (gcm_key ctx (sx_rtcp_session_key ctx))
        (srtp_gcm_rtcp_iv (sx_rtcp_session_salt ctx) (rtcp_ssrc p) i) (take 8 p @ tr) ct tag = Inr (drop 8 p)"
      using C unfolding crypto_ok_def by (metis length_drop)
    define q where "q = rtcp_wire C ctx i p"
    have q: "q = take 8 p @ ct @ tag @ tr" using s(1) True by (simp add: q_def rtcp_wire_def tr_def)
    have lq: "length q = length p + 20" unfolding q using s(2,3) tr len by simp
    have rd: "rd32 q (16 + length p) = Some (i OR 0x80000000)"
      "rd_bytes q (16 + length p) 4 = Some tr" "rd_bytes q (length p) 16 = Some tag" "rd32 q 4 = Some (rtcp_ssrc p)"
      using idx [of "take 8 p @ ct @ tag" "16 + length p" "[]"] rd_bytes_at [of "take 8 p @ ct @ tag" "16 + length p" tr 4 "[]"]
        rd_bytes_at [of "take 8 p @ ct" "length p" tag 16 tr] ssrc s(2,3) tr len unfolding q by simp_all
    have cut: "take 8 q = take 8 p" "take (length p - 8) (drop 8 q) = ct"
      unfolding q using s(2) len by simp_all
    show ?thesis unfolding q_def [symmetric]
      using True init lq rd cut s(4) flag check len
      by (simp add: rtc_srtp_unprotect_rtcp_def srtp_unprotect_rtcp_gcm_def srtp_sizes Let_def
          del: rd32_in rd_bytes_in)
  next
    case False
    obtain ct where ct: "(if length p > 8 then srtcp_aes_cm C (sx_rtcp_session_key ctx)
        (sx_rtcp_session_salt ctx) (rtcp_ssrc p) i (drop 8 p) else Inr []) = Inr ct" "length ct = length p - 8"
        "length p > 8 \<longrightarrow> srtcp_aes_cm C (sx_rtcp_session_key ctx) (sx_rtcp_session_salt ctx) (rtcp_ssrc p) i ct = Inr (drop 8 p)"
    proof (cases "length p > 8")
      case True
      then show ?thesis using C that unfolding crypto_ok_def srtcp_aes_cm_def Let_def by (metis length_drop)
    qed (use that [of "[]"] in simp)
    obtain m where m: "c_hmac C (sx_rtcp_session_auth_key ctx) (take 8 p @ ct @ tr) = Inr m" "length m = 20"
      using C unfolding crypto_ok_def by blast
    define q where "q = rtcp_wire C ctx i p"
    have q: "q = take 8 p @ ct @ tr @ take 10 m"
      using ct(1) m(1) False by (simp add: q_def rtcp_wire_def tr_def srtp_sizes)
    have lq: "length q = length p + 14" unfolding q using ct(2) m(2) tr len by simp
    have rd: "rd32 q (length p) = Some (i OR 0x80000000)" "rd_bytes q (4 + length p) 10 = Some (take 10 m)"
      "rd32 q 4 = Some (rtcp_ssrc p)"
      using idx [of "take 8 p @ ct" "length p" "take 10 m"]
        rd_bytes_at [of "take 8 p @ ct @ tr" "4 + length p" "take 10 m" 10 "[]"] ssrc ct(2) m(2) tr len
      unfolding q by simp_all
    have cut: "take 8 q = take 8 p" "take (length p - 8) (drop 8 q) = ct" "take (4 + length p) q = take 8 p @ ct @ tr"
      "length p = 8 \<longrightarrow> take 8 p = p"
      unfolding q using ct(2) len tr by simp_all
    show ?thesis unfolding q_def [symmetric]
      using False init lq rd cut ct(3) m flag check len
      by (auto simp: rtc_srtp_unprotect_rtcp_def srtp_sizes Let_def simp del: rd32_in rd_bytes_in)
  qed
qed

subsection \<open>Runs\<close>

fun protect_rtcp_run :: "srtp_crypto \<Rightarrow> rtc_srtp_ctx \<Rightarrow> nat \<Rightarrow> bytes list \<Rightarrow> (rtc_err + bytes) list option" where
  "protect_rtcp_run C ctx cap [] = Some []"
| "protect_rtcp_run C ctx cap (p # ps) =
    do { (r, ctx') \<leftarrow> rtc_srtp_protect_rtcp C ctx p cap; rs \<leftarrow> protect_rtcp_run C ctx' cap ps; Some (r # rs) }"

fun unprotect_rtcp_run :: "srtp_crypto \<Rightarrow> rtc_srtp_ctx \<Rightarrow> bytes list \<Rightarrow> (rtc_err + bytes) list option" where
  "unprotect_rtcp_run C ctx [] = Some []"
| "unprotect_rtcp_run C ctx (q # qs) =
    do { (r, ctx') \<leftarrow> rtc_srtp_unprotect_rtcp C ctx q; rs \<leftarrow> unprotect_rtcp_run C ctx' qs; Some (r # rs) }"

text \<open>The receiver's specification, over packets paired with their index.\<close>

fun rtcp_spec :: "(u32 \<Rightarrow> nat set) \<Rightarrow> (bytes \<times> nat) list \<Rightarrow> (rtc_err + bytes) list" where
  "rtcp_spec A [] = []"
| "rtcp_spec A ((p, k) # tr) =
    (if fresh (A (rtcp_ssrc p)) k then Inr p else Inl RTC_ERR_SRTP) # rtcp_spec (accept A (rtcp_ssrc p) k) tr"

lemma protect_rtcp_run_wire:
  assumes C: "crypto_ok C"
  shows "sx_initialized ctx \<Longrightarrow> sx_srtcp_index ctx = of_nat k \<Longrightarrow> k + length ps \<le> 2 ^ 31 \<Longrightarrow>
    \<forall>p \<in> set ps. 8 \<le> length p \<and> length p + rtcp_overhead ctx \<le> cap \<Longrightarrow>
    protect_rtcp_run C ctx cap ps = Some (map (\<lambda>(i, p). Inr (rtcp_wire C ctx (of_nat i) p)) (enumerate k ps))"
proof (induction ps arbitrary: k ctx)
  case (Cons p ps)
  let ?c = "ctx\<lparr>sx_srtcp_index := sx_srtcp_index ctx + 1\<rparr>"
  have keys: "same_rtcp_keys ctx ?c" by (simp add: same_rtcp_keys_def)
  have o: "rtcp_overhead ?c = rtcp_overhead ctx" by (simp add: rtcp_overhead_def tag_len_def)
  have "rtc_srtp_protect_rtcp C ctx p cap = Some (Inr (rtcp_wire C ctx (of_nat k) p), ?c)"
    by (rule protect_rtcp_step [OF C]) (use Cons.prems in simp_all)
  moreover have "protect_rtcp_run C ?c cap ps =
      Some (map (\<lambda>(i, p). Inr (rtcp_wire C ?c (of_nat i) p)) (enumerate (Suc k) ps))"
    by (rule Cons.IH) (use Cons.prems o in simp_all)
  ultimately show ?case using rtcp_wire_cong [OF keys, of C] by simp
qed simp

definition rtcp_inv :: "(u32 \<Rightarrow> nat set) \<Rightarrow> rtc_srtp_ctx \<Rightarrow> bool" where
  "rtcp_inv A ctx \<longleftrightarrow> tbl_ok (sx_rtcp_replay ctx) \<and> sx_initialized ctx \<and>
    (\<forall>s. replay_rel (en_replay (stream_entry (sx_rtcp_replay ctx) s)) (A s))"

lemma stream_entry_upd:
  "tbl_map t' = (tbl_map t)(s \<mapsto> e) \<Longrightarrow> stream_entry t' r = (if r = s then e else stream_entry t r)"
  by (simp add: stream_entry_def)

lemma unprotect_rtcp_stream_step:
  assumes C: "crypto_ok C" and inv: "rtcp_inv A ctx" and p: "8 \<le> length p" "k < 2 ^ 31"
    and room: "room (sx_rtcp_replay ctx) (rtcp_ssrc p)"
  obtains ctx' where "rtc_srtp_unprotect_rtcp C ctx (rtcp_wire C ctx (of_nat k) p) =
      Some (if fresh (A (rtcp_ssrc p)) k then Inr p else Inl RTC_ERR_SRTP, ctx')"
    "rtcp_inv (accept A (rtcp_ssrc p) k) ctx'" "same_rtcp_keys ctx ctx'"
    "dom (tbl_map (sx_rtcp_replay ctx')) = insert (rtcp_ssrc p) (dom (tbl_map (sx_rtcp_replay ctx)))"
proof -
  let ?t = "sx_rtcp_replay ctx" and ?s = "rtcp_ssrc p" and ?i = "of_nat k :: u32"
  have tok: "tbl_ok ?t" "sx_initialized ctx" and rel: "replay_rel (en_replay (stream_entry ?t s)) (A s)" for s
    using inv by (simp_all add: rtcp_inv_def)
  obtain rc0 w where chk: "srtp_replay_check (en_replay (stream_entry ?t ?s)) (ucast ?i) = (rc0, w)" by fastforce
  obtain rc j t tick where run: "srtp_check_stream ?t (sx_replay_lru_tick ctx) ?s (ucast ?i) = (rc, j, t, tick)"
    using prod_cases4 by blast
  note cs = check_stream_spec [OF tok(1) room run chk]
  have "unat ?i = k" using p(2) by (simp add: unat_of_nat)
  then have idx: "unat (ucast ?i :: u64) = k"
    using p(2) by (simp add: unsigned_ucast_eq take_bit_nat_eq_self_iff)
  note rr = replay_check_refines [OF rel chk, unfolded idx]
  define ctx' where "ctx' = ctx\<lparr>sx_rtcp_replay := t, sx_replay_lru_tick := tick\<rparr>"
  have "rtc_srtp_unprotect_rtcp C ctx (rtcp_wire C ctx ?i p) = Some (if rc = RTC_OK then Inr p else Inl rc, ctx')"
    unfolding ctx'_def by (rule unprotect_rtcp_step [OF C p(1) tok(2) index_mask [OF p(2)] run])
  moreover have "rc \<noteq> RTC_OK \<Longrightarrow> rc = RTC_ERR_SRTP" using replay_check_codes [OF chk] cs(1) by simp
  ultimately have "rtc_srtp_unprotect_rtcp C ctx (rtcp_wire C ctx ?i p) =
      Some (if fresh (A ?s) k then Inr p else Inl RTC_ERR_SRTP, ctx')"
    using rr cs(1) by auto
  moreover have "replay_rel (en_replay (stream_entry t r)) (accept A ?s k r)" for r
    using rr rel [of r] by (auto simp: stream_entry_upd [OF cs(5)] accept_def split: if_splits)
  then have "rtcp_inv (accept A ?s k) ctx'" using cs(2) tok(2) by (simp add: rtcp_inv_def ctx'_def)
  moreover have "dom (tbl_map (sx_rtcp_replay ctx')) = insert ?s (dom (tbl_map ?t))"
    using cs(5) by (simp add: ctx'_def)
  ultimately show ?thesis using that by (simp add: ctx'_def same_rtcp_keys_def)
qed

lemma unprotect_rtcp_run_spec:
  assumes C: "crypto_ok C" and U: "finite U" "card U \<le> SRTP_REPLAY_MAX_STREAMS"
  shows "rtcp_inv A ctx \<Longrightarrow> \<forall>(p, k) \<in> set tr. 8 \<le> length p \<and> k < 2 ^ 31 \<and> rtcp_ssrc p \<in> U \<Longrightarrow>
    dom (tbl_map (sx_rtcp_replay ctx)) \<subseteq> U \<Longrightarrow>
    unprotect_rtcp_run C ctx (map (\<lambda>(p, k). rtcp_wire C ctx (of_nat k) p) tr) = Some (rtcp_spec A tr)"
proof (induction tr arbitrary: A ctx)
  case (Cons pk tr)
  obtain p k where pk: "pk = (p, k)" by fastforce
  have p: "8 \<le> length p" "k < 2 ^ 31" "rtcp_ssrc p \<in> U" using Cons.prems(2) pk by simp_all
  have room: "room (sx_rtcp_replay ctx) (rtcp_ssrc p)" by (rule room_in [OF U Cons.prems(3) p(3)])
  obtain ctx' where st: "rtc_srtp_unprotect_rtcp C ctx (rtcp_wire C ctx (of_nat k) p) =
      Some (if fresh (A (rtcp_ssrc p)) k then Inr p else Inl RTC_ERR_SRTP, ctx')"
    "rtcp_inv (accept A (rtcp_ssrc p) k) ctx'" "same_rtcp_keys ctx ctx'"
    "dom (tbl_map (sx_rtcp_replay ctx')) = insert (rtcp_ssrc p) (dom (tbl_map (sx_rtcp_replay ctx)))"
    using unprotect_rtcp_stream_step [OF C Cons.prems(1) p(1,2) room] .
  have "unprotect_rtcp_run C ctx' (map (\<lambda>(p, k). rtcp_wire C ctx' (of_nat k) p) tr) =
      Some (rtcp_spec (accept A (rtcp_ssrc p) k) tr)"
    by (rule Cons.IH [OF st(2)]) (use st(4) Cons.prems(2,3) p(3) in simp_all)
  then show ?case using pk st(1) rtcp_wire_cong [OF st(3), of C] by simp
qed simp

subsection \<open>Properties\<close>

text \<open>
  C14. SRTCP delivery. Up to 2^31 control packets of at most eight senders are protected
  without error, and whatever packets the network loses, repeats or reorders (the receiver sees the
  protected packets at positions \<open>ks\<close>), every arriving packet is returned unchanged when its
  index is fresh for its sender and refused as a replay otherwise.
\<close>

theorem srtcp_delivery:
  assumes C: "crypto_ok C" and init: "rtc_srtp_init_profile C True profile key salt = Inr ctx"
    and ps: "\<forall>p \<in> set ps. 8 \<le> length p \<and> length p + rtcp_overhead ctx \<le> cap" "length ps \<le> 2 ^ 31"
    and senders: "card (rtcp_ssrc ` set ps) \<le> SRTP_REPLAY_MAX_STREAMS" and ks: "\<forall>k \<in> set ks. k < length ps"
  shows "\<exists>ws. protect_rtcp_run C ctx cap ps = Some (map Inr ws) \<and>
    unprotect_rtcp_run C ctx (map ((!) ws) ks) = Some (rtcp_spec (\<lambda>s. {}) (map (\<lambda>k. (ps ! k, k)) ks))"
proof (intro exI conjI)
  let ?ws = "map (\<lambda>(i, p). rtcp_wire C ctx (of_nat i) p) (enumerate 0 ps)"
  note f = init_profile_fields [OF init]
  show "protect_rtcp_run C ctx cap ps = Some (map Inr ?ws)"
    using protect_rtcp_run_wire [OF C f(1) _ _ ps(1), of 0] f(5) ps(2) by (simp add: comp_def case_prod_unfold)
  have "rtcp_inv (\<lambda>s. {}) ctx"
    using f tbl_ok_zero by (simp add: rtcp_inv_def stream_entry_def tbl_map_zero srtp_entry_zero_def
        replay_rel_def srtp_replay_zero_def)
  then have "unprotect_rtcp_run C ctx (map (\<lambda>(p, k). rtcp_wire C ctx (of_nat k) p) (map (\<lambda>k. (ps ! k, k)) ks)) =
      Some (rtcp_spec (\<lambda>s. {}) (map (\<lambda>k. (ps ! k, k)) ks))"
    by (rule unprotect_rtcp_run_spec [OF C finite_imageI [OF finite_set] senders]) (use ks ps f(4) in \<open>auto simp: tbl_map_zero\<close>)
  moreover have "map ((!) ?ws) ks = map (\<lambda>(p, k). rtcp_wire C ctx (of_nat k) p) (map (\<lambda>k. (ps ! k, k)) ks)"
    using ks by (simp add: nth_enumerate_eq)
  ultimately show "unprotect_rtcp_run C ctx (map ((!) ?ws) ks) =
      Some (rtcp_spec (\<lambda>s. {}) (map (\<lambda>k. (ps ! k, k)) ks))" by (simp only:)
qed

theorem srtcp_delivery_witness:
  "let a = [0x80, 200, 0, 1, 0, 0, 0, 7]; b = [0x81, 201, 0, 2, 0, 0, 0, 7, 1, 2, 3, 4];
       ctx = demo_ctx RTC_SRTP_PROFILE_AEAD_AES_128_GCM
   in \<exists>ws. protect_rtcp_run sum_crypto ctx 1500 [a, b] = Some (map Inr ws) \<and>
     unprotect_rtcp_run sum_crypto ctx (map ((!) ws) [1, 0, 1]) = Some [Inr b, Inr a, Inl RTC_ERR_SRTP]"
proof -
  let ?a = "[0x80, 200, 0, 1, 0, 0, 0, 7] :: bytes" and ?b = "[0x81, 201, 0, 2, 0, 0, 0, 7, 1, 2, 3, 4] :: bytes"
  let ?ctx = "demo_ctx RTC_SRTP_PROFILE_AEAD_AES_128_GCM"
  have "\<exists>ws. protect_rtcp_run sum_crypto ?ctx 1500 [?a, ?b] = Some (map Inr ws) \<and>
      unprotect_rtcp_run sum_crypto ?ctx (map ((!) ws) [1, 0, 1]) =
        Some (rtcp_spec (\<lambda>s. {}) (map (\<lambda>k. ([?a, ?b] ! k, k)) [1, 0, 1]))"
    by (rule srtcp_delivery [OF crypto_ok_sum demo_init])
      (simp_all add: rtcp_overhead_def tag_len_def srtp_sizes card_insert_if)
  then show ?thesis unfolding Let_def by (simp add: rtcp_ssrc_def accept_def fresh_def)
qed

end
