(* ===== verification/Rtcp.thy ===== *)
theory Rtcp
  imports Prelude
begin

text \<open>
  \<^verbatim>\<open>rtc/src/rtc_rtcp.c\<close>: reception statistics, sender and receiver reports, and the fixed-size
  feedback messages (PLI, FIR). The wall clock and the monotonic clock are arguments. A packet's
  \<^verbatim>\<open>buf\<close>/\<^verbatim>\<open>buf_len\<close> is one byte list, its report array the list of the \<^verbatim>\<open>report_count\<close> blocks filled, and
  the signed 24-bit loss count a 32-bit word read with \<open>sint\<close>.
\<close>

subsection \<open>Data\<close>

definition RTCP_PT_SR :: u8 where "RTCP_PT_SR = 200"
definition RTCP_PT_RR :: u8 where "RTCP_PT_RR = 201"
definition RTCP_PT_RTPFB :: u8 where "RTCP_PT_RTPFB = 205"
definition RTCP_PT_PSFB :: u8 where "RTCP_PT_PSFB = 206"
definition RTCP_FMT_NACK :: u8 where "RTCP_FMT_NACK = 1"
definition RTCP_FMT_PLI :: u8 where "RTCP_FMT_PLI = 1"
definition RTCP_FMT_FIR :: u8 where "RTCP_FMT_FIR = 4"
definition RTCP_SR_SIZE :: nat where "RTCP_SR_SIZE = 20"
definition RTCP_RR_BLOCK_SIZE :: nat where "RTCP_RR_BLOCK_SIZE = 24"
definition RTCP_MAX_PACKET :: nat where "RTCP_MAX_PACKET = 1400"

lemmas rtcp_consts = RTCP_PT_SR_def RTCP_PT_RR_def RTCP_PT_RTPFB_def RTCP_PT_PSFB_def
  RTCP_FMT_NACK_def RTCP_FMT_PLI_def RTCP_FMT_FIR_def RTCP_SR_SIZE_def RTCP_RR_BLOCK_SIZE_def
  RTCP_MAX_PACKET_def

record rtc_rtcp_header =
  rh_version :: u8
  rh_padding :: bool
  rh_count :: u8
  rh_packet_type :: u8
  rh_length :: u16

record rtc_rtcp_sr =
  sr_ssrc :: u32
  sr_ntp_sec :: u32
  sr_ntp_frac :: u32
  sr_rtp_timestamp :: u32
  sr_sender_pkt_count :: u32
  sr_sender_oct_count :: u32

record rtc_rtcp_rr_block =
  rr_ssrc :: u32
  rr_fraction_lost :: u8
  rr_cumulative_lost :: u32
  rr_highest_seq :: u32
  rr_jitter :: u32
  rr_last_sr :: u32
  rr_delay_since_sr :: u32

record rtc_rtcp_packet =
  rp_header :: rtc_rtcp_header
  rp_sender_ssrc :: u32
  rp_sr :: rtc_rtcp_sr
  rp_reports :: "rtc_rtcp_rr_block list"
  rp_buf :: bytes

record rtc_rtcp_stats =
  st_ssrc :: u32
  st_packets_sent :: u32
  st_octets_sent :: u32
  st_rtp_timestamp :: u32
  st_remote_ssrc :: u32
  st_packets_received :: u32
  st_packets_expected :: u32
  st_packets_lost :: u32
  st_base_seq :: u32
  st_highest_seq :: u32
  st_jitter :: u32
  st_last_transit :: u32
  st_first_packet :: bool
  st_last_sr_ntp :: u32
  st_last_sr_recv_time :: u64
  st_last_report_time :: u64

record rtc_rtcp_pli =
  pli_sender_ssrc :: u32
  pli_media_ssrc :: u32

record rtc_rtcp_fir =
  fir_sender_ssrc :: u32
  fir_media_ssrc :: u32
  fir_seq_nr :: u8

definition sr_zero :: rtc_rtcp_sr where
  "sr_zero = \<lparr>sr_ssrc = 0, sr_ntp_sec = 0, sr_ntp_frac = 0, sr_rtp_timestamp = 0,
     sr_sender_pkt_count = 0, sr_sender_oct_count = 0\<rparr>"

subsection \<open>Statistics\<close>

definition get_ntp_time :: "u64 \<Rightarrow> u32 \<times> u32" where
  "get_ntp_time ms = (ucast (ms div 1000) + 2208988800, ucast (ucast (ucast (ms mod 1000) :: u32) * 4294967 :: u64))"

definition rtc_rtcp_stats_init :: "u32 \<Rightarrow> u64 \<Rightarrow> rtc_rtcp_stats" where
  "rtc_rtcp_stats_init ssrc now =
    \<lparr>st_ssrc = ssrc, st_packets_sent = 0, st_octets_sent = 0, st_rtp_timestamp = 0, st_remote_ssrc = 0,
     st_packets_received = 0, st_packets_expected = 0, st_packets_lost = 0, st_base_seq = 0,
     st_highest_seq = 0, st_jitter = 0, st_last_transit = 0, st_first_packet = True,
     st_last_sr_ntp = 0, st_last_sr_recv_time = 0, st_last_report_time = now\<rparr>"

text \<open>The interarrival jitter step; \<open>now\<close> is the monotonic clock in milliseconds.\<close>

definition stats_jitter :: "rtc_rtcp_stats \<Rightarrow> u32 \<Rightarrow> u32 \<Rightarrow> u64 \<Rightarrow> rtc_rtcp_stats" where
  "stats_jitter stats timestamp clock_rate now =
    (if clock_rate > 0 then
       let arrival_ts = ucast ((now * ucast clock_rate) div 1000) :: u32;
           transit = arrival_ts - timestamp;
           stats = (if st_last_transit stats \<noteq> 0 then
               let d = sint (transit - st_last_transit stats);
                   d = (if d < 0 then - d else d)
               in stats\<lparr>st_jitter := st_jitter stats + drop_bit 4 (word_of_int d - st_jitter stats + 8)\<rparr>
             else stats)
       in stats\<lparr>st_last_transit := transit\<rparr>
     else stats)"

text \<open>The 16-bit sequence number extended by the cycles of the highest one.\<close>

definition stats_seq32 :: "u32 \<Rightarrow> u16 \<Rightarrow> u32" where
  "stats_seq32 highest_seq seq =
    (let low = highest_seq AND 0xFFFF;
         seq32 = (highest_seq AND 0xFFFF0000) OR ucast seq
     in if ucast seq < low then if low - ucast seq > 0x8000 then seq32 + 0x10000 else seq32
        else seq32)"

definition rtc_rtcp_stats_on_rtp_recv ::
  "rtc_rtcp_stats \<Rightarrow> u16 \<Rightarrow> u32 \<Rightarrow> u32 \<Rightarrow> u32 \<Rightarrow> u64 \<Rightarrow> rtc_rtcp_stats" where
  "rtc_rtcp_stats_on_rtp_recv stats seq timestamp ssrc clock_rate now =
    (if st_first_packet stats then
       stats\<lparr>st_remote_ssrc := ssrc, st_highest_seq := ucast seq, st_base_seq := ucast seq,
         st_first_packet := False, st_packets_received := 1, st_packets_expected := 1\<rparr>
     else if ssrc \<noteq> st_remote_ssrc stats then stats
     else
       let stats = stats\<lparr>st_packets_received := st_packets_received stats + 1\<rparr>;
           seq32 = stats_seq32 (st_highest_seq stats) seq;
           stats = (if seq32 > st_highest_seq stats then stats\<lparr>st_highest_seq := seq32\<rparr> else stats);
           stats = stats\<lparr>st_packets_expected := st_highest_seq stats - st_base_seq stats + 1\<rparr>;
           stats = (if st_packets_expected stats > st_packets_received stats
                    then stats\<lparr>st_packets_lost := st_packets_expected stats - st_packets_received stats\<rparr>
                    else stats\<lparr>st_packets_lost := 0\<rparr>)
       in stats_jitter stats timestamp clock_rate now)"

definition rtc_rtcp_stats_on_rtp_send :: "rtc_rtcp_stats \<Rightarrow> u32 \<Rightarrow> u64 \<Rightarrow> rtc_rtcp_stats" where
  "rtc_rtcp_stats_on_rtp_send stats timestamp payload_len =
    stats\<lparr>st_packets_sent := st_packets_sent stats + 1, st_octets_sent := st_octets_sent stats + ucast payload_len,
      st_rtp_timestamp := timestamp\<rparr>"

definition rtc_rtcp_stats_on_sr_recv :: "rtc_rtcp_stats \<Rightarrow> rtc_rtcp_sr \<Rightarrow> u64 \<Rightarrow> rtc_rtcp_stats" where
  "rtc_rtcp_stats_on_sr_recv stats sr now =
    stats\<lparr>st_last_sr_ntp := push_bit 16 (sr_ntp_sec sr AND 0xFFFF) OR drop_bit 16 (sr_ntp_frac sr),
      st_last_sr_recv_time := now\<rparr>"

text \<open>The round-trip time in milliseconds; the result of the C function is the low 32 bits of the
  64-bit value read as signed, clipped at zero.\<close>

definition rtc_rtcp_rtt_from_rr :: "rtc_rtcp_rr_block \<Rightarrow> u64 \<Rightarrow> int" where
  "rtc_rtcp_rtt_from_rr rr now_ms =
    (if rr_last_sr rr = 0 then 0
     else
       let now_sec = ucast (now_ms div 1000) + 2208988800 :: u32;
           now_frac = ucast ((now_ms mod 1000) * 4294967) :: u32;
           now_compact = push_bit 16 (now_sec AND 0xFFFF) OR drop_bit 16 now_frac;
           rtt_ntp = now_compact - rr_last_sr rr - rr_delay_since_sr rr;
           rtt_ms = sint (ucast (drop_bit 16 (ucast rtt_ntp * 1000 :: u64)) :: u32)
       in if rtt_ms < 0 then 0 else rtt_ms)"

subsection \<open>Reports\<close>

definition stats_rc_count :: "rtc_rtcp_stats \<Rightarrow> nat" where
  "stats_rc_count stats = (if st_remote_ssrc stats \<noteq> 0 \<and> \<not> st_first_packet stats then 1 else 0)"

text \<open>The reception report block of the tracked source.\<close>

definition rr_of_stats :: "rtc_rtcp_stats \<Rightarrow> u64 \<Rightarrow> rtc_rtcp_rr_block" where
  "rr_of_stats stats now =
    \<lparr>rr_ssrc = st_remote_ssrc stats,
     rr_fraction_lost = (if st_packets_expected stats > 0
       then ucast ((st_packets_lost stats * 256) div st_packets_expected stats) else 0),
     rr_cumulative_lost = st_packets_lost stats,
     rr_highest_seq = st_highest_seq stats,
     rr_jitter = st_jitter stats,
     rr_last_sr = st_last_sr_ntp stats,
     rr_delay_since_sr = (if st_last_sr_recv_time stats > 0
       then ucast (((now - st_last_sr_recv_time stats) * 65536) div 1000) else 0)\<rparr>"

definition rr_bytes :: "rtc_rtcp_rr_block \<Rightarrow> bytes" where
  "rr_bytes rr =
    write_u32 (rr_ssrc rr) @
    write_u32 (push_bit 24 (ucast (rr_fraction_lost rr)) OR (rr_cumulative_lost rr AND 0x00FFFFFF)) @
    write_u32 (rr_highest_seq rr) @ write_u32 (rr_jitter rr) @ write_u32 (rr_last_sr rr) @
    write_u32 (rr_delay_since_sr rr)"

text \<open>The common header: version 2, the count or format, the packet type and the length word.\<close>

definition rtcp_head :: "u8 \<Rightarrow> u8 \<Rightarrow> u16 \<Rightarrow> bytes" where
  "rtcp_head count pt length_words = [push_bit 6 2 OR (count AND 0x1F), pt] @ write_u16 length_words"

definition rtc_rtcp_build_sr :: "rtc_rtcp_stats \<Rightarrow> u64 \<Rightarrow> u64 \<Rightarrow> rtc_rtcp_packet" where
  "rtc_rtcp_build_sr stats unix_ms now =
    (let rc_count = stats_rc_count stats;
         (ntp_sec, ntp_frac) = get_ntp_time unix_ms;
         reports = (if rc_count > 0 then [rr_of_stats stats now] else []);
         body = write_u32 (st_ssrc stats) @ write_u32 ntp_sec @ write_u32 ntp_frac @
           write_u32 (st_rtp_timestamp stats) @ write_u32 (st_packets_sent stats) @
           write_u32 (st_octets_sent stats) @ concat (map rr_bytes reports);
         length_words = of_nat ((4 + length body) div 4 - 1)
     in \<lparr>rp_header = \<lparr>rh_version = 2, rh_padding = False, rh_count = of_nat rc_count,
           rh_packet_type = RTCP_PT_SR, rh_length = length_words\<rparr>,
         rp_sender_ssrc = st_ssrc stats,
         rp_sr = \<lparr>sr_ssrc = st_ssrc stats, sr_ntp_sec = ntp_sec, sr_ntp_frac = ntp_frac,
           sr_rtp_timestamp = st_rtp_timestamp stats, sr_sender_pkt_count = st_packets_sent stats,
           sr_sender_oct_count = st_octets_sent stats\<rparr>,
         rp_reports = reports,
         rp_buf = rtcp_head (of_nat rc_count) RTCP_PT_SR length_words @ body\<rparr>)"

definition rtc_rtcp_build_rr :: "rtc_rtcp_stats \<Rightarrow> u64 \<Rightarrow> rtc_rtcp_packet" where
  "rtc_rtcp_build_rr stats now =
    (let rc_count = stats_rc_count stats;
         reports = (if rc_count > 0 then [rr_of_stats stats now] else []);
         body = write_u32 (st_ssrc stats) @ concat (map rr_bytes reports);
         length_words = of_nat ((4 + length body) div 4 - 1)
     in \<lparr>rp_header = \<lparr>rh_version = 2, rh_padding = False, rh_count = of_nat rc_count,
           rh_packet_type = RTCP_PT_RR, rh_length = length_words\<rparr>,
         rp_sender_ssrc = st_ssrc stats, rp_sr = sr_zero, rp_reports = reports,
         rp_buf = rtcp_head (of_nat rc_count) RTCP_PT_RR length_words @ body\<rparr>)"

text \<open>One report block at an offset, with the 24-bit loss count sign-extended.\<close>

definition rr_parse :: "bytes \<Rightarrow> nat \<Rightarrow> rtc_rtcp_rr_block option" where
  "rr_parse data offset =
    do { ssrc \<leftarrow> rd32 data offset;
         lost_field \<leftarrow> rd32 data (offset + 4);
         highest_seq \<leftarrow> rd32 data (offset + 8);
         jitter \<leftarrow> rd32 data (offset + 12);
         last_sr \<leftarrow> rd32 data (offset + 16);
         delay_since_sr \<leftarrow> rd32 data (offset + 20);
         let c = lost_field AND 0x00FFFFFF;
         Some \<lparr>rr_ssrc = ssrc, rr_fraction_lost = ucast (drop_bit 24 lost_field),
           rr_cumulative_lost = (if c AND 0x800000 \<noteq> 0 then c OR 0xFF000000 else c),
           rr_highest_seq = highest_seq, rr_jitter = jitter, rr_last_sr = last_sr,
           rr_delay_since_sr = delay_since_sr\<rparr> }"

fun rr_parse_loop :: "bytes \<Rightarrow> nat \<Rightarrow> nat \<Rightarrow> rtc_rtcp_rr_block list option" where
  "rr_parse_loop data offset 0 = Some []"
| "rr_parse_loop data offset (Suc n) =
    (if offset + RTCP_RR_BLOCK_SIZE > length data then Some []
     else do { rr \<leftarrow> rr_parse data offset; rest \<leftarrow> rr_parse_loop data (offset + RTCP_RR_BLOCK_SIZE) n;
               Some (rr # rest) })"

definition rtc_rtcp_parse :: "bytes \<Rightarrow> (rtc_err + rtc_rtcp_packet) option" where
  "rtc_rtcp_parse data =
    (if length data < 8 then Some (Inl RTC_ERR_INVALID)
     else do {
       b0 \<leftarrow> rd8 data 0;
       let version = drop_bit 6 b0 AND 0x03;
       if version \<noteq> 2 then Some (Inl RTC_ERR_INVALID)
       else do {
         pt \<leftarrow> rd8 data 1;
         len_words \<leftarrow> rd16 data 2;
         if (unat len_words + 1) * 4 > length data then Some (Inl RTC_ERR_INVALID)
         else do {
           sender_ssrc \<leftarrow> rd32 data 4;
           let hdr = \<lparr>rh_version = version, rh_padding = (drop_bit 5 b0 AND 0x01 \<noteq> 0),
             rh_count = b0 AND 0x1F, rh_packet_type = pt, rh_length = len_words\<rparr>;
           if pt = RTCP_PT_SR \<and> 8 + RTCP_SR_SIZE > length data then Some (Inl RTC_ERR_INVALID)
           else do {
             (sr, offset) \<leftarrow> (if pt = RTCP_PT_SR then
                do { ntp_sec \<leftarrow> rd32 data 8; ntp_frac \<leftarrow> rd32 data 12; ts \<leftarrow> rd32 data 16;
                     pkts \<leftarrow> rd32 data 20; octs \<leftarrow> rd32 data 24;
                     Some (\<lparr>sr_ssrc = sender_ssrc, sr_ntp_sec = ntp_sec, sr_ntp_frac = ntp_frac,
                       sr_rtp_timestamp = ts, sr_sender_pkt_count = pkts, sr_sender_oct_count = octs\<rparr>, 28) }
              else Some (sr_zero, 8));
             reports \<leftarrow> rr_parse_loop data offset (min (unat (rh_count hdr)) 31);
             Some (Inr \<lparr>rp_header = hdr, rp_sender_ssrc = sender_ssrc, rp_sr = sr, rp_reports = reports,
               rp_buf = (if length data \<le> RTCP_MAX_PACKET then data else [])\<rparr>) } } } })"

subsection \<open>Dispatch and fixed-size feedback\<close>

definition rtc_rtcp_is_rtcp :: "bytes \<Rightarrow> bool option" where
  "rtc_rtcp_is_rtcp data =
    (if length data < 4 then Some False
     else do { b0 \<leftarrow> rd8 data 0;
               if drop_bit 6 b0 AND 0x03 \<noteq> 2 then Some False
               else do { pt \<leftarrow> rd8 data 1; Some (pt \<ge> 200 \<and> pt \<le> 206) } })"

definition rtc_rtcp_get_pt_fmt :: "bytes \<Rightarrow> (u8 \<times> u8) option option" where
  "rtc_rtcp_get_pt_fmt data =
    (if length data < 4 then Some None
     else do { b0 \<leftarrow> rd8 data 0;
               if drop_bit 6 b0 AND 0x03 \<noteq> 2 then Some None
               else do { pt \<leftarrow> rd8 data 1; Some (Some (pt, b0 AND 0x1F)) } })"

definition rtc_rtcp_build_pli :: "nat \<Rightarrow> u32 \<Rightarrow> u32 \<Rightarrow> rtc_err + bytes" where
  "rtc_rtcp_build_pli buf_cap sender_ssrc media_ssrc =
    (if buf_cap < 12 then Inl RTC_ERR_INVALID
     else Inr (rtcp_head RTCP_FMT_PLI RTCP_PT_PSFB 2 @ write_u32 sender_ssrc @ write_u32 media_ssrc))"

definition rtc_rtcp_parse_pli :: "bytes \<Rightarrow> (rtc_err + rtc_rtcp_pli) option" where
  "rtc_rtcp_parse_pli data =
    (if length data < 12 then Some (Inl RTC_ERR_INVALID)
     else do { b0 \<leftarrow> rd8 data 0;
               if drop_bit 6 b0 AND 0x03 \<noteq> 2 then Some (Inl RTC_ERR_INVALID)
               else do { s \<leftarrow> rd32 data 4; m \<leftarrow> rd32 data 8;
                         Some (Inr \<lparr>pli_sender_ssrc = s, pli_media_ssrc = m\<rparr>) } })"

definition rtc_rtcp_build_fir :: "nat \<Rightarrow> u32 \<Rightarrow> u32 \<Rightarrow> u8 \<Rightarrow> rtc_err + bytes" where
  "rtc_rtcp_build_fir buf_cap sender_ssrc media_ssrc seq_nr =
    (if buf_cap < 20 then Inl RTC_ERR_INVALID
     else Inr (rtcp_head RTCP_FMT_FIR RTCP_PT_PSFB 4 @ write_u32 sender_ssrc @ write_u32 0 @
            write_u32 media_ssrc @ [seq_nr, 0, 0, 0]))"

definition rtc_rtcp_parse_fir :: "bytes \<Rightarrow> (rtc_err + rtc_rtcp_fir) option" where
  "rtc_rtcp_parse_fir data =
    (if length data < 20 then Some (Inl RTC_ERR_INVALID)
     else do { b0 \<leftarrow> rd8 data 0;
               if drop_bit 6 b0 AND 0x03 \<noteq> 2 then Some (Inl RTC_ERR_INVALID)
               else do { s \<leftarrow> rd32 data 4; m \<leftarrow> rd32 data 12; n \<leftarrow> rd8 data 16;
                         Some (Inr \<lparr>fir_sender_ssrc = s, fir_media_ssrc = m, fir_seq_nr = n\<rparr>) } })"

subsection \<open>Codec lemmas\<close>

lemma lost_field:
  fixes c :: u32 and f :: u8
  assumes "unat c < 2 ^ 23"
  defines "w \<equiv> push_bit 24 (ucast f) OR (c AND 0x00FFFFFF)"
  shows "ucast (drop_bit 24 w) = f" "w AND 0x00FFFFFF = c" "c AND 0x800000 = 0"
proof -
  have t: "take_bit 23 c = c" "take_bit 24 c = c" using assms(1) by (simp_all add: take_bit_self)
  have high: "\<not> bit c n" if "23 \<le> n" for n
    using that bit_take_bit_iff [of 23 c n] unfolding t(1) by simp
  have w: "w = push_bit 24 (ucast f) OR c" unfolding w_def and_masks t ..
  show "ucast (drop_bit 24 w) = f" unfolding w
    by (rule bit_word_eqI) (auto simp: bit_simps high)
  show "w AND 0x00FFFFFF = c" unfolding w and_masks
  proof (rule bit_word_eqI)
    fix n :: nat
    show "bit (take_bit 24 (push_bit 24 (ucast f) OR c)) n = bit c n"
      by (cases "n < 24") (auto simp: bit_simps high)
  qed
  show "c AND 0x800000 = 0" using and_exp_eq_0_iff_not_bit [of c 23] high [of 23] by simp
qed

lemma rr_bytes_length [simp]: "length (rr_bytes rr) = 24"
  by (simp add: rr_bytes_def)

lemma rr_parse_bytes:
  assumes "length xs = n" "unat (rr_cumulative_lost rr) < 2 ^ 23"
  shows "rr_parse (xs @ rr_bytes rr @ ys) n = Some rr"
  using assms(1) lost_field(1,2) [OF assms(2), of "rr_fraction_lost rr"] lost_field(3) [OF assms(2)]
  unfolding rr_parse_def rr_bytes_def append_assoc
  by (simp add: rd32_append_right Let_def del: rd32_in)

lemma rtcp_head_reads:
  "rd8 (rtcp_head c pt w @ ys) 0 = Some (push_bit 6 2 OR (c AND 0x1F))" "rd8 (rtcp_head c pt w @ ys) 1 = Some pt"
  "rd16 (rtcp_head c pt w @ ys) 2 = Some w" "length (rtcp_head c pt w) = 4"
  by (simp_all add: rtcp_head_def rd16_def write_u16_def)

lemma bit_u8_80: "bit (0x80 :: u8) n \<longleftrightarrow> n = 7"
  using bit_push_bit_iff [of 7 "1 :: u8" n] by (auto simp: bit_1_iff)

lemma rtcp_head_byte:
  "drop_bit 6 (push_bit 6 2 OR (c AND 0x1F)) AND 0x03 = (2::u8)"
  "drop_bit 5 (push_bit 6 2 OR (c AND 0x1F)) AND 0x01 = (0::u8)"
  "(push_bit 6 2 OR (c AND 0x1F)) AND 0x1F = (c AND 0x1F :: u8)"
proof -
  have p: "push_bit 6 2 = (0x80 :: u8)" by simp
  have two: "bit (2 :: u8) n \<longleftrightarrow> n = 1" for n by (cases n) (auto simp: bit_Suc bit_0 bit_1_iff)
  show "drop_bit 6 (push_bit 6 2 OR (c AND 0x1F)) AND 0x03 = (2::u8)" unfolding p and_masks
    by (rule bit_word_eqI) (auto simp: bit_simps bit_u8_80 two)
  have "drop_bit 5 (0x80 OR take_bit 5 c) = push_bit 1 2" 
    by (rule bit_word_eqI) (auto simp: bit_drop_bit_eq bit_or_iff bit_take_bit_iff bit_push_bit_iff bit_u8_80 two)
  then show "drop_bit 5 (push_bit 6 2 OR (c AND 0x1F)) AND 0x01 = (0::u8)" unfolding p and_masks by simp
  show "(push_bit 6 2 OR (c AND 0x1F)) AND 0x1F = (c AND 0x1F :: u8)" unfolding p and_masks
    by (rule bit_word_eqI) (auto simp: bit_simps bit_u8_80)
qed

lemma rr_parse_loop_total: "\<exists>rs. rr_parse_loop data offset n = Some rs \<and> length rs \<le> n"
proof (induction n arbitrary: offset)
  case (Suc n)
  show ?case
  proof (cases "offset + RTCP_RR_BLOCK_SIZE > length data")
    case False
    then obtain rr where "rr_parse data offset = Some rr" by (simp add: rr_parse_def rtcp_consts Let_def)
    moreover obtain rs where "rr_parse_loop data (offset + RTCP_RR_BLOCK_SIZE) n = Some rs" "length rs \<le> n"
      using Suc.IH by blast
    ultimately show ?thesis using False by simp
  qed simp
qed simp

lemma rr_parse_loop_bytes:
  "length xs = n \<Longrightarrow> \<forall>rr \<in> set rrs. unat (rr_cumulative_lost rr) < 2 ^ 23 \<Longrightarrow>
    rr_parse_loop (xs @ concat (map rr_bytes rrs)) n (length rrs) = Some rrs"
proof (induction rrs arbitrary: xs n)
  case (Cons rr rrs)
  have "rr_parse_loop ((xs @ rr_bytes rr) @ concat (map rr_bytes rrs)) (n + RTCP_RR_BLOCK_SIZE) (length rrs) = Some rrs"
    by (rule Cons.IH) (use Cons.prems in \<open>simp_all add: rtcp_consts\<close>)
  moreover have "rr_parse (xs @ rr_bytes rr @ concat (map rr_bytes rrs)) n = Some rr"
    by (rule rr_parse_bytes) (use Cons.prems in simp_all)
  ultimately show ?case using Cons.prems by (simp add: rtcp_consts)
qed simp

text \<open>Parsing a header followed by a body that starts with the sender's SSRC.\<close>

lemma parse_head:
  assumes len: "4 + 4 + length body = 4 * (unat w + 1)" "length body \<le> 1000" "c AND 0x1F = c"
    and sr: "if pt = RTCP_PT_SR then
        body = write_u32 a @ write_u32 b @ write_u32 d @ write_u32 e @ write_u32 f @ concat (map rr_bytes rrs) \<and>
        sr = \<lparr>sr_ssrc = s, sr_ntp_sec = a, sr_ntp_frac = b, sr_rtp_timestamp = d, sr_sender_pkt_count = e,
          sr_sender_oct_count = f\<rparr>
      else body = concat (map rr_bytes rrs) \<and> sr = sr_zero"
    and rrs: "\<forall>rr \<in> set rrs. unat (rr_cumulative_lost rr) < 2 ^ 23" "length rrs = unat c" "unat c \<le> 31"
  defines "data \<equiv> rtcp_head c pt w @ write_u32 s @ body"
  shows "rtc_rtcp_parse data = Some (Inr \<lparr>rp_header = \<lparr>rh_version = 2, rh_padding = False, rh_count = c,
      rh_packet_type = pt, rh_length = w\<rparr>, rp_sender_ssrc = s, rp_sr = sr, rp_reports = rrs, rp_buf = data\<rparr>)"
proof -
  define b0 where "b0 = (push_bit 6 2 OR (c AND 0x1F) :: u8)"
  have rd: "rd8 data 0 = Some b0" "rd8 data 1 = Some pt" "rd16 data 2 = Some w"
    unfolding data_def b0_def by (rule rtcp_head_reads)+
  have bits: "drop_bit 6 b0 AND 0x03 = 2" "drop_bit 5 b0 AND 0x01 = 0" "b0 AND 0x1F = c"
    using rtcp_head_byte [of c] len(3) unfolding b0_def by simp_all
  have rd4: "rd32 data 4 = Some s"
    unfolding data_def by (simp add: rtcp_head_reads rd32_append_right del: rd32_in)
  have l: "length data = 8 + length body" unfolding data_def by (simp add: rtcp_head_reads)
  define off where "off = (if pt = RTCP_PT_SR then 28 else 8 :: nat)"
  have loop: "rr_parse_loop data off (length rrs) = Some rrs"
  proof (cases "pt = RTCP_PT_SR")
    case True
    then have d: "data = (rtcp_head c pt w @ write_u32 s @ write_u32 a @ write_u32 b @ write_u32 d @ write_u32 e @
        write_u32 f) @ concat (map rr_bytes rrs)"
      using sr by (simp add: data_def)
    show ?thesis unfolding d by (rule rr_parse_loop_bytes [OF _ rrs(1)]) (simp add: off_def True rtcp_head_reads)
  next
    case False
    then have d: "data = (rtcp_head c pt w @ write_u32 s) @ concat (map rr_bytes rrs)"
      using sr by (simp add: data_def)
    show ?thesis unfolding d by (rule rr_parse_loop_bytes [OF _ rrs(1)]) (simp add: off_def False rtcp_head_reads)
  qed
  have info: "(if pt = RTCP_PT_SR then
      do { ntp_sec \<leftarrow> rd32 data 8; ntp_frac \<leftarrow> rd32 data 12; ts \<leftarrow> rd32 data 16;
           pkts \<leftarrow> rd32 data 20; octs \<leftarrow> rd32 data 24;
           Some (\<lparr>sr_ssrc = s, sr_ntp_sec = ntp_sec, sr_ntp_frac = ntp_frac,
             sr_rtp_timestamp = ts, sr_sender_pkt_count = pkts, sr_sender_oct_count = octs\<rparr>, 28) }
      else Some (sr_zero, 8)) = Some (sr, off)"
    using sr unfolding data_def off_def
    by (auto simp: rtcp_head_reads rd32_append_right simp del: rd32_in)
  have "\<not> (pt = RTCP_PT_SR \<and> 8 + RTCP_SR_SIZE > length data)"
    using sr l by (auto simp: rtcp_consts)
  then show ?thesis
    unfolding rtc_rtcp_parse_def
    using rd rd4 l len info loop rrs(2,3) by (simp add: bits Let_def RTCP_MAX_PACKET_def min_absorb1 del: rd8_in rd16_in rd32_in)
qed

subsection \<open>Properties\<close>

text \<open>
  C31. Parsing control packets is safe on arbitrary bytes: no read leaves the datagram in
  any of the parsers, and an accepted report has version 2, a length word that covers no more than the
  datagram, and at most as many report blocks as its count field.
\<close>

theorem rtcp_parse_safe:
  "(\<exists>r. rtc_rtcp_parse data = Some r \<and>
     (case r of Inl e \<Rightarrow> e = RTC_ERR_INVALID
      | Inr pkt \<Rightarrow> rh_version (rp_header pkt) = 2 \<and> 4 * (unat (rh_length (rp_header pkt)) + 1) \<le> length data \<and>
          length (rp_reports pkt) \<le> unat (rh_count (rp_header pkt)))) \<and>
   (\<exists>r. rtc_rtcp_parse_pli data = Some r) \<and> (\<exists>r. rtc_rtcp_parse_fir data = Some r) \<and>
   (\<exists>r. rtc_rtcp_is_rtcp data = Some r) \<and> (\<exists>r. rtc_rtcp_get_pt_fmt data = Some r)"
proof (intro conjI)
  show "\<exists>r. rtc_rtcp_parse_pli data = Some r" by (auto simp: rtc_rtcp_parse_pli_def rd8_def)
  show "\<exists>r. rtc_rtcp_parse_fir data = Some r" by (auto simp: rtc_rtcp_parse_fir_def rd8_def)
  show "\<exists>r. rtc_rtcp_is_rtcp data = Some r" by (auto simp: rtc_rtcp_is_rtcp_def rd8_def)
  show "\<exists>r. rtc_rtcp_get_pt_fmt data = Some r" by (auto simp: rtc_rtcp_get_pt_fmt_def rd8_def)
  show "\<exists>r. rtc_rtcp_parse data = Some r \<and>
     (case r of Inl e \<Rightarrow> e = RTC_ERR_INVALID
      | Inr pkt \<Rightarrow> rh_version (rp_header pkt) = 2 \<and> 4 * (unat (rh_length (rp_header pkt)) + 1) \<le> length data \<and>
          length (rp_reports pkt) \<le> unat (rh_count (rp_header pkt)))"
  proof (cases "length data < 8")
    case False
    obtain b0 pt where "rd8 data 0 = Some b0" "rd8 data 1 = Some pt"
      using False rd8_Some_iff [of data 0] rd8_Some_iff [of data 1] by fastforce
    moreover obtain w s where "rd16 data 2 = Some w" "rd32 data 4 = Some s" using False by simp
    ultimately have rd: "rd8 data 0 = Some b0" "rd8 data 1 = Some pt" "rd16 data 2 = Some w" "rd32 data 4 = Some s" .
    obtain rs where rs: "rr_parse_loop data 28 (min (unat (b0 AND 0x1F)) 31) = Some rs" "length rs \<le> min (unat (b0 AND 0x1F)) 31"
      using rr_parse_loop_total by blast
    obtain rs' where rs': "rr_parse_loop data 8 (min (unat (b0 AND 0x1F)) 31) = Some rs'" "length rs' \<le> min (unat (b0 AND 0x1F)) 31"
      using rr_parse_loop_total by blast
    show ?thesis using False rd rs rs'
      by (auto simp: rtc_rtcp_parse_def Let_def rtcp_consts simp del: rd8_in rd16_in)
  qed (simp add: rtc_rtcp_parse_def)
qed

text \<open>
  C29. Sender and receiver reports survive the wire: for any statistics with fewer than 2^23
  lost packets, parsing the serialised report gives back the report built (header, sender information,
  report block, raw bytes), whether or not a remote source is being tracked.
\<close>

theorem rtcp_report_roundtrip:
  assumes "unat (st_packets_lost stats) < 2 ^ 23"
  shows "rtc_rtcp_parse (rp_buf (rtc_rtcp_build_sr stats unix_ms now)) = Some (Inr (rtc_rtcp_build_sr stats unix_ms now)) \<and>
    rtc_rtcp_parse (rp_buf (rtc_rtcp_build_rr stats now)) = Some (Inr (rtc_rtcp_build_rr stats now))"
proof
  define rrs where "rrs = (if stats_rc_count stats > 0 then [rr_of_stats stats now] else [])"
  define c where "c = (of_nat (stats_rc_count stats) :: u8)"
  have rrs: "\<forall>rr \<in> set rrs. unat (rr_cumulative_lost rr) < 2 ^ 23"
    using assms by (simp add: rrs_def rr_of_stats_def)
  have c: "c AND 0x1F = c" "length rrs = unat c" "unat c \<le> 31" and cat: "length (concat (map rr_bytes rrs)) = 24 * unat c"
    and c1: "unat c \<le> 1"
    by (simp_all add: c_def rrs_def stats_rc_count_def)
  then have c01: "unat c = 0 \<or> unat c = 1" by linarith
  obtain a b where ntp: "get_ntp_time unix_ms = (a, b)" by fastforce
  let ?w = "of_nat ((4 + (24 + 24 * unat c)) div 4 - 1) :: u16"
  have w: "unat ?w = 6 + 6 * unat c" using c01 by (elim disjE) (simp_all only:, simp_all)
  let ?sr = "\<lparr>sr_ssrc = st_ssrc stats, sr_ntp_sec = a, sr_ntp_frac = b, sr_rtp_timestamp = st_rtp_timestamp stats,
    sr_sender_pkt_count = st_packets_sent stats, sr_sender_oct_count = st_octets_sent stats\<rparr>"
  let ?body = "write_u32 a @ write_u32 b @ write_u32 (st_rtp_timestamp stats) @ write_u32 (st_packets_sent stats) @
    write_u32 (st_octets_sent stats) @ concat (map rr_bytes rrs)"
  let ?data = "rtcp_head c RTCP_PT_SR ?w @ write_u32 (st_ssrc stats) @ ?body"
  have "rtc_rtcp_build_sr stats unix_ms now = \<lparr>rp_header = \<lparr>rh_version = 2, rh_padding = False, rh_count = c,
      rh_packet_type = RTCP_PT_SR, rh_length = ?w\<rparr>, rp_sender_ssrc = st_ssrc stats, rp_sr = ?sr, rp_reports = rrs,
      rp_buf = ?data\<rparr>"
    unfolding rtc_rtcp_build_sr_def Let_def ntp rrs_def [symmetric] c_def [symmetric] by (simp add: cat)
  moreover have "rtc_rtcp_parse ?data = Some (Inr \<lparr>rp_header = \<lparr>rh_version = 2, rh_padding = False, rh_count = c,
      rh_packet_type = RTCP_PT_SR, rh_length = ?w\<rparr>, rp_sender_ssrc = st_ssrc stats, rp_sr = ?sr, rp_reports = rrs,
      rp_buf = ?data\<rparr>)"
    by (rule parse_head [OF _ _ c(1) _ rrs c(2,3)]) (use w cat c1 in simp_all)
  ultimately show "rtc_rtcp_parse (rp_buf (rtc_rtcp_build_sr stats unix_ms now)) = Some (Inr (rtc_rtcp_build_sr stats unix_ms now))"
    by simp
  let ?v = "of_nat ((4 + (4 + 24 * unat c)) div 4 - 1) :: u16"
  have v: "unat ?v = 1 + 6 * unat c" using c01 by (elim disjE) (simp_all only:, simp_all)
  let ?d = "rtcp_head c RTCP_PT_RR ?v @ write_u32 (st_ssrc stats) @ concat (map rr_bytes rrs)"
  have "rtc_rtcp_build_rr stats now = \<lparr>rp_header = \<lparr>rh_version = 2, rh_padding = False, rh_count = c,
      rh_packet_type = RTCP_PT_RR, rh_length = ?v\<rparr>, rp_sender_ssrc = st_ssrc stats, rp_sr = sr_zero, rp_reports = rrs,
      rp_buf = ?d\<rparr>"
    unfolding rtc_rtcp_build_rr_def Let_def rrs_def [symmetric] c_def [symmetric] by (simp add: cat)
  moreover have "rtc_rtcp_parse ?d = Some (Inr \<lparr>rp_header = \<lparr>rh_version = 2, rh_padding = False, rh_count = c,
      rh_packet_type = RTCP_PT_RR, rh_length = ?v\<rparr>, rp_sender_ssrc = st_ssrc stats, rp_sr = sr_zero, rp_reports = rrs,
      rp_buf = ?d\<rparr>)"
    by (rule parse_head [OF _ _ c(1) _ rrs c(2,3)]) (use v cat c1 in \<open>simp_all add: rtcp_consts\<close>)
  ultimately show "rtc_rtcp_parse (rp_buf (rtc_rtcp_build_rr stats now)) = Some (Inr (rtc_rtcp_build_rr stats now))"
    by simp
qed

definition demo_stats :: rtc_rtcp_stats where
  "demo_stats = rtc_rtcp_stats_on_rtp_recv (rtc_rtcp_stats_on_rtp_recv
     (rtc_rtcp_stats_on_rtp_send (rtc_rtcp_stats_init 5 0) 960 100) 10 0 7 0 0) 13 0 7 0 0"

theorem rtcp_report_roundtrip_witness:
  "unat (st_packets_lost demo_stats) = 2 \<and>
   rtc_rtcp_parse (rp_buf (rtc_rtcp_build_sr demo_stats 1000 20)) = Some (Inr (rtc_rtcp_build_sr demo_stats 1000 20))"
proof -
  have "unat (st_packets_lost demo_stats) = 2" by code_simp
  then show ?thesis using rtcp_report_roundtrip [of demo_stats 1000 20] by simp
qed

text \<open>
  Picture-loss and intra-request messages survive the wire, and the builders refuse
  a buffer that is too small.
\<close>

theorem rtcp_feedback_roundtrip:
  "(case rtc_rtcp_build_pli cap s m of
      Inl e \<Rightarrow> cap < 12
    | Inr buf \<Rightarrow> length buf \<le> cap \<and> rtc_rtcp_get_pt_fmt buf = Some (Some (RTCP_PT_PSFB, RTCP_FMT_PLI)) \<and>
        rtc_rtcp_parse_pli buf = Some (Inr \<lparr>pli_sender_ssrc = s, pli_media_ssrc = m\<rparr>)) \<and>
   (case rtc_rtcp_build_fir cap s m n of
      Inl e \<Rightarrow> cap < 20
    | Inr buf \<Rightarrow> length buf \<le> cap \<and> rtc_rtcp_get_pt_fmt buf = Some (Some (RTCP_PT_PSFB, RTCP_FMT_FIR)) \<and>
        rtc_rtcp_parse_fir buf = Some (Inr \<lparr>fir_sender_ssrc = s, fir_media_ssrc = m, fir_seq_nr = n\<rparr>))"
proof -
  note simps = rtc_rtcp_build_pli_def rtc_rtcp_parse_pli_def rtc_rtcp_build_fir_def rtc_rtcp_parse_fir_def
    rtc_rtcp_get_pt_fmt_def rtcp_head_def write_u16_def write_u32_def rd32_def
  show ?thesis by (simp add: simps Let_def rtcp_consts del: rd8_in rd32_in)
qed

subsection \<open>Loss accounting\<close>










text \<open>Outside that range the count goes wrong: a packet from before a wrap that arrives after it is
  taken for one nearly a full cycle ahead.\<close>

lemma late_before_wrap_inflates:
  "let recv = (\<lambda>q s. rtc_rtcp_stats_on_rtp_recv s q 0 7 0 0)
   in st_highest_seq (recv 65534 (recv 1 (recv 65533 (rtc_rtcp_stats_init 5 0)))) = 131070"
  by code_simp

text \<open>The jitter filter works on unsigned words: when the deviation drops below the estimate, the
  difference wraps and the estimate grows by about 2^28 instead of decaying.\<close>

lemma jitter_wraps:
  "let recv = (\<lambda>q t s. rtc_rtcp_stats_on_rtp_recv s q 0 7 1000 t);
       s = recv 3 2000 (recv 2 100 (recv 1 0 (rtc_rtcp_stats_init 5 0)))
   in st_jitter s = 119 \<and> st_jitter (recv 4 2000 s) = 268435568"
  by code_simp

end
