(* ===== verification/Rtcp_Nack.thy ===== *)
theory Rtcp_Nack
  imports Rtcp "HOL-Library.Sublist"
begin

text \<open>
  Generic NACK messages of \<^verbatim>\<open>rtc/src/rtc_rtcp.c\<close>: the lost sequence numbers are sorted and
  packed into entries of a first number and a 16-bit mask of the numbers after it. The C library's
  \<^verbatim>\<open>qsort\<close> with \<^verbatim>\<open>cmp_u16\<close> is \<open>sort\<close>: a sorted arrangement of numbers is unique.
\<close>

subsection \<open>Operations\<close>

definition RTCP_NACK_MAX_FCIS :: nat where "RTCP_NACK_MAX_FCIS = 64"
definition RTCP_NACK_MAX_SEQS :: nat where "RTCP_NACK_MAX_SEQS = RTCP_NACK_MAX_FCIS * 17"

lemmas nack_consts = RTCP_NACK_MAX_FCIS_def RTCP_NACK_MAX_SEQS_def

record rtc_rtcp_nack =
  nk_sender_ssrc :: u32
  nk_media_ssrc :: u32
  nk_lost_seqs :: "u16 list"

text \<open>The mask of the numbers 1 to 16 after \<open>pid\<close>, and the numbers left over.\<close>

fun nack_blp :: "u16 \<Rightarrow> u16 \<Rightarrow> u16 list \<Rightarrow> u16 \<times> u16 list" where
  "nack_blp pid blp [] = (blp, [])"
| "nack_blp pid blp (s # ss) =
    (let diff = int (unat s) - int (unat pid)
     in if diff \<ge> 1 \<and> diff \<le> 16 then nack_blp pid (blp OR push_bit (nat diff - 1) 1) ss else (blp, s # ss))"

fun nack_fcis :: "nat \<Rightarrow> u16 list \<Rightarrow> (u16 \<times> u16) list" where
  "nack_fcis 0 ss = []"
| "nack_fcis (Suc n) [] = []"
| "nack_fcis (Suc n) (pid # ss) = (case nack_blp pid 0 ss of (blp, rest) \<Rightarrow> (pid, blp) # nack_fcis n rest)"

definition rtc_rtcp_build_nack :: "nat \<Rightarrow> u32 \<Rightarrow> u32 \<Rightarrow> u16 list \<Rightarrow> rtc_err + bytes" where
  "rtc_rtcp_build_nack buf_cap sender_ssrc media_ssrc lost_seqs =
    (if lost_seqs = [] then Inl RTC_ERR_INVALID
     else
       let sorted = sort (take RTCP_NACK_MAX_SEQS lost_seqs);
           fcis = nack_fcis RTCP_NACK_MAX_FCIS sorted;
           pkt_len = 12 + length fcis * 4
       in if buf_cap < pkt_len then Inl RTC_ERR_INVALID
          else Inr (rtcp_head RTCP_FMT_NACK RTCP_PT_RTPFB (of_nat (pkt_len div 4 - 1)) @
                 write_u32 sender_ssrc @ write_u32 media_ssrc @
                 concat (map (\<lambda>(pid, blp). write_u16 pid @ write_u16 blp) fcis)))"

function nack_bits :: "u16 \<Rightarrow> u16 \<Rightarrow> nat \<Rightarrow> u16 list \<Rightarrow> u16 list" where
  "nack_bits pid blp k acc =
    (if k < 16 \<and> length acc < RTCP_NACK_MAX_SEQS then
       nack_bits pid blp (k + 1) (if blp AND push_bit k 1 \<noteq> 0 then acc @ [pid + of_nat k + 1] else acc)
     else acc)"
  by pat_completeness auto
termination by (relation "measure (\<lambda>(pid, blp, k, acc). 16 - k)") auto

function nack_parse_loop :: "bytes \<Rightarrow> nat \<Rightarrow> u16 list \<Rightarrow> u16 list option" where
  "nack_parse_loop data offset acc =
    (if offset + 4 \<le> length data \<and> length acc < RTCP_NACK_MAX_SEQS then
       do { pid \<leftarrow> rd16 data offset; blp \<leftarrow> rd16 data (offset + 2);
            nack_parse_loop data (offset + 4) (nack_bits pid blp 0 (acc @ [pid])) }
     else Some acc)"
  by pat_completeness auto
termination by (relation "measure (\<lambda>(data, offset, acc). length data - offset)") auto

declare nack_bits.simps [simp del] nack_parse_loop.simps [simp del]

definition rtc_rtcp_parse_nack :: "bytes \<Rightarrow> (rtc_err + rtc_rtcp_nack) option" where
  "rtc_rtcp_parse_nack data =
    (if length data < 12 then Some (Inl RTC_ERR_INVALID)
     else do {
       b0 \<leftarrow> rd8 data 0;
       if drop_bit 6 b0 AND 0x03 \<noteq> 2 then Some (Inl RTC_ERR_INVALID)
       else do { s \<leftarrow> rd32 data 4; m \<leftarrow> rd32 data 8; lost \<leftarrow> nack_parse_loop data 12 [];
                 Some (Inr \<lparr>nk_sender_ssrc = s, nk_media_ssrc = m, nk_lost_seqs = lost\<rparr>) } })"

subsection \<open>Entries and the numbers they stand for\<close>

definition mask_bits :: "u16 \<Rightarrow> nat list" where
  "mask_bits blp = filter (bit blp) [0..<16]"

definition expand :: "u16 \<times> u16 \<Rightarrow> u16 list" where
  "expand f = fst f # map (\<lambda>k. fst f + of_nat k + 1) (mask_bits (snd f))"

lemma mask_bits_add:
  assumes "\<forall>k \<ge> m. \<not> bit blp k" "m \<le> j" "j < 16"
  shows "mask_bits (blp OR 2 ^ j) = mask_bits blp @ [j]"
proof -
  have up: "[0..<16] = [0..<j] @ j # [Suc j..<16]"
    using assms(3) upt_add_eq_append [of 0 j "16 - j"] by (simp add: upt_conv_Cons)
  have b: "bit (blp OR 2 ^ j) k \<longleftrightarrow> bit blp k \<or> k = j" for k
    using assms(3) by (auto simp: bit_or_iff bit_exp_iff possible_bit_word)
  have "filter (bit (blp OR 2 ^ j)) [0..<j] = filter (bit blp) [0..<j]"
    by (rule filter_cong) (auto simp: b)
  moreover have "filter (bit (blp OR 2 ^ j)) [Suc j..<16] = []" "filter (bit blp) [Suc j..<16] = []"
    using assms(1,2) by (auto simp: b filter_empty_conv)
  ultimately show ?thesis unfolding mask_bits_def up using assms(1,2) by (simp add: b)
qed

lemma nack_blp_expand:
  assumes "nack_blp pid blp ss = (blp', rest)" "sorted_wrt (<) ss" "\<forall>k \<ge> m. \<not> bit blp k" "m \<le> 16"
    "\<forall>s \<in> set ss. unat pid + m < unat s"
  shows "\<exists>ts. ss = ts @ rest \<and> expand (pid, blp') = expand (pid, blp) @ ts"
  using assms
proof (induction ss arbitrary: blp m)
  case (Cons s ss)
  define j where "j = unat s - unat pid - 1"
  have s: "unat pid + m < unat s" using Cons.prems(5) by simp
  then have d: "int (unat s) - int (unat pid) = int j + 1" "m \<le> j" "unat s = unat pid + j + 1"
    by (simp_all add: j_def)
  show ?case
  proof (cases "j < 16")
    case True
    then have run: "nack_blp pid (blp OR 2 ^ j) ss = (blp', rest)"
      using Cons.prems(1) d(1) by (simp add: Let_def nat_add_distrib)
    have b: "\<forall>k \<ge> j + 1. \<not> bit (blp OR 2 ^ j) k"
      using Cons.prems(3) d(2) by (auto simp: bit_or_iff bit_exp_iff possible_bit_word)
    have "\<forall>x \<in> set ss. unat pid + (j + 1) < unat x"
      using Cons.prems(2) d(3) by (auto simp: word_less_nat_alt)
    from Cons.IH [OF run _ b _ this] obtain ts where
      ts: "ss = ts @ rest" "expand (pid, blp') = expand (pid, blp OR 2 ^ j) @ ts"
      using Cons.prems(2) True by auto
    have "s = pid + of_nat j + 1" using d(3) unat_range(2) [of s] by (simp add: word_unat_eq_iff unat_word_ariths unat_of_nat)
    then have "expand (pid, blp OR 2 ^ j) = expand (pid, blp) @ [s]"
      using mask_bits_add [OF Cons.prems(3) d(2) True] by (simp add: expand_def)
    then show ?thesis using ts by simp
  next
    case False
    then have "blp' = blp" "rest = s # ss" using Cons.prems(1) d(1) by (auto simp: Let_def)
    then show ?thesis by simp
  qed
qed simp

text \<open>The entries a sorted list takes: each covers its first number and the sixteen after it.\<close>

function nack_windows :: "u16 list \<Rightarrow> nat" where
  "nack_windows [] = 0"
| "nack_windows (pid # ss) = Suc (nack_windows (dropWhile (\<lambda>s. unat s \<le> unat pid + 16) ss))"
  by pat_completeness auto
termination by (relation "measure length") (auto simp: le_imp_less_Suc length_dropWhile_le)

lemma nack_blp_rest:
  "\<forall>s \<in> set ss. unat pid < unat s \<Longrightarrow> snd (nack_blp pid blp ss) = dropWhile (\<lambda>s. unat s \<le> unat pid + 16) ss"
proof (induction ss arbitrary: blp)
  case (Cons s ss)
  then have "1 \<le> int (unat s) - int (unat pid) \<and> int (unat s) - int (unat pid) \<le> 16 \<longleftrightarrow> unat s \<le> unat pid + 16"
    by (simp del: of_nat_unat) linarith
  then show ?case using Cons by (simp only: nack_blp.simps Let_def dropWhile.simps) auto
qed simp

lemma nack_fcis_expand:
  assumes "sorted_wrt (<) ss"
  shows "\<exists>rest. ss = concat (map expand (nack_fcis n ss)) @ rest \<and> (rest = [] \<longleftrightarrow> nack_windows ss \<le> n) \<and>
    length (nack_fcis n ss) \<le> n"
  using assms
proof (induction n ss rule: nack_fcis.induct)
  case (1 ss)
  then show ?case by (cases ss) auto
next
  case (3 n pid ss)
  obtain blp rest where run: "nack_blp pid 0 ss = (blp, rest)" by fastforce
  have gt: "\<forall>s \<in> set ss. unat pid + 0 < unat s" using "3.prems" by (auto simp: word_less_nat_alt)
  from nack_blp_expand [OF run _ _ _ gt] obtain ts where
    ts: "ss = ts @ rest" "expand (pid, blp) = expand (pid, 0) @ ts" using "3.prems" by auto
  have e: "expand (pid, 0) = [pid]" by (simp add: expand_def mask_bits_def)
  have w: "nack_windows (pid # ss) = Suc (nack_windows rest)" using nack_blp_rest [of ss pid 0] gt run by simp
  have "sorted_wrt (<) rest" using "3.prems" ts(1) by (auto simp: sorted_wrt_append)
  from "3.IH" [OF run [symmetric] this] obtain r where
    r: "rest = concat (map expand (nack_fcis n rest)) @ r" "r = [] \<longleftrightarrow> nack_windows rest \<le> n" "length (nack_fcis n rest) \<le> n" by blast
  have "pid # ss = concat (map expand (nack_fcis (Suc n) (pid # ss))) @ r" using run ts e r(1) by simp
  moreover have "length (nack_fcis (Suc n) (pid # ss)) \<le> Suc n" "r = [] \<longleftrightarrow> nack_windows (pid # ss) \<le> Suc n" using r(2,3) run w by simp_all
  ultimately show ?case by blast
qed simp

lemma nack_windows_le: "nack_windows ss \<le> length ss"
proof (induction ss rule: nack_windows.induct)
  case (2 pid ss)
  then show ?case using length_dropWhile_le [of "\<lambda>s. unat s \<le> unat pid + 16" ss] by simp
qed simp

lemma nack_fcis_count: "length (nack_fcis n ss) \<le> length (concat (map expand (nack_fcis n ss)))"
  by (induction n ss rule: nack_fcis.induct) (auto simp: expand_def split: prod.splits)

lemma and_bit_16: "k < 16 \<Longrightarrow> (blp :: u16) AND push_bit k 1 \<noteq> 0 \<longleftrightarrow> bit blp k"
  using and_exp_eq_0_iff_not_bit [of blp k] by simp

lemma nack_bits_spec:
  assumes "length acc + length (filter (bit blp) [k..<16]) \<le> RTCP_NACK_MAX_SEQS"
  shows "nack_bits pid blp k acc = acc @ map (\<lambda>k. pid + of_nat k + 1) (filter (bit blp) [k..<16])"
  using assms
proof (induction pid blp k acc rule: nack_bits.induct)
  case (1 pid blp k acc)
  show ?case
  proof (cases "k < 16 \<and> length acc < RTCP_NACK_MAX_SEQS")
    case True
    then have up: "[k..<16] = k # [k + 1..<16]" by (simp add: upt_conv_Cons)
    let ?acc = "if blp AND push_bit k 1 \<noteq> 0 then acc @ [pid + of_nat k + 1] else acc"
    have "nack_bits pid blp (k + 1) ?acc = ?acc @ map (\<lambda>k. pid + of_nat k + 1) (filter (bit blp) [k + 1..<16])"
      by (rule "1.IH" [OF True]) (use "1.prems" True and_bit_16 [of k blp] in \<open>auto simp: up\<close>)
    then show ?thesis
      by (subst nack_bits.simps) (use True and_bit_16 [of k blp] in \<open>auto simp: up\<close>)
  next
    case False
    then have "length (filter (bit blp) [k..<16]) = 0"
    proof (cases "k < 16")
      case True
      then have "\<not> length acc < RTCP_NACK_MAX_SEQS" using False by blast
      then show ?thesis using "1.prems" by linarith
    qed simp
    then have "filter (bit blp) [k..<16] = []" by blast
    then show ?thesis using False by (subst nack_bits.simps) auto
  qed
qed

lemma expand_nonempty [simp]: "expand f \<noteq> []"
  by (simp add: expand_def)

lemma nack_parse_loop_spec:
  assumes "length acc + length (concat (map expand fcis)) \<le> RTCP_NACK_MAX_SEQS" "length pre = n"
  shows "nack_parse_loop (pre @ concat (map (\<lambda>(pid, blp). write_u16 pid @ write_u16 blp) fcis)) n acc =
    Some (acc @ concat (map expand fcis))"
  using assms
proof (induction fcis arbitrary: pre n acc)
  case Nil
  then show ?case by (subst nack_parse_loop.simps) simp
next
  case (Cons f fcis)
  obtain pid blp where f: "f = (pid, blp)" by fastforce
  define tl where "tl = concat (map (\<lambda>(pid, blp). write_u16 pid @ write_u16 blp) fcis)"
  let ?data = "pre @ write_u16 pid @ write_u16 blp @ tl"
  have e: "expand f = pid # map (\<lambda>k. pid + of_nat k + 1) (filter (bit blp) [0..<16])"
    by (simp add: expand_def f mask_bits_def)
  have lt: "length acc < RTCP_NACK_MAX_SEQS" using Cons.prems(1) by (simp add: e)
  have rd: "rd16 ?data n = Some pid" "rd16 ?data (n + 2) = Some blp"
    using Cons.prems(2) rd16_at [of pre n pid "write_u16 blp @ tl"] rd16_at [of "pre @ write_u16 pid" "n + 2" blp tl]
    by simp_all
  have bits: "nack_bits pid blp 0 (acc @ [pid]) = acc @ expand f"
    using nack_bits_spec [of "acc @ [pid]" blp 0 pid] Cons.prems(1) by (simp add: e)
  have "nack_parse_loop ((pre @ write_u16 pid @ write_u16 blp) @ tl) (n + 4) (acc @ expand f) =
      Some ((acc @ expand f) @ concat (map expand fcis))"
    unfolding tl_def by (rule Cons.IH) (use Cons.prems in simp_all)
  then have "nack_parse_loop ?data n acc = Some (acc @ expand f @ concat (map expand fcis))"
    by (subst nack_parse_loop.simps) (use lt rd bits Cons.prems(2) in \<open>simp del: rd16_in\<close>)
  then show ?case by (simp add: f tl_def)
qed

lemma nack_bits_bound:
  "length acc \<le> RTCP_NACK_MAX_SEQS \<Longrightarrow> length (nack_bits pid blp k acc) \<le> RTCP_NACK_MAX_SEQS"
proof (induction pid blp k acc rule: nack_bits.induct)
  case (1 pid blp k acc)
  then show ?case by (subst nack_bits.simps) auto
qed

lemma nack_parse_loop_total:
  "length acc \<le> RTCP_NACK_MAX_SEQS \<Longrightarrow>
    \<exists>out. nack_parse_loop data offset acc = Some out \<and> length out \<le> RTCP_NACK_MAX_SEQS"
proof (induction data offset acc rule: nack_parse_loop.induct)
  case (1 data offset acc)
  show ?case
  proof (cases "offset + 4 \<le> length data \<and> length acc < RTCP_NACK_MAX_SEQS")
    case True
    then obtain pid blp where rd: "rd16 data offset = Some pid" "rd16 data (offset + 2) = Some blp" by simp
    have "length (nack_bits pid blp 0 (acc @ [pid])) \<le> RTCP_NACK_MAX_SEQS"
      by (rule nack_bits_bound) (use True in simp)
    from "1.IH" [OF True rd this] show ?thesis by (subst nack_parse_loop.simps) (use True rd in simp)
  next
    case False
    then show ?thesis using "1.prems" by (subst nack_parse_loop.simps) auto
  qed
qed

subsection \<open>Properties\<close>

text \<open>
  C32. A NACK message asks for the packets it was built for: for distinct lost sequence numbers in any order and a buffer with room
  for their entries (12 bytes and 4 for each number, 268 bytes always suffice), parsing the built message gives back the two SSRCs and, in
  ascending order, the numbers. All of them when there are at most 64; in general those of the first 1088, as far as 64 entries of seventeen
  consecutive numbers cover them, the larger ones being left out without an error.
\<close>

theorem nack_roundtrip:
  assumes "lost \<noteq> []" "distinct lost" "12 + 4 * min 64 (length lost) \<le> cap"
  shows "\<exists>buf lost'. rtc_rtcp_build_nack cap s m lost = Inr buf \<and> length buf \<le> cap \<and>
    rtc_rtcp_get_pt_fmt buf = Some (Some (RTCP_PT_RTPFB, RTCP_FMT_NACK)) \<and>
    rtc_rtcp_parse_nack buf = Some (Inr \<lparr>nk_sender_ssrc = s, nk_media_ssrc = m, nk_lost_seqs = lost'\<rparr>) \<and>
    prefix lost' (sort (take 1088 lost)) \<and> (lost' = sort (take 1088 lost) \<longleftrightarrow> nack_windows (sort (take 1088 lost)) \<le> 64) \<and>
    (length lost \<le> 64 \<longrightarrow> lost' = sort lost)"
proof -
  define asked where "asked = sort (take 1088 lost)"
  define fcis where "fcis = nack_fcis RTCP_NACK_MAX_FCIS asked"
  define lost' where "lost' = concat (map expand fcis)"
  define tl where "tl = concat (map (\<lambda>(pid, blp). write_u16 pid @ write_u16 blp) fcis)"
  have "sorted_wrt (<) asked" using assms(2) by (simp add: strict_sorted_iff asked_def)
  from nack_fcis_expand [OF this, of RTCP_NACK_MAX_FCIS] obtain rest where
    ex: "asked = lost' @ rest" "rest = [] \<longleftrightarrow> nack_windows asked \<le> 64" "length fcis \<le> 64"
    by (auto simp: fcis_def lost'_def nack_consts)
  have la: "length asked \<le> 1088" "length asked \<le> length lost" by (simp_all add: asked_def)
  have "length asked = length lost' + length rest" using arg_cong [OF ex(1), of length] by (simp only: length_append)
  moreover have "length fcis \<le> length lost'" unfolding lost'_def fcis_def by (rule nack_fcis_count)
  ultimately have lf: "length fcis \<le> min 64 (length lost)" "length lost' \<le> 1088" using la ex(3) by linarith+
  have p: "prefix lost' asked" "lost' = asked \<longleftrightarrow> nack_windows asked \<le> 64" using ex(1,2) by (metis prefixI, metis append_Nil2 append_self_conv)
  have small: "lost' = sort lost" if "length lost \<le> 64"
    using that p(2) nack_windows_le [of asked] la(2) by (simp add: asked_def)
  have ltl: "length tl = 4 * length fcis"
    unfolding tl_def by (induction fcis) auto
  let ?pre = "rtcp_head RTCP_FMT_NACK RTCP_PT_RTPFB (of_nat ((12 + length fcis * 4) div 4 - 1)) @ write_u32 s @ write_u32 m"
  have room: "12 + length fcis * 4 \<le> cap" using lf(1) assms(3) by linarith
  then have build: "rtc_rtcp_build_nack cap s m lost = Inr (?pre @ tl)"
    using assms(1) by (simp add: rtc_rtcp_build_nack_def Let_def nack_consts fcis_def [unfolded nack_consts, simplified] asked_def tl_def)
  have loop: "nack_parse_loop (?pre @ tl) 12 [] = Some lost'"
    using nack_parse_loop_spec [of "[]" fcis ?pre 12] lf(2) by (simp add: tl_def lost'_def nack_consts rtcp_head_reads)
  have b0: "push_bit 6 2 OR (RTCP_FMT_NACK AND 0x1F) = (0x81 :: u8)" by (simp add: rtcp_consts)
  have rd: "rd8 (?pre @ tl) 0 = Some 0x81" "rd8 (?pre @ tl) 1 = Some RTCP_PT_RTPFB"
    using rtcp_head_reads(1,2) [of RTCP_FMT_NACK RTCP_PT_RTPFB] unfolding b0 append_assoc by blast+
  have rd32: "rd32 (?pre @ tl) 4 = Some s" "rd32 (?pre @ tl) 8 = Some m"
    by (simp_all add: rd32_append_right rtcp_head_reads del: rd32_in)
  have len: "length (?pre @ tl) = 12 + 4 * length fcis" by (simp add: rtcp_head_reads ltl)
  have "length (?pre @ tl) \<le> cap" using len room by simp
  moreover have "rtc_rtcp_get_pt_fmt (?pre @ tl) = Some (Some (RTCP_PT_RTPFB, RTCP_FMT_NACK))"
    unfolding rtc_rtcp_get_pt_fmt_def len rd by (simp add: rtcp_consts)
  moreover have "rtc_rtcp_parse_nack (?pre @ tl) = Some (Inr \<lparr>nk_sender_ssrc = s, nk_media_ssrc = m, nk_lost_seqs = lost'\<rparr>)"
    unfolding rtc_rtcp_parse_nack_def len rd rd32 loop by simp
  ultimately show ?thesis using build p small unfolding asked_def by blast
qed

theorem nack_roundtrip_witness:
  "\<exists>buf. rtc_rtcp_build_nack 100 1 2 [40, 7, 23, 8, 24] = Inr buf \<and> length buf \<le> 100 \<and>
    rtc_rtcp_parse_nack buf = Some (Inr \<lparr>nk_sender_ssrc = 1, nk_media_ssrc = 2, nk_lost_seqs = [7, 8, 23, 24, 40]\<rparr>)"
proof -
  have "sort [40, 7, 23, 8, 24 :: u16] = [7, 8, 23, 24, 40]" by code_simp
  then show ?thesis using nack_roundtrip [of "[40, 7, 23, 8, 24]" 100 1 2] by auto
qed

text \<open>
  Parsing a NACK is safe on arbitrary bytes: it reads only inside the datagram and
  writes at most \<^verbatim>\<open>RTCP_NACK_MAX_SEQS\<close> numbers into the result array.
\<close>

theorem nack_parse_safe:
  "\<exists>r. rtc_rtcp_parse_nack data = Some r \<and>
    (case r of Inl e \<Rightarrow> e = RTC_ERR_INVALID | Inr nack \<Rightarrow> length (nk_lost_seqs nack) \<le> RTCP_NACK_MAX_SEQS)"
proof (cases "length data < 12")
  case False
  obtain b0 where b0: "rd8 data 0 = Some b0" using False rd8_Some_iff [of data 0] by fastforce
  obtain out where "nack_parse_loop data 12 [] = Some out" "length out \<le> RTCP_NACK_MAX_SEQS"
    using nack_parse_loop_total [of "[]" data 12] by auto
  then show ?thesis using False b0 by (simp add: rtc_rtcp_parse_nack_def)
qed (simp add: rtc_rtcp_parse_nack_def)

end
