(* ===== verification/Twcc.thy ===== *)
theory Twcc
  imports Rtcp Seq_Ring "HOL-Library.Signed_Division"
begin

text \<open>
  Transport-wide congestion control: the sender's history (\<^verbatim>\<open>rtc_twcc_sender.c\<close>), the receiver's
  arrival window and the feedback it builds (\<^verbatim>\<open>rtc_twcc_receiver.c\<close>), and the feedback parser
  (\<^verbatim>\<open>rtc_rtcp_parse_twcc\<close> in \<^verbatim>\<open>rtc_rtcp.c\<close>). The history meets the contract of \<open>Seq_Ring\<close>
  (interpretation \<open>twcc\<close>).
\<close>

subsection \<open>Sender history\<close>

definition RTC_TWCC_SENDER_RING :: nat where "RTC_TWCC_SENDER_RING = 1024"

record rtc_twcc_sent_pkt =
  tp_seq :: u16
  tp_size :: u16
  tp_send_time_us :: u64
  tp_used :: bool

record rtc_twcc_sender =
  tw_next_seq :: u16
  tw_ring :: "rtc_twcc_sent_pkt list"

definition rtc_twcc_sender_init :: rtc_twcc_sender where
  "rtc_twcc_sender_init = \<lparr>tw_next_seq = 0, tw_ring = replicate RTC_TWCC_SENDER_RING
     \<lparr>tp_seq = 0, tp_size = 0, tp_send_time_us = 0, tp_used = False\<rparr>\<rparr>"

definition ring_index :: "u16 \<Rightarrow> nat" where
  "ring_index seq = unat (seq AND (of_nat RTC_TWCC_SENDER_RING - 1))"

definition rtc_twcc_sender_assign :: "rtc_twcc_sender \<Rightarrow> u64 \<Rightarrow> u16 \<Rightarrow> u16 \<times> rtc_twcc_sender" where
  "rtc_twcc_sender_assign s send_time_us sz =
    (let seq = tw_next_seq s
     in (seq, \<lparr>tw_next_seq = seq + 1, tw_ring = (tw_ring s)[ring_index seq :=
          \<lparr>tp_seq = seq, tp_size = sz, tp_send_time_us = send_time_us, tp_used = True\<rparr>]\<rparr>))"

definition rtc_twcc_sender_lookup :: "rtc_twcc_sender \<Rightarrow> u16 \<Rightarrow> rtc_twcc_sent_pkt option" where
  "rtc_twcc_sender_lookup s seq =
    (let e = tw_ring s ! ring_index seq in if \<not> tp_used e \<or> tp_seq e \<noteq> seq then None else Some e)"

definition rtc_twcc_sender_invalidate :: "rtc_twcc_sender \<Rightarrow> u16 \<Rightarrow> rtc_twcc_sender" where
  "rtc_twcc_sender_invalidate s seq =
    (let e = tw_ring s ! ring_index seq
     in if tp_seq e = seq then s\<lparr>tw_ring := (tw_ring s)[ring_index seq := e\<lparr>tp_used := False\<rparr>]\<rparr> else s)"

subsection \<open>Receiver window\<close>

definition RTC_TWCC_RECV_WINDOW :: nat where "RTC_TWCC_RECV_WINDOW = 256"
definition RTC_TWCC_TICK_US :: int where "RTC_TWCC_TICK_US = 250"
definition STATUS_NOT_RECV :: u8 where "STATUS_NOT_RECV = 0"
definition STATUS_SMALL_DELTA :: u8 where "STATUS_SMALL_DELTA = 1"
definition STATUS_LARGE_DELTA :: u8 where "STATUS_LARGE_DELTA = 2"

lemmas twcc_consts = RTC_TWCC_RECV_WINDOW_def RTC_TWCC_TICK_US_def STATUS_NOT_RECV_def
  STATUS_SMALL_DELTA_def STATUS_LARGE_DELTA_def

record rtc_twcc_recv_entry =
  re_seq :: u16
  re_recv_time_us :: u64
  re_received :: bool

record rtc_twcc_receiver =
  rw_window :: "rtc_twcc_recv_entry list"
  rw_base_seq :: u16
  rw_count :: nat
  rw_have_base :: bool
  rw_fb_pkt_count :: u8

definition rtc_twcc_receiver_init :: rtc_twcc_receiver where
  "rtc_twcc_receiver_init = \<lparr>rw_window = replicate RTC_TWCC_RECV_WINDOW
       \<lparr>re_seq = 0, re_recv_time_us = 0, re_received = False\<rparr>,
     rw_base_seq = 0, rw_count = 0, rw_have_base = False, rw_fb_pkt_count = 0\<rparr>"

definition seq_after :: "u16 \<Rightarrow> u16 \<Rightarrow> int" where
  "seq_after a b = sint (b - a)"

definition rtc_twcc_receiver_on_packet :: "rtc_twcc_receiver \<Rightarrow> u16 \<Rightarrow> u64 \<Rightarrow> rtc_twcc_receiver" where
  "rtc_twcc_receiver_on_packet r twcc_seq recv_time_us =
    (let entry = \<lparr>re_seq = twcc_seq, re_recv_time_us = recv_time_us, re_received = True\<rparr>
     in if \<not> rw_have_base r then
          r\<lparr>rw_base_seq := twcc_seq, rw_count := 1, rw_window := (rw_window r)[0 := entry], rw_have_base := True\<rparr>
        else
          let delta = seq_after (rw_base_seq r) twcc_seq
          in if delta < 0 then r
             else if delta \<ge> int RTC_TWCC_RECV_WINDOW then r
             else
               let d = nat delta;
                   r = (if d + 1 > rw_count r then r\<lparr>rw_count := d + 1\<rparr> else r)
               in if re_received (rw_window r ! d) then r
                  else r\<lparr>rw_window := (rw_window r)[d := entry]\<rparr>)"

subsection \<open>Building feedback\<close>

text \<open>The status and delta (in 250 microsecond ticks) of each entry, against the running time.\<close>

fun twcc_status :: "rtc_twcc_recv_entry list \<Rightarrow> u64 \<Rightarrow> (u8 \<times> int) list" where
  "twcc_status [] prev_us = []"
| "twcc_status (e # es) prev_us =
    (if \<not> re_received e then (STATUS_NOT_RECV, 0) # twcc_status es prev_us
     else
       let d_ticks = (sint (re_recv_time_us e) - sint prev_us) sdiv RTC_TWCC_TICK_US
       in if d_ticks \<ge> -128 \<and> d_ticks \<le> 127 then
            (STATUS_SMALL_DELTA, d_ticks) # twcc_status es (word_of_int (sint prev_us + d_ticks * RTC_TWCC_TICK_US))
          else if d_ticks \<ge> -32768 \<and> d_ticks \<le> 32767 then
            (STATUS_LARGE_DELTA, d_ticks) # twcc_status es (word_of_int (sint prev_us + d_ticks * RTC_TWCC_TICK_US))
          else (STATUS_NOT_RECV, 0) # twcc_status es prev_us)"

fun run_from :: "u8 \<Rightarrow> nat \<Rightarrow> u8 list \<Rightarrow> nat" where
  "run_from s run [] = run"
| "run_from s run (x # xs) = (if x = s \<and> run < 0x1FFF then run_from s (run + 1) xs else run)"

definition vector_chunk :: "u8 list \<Rightarrow> u16" where
  "vector_chunk ss = fold (\<lambda>k chunk. if ss ! k = STATUS_SMALL_DELTA then chunk OR push_bit (13 - k) 1 else chunk)
     [0..<length ss] 0x8000"

lemma run_from_ge: "run \<le> run_from s run xs"
  by (induction s run xs rule: run_from.induct) auto

text \<open>The status chunks written from position \<open>p\<close> on; \<open>None\<close> when they do not fit.\<close>

function twcc_chunks :: "nat \<Rightarrow> nat \<Rightarrow> u8 list \<Rightarrow> bytes option" where
  "twcc_chunks cap p [] = Some []"
| "twcc_chunks cap p (s # ss) =
    (if cap < p + 2 then None
     else
       let run = run_from s 1 ss
       in if run \<ge> 3 \<or> s = STATUS_LARGE_DELTA then
            do { rest \<leftarrow> twcc_chunks cap (p + 2) (drop run (s # ss));
                 Some (write_u16 (push_bit 13 (ucast (s AND 0x3)) OR (of_nat run AND 0x1FFF)) @ rest) }
          else
            let n = min 14 (length (s # ss))
            in do { rest \<leftarrow> twcc_chunks cap (p + 2) (drop n (s # ss));
                    Some (write_u16 (vector_chunk (take n (s # ss))) @ rest) })"
  by pat_completeness auto
termination
proof (relation "measure (\<lambda>(cap, p, ss). length ss)")
  fix cap p :: nat and s :: u8 and ss run
  assume "run = run_from s 1 ss"
  then have "0 < run" using run_from_ge [of 1 s ss] by simp
  then show "((cap, p + 2, drop run (s # ss)), (cap, p, s # ss)) \<in> measure (\<lambda>(cap, p, ss). length ss)" by simp
qed auto

fun twcc_deltas :: "nat \<Rightarrow> nat \<Rightarrow> (u8 \<times> int) list \<Rightarrow> bytes option" where
  "twcc_deltas cap p [] = Some []"
| "twcc_deltas cap p ((s, d) # ds) =
    (if s = STATUS_SMALL_DELTA then
       if p + 1 > cap then None
       else do { rest \<leftarrow> twcc_deltas cap (p + 1) ds; Some (word_of_int d # rest) }
     else if s = STATUS_LARGE_DELTA then
       if p + 2 > cap then None
       else do { rest \<leftarrow> twcc_deltas cap (p + 2) ds; Some (write_u16 (word_of_int d) @ rest) }
     else twcc_deltas cap p ds)"

function twcc_pad :: "nat \<Rightarrow> nat \<Rightarrow> bytes option" where
  "twcc_pad cap p =
    (if p mod 4 = 0 then Some []
     else if p \<ge> cap then None
     else do { rest \<leftarrow> twcc_pad cap (p + 1); Some (0 # rest) })"
  by pat_completeness auto
termination by (relation "measure (\<lambda>(cap, p). (4 - p mod 4) mod 4)") (auto simp: mod_Suc)

declare twcc_pad.simps [simp del]

text \<open>The position of the first received entry, if any.\<close>

fun first_recv :: "rtc_twcc_recv_entry list \<Rightarrow> nat \<Rightarrow> nat option" where
  "first_recv [] i = None"
| "first_recv (e # es) i = (if re_received e then Some i else first_recv es (i + 1))"

definition rtc_twcc_receiver_build_feedback ::
  "rtc_twcc_receiver \<Rightarrow> u32 \<Rightarrow> u32 \<Rightarrow> nat \<Rightarrow> (rtc_err + bytes) \<times> rtc_twcc_receiver" where
  "rtc_twcc_receiver_build_feedback r sender_ssrc media_ssrc cap =
    (if \<not> rw_have_base r \<or> rw_count r = 0 then (Inl RTC_ERR_INVALID, r)
     else if cap < 32 then (Inl RTC_ERR_INVALID, r)
     else
       let entries = take (rw_count r) (rw_window r)
       in case first_recv entries 0 of
            None \<Rightarrow> (Inl RTC_ERR_INVALID, rtc_twcc_receiver_init)
          | Some first \<Rightarrow>
              let ref_us = re_recv_time_us (rw_window r ! first);
                  ref_time_64ms = ucast ((ref_us div 64000) AND 0x00FFFFFF) :: u32;
                  ref_base_us = ucast ref_time_64ms * 64000 :: u64;
                  sts = twcc_status entries ref_base_us;
                  fb = rw_fb_pkt_count r;
                  r' = r\<lparr>rw_fb_pkt_count := fb + 1\<rparr>;
                  fixed = write_u32 sender_ssrc @ write_u32 media_ssrc @ write_u16 (rw_base_seq r) @
                    write_u16 (of_nat (rw_count r)) @ write_u24 ref_time_64ms @ [fb]
              in case twcc_chunks cap 20 (map fst sts) of None \<Rightarrow> (Inl RTC_ERR_INVALID, r')
               | Some chunks \<Rightarrow>
              case twcc_deltas cap (20 + length chunks) sts of None \<Rightarrow> (Inl RTC_ERR_INVALID, r')
               | Some deltas \<Rightarrow>
              case twcc_pad cap (20 + length chunks + length deltas) of None \<Rightarrow> (Inl RTC_ERR_INVALID, r')
               | Some pad \<Rightarrow>
                   let p = 20 + length chunks + length deltas + length pad
                   in (Inr ([0x80 OR 15, RTCP_PT_RTPFB] @ write_u16 (of_nat (p div 4 - 1)) @ fixed @ chunks @ deltas @ pad),
                       rtc_twcc_receiver_init\<lparr>rw_fb_pkt_count := fb + 1\<rparr>))"

subsection \<open>Parsing feedback\<close>

definition RTC_TWCC_PARSE_MAX :: nat where "RTC_TWCC_PARSE_MAX = 256"

record twcc_item =
  ti_seq :: u16
  ti_received :: bool
  ti_recv_time_us :: u64

record rtc_rtcp_twcc =
  tf_sender_ssrc :: u32
  tf_media_ssrc :: u32
  tf_base_seq :: u16
  tf_fb_pkt_count :: u8
  tf_reference_time_us :: u64
  tf_items :: "twcc_item list"

text \<open>The statuses one chunk stands for: a run, fourteen one-bit or seven two-bit symbols.\<close>

definition chunk_status :: "u16 \<Rightarrow> u8 list" where
  "chunk_status chunk =
    (if chunk AND 0x8000 = 0 then replicate (unat (chunk AND 0x1FFF)) (ucast (drop_bit 13 chunk AND 0x3))
     else if drop_bit 14 chunk AND 0x1 = 0 then
       map (\<lambda>k. if drop_bit (13 - k) chunk AND 0x1 \<noteq> 0 then STATUS_SMALL_DELTA else STATUS_NOT_RECV) [0..<14]
     else map (\<lambda>k. ucast (drop_bit (12 - 2 * k) chunk AND 0x3)) [0..<7])"

text \<open>The chunk walk: each chunk fills statuses until the announced number is reached.\<close>

function twcc_parse_chunks :: "bytes \<Rightarrow> nat \<Rightarrow> u8 list \<Rightarrow> nat \<Rightarrow> (rtc_err + u8 list \<times> nat) option" where
  "twcc_parse_chunks data p st status_count =
    (if length st < status_count then
       if p + 2 > length data then Some (Inl RTC_ERR_INVALID)
       else do { chunk \<leftarrow> rd16 data p;
                 twcc_parse_chunks data (p + 2) (st @ take (status_count - length st) (chunk_status chunk)) status_count }
     else Some (Inr (st, p)))"
  by pat_completeness auto
termination by (relation "measure (\<lambda>(data, p, st, n). length data - p)") auto

declare twcc_parse_chunks.simps [simp del]

fun twcc_parse_deltas :: "bytes \<Rightarrow> nat \<Rightarrow> u64 \<Rightarrow> u16 \<Rightarrow> u8 list \<Rightarrow> (rtc_err + twcc_item list) option" where
  "twcc_parse_deltas data p cur_us seq [] = Some (Inr [])"
| "twcc_parse_deltas data p cur_us seq (s # ss) =
    (let continue = (\<lambda>p' cur it. do { r \<leftarrow> twcc_parse_deltas data p' cur (seq + 1) ss;
           Some (case r of Inl e \<Rightarrow> Inl e | Inr items \<Rightarrow> Inr (it # items)) })
     in if s = STATUS_NOT_RECV then
          continue p cur_us \<lparr>ti_seq = seq, ti_received = False, ti_recv_time_us = 0\<rparr>
        else if s = STATUS_SMALL_DELTA then
          if p + 1 > length data then Some (Inl RTC_ERR_INVALID)
          else do { b \<leftarrow> rd8 data p;
                    let cur = word_of_int (sint cur_us + sint b * RTC_TWCC_TICK_US);
                    continue (p + 1) cur \<lparr>ti_seq = seq, ti_received = True, ti_recv_time_us = cur\<rparr> }
        else if s = STATUS_LARGE_DELTA then
          if p + 2 > length data then Some (Inl RTC_ERR_INVALID)
          else do { w \<leftarrow> rd16 data p;
                    let cur = word_of_int (sint cur_us + sint w * RTC_TWCC_TICK_US);
                    continue (p + 2) cur \<lparr>ti_seq = seq, ti_received = True, ti_recv_time_us = cur\<rparr> }
        else Some (Inl RTC_ERR_INVALID))"

definition rtc_rtcp_parse_twcc :: "bytes \<Rightarrow> (rtc_err + rtc_rtcp_twcc) option" where
  "rtc_rtcp_parse_twcc data =
    (if length data < 20 then Some (Inl RTC_ERR_INVALID)
     else do {
       b0 \<leftarrow> rd8 data 0;
       if drop_bit 6 b0 AND 0x3 \<noteq> 2 then Some (Inl RTC_ERR_INVALID)
       else do {
         sender_ssrc \<leftarrow> rd32 data 4;
         media_ssrc \<leftarrow> rd32 data 8;
         base_seq \<leftarrow> rd16 data 12;
         status_count \<leftarrow> rd16 data 14;
         ref_time_64ms \<leftarrow> rd24 data 16;
         fb_pkt_count \<leftarrow> rd8 data 19;
         let reference_time_us = ucast ref_time_64ms * 64000;
         if status_count = 0 \<or> unat status_count > RTC_TWCC_PARSE_MAX then Some (Inl RTC_ERR_INVALID)
         else do {
           r \<leftarrow> twcc_parse_chunks data 20 [] (unat status_count);
           case r of Inl e \<Rightarrow> Some (Inl e)
           | Inr (st, p) \<Rightarrow>
               do { r \<leftarrow> twcc_parse_deltas data p reference_time_us base_seq st;
                    Some (case r of Inl e \<Rightarrow> Inl e
                      | Inr items \<Rightarrow> Inr \<lparr>tf_sender_ssrc = sender_ssrc, tf_media_ssrc = media_ssrc,
                          tf_base_seq = base_seq, tf_fb_pkt_count = fb_pkt_count,
                          tf_reference_time_us = reference_time_us, tf_items = items\<rparr>) } } } })"

subsection \<open>The history as a ring\<close>

definition twcc_put :: "rtc_twcc_sender \<Rightarrow> u16 \<Rightarrow> u64 \<times> u16 \<Rightarrow> rtc_twcc_sender" where
  "twcc_put s seq d = snd (rtc_twcc_sender_assign (s\<lparr>tw_next_seq := seq\<rparr>) (fst d) (snd d))"

definition twcc_look :: "rtc_twcc_sender \<Rightarrow> u16 \<Rightarrow> (u64 \<times> u16) option" where
  "twcc_look s seq = map_option (\<lambda>e. (tp_send_time_us e, tp_size e)) (rtc_twcc_sender_lookup s seq)"

definition twcc_ok :: "rtc_twcc_sender \<Rightarrow> bool" where
  "twcc_ok s \<longleftrightarrow> length (tw_ring s) = RTC_TWCC_SENDER_RING"

lemma ring_index: "ring_index s = unat s mod 1024"
proof -
  have "s AND 0x3FF = take_bit 10 s" by (simp add: take_bit_eq_mask mask_eq_exp_minus_1)
  then show ?thesis by (simp add: ring_index_def RTC_TWCC_SENDER_RING_def unat_take_bit)
qed

lemma twcc_look_eq:
  "twcc_look r t = (let e = tw_ring r ! ring_index t in
     if tp_used e \<and> tp_seq e = t then Some (tp_send_time_us e, tp_size e) else None)"
  by (simp add: twcc_look_def rtc_twcc_sender_lookup_def Let_def)

lemma twcc_put_ring:
  "tw_ring (twcc_put r s d) = (tw_ring r)[ring_index s :=
     \<lparr>tp_seq = s, tp_size = snd d, tp_send_time_us = fst d, tp_used = True\<rparr>]"
  by (simp add: twcc_put_def rtc_twcc_sender_assign_def Let_def)

interpretation twcc: seq_ring 1024 twcc_put twcc_look twcc_ok "\<lambda>d. True"
proof
  show "(1024 :: nat) dvd 2 ^ 16" by simp
  fix r s d t assume ok: "twcc_ok r"
  then show "twcc_ok (twcc_put r s d)"
    by (simp add: twcc_put_def rtc_twcc_sender_assign_def twcc_ok_def Let_def)
  have lt: "ring_index t < length (tw_ring r)" using ok by (simp add: twcc_ok_def RTC_TWCC_SENDER_RING_def ring_index)
  have same: "same_slot 1024 s t \<longleftrightarrow> ring_index s = ring_index t" by (simp add: same_slot_def ring_index)
  show "twcc_look (twcc_put r s d) t =
      (if t = s then Some d else if same_slot 1024 s t then None else twcc_look r t)"
  proof (cases "ring_index s = ring_index t")
    case True
    then show ?thesis using lt unfolding same twcc_look_eq twcc_put_ring by (auto simp: Let_def)
  next
    case False
    then have "t \<noteq> s" by blast
    then show ?thesis using False unfolding same twcc_look_eq twcc_put_ring by simp
  qed
qed

text \<open>Consecutive assignments are a run of stores from the next number on.\<close>

fun assign_run :: "rtc_twcc_sender \<Rightarrow> (u64 \<times> u16) list \<Rightarrow> rtc_twcc_sender" where
  "assign_run s [] = s"
| "assign_run s ((t, n) # ds) = assign_run (snd (rtc_twcc_sender_assign s t n)) ds"

lemma assign_run_put: "assign_run s ds = put_run twcc_put s (tw_next_seq s) ds"
proof (induction ds arbitrary: s)
  case (Cons d ds)
  obtain t n where d: "d = (t, n)" by fastforce
  have "snd (rtc_twcc_sender_assign s t n) = twcc_put s (tw_next_seq s) d"
    by (simp add: twcc_put_def d rtc_twcc_sender_assign_def Let_def)
  moreover have "tw_next_seq (snd (rtc_twcc_sender_assign s t n)) = tw_next_seq s + 1"
    by (simp add: rtc_twcc_sender_assign_def Let_def)
  ultimately show ?case using Cons.IH [of "twcc_put s (tw_next_seq s) d"] d by simp
qed simp

lemma lookup_invalidate:
  "rtc_twcc_sender_lookup (rtc_twcc_sender_invalidate s t) u = (if u = t then None else rtc_twcc_sender_lookup s u)"
  if "twcc_ok s"
proof -
  define e where "e = tw_ring s ! ring_index t"
  have lt: "ring_index t < length (tw_ring s)"
    using that by (simp add: twcc_ok_def RTC_TWCC_SENDER_RING_def ring_index)
  have inv: "rtc_twcc_sender_invalidate s t =
      (if tp_seq e = t then s\<lparr>tw_ring := (tw_ring s)[ring_index t := e\<lparr>tp_used := False\<rparr>]\<rparr> else s)"
    unfolding rtc_twcc_sender_invalidate_def Let_def e_def ..
  show ?thesis
  proof (cases "ring_index u = ring_index t")
    case True
    then have "tw_ring (rtc_twcc_sender_invalidate s t) ! ring_index u = (if tp_seq e = t then e\<lparr>tp_used := False\<rparr> else e)"
      unfolding inv using lt by (simp add: e_def)
    then show ?thesis unfolding rtc_twcc_sender_lookup_def Let_def using True by (auto simp: e_def)
  next
    case False
    then have "tw_ring (rtc_twcc_sender_invalidate s t) ! ring_index u = tw_ring s ! ring_index u" "u \<noteq> t"
      unfolding inv by auto
    then show ?thesis unfolding rtc_twcc_sender_lookup_def Let_def by simp
  qed
qed

text \<open>
  C33. The congestion-control history remembers the last 1024 packets: of any number of
  packets sent from the start, each of the last 1024 is found under its number (wrapping at 65536)
  with its own send time and size, except a retransmitted one that was invalidated.
\<close>

theorem twcc_history:
  assumes "i < length ds" "length ds \<le> i + 1024"
  shows "map_option (\<lambda>e. (tp_send_time_us e, tp_size e))
      (rtc_twcc_sender_lookup (rtc_twcc_sender_invalidate (assign_run rtc_twcc_sender_init ds) t) (of_nat i)) =
    (if of_nat i = t then None else Some (ds ! i))"
proof -
  have ok: "twcc_ok rtc_twcc_sender_init" by (simp add: twcc_ok_def rtc_twcc_sender_init_def)
  have run: "assign_run rtc_twcc_sender_init ds = put_run twcc_put rtc_twcc_sender_init 0 ds"
    using assign_run_put [of rtc_twcc_sender_init ds] by (simp add: rtc_twcc_sender_init_def)
  have "twcc_look (assign_run rtc_twcc_sender_init ds) (0 + of_nat i) = Some (ds ! i)"
    unfolding run by (rule twcc.look_run [OF ok _ assms]) (simp add: list_all_iff)
  then show ?thesis
    using lookup_invalidate [OF twcc.ok_put_run [OF ok]] by (simp add: run twcc_look_def)
qed

theorem twcc_history_witness:
  "map_option (\<lambda>e. (tp_send_time_us e, tp_size e))
     (rtc_twcc_sender_lookup (rtc_twcc_sender_invalidate (assign_run rtc_twcc_sender_init [(10, 100), (20, 200)]) 0) 1) =
   Some (20, 200)"
  using twcc_history [of 1 "[(10, 100), (20, 200)]" 0] by simp

end
