(* ===== verification/Twcc_Feedback.thy ===== *)
theory Twcc_Feedback
  imports Twcc
begin

text \<open>
  What the transport-wide feedback carries from the receiver to the sender: the status chunks, the
  deltas, and the whole message, built by \<^verbatim>\<open>rtc_twcc_receiver.c\<close> and parsed by \<^verbatim>\<open>rtc_rtcp.c\<close>.
\<close>

subsection \<open>The receiver window\<close>

definition twcc_inv :: "rtc_twcc_receiver \<Rightarrow> bool" where
  "twcc_inv r \<longleftrightarrow> length (rw_window r) = RTC_TWCC_RECV_WINDOW \<and>
    (if rw_have_base r then 0 < rw_count r \<and> rw_count r \<le> RTC_TWCC_RECV_WINDOW \<and> re_received (rw_window r ! 0) else rw_count r = 0) \<and>
    (\<forall>i < RTC_TWCC_RECV_WINDOW. re_received (rw_window r ! i) \<longrightarrow>
       i < rw_count r \<and> re_seq (rw_window r ! i) = rw_base_seq r + of_nat i)"

lemma twcc_inv_init: "twcc_inv (rtc_twcc_receiver_init\<lparr>rw_fb_pkt_count := n\<rparr>)"
  by (simp add: twcc_inv_def rtc_twcc_receiver_init_def)

lemma seq_after_nonneg: "0 \<le> seq_after a b \<Longrightarrow> b = a + of_nat (nat (seq_after a b))"
proof -
  assume n: "0 \<le> seq_after a b"
  have s: "sint (b - a) = (if unat (b - a) < 32768 then int (unat (b - a)) else int (unat (b - a)) - 65536)"
    using sint_unat [of "b - a"] by simp
  have "unat (b - a) < 32768"
  proof (rule ccontr)
    assume "\<not> unat (b - a) < 32768"
    then have "sint (b - a) = int (unat (b - a)) - 65536" using s by argo
    then show False using n unat_range(2) [of "b - a"] unfolding seq_after_def by linarith
  qed
  then have "unat (b - a) = nat (sint (b - a))" using s by simp
  then have "b - a = of_nat (nat (seq_after a b))" unfolding seq_after_def by (metis of_nat_unat ucast_id)
  then show ?thesis by (simp add: diff_eq_eq add.commute)
qed

lemma twcc_inv_on_packet: "twcc_inv r \<Longrightarrow> twcc_inv (rtc_twcc_receiver_on_packet r s t)"
proof -
  assume inv: "twcc_inv r"
  let ?e = "\<lparr>re_seq = s, re_recv_time_us = t, re_received = True\<rparr>"
  define d where "d = nat (seq_after (rw_base_seq r) s)"
  consider "\<not> rw_have_base r" | "rw_have_base r" "seq_after (rw_base_seq r) s < 0 \<or> seq_after (rw_base_seq r) s \<ge> 256"
    | "rw_have_base r" "0 \<le> seq_after (rw_base_seq r) s" "d < 256" unfolding d_def by linarith
  then show ?thesis
  proof cases
    case 1
    then have "\<not> re_received (rw_window r ! i)" if "i < 256" for i
      using inv that by (auto simp: twcc_inv_def twcc_consts)
    then show ?thesis using 1 inv
      by (auto simp: twcc_inv_def rtc_twcc_receiver_on_packet_def Let_def twcc_consts nth_list_update)
  next
    case 2
    then have "rtc_twcc_receiver_on_packet r s t = r"
      by (auto simp: rtc_twcc_receiver_on_packet_def Let_def twcc_consts)
    then show ?thesis using inv by simp
  next
    case 3
    have s: "s = rw_base_seq r + of_nat d" using seq_after_nonneg [OF 3(2)] by (simp add: d_def)
    let ?c = "if d + 1 > rw_count r then d + 1 else rw_count r"
    have eq: "rtc_twcc_receiver_on_packet r s t = r\<lparr>rw_count := ?c,
        rw_window := if re_received (rw_window r ! d) then rw_window r else (rw_window r)[d := ?e]\<rparr>"
      using 3 by (auto simp: rtc_twcc_receiver_on_packet_def Let_def twcc_consts d_def)
    show ?thesis unfolding eq using 3(1,3) inv s
      by (auto simp: twcc_inv_def twcc_consts nth_list_update)
  qed
qed

subsection \<open>Sizes\<close>

lemma run_from_le: "run_from s run xs \<le> run + length xs"
  by (induction s run xs rule: run_from.induct) auto

lemma run_from_take: "take (run_from s run xs - run) xs = replicate (run_from s run xs - run) s"
proof (induction s run xs rule: run_from.induct)
  case (2 s run x xs)
  show ?case
  proof (cases "x = s \<and> run < 0x1FFF")
    case True
    have "run_from s (run + 1) xs - run = Suc (run_from s (run + 1) xs - (run + 1))"
      using run_from_ge [of "run + 1" s xs] by simp
    then show ?thesis using "2.IH" [OF True] True by simp
  next
    case False
    then have "run_from s run (x # xs) = run" by (simp only: run_from.simps if_False)
    then show ?thesis by simp
  qed
qed simp

text \<open>The two kinds of chunk, as equations.\<close>

definition run_chunk :: "u8 \<Rightarrow> nat \<Rightarrow> u16" where
  "run_chunk s run = push_bit 13 (ucast (s AND 0x3)) OR (of_nat run AND 0x1FFF)"

lemma twcc_chunks_run:
  assumes "\<not> cap < p + 2" "run = run_from s 1 ss" "run \<ge> 3 \<or> s = STATUS_LARGE_DELTA"
    "twcc_chunks cap (p + 2) (drop run (s # ss)) = Some c"
  shows "twcc_chunks cap p (s # ss) = Some (write_u16 (run_chunk s run) @ c)"
  by (subst twcc_chunks.simps) (simp only: Let_def assms(1) assms(2) [symmetric] assms(3,4) if_False if_True
      bind.bind_lunit run_chunk_def)

lemma twcc_chunks_vector:
  assumes "\<not> cap < p + 2" "run = run_from s 1 ss" "\<not> (run \<ge> 3 \<or> s = STATUS_LARGE_DELTA)"
    "n = min 14 (length (s # ss))" "twcc_chunks cap (p + 2) (drop n (s # ss)) = Some c"
  shows "twcc_chunks cap p (s # ss) = Some (write_u16 (vector_chunk (take n (s # ss))) @ c)"
  by (subst twcc_chunks.simps) (simp only: Let_def assms(1) assms(2) [symmetric] assms(3) assms(4) [symmetric] assms(5)
      if_False bind.bind_lunit)

lemma twcc_chunks_fit:
  "p + 2 * length ss \<le> cap \<Longrightarrow> \<exists>c. twcc_chunks cap p ss = Some c \<and> length c \<le> 2 * length ss"
proof (induction cap p ss rule: twcc_chunks.induct)
  case (2 cap p s ss)
  have cap: "\<not> cap < p + 2" using "2.prems" by simp
  define run where "run = run_from s 1 ss"
  have run: "1 \<le> run" "run \<le> length (s # ss)" using run_from_ge [of 1 s ss] run_from_le [of s 1 ss] by (simp_all add: run_def)
  show ?case
  proof (cases "run \<ge> 3 \<or> s = STATUS_LARGE_DELTA")
    case True
    have "\<exists>c. twcc_chunks cap (p + 2) (drop run (s # ss)) = Some c \<and> length c \<le> 2 * length (drop run (s # ss))"
      by (rule "2.IH"(1) [OF cap run_def True]) (use "2.prems" run in simp)
    then obtain c where c: "twcc_chunks cap (p + 2) (drop run (s # ss)) = Some c" "length c \<le> 2 * length (drop run (s # ss))" by blast
    show ?thesis using twcc_chunks_run [OF cap run_def True c(1)] c(2) run by simp
  next
    case False
    define n where "n = min 14 (length (s # ss))"
    have n: "1 \<le> n" by (simp add: n_def)
    have "\<exists>c. twcc_chunks cap (p + 2) (drop n (s # ss)) = Some c \<and> length c \<le> 2 * length (drop n (s # ss))"
      by (rule "2.IH"(2) [OF cap run_def False n_def]) (use "2.prems" n in simp)
    then obtain c where c: "twcc_chunks cap (p + 2) (drop n (s # ss)) = Some c" "length c \<le> 2 * length (drop n (s # ss))" by blast
    show ?thesis using twcc_chunks_vector [OF cap run_def False n_def c(1)] c(2) n by simp
  qed
qed simp

lemma twcc_deltas_fit:
  "p + 2 * length ds \<le> cap \<Longrightarrow> \<exists>c. twcc_deltas cap p ds = Some c \<and> length c \<le> 2 * length ds"
proof (induction cap p ds rule: twcc_deltas.induct)
  case (2 cap p s d ds)
  consider "s = STATUS_SMALL_DELTA" | "s = STATUS_LARGE_DELTA" | "s \<noteq> STATUS_SMALL_DELTA" "s \<noteq> STATUS_LARGE_DELTA" by blast
  then show ?case
  proof cases
    case 1
    then show ?thesis using "2.IH"(1) "2.prems" by (fastforce simp: twcc_consts)
  next
    case 2
    then show ?thesis using "2.IH"(2) "2.prems" by (fastforce simp: twcc_consts)
  next
    case 3
    then show ?thesis using "2.IH"(3) "2.prems" by fastforce
  qed
qed simp

lemma twcc_pad_fit:
  assumes "p + 3 \<le> cap"
  shows "\<exists>c. twcc_pad cap p = Some c \<and> length c \<le> 3 \<and> (p + length c) mod 4 = 0"
proof -
  have r: "p mod 4 = 0 \<or> p mod 4 = 1 \<or> p mod 4 = 2 \<or> p mod 4 = 3" by linarith
  have step: "twcc_pad cap q = (if q mod 4 = 0 then Some [] else if q \<ge> cap then None
      else do { rest \<leftarrow> twcc_pad cap (q + 1); Some (0 # rest) })" for q
    by (rule twcc_pad.simps)
  show ?thesis using r assms
    by (elim disjE; simp add: step [of p] step [of "Suc p"] step [of "Suc (Suc p)"] step [of "Suc (Suc (Suc p))"] mod_Suc)
qed

subsection \<open>Chunks decode to the statuses they encode\<close>

lemma status_3:
  assumes "s \<in> {STATUS_NOT_RECV, STATUS_SMALL_DELTA, STATUS_LARGE_DELTA}"
  shows "s AND 0x3 = s" "\<not> bit s n \<or> n < 2"
proof -
  show a: "s AND 0x3 = s" using assms by (auto simp: twcc_consts)
  then have "take_bit 2 s = s" unfolding and_masks .
  then show "\<not> bit s n \<or> n < 2" by (metis bit_take_bit_iff)
qed

lemma run_chunk_status:
  assumes s: "s \<in> {STATUS_NOT_RECV, STATUS_SMALL_DELTA, STATUS_LARGE_DELTA}" and run: "run < 8192"
  shows "chunk_status (run_chunk s run) = replicate run s"
proof -
  define w where "w = run_chunk s run"
  have r: "take_bit 13 (of_nat run :: u16) = of_nat run" using run by (intro take_bit_self) (simp add: unat_of_nat)
  have w: "w = push_bit 13 (ucast s) OR of_nat run"
    unfolding w_def run_chunk_def by (simp only: status_3(1) [OF s]) (simp only: and_masks r)
  have rb: "\<not> bit (of_nat run :: u16) n" if "13 \<le> n" for n using r that by (metis bit_take_bit_iff not_le)
  have "\<not> bit w 15" unfolding w using status_3(2) [OF s, of 2] rb by (simp add: bit_simps)
  then have msb: "w AND 0x8000 = 0" using and_exp_eq_0_iff_not_bit [of w 15] by simp
  have "take_bit 13 (push_bit 13 (ucast s) OR of_nat run) = take_bit 13 (of_nat run :: u16)"
    by (rule bit_word_eqI) (auto simp: bit_simps)
  then have low: "w AND 0x1FFF = of_nat run" unfolding w and_masks r .
  have high: "ucast (drop_bit 13 w AND 0x3) = s" unfolding w and_masks
  proof (rule bit_word_eqI)
    fix n :: nat assume "n < LENGTH(8)"
    then show "bit (ucast (take_bit 2 (drop_bit 13 (push_bit 13 (ucast s) OR (of_nat run :: u16)))) :: u8) n = bit s n"
      using status_3(2) [OF s, of n] rb [of "13 + n"] by (auto simp: bit_simps)
  qed
  have "unat (of_nat run :: u16) = run" using run by (simp add: unat_of_nat)
  then show ?thesis using msb low high unfolding w_def [symmetric] chunk_status_def by simp
qed

lemma vector_fold_bit:
  assumes "n \<le> 14"
  shows "bit (fold (\<lambda>k chunk. if ss ! k = STATUS_SMALL_DELTA then chunk OR push_bit (13 - k) 1 else chunk)
      [0..<n] (0x8000 :: u16)) b \<longleftrightarrow> b = 15 \<or> (\<exists>k < n. b = 13 - k \<and> ss ! k = STATUS_SMALL_DELTA)"
  using assms
proof (induction n)
  case 0
  have "(0x8000 :: u16) = 2 ^ 15" by simp
  then show ?case using bit_exp_iff [of 15 b, where 'a = "16 word"] by (auto simp: possible_bit_word)
next
  case (Suc n)
  have "bit (2 ^ (13 - n) :: u16) b \<longleftrightarrow> b = 13 - n" by (auto simp: bit_exp_iff possible_bit_word)
  then show ?case using Suc by (auto simp: bit_or_iff less_Suc_eq)
qed

lemma vector_chunk_status:
  assumes "length ss \<le> 14" "set ss \<subseteq> {STATUS_NOT_RECV, STATUS_SMALL_DELTA}"
  shows "take (length ss) (chunk_status (vector_chunk ss)) = ss" "length (chunk_status (vector_chunk ss)) = 14"
proof -
  define w where "w = vector_chunk ss"
  have b: "bit w m \<longleftrightarrow> m = 15 \<or> (\<exists>k < length ss. m = 13 - k \<and> ss ! k = STATUS_SMALL_DELTA)" for m
    unfolding w_def vector_chunk_def by (rule vector_fold_bit [OF assms(1)])
  have one: "drop_bit m w AND 1 \<noteq> 0 \<longleftrightarrow> bit w m" for m
    unfolding bit_iff_odd_drop_bit by (simp add: and_one_eq mod_2_eq_odd)
  have "w AND 0x8000 \<noteq> 0" using and_exp_eq_0_iff_not_bit [of w 15] b [of 15] by simp
  moreover have "\<not> bit w 14" unfolding b by auto
  then have "drop_bit 14 w AND 0x1 = 0" using one by blast
  ultimately have cs: "chunk_status w = map (\<lambda>k. if bit w (13 - k) then STATUS_SMALL_DELTA else STATUS_NOT_RECV) [0..<14]"
    unfolding chunk_status_def one by simp
  have "(if bit w (13 - k) then STATUS_SMALL_DELTA else STATUS_NOT_RECV) = ss ! k" if k: "k < length ss" for k
  proof -
    have "ss ! k \<in> {STATUS_NOT_RECV, STATUS_SMALL_DELTA}" using assms(2) k nth_mem by blast
    moreover have "bit w (13 - k) \<longleftrightarrow> ss ! k = STATUS_SMALL_DELTA"
    proof -
      have "13 - k = 13 - j \<longleftrightarrow> j = k" if "j < length ss" for j using that k assms(1) by auto
      then show ?thesis unfolding b using k by auto
    qed
    ultimately show ?thesis by auto
  qed
  then show "take (length ss) (chunk_status (vector_chunk ss)) = ss" unfolding w_def [symmetric] cs using assms(1)
    by (intro nth_equalityI) (auto simp: take_map)
  show "length (chunk_status (vector_chunk ss)) = 14" unfolding w_def [symmetric] cs by simp
qed

lemma twcc_parse_chunks_step:
  assumes "length st < n" "q + 2 \<le> length data" "rd16 data q = Some w"
  shows "twcc_parse_chunks data q st n = twcc_parse_chunks data (q + 2) (st @ take (n - length st) (chunk_status w)) n"
  by (subst twcc_parse_chunks.simps) (use assms in \<open>simp del: rd16_in\<close>)

lemma parse_chunks_roundtrip:
  assumes "twcc_chunks cap p ss = Some c" "set ss \<subseteq> {STATUS_NOT_RECV, STATUS_SMALL_DELTA}" "length ss < 8192"
    "n = length st + length ss" "length pre = q"
  shows "twcc_parse_chunks (pre @ c @ rest) q st n = Some (Inr (st @ ss, q + length c))"
  using assms
proof (induction cap p ss arbitrary: c st pre q rule: twcc_chunks.induct)
  case (1 cap p)
  then show ?case by (subst twcc_parse_chunks.simps) simp
next
  case (2 cap p s ss)
  have cap: "\<not> cap < p + 2" using "2.prems"(1) by (auto split: if_splits)
  define run where "run = run_from s 1 ss"
  have run: "1 \<le> run" "run \<le> length (s # ss)" using run_from_ge [of 1 s ss] run_from_le [of s 1 ss] by (simp_all add: run_def)
  have sub: "set (drop k (s # ss)) \<subseteq> {STATUS_NOT_RECV, STATUS_SMALL_DELTA}" for k
    using set_drop_subset [of k "s # ss"] "2.prems"(2) by blast
  have main: ?case if w: "c = write_u16 w @ c'" and k: "1 \<le> k" "k \<le> length (s # ss)"
    and cs: "take (length (s # ss)) (chunk_status w) = take k (s # ss)"
    and rec: "twcc_parse_chunks ((pre @ write_u16 w) @ c' @ rest) (q + 2) (st @ take k (s # ss)) n =
      Some (Inr ((st @ take k (s # ss)) @ drop k (s # ss), (q + 2) + length c'))" for w c' k
  proof -
    have rd: "rd16 (pre @ c @ rest) q = Some w" using rd16_at [OF "2.prems"(5), of w "c' @ rest"] w by simp
    have "twcc_parse_chunks (pre @ c @ rest) q st n =
        twcc_parse_chunks (pre @ c @ rest) (q + 2) (st @ take (n - length st) (chunk_status w)) n"
      by (rule twcc_parse_chunks_step [OF _ _ rd]) (use "2.prems"(4,5) w in simp_all)
    also have "\<dots> = twcc_parse_chunks ((pre @ write_u16 w) @ c' @ rest) (q + 2) (st @ take k (s # ss)) n"
      using cs "2.prems"(4) w by simp
    finally show ?thesis unfolding rec using w by simp
  qed
  show ?case
  proof (cases "run \<ge> 3 \<or> s = STATUS_LARGE_DELTA")
    case True
    obtain c' where c': "twcc_chunks cap (p + 2) (drop run (s # ss)) = Some c'"
      using "2.prems"(1) cap True by (auto simp: run_def Let_def bind_eq_Some_conv split: if_splits)
    have c: "c = write_u16 (run_chunk s run) @ c'" using twcc_chunks_run [OF cap run_def True c'] "2.prems"(1) by simp
    obtain m where m: "run = Suc m" using run(1) by (cases run) auto
    have "take m ss = replicate m s" using run_from_take [of s 1 ss] unfolding run_def [symmetric] m by simp
    then have "take run (s # ss) = replicate run s" using m by simp
    moreover have "chunk_status (run_chunk s run) = replicate run s"
      by (rule run_chunk_status) (use "2.prems"(2,3) run in auto)
    ultimately have cs: "take (length (s # ss)) (chunk_status (run_chunk s run)) = take run (s # ss)"
      using run by simp
    show ?thesis
      by (rule main [OF c run cs], rule "2.IH"(1) [OF cap run_def True c' sub])
        (use "2.prems"(3-5) run in auto)
  next
    case False
    define k where "k = min 14 (length (s # ss))"
    have k: "1 \<le> k" "k \<le> length (s # ss)" "k \<le> 14" by (simp_all add: k_def)
    obtain c' where c': "twcc_chunks cap (p + 2) (drop k (s # ss)) = Some c'"
      using "2.prems"(1) cap False by (auto simp: run_def k_def Let_def bind_eq_Some_conv split: if_splits)
    have c: "c = write_u16 (vector_chunk (take k (s # ss))) @ c'"
      using twcc_chunks_vector [OF cap run_def False k_def c'] "2.prems"(1) by simp
    have lk: "length (take k (s # ss)) = k" using k by simp
    have vs: "take k (chunk_status (vector_chunk (take k (s # ss)))) = take k (s # ss)"
      "length (chunk_status (vector_chunk (take k (s # ss)))) = 14"
      using vector_chunk_status [of "take k (s # ss)", unfolded lk, OF k(3)] set_take_subset [of k "s # ss"] "2.prems"(2) by blast+
    show ?thesis
    proof (rule main [OF c k(1,2)])
      show "take (length (s # ss)) (chunk_status (vector_chunk (take k (s # ss)))) = take k (s # ss)"
        using vs by (cases "length (s # ss) \<le> 14") (simp_all add: k_def)
      show "twcc_parse_chunks ((pre @ write_u16 (vector_chunk (take k (s # ss)))) @ c' @ rest) (q + 2) (st @ take k (s # ss)) n =
        Some (Inr ((st @ take k (s # ss)) @ drop k (s # ss), q + 2 + length c'))"
        by (rule "2.IH"(2) [OF cap run_def False k_def c' sub]) (use "2.prems"(3-5) k in auto)
    qed
  qed
qed

subsection \<open>Deltas decode to the times they encode\<close>

definition delta_ok :: "u8 \<times> int \<Rightarrow> bool" where
  "delta_ok x = (case x of (s, d) \<Rightarrow> s = STATUS_NOT_RECV \<or> s = STATUS_SMALL_DELTA \<and> -128 \<le> d \<and> d \<le> 127 \<or>
     s = STATUS_LARGE_DELTA \<and> -32768 \<le> d \<and> d \<le> 32767)"

fun items_of :: "(u8 \<times> int) list \<Rightarrow> u64 \<Rightarrow> u16 \<Rightarrow> twcc_item list" where
  "items_of [] cur seq = []"
| "items_of ((s, d) # sts) cur seq =
    (if s = STATUS_NOT_RECV then \<lparr>ti_seq = seq, ti_received = False, ti_recv_time_us = 0\<rparr> # items_of sts cur (seq + 1)
     else let cur = word_of_int (sint cur + d * RTC_TWCC_TICK_US)
       in \<lparr>ti_seq = seq, ti_received = True, ti_recv_time_us = cur\<rparr> # items_of sts cur (seq + 1))"

lemma twcc_status_ok: "x \<in> set (twcc_status es prev) \<Longrightarrow> delta_ok x"
  by (induction es prev rule: twcc_status.induct) (auto simp: delta_ok_def Let_def split: if_splits)

lemma sint_byte: "-128 \<le> d \<Longrightarrow> d \<le> 127 \<Longrightarrow> sint (word_of_int d :: u8) = d"
  by (simp add: signed_of_int signed_take_bit_int_eq_self)

lemma sint_half: "-32768 \<le> d \<Longrightarrow> d \<le> 32767 \<Longrightarrow> sint (word_of_int d :: u16) = d"
  by (simp add: signed_of_int signed_take_bit_int_eq_self)

lemma scast_byte: "-128 \<le> d \<Longrightarrow> d \<le> 127 \<Longrightarrow> (scast (word_of_int d :: u8) :: u64) = word_of_int d"
  by (metis sint_byte of_int_sint)

lemma scast_half: "-32768 \<le> d \<Longrightarrow> d \<le> 32767 \<Longrightarrow> (scast (word_of_int d :: u16) :: u64) = word_of_int d"
  by (metis sint_half of_int_sint)

lemma parse_deltas_roundtrip:
  assumes "twcc_deltas cap p sts = Some ds" "\<forall>x \<in> set sts. delta_ok x" "length pre = q"
  shows "twcc_parse_deltas (pre @ ds @ rest) q cur seq (map fst sts) = Some (Inr (items_of sts cur seq))"
  using assms
proof (induction cap p sts arbitrary: ds pre q cur seq rule: twcc_deltas.induct)
  case (2 cap p s d sts)
  have ok: "\<forall>x \<in> set sts. delta_ok x" and hd: "delta_ok (s, d)" using "2.prems"(2) by simp_all
  consider "s = STATUS_SMALL_DELTA" "-128 \<le> d" "d \<le> 127" | "s = STATUS_LARGE_DELTA" "-32768 \<le> d" "d \<le> 32767"
    | "s = STATUS_NOT_RECV" using hd by (auto simp: delta_ok_def)
  then show ?case
  proof cases
    case 1
    then obtain ds' where ds': "twcc_deltas cap (p + 1) sts = Some ds'" "ds = word_of_int d # ds'" "\<not> p + 1 > cap"
      using "2.prems"(1) by (auto simp: bind_eq_Some_conv split: if_splits)
    have rd: "rd8 (pre @ ds @ rest) q = Some (word_of_int d)" using rd8_at [OF "2.prems"(3)] ds'(2) by simp
    let ?cur = "word_of_int (sint cur + d * RTC_TWCC_TICK_US) :: u64"
    have "twcc_parse_deltas ((pre @ [word_of_int d]) @ ds' @ rest) (q + 1) ?cur (seq + 1) (map fst sts) =
        Some (Inr (items_of sts ?cur (seq + 1)))"
      by (rule "2.IH"(1) [OF 1(1) ds'(3,1) ok]) (use "2.prems"(3) in simp)
    then show ?thesis using 1 rd ds'(2) "2.prems"(3) scast_byte [OF 1(2,3)] by (simp add: Let_def twcc_consts del: rd8_in)
  next
    case 2
    then have ns: "s \<noteq> STATUS_SMALL_DELTA" by (simp add: twcc_consts)
    obtain ds' where ds': "twcc_deltas cap (p + 2) sts = Some ds'" "ds = write_u16 (word_of_int d) @ ds'" "\<not> p + 2 > cap"
      using "2.prems"(1) 2(1) ns by (auto simp: bind_eq_Some_conv split: if_splits)
    have rd: "rd16 (pre @ ds @ rest) q = Some (word_of_int d)" using rd16_at [OF "2.prems"(3)] ds'(2) by simp
    let ?cur = "word_of_int (sint cur + d * RTC_TWCC_TICK_US) :: u64"
    have "twcc_parse_deltas ((pre @ write_u16 (word_of_int d)) @ ds' @ rest) (q + 2) ?cur (seq + 1) (map fst sts) =
        Some (Inr (items_of sts ?cur (seq + 1)))"
      by (rule "2.IH"(2) [OF ns 2(1) ds'(3,1) ok]) (use "2.prems"(3) in simp)
    then show ?thesis using 2 rd ds'(2) "2.prems"(3) scast_half [OF 2(2,3)] by (simp add: Let_def twcc_consts del: rd16_in)
  next
    case 3
    then have n: "s \<noteq> STATUS_SMALL_DELTA" "s \<noteq> STATUS_LARGE_DELTA" by (simp_all add: twcc_consts)
    then have "twcc_deltas cap p sts = Some ds" using "2.prems"(1) by simp
    from "2.IH"(3) [OF n this ok "2.prems"(3)] show ?thesis using 3 by simp
  qed
qed simp

text \<open>The quantised time lies between the running time and the arrival, within a tick of it.\<close>

lemma tick_step:
  fixes prev recv :: int
  defines "t \<equiv> prev + ((recv - prev) sdiv 250) * 250"
  shows "\<bar>t - recv\<bar> < 250" "min prev recv \<le> t" "t \<le> max prev recv"
proof -
  have d: "(recv - prev) sdiv 250 = (if prev \<le> recv then (recv - prev) div 250 else - ((prev - recv) div 250))"
    by (auto simp: signed_divide_int_def sgn_if)
  have b: "x div 250 * 250 \<le> x" "x < x div 250 * 250 + 250" for x :: int
    using pos_mod_bound [of 250 x] pos_mod_sign [of 250 x] div_mult_mod_eq [of x 250] by simp_all
  have "\<bar>t - recv\<bar> < 250 \<and> min prev recv \<le> t \<and> t \<le> max prev recv"
  proof (cases "prev \<le> recv")
    case True
    then have "0 \<le> (recv - prev) div 250 * 250" by (simp add: pos_imp_zdiv_nonneg_iff)
    then show ?thesis using True b [of "recv - prev"] unfolding t_def d by (simp add: min_def max_def)
  next
    case False
    then have "0 \<le> (prev - recv) div 250 * 250" by (simp add: pos_imp_zdiv_nonneg_iff)
    then show ?thesis using False b [of "prev - recv"] unfolding t_def d by (simp add: min_def max_def)
  qed
  then show "\<bar>t - recv\<bar> < 250" "min prev recv \<le> t" "t \<le> max prev recv" by simp_all
qed

lemma sint_small: "unat (w :: u64) < 2 ^ 62 \<Longrightarrow> sint w = int (unat w)"
  using sint_unat [of w] by simp

lemma sint_of_small: "0 \<le> k \<Longrightarrow> k < 2 ^ 62 \<Longrightarrow> sint (word_of_int k :: u64) = k \<and> int (unat (word_of_int k :: u64)) = k"
  by (simp add: signed_of_int signed_take_bit_int_eq_self unsigned_of_int take_bit_int_eq_self)

lemma items_length: "length (items_of sts cur seq) = length sts"
  by (induction sts cur seq rule: items_of.induct) (simp_all add: Let_def)

lemma twcc_status_length: "length (twcc_status es prev) = length es"
  by (induction es prev rule: twcc_status.induct) (simp_all add: Let_def)

text \<open>The quantised delta of one arrival and the running time after it.\<close>

definition ticks :: "u64 \<Rightarrow> u64 \<Rightarrow> int" where
  "ticks prev recv = (sint recv - sint prev) sdiv RTC_TWCC_TICK_US"

definition tick_time :: "u64 \<Rightarrow> u64 \<Rightarrow> u64" where
  "tick_time prev recv = word_of_int (sint prev + ticks prev recv * RTC_TWCC_TICK_US)"

lemma twcc_status_recv:
  "re_received e \<Longrightarrow> twcc_status (e # es) prev =
    (let d = ticks prev (re_recv_time_us e); cur = tick_time prev (re_recv_time_us e)
     in if d \<ge> -128 \<and> d \<le> 127 then (STATUS_SMALL_DELTA, d) # twcc_status es cur
        else if d \<ge> -32768 \<and> d \<le> 32767 then (STATUS_LARGE_DELTA, d) # twcc_status es cur
        else (STATUS_NOT_RECV, 0) # twcc_status es prev)"
  by (simp only: twcc_status.simps Let_def ticks_def tick_time_def not_True_eq_False if_False)

lemma tick_time_near:
  assumes "unat prev < 2 ^ 62" "unat recv < 2 ^ 62"
  shows "\<bar>int (unat (tick_time prev recv)) - int (unat recv)\<bar> < 250" "unat (tick_time prev recv) < 2 ^ 62"
proof -
  define p where "p = int (unat prev)"
  define q where "q = int (unat recv)"
  have pq: "0 \<le> p" "p < 2 ^ 62" "0 \<le> q" "q < 2 ^ 62" "sint prev = p" "sint recv = q"
    using assms sint_small [OF assms(1)] sint_small [OF assms(2)] of_nat_less_iff [of "unat prev" "2 ^ 62", where 'a = int]
      of_nat_less_iff [of "unat recv" "2 ^ 62", where 'a = int]
    by (simp_all only: p_def q_def of_nat_power of_nat_numeral of_nat_0_le_iff)
  have b: "\<bar>(sint prev + ticks prev recv * 250) - int (unat recv)\<bar> < 250"
    "0 \<le> sint prev + ticks prev recv * 250" "sint prev + ticks prev recv * 250 < 2 ^ 62"
    using tick_step [of p q] pq(1-4) unfolding ticks_def RTC_TWCC_TICK_US_def pq(5,6) q_def [symmetric]
    by linarith+
  have "int (unat (tick_time prev recv)) = sint prev + ticks prev recv * 250"
    using sint_of_small [OF b(2,3)] unfolding tick_time_def RTC_TWCC_TICK_US_def by blast
  then show "\<bar>int (unat (tick_time prev recv)) - int (unat recv)\<bar> < 250" "unat (tick_time prev recv) < 2 ^ 62"
    using b of_nat_less_iff [of "unat (tick_time prev recv)" "2 ^ 62", where 'a = int]
    by (simp_all only: of_nat_power of_nat_numeral)
qed

lemma items_accurate:
  assumes "\<forall>e \<in> set es. re_received e \<longrightarrow> unat (re_recv_time_us e) < 2 ^ 62" "unat prev < 2 ^ 62"
    "\<forall>i < length es. re_received (es ! i) \<longrightarrow> fst (twcc_status es prev ! i) \<noteq> STATUS_NOT_RECV" "i < length es"
  shows "(let it = items_of (twcc_status es prev) prev seq ! i; e = es ! i
     in ti_seq it = seq + of_nat i \<and> ti_received it = re_received e \<and>
        (re_received e \<longrightarrow> \<bar>int (unat (ti_recv_time_us it)) - int (unat (re_recv_time_us e))\<bar> < 250))"
  using assms
proof (induction es arbitrary: prev seq i)
  case (Cons e es)
  have times: "\<forall>x \<in> set es. re_received x \<longrightarrow> unat (re_recv_time_us x) < 2 ^ 62" using Cons.prems(1) by simp
  show ?case
  proof (cases "re_received e")
    case False
    then have st: "twcc_status (e # es) prev = (STATUS_NOT_RECV, 0) # twcc_status es prev" by simp
    have rest: "\<forall>j < length es. re_received (es ! j) \<longrightarrow> fst (twcc_status es prev ! j) \<noteq> STATUS_NOT_RECV"
      using Cons.prems(3) unfolding st by fastforce
    show ?thesis
    proof (cases i)
      case 0
      show ?thesis using 0 False unfolding st by simp
    next
      case (Suc j)
      then show ?thesis using Cons.IH [OF times Cons.prems(2) rest, of j "seq + 1"] Cons.prems(4) False
        unfolding st by (simp add: Let_def add.assoc add.commute)
    qed
  next
    case True
    define d where "d = ticks prev (re_recv_time_us e)"
    define cur where "cur = tick_time prev (re_recv_time_us e)"
    have nr: "fst (twcc_status (e # es) prev ! 0) \<noteq> STATUS_NOT_RECV" using Cons.prems(3) True by fastforce
    obtain s where s: "s \<noteq> STATUS_NOT_RECV" and st: "twcc_status (e # es) prev = (s, d) # twcc_status es cur"
      using nr unfolding twcc_status_recv [OF True] Let_def d_def [symmetric] cur_def [symmetric] by (auto split: if_splits)
    have e: "unat (re_recv_time_us e) < 2 ^ 62" using Cons.prems(1) True by simp
    have cur: "\<bar>int (unat cur) - int (unat (re_recv_time_us e))\<bar> < 250" "unat cur < 2 ^ 62"
      using tick_time_near [OF Cons.prems(2) e] by (simp_all only: cur_def)
    have rest: "\<forall>j < length es. re_received (es ! j) \<longrightarrow> fst (twcc_status es cur ! j) \<noteq> STATUS_NOT_RECV"
      using Cons.prems(3) unfolding st by fastforce
    have it: "items_of (twcc_status (e # es) prev) prev seq =
        \<lparr>ti_seq = seq, ti_received = True, ti_recv_time_us = cur\<rparr> # items_of (twcc_status es cur) cur (seq + 1)"
      unfolding st cur_def d_def tick_time_def using s by (simp add: Let_def)
    show ?thesis
    proof (cases i)
      case 0
      show ?thesis using 0 True cur(1) unfolding it by simp
    next
      case (Suc j)
      then show ?thesis using Cons.IH [OF times cur(2) rest, of j "seq + 1"] Cons.prems(4)
        unfolding it by (simp add: Let_def add.assoc add.commute)
    qed
  qed
qed simp

subsection \<open>The window is the first arrival of each sequence number\<close>

definition twcc_window :: "(u16 \<times> u64) list \<Rightarrow> u8 \<Rightarrow> rtc_twcc_receiver" where
  "twcc_window pkts n = foldl (\<lambda>r (s, t). rtc_twcc_receiver_on_packet r s t) (rtc_twcc_receiver_init\<lparr>rw_fb_pkt_count := n\<rparr>) pkts"

lemma twcc_window_snoc: "twcc_window (pkts @ [(s, t)]) n = rtc_twcc_receiver_on_packet (twcc_window pkts n) s t"
  by (simp add: twcc_window_def)

lemma twcc_window_inv: "twcc_inv (twcc_window pkts n)"
proof (induction pkts rule: rev_induct)
  case (snoc x pkts)
  then show ?case by (cases x) (simp add: twcc_window_snoc twcc_inv_on_packet)
qed (simp add: twcc_window_def twcc_inv_init)

lemma seq_after_add: "i < 256 \<Longrightarrow> seq_after a (a + of_nat i) = int i"
  by (simp add: seq_after_def signed_of_nat signed_take_bit_int_eq_self)

lemma on_packet_base: "rw_have_base (rtc_twcc_receiver_on_packet r s t)"
  "rw_fb_pkt_count (rtc_twcc_receiver_on_packet r s t) = rw_fb_pkt_count r"
  "rw_base_seq (rtc_twcc_receiver_on_packet r s t) = (if rw_have_base r then rw_base_seq r else s)"
  by (simp_all add: rtc_twcc_receiver_on_packet_def Let_def)

lemma twcc_window_base:
  "rw_have_base (twcc_window pkts n) = (pkts \<noteq> []) \<and> rw_fb_pkt_count (twcc_window pkts n) = n \<and>
   (pkts \<noteq> [] \<longrightarrow> rw_base_seq (twcc_window pkts n) = fst (hd pkts))"
proof (induction pkts rule: rev_induct)
  case (snoc x pkts)
  obtain s t where x: "x = (s, t)" by (cases x)
  show ?case unfolding x twcc_window_snoc on_packet_base using snoc by (auto simp: hd_append on_packet_base(1))
qed (simp add: twcc_window_def rtc_twcc_receiver_init_def)

lemma on_packet_window:
  assumes "twcc_inv r" "i < 256" "rw_have_base r"
  shows "rw_window (rtc_twcc_receiver_on_packet r s t) ! i =
    (if s = rw_base_seq r + of_nat i \<and> \<not> re_received (rw_window r ! i)
     then \<lparr>re_seq = s, re_recv_time_us = t, re_received = True\<rparr> else rw_window r ! i)"
proof (cases "0 \<le> seq_after (rw_base_seq r) s \<and> seq_after (rw_base_seq r) s < 256")
  case True
  define d where "d = nat (seq_after (rw_base_seq r) s)"
  have d: "s = rw_base_seq r + of_nat d" "d < 256" "seq_after (rw_base_seq r) s = int d"
    using seq_after_nonneg [of "rw_base_seq r" s] True unfolding d_def by (simp, linarith, simp)
  have iff: "(s = rw_base_seq r + of_nat i) = (d = i)"
  proof
    assume "s = rw_base_seq r + of_nat i"
    then show "d = i" using d(3) seq_after_add [OF assms(2), of "rw_base_seq r"] by simp
  qed (use d(1) in simp)
  have len: "length (rw_window r) = 256" using assms(1) by (simp add: twcc_inv_def twcc_consts)
  show ?thesis unfolding iff using assms(2,3) d(2,3) len
    by (auto simp: rtc_twcc_receiver_on_packet_def Let_def twcc_consts nth_list_update)
next
  case False
  then have "s \<noteq> rw_base_seq r + of_nat i" using seq_after_add [OF assms(2), of "rw_base_seq r"] assms(2) by auto
  moreover have "rtc_twcc_receiver_on_packet r s t = r" using False assms(3)
    by (auto simp: rtc_twcc_receiver_on_packet_def Let_def twcc_consts)
  ultimately show ?thesis by simp
qed

lemma twcc_window_first:
  assumes "pkts \<noteq> []" "i < 256"
  shows "map_of pkts (fst (hd pkts) + of_nat i) = (let e = rw_window (twcc_window pkts n) ! i
    in if re_received e then Some (re_recv_time_us e) else None)"
  using assms(1) unfolding Let_def
proof (induction pkts rule: rev_induct)
  case (snoc x pkts)
  obtain s t where x: "x = (s, t)" by (cases x)
  show ?case
  proof (cases "pkts = []")
    case True
    have "of_nat i = (0 :: u16) \<longleftrightarrow> i = 0" using assms(2) by (auto simp: word_of_nat_eq_0_iff dest: dvd_imp_le)
    then show ?thesis using True x assms(2)
      by (auto simp: twcc_window_def rtc_twcc_receiver_on_packet_def Let_def rtc_twcc_receiver_init_def twcc_consts nth_list_update)
  next
    case False
    let ?r = "twcc_window pkts n"
    have base: "rw_have_base ?r" "rw_base_seq ?r = fst (hd pkts)" using twcc_window_base [of pkts n] False by simp_all
    have w: "rw_window (twcc_window (pkts @ [x]) n) ! i =
        (if s = fst (hd pkts) + of_nat i \<and> \<not> re_received (rw_window ?r ! i)
         then \<lparr>re_seq = s, re_recv_time_us = t, re_received = True\<rparr> else rw_window ?r ! i)"
      unfolding x twcc_window_snoc on_packet_window [OF twcc_window_inv assms(2) base(1)] base(2) by (rule refl)
    have "map_of (pkts @ [x]) k = (case map_of pkts k of None \<Rightarrow> if k = s then Some t else None | Some v \<Rightarrow> Some v)" for k
      by (simp add: x map_add_def split: option.split)
    then show ?thesis unfolding w using snoc.IH [OF False] False by auto
  qed
qed simp

text \<open>Arrivals less than 31 milliseconds apart all fit the one-byte delta.\<close>

definition near :: "u64 \<Rightarrow> u64 \<Rightarrow> bool" where
  "near a b \<longleftrightarrow> \<bar>int (unat a) - int (unat b)\<bar> \<le> 31000"

lemma ticks_small:
  assumes "unat prev < 2 ^ 62" "unat recv < 2 ^ 62" "\<bar>int (unat prev) - int (unat recv)\<bar> < 250 * k"
  shows "\<bar>ticks prev recv\<bar> < k"
proof -
  have "\<bar>ticks prev recv\<bar> = \<bar>int (unat recv) - int (unat prev)\<bar> div 250"
    unfolding ticks_def RTC_TWCC_TICK_US_def sint_small [OF assms(1)] sint_small [OF assms(2)]
    by (auto simp: signed_divide_int_def sgn_if abs_if pos_imp_zdiv_neg_iff)
  then show ?thesis using assms(3) by linarith
qed

lemma status_near:
  assumes "\<forall>e \<in> set es. re_received e \<longrightarrow> unat (re_recv_time_us e) < 2 ^ 62" "unat prev < 2 ^ 62"
    "\<bar>int (unat prev) - int (unat a)\<bar> < 250" "successively near (a # map re_recv_time_us (filter re_received es))"
  shows "map fst (twcc_status es prev) = map (\<lambda>e. if re_received e then STATUS_SMALL_DELTA else STATUS_NOT_RECV) es"
  using assms
proof (induction es arbitrary: prev a)
  case (Cons e es)
  have times: "\<forall>x \<in> set es. re_received x \<longrightarrow> unat (re_recv_time_us x) < 2 ^ 62" using Cons.prems(1) by simp
  show ?case
  proof (cases "re_received e")
    case False
    then show ?thesis using Cons.IH [OF times Cons.prems(2,3)] Cons.prems(4) by simp
  next
    case True
    let ?t = "re_recv_time_us e"
    have t: "unat ?t < 2 ^ 62" and n: "near a ?t" and rest: "successively near (?t # map re_recv_time_us (filter re_received es))"
      using Cons.prems(1,4) True by simp_all
    have "\<bar>int (unat prev) - int (unat ?t)\<bar> < 250 * 127" using Cons.prems(3) n unfolding near_def by linarith
    then have "\<bar>ticks prev ?t\<bar> < 127" by (rule ticks_small [OF Cons.prems(2) t])
    then have st: "twcc_status (e # es) prev = (STATUS_SMALL_DELTA, ticks prev ?t) # twcc_status es (tick_time prev ?t)"
      unfolding twcc_status_recv [OF True] Let_def by (intro if_P conjI) linarith+
    show ?thesis unfolding st using True Cons.IH [OF times tick_time_near(2,1) [OF Cons.prems(2) t] rest] by simp
  qed
qed simp

subsection \<open>The whole message\<close>

lemma rd24_at: "length xs = n \<Longrightarrow> rd24 (xs @ write_u24 v @ ys) n = Some (take_bit 24 v)"
  by (auto simp: rd24_def write_u24_def nth_append)

lemma parse_chunks_head:
  assumes "twcc_chunks cap p (s # ss) = Some c" "s \<in> {STATUS_NOT_RECV, STATUS_SMALL_DELTA, STATUS_LARGE_DELTA}"
    "set ss \<subseteq> {STATUS_NOT_RECV, STATUS_SMALL_DELTA}" "length (s # ss) < 8192" "length pre = q"
  shows "twcc_parse_chunks (pre @ c @ rest) q [] (length (s # ss)) = Some (Inr (s # ss, q + length c))"
proof (cases "s = STATUS_LARGE_DELTA")
  case True
  have cap: "\<not> cap < p + 2" using assms(1) by (auto split: if_splits)
  have run: "1 = run_from s 1 ss" using assms(3) True by (cases ss) (auto simp: twcc_consts)
  obtain c' where c': "twcc_chunks cap (p + 2) ss = Some c'"
    using assms(1) cap True run by (auto simp: Let_def bind_eq_Some_conv split: if_splits)
  have c: "c = write_u16 (run_chunk s 1) @ c'" using twcc_chunks_run [OF cap run] True c' assms(1) by simp
  have cs: "chunk_status (run_chunk s 1) = [s]" using run_chunk_status [OF assms(2), of 1] by simp
  have rd: "rd16 (pre @ c @ rest) q = Some (run_chunk s 1)" using rd16_at [OF assms(5)] c by simp
  have "twcc_parse_chunks (pre @ c @ rest) q [] (length (s # ss)) = twcc_parse_chunks (pre @ c @ rest) (q + 2) [s] (length (s # ss))"
    using twcc_parse_chunks_step [OF _ _ rd, of "[]" "length (s # ss)"] cs c assms(5) by simp
  also have "\<dots> = twcc_parse_chunks ((pre @ write_u16 (run_chunk s 1)) @ c' @ rest) (q + 2) [s] (length (s # ss))"
    using c by simp
  also have "\<dots> = Some (Inr ([s] @ ss, q + 2 + length c'))"
    by (rule parse_chunks_roundtrip [OF c' assms(3)]) (use assms(4,5) in simp_all)
  finally show ?thesis using c by simp
next
  case False
  then have "set (s # ss) \<subseteq> {STATUS_NOT_RECV, STATUS_SMALL_DELTA}" using assms(2,3) by auto
  then show ?thesis using parse_chunks_roundtrip [OF assms(1) _ assms(4), of "length (s # ss)" "[]" pre q] assms(5) by simp
qed

definition ref_base :: "u64 \<Rightarrow> u64" where
  "ref_base t = ucast (ucast ((t div 64000) AND 0x00FFFFFF) :: u32) * 64000"

text \<open>The twenty fixed bytes, and how the parser reads them.\<close>

definition fb_head :: "u16 \<Rightarrow> u32 \<Rightarrow> u32 \<Rightarrow> u16 \<Rightarrow> nat \<Rightarrow> u32 \<Rightarrow> u8 \<Rightarrow> bytes" where
  "fb_head lenw ssrc media base count ref fb = [0x80 OR 15, RTCP_PT_RTPFB] @ write_u16 lenw @ write_u32 ssrc @
    write_u32 media @ write_u16 base @ write_u16 (of_nat count) @ write_u24 ref @ [fb]"

lemma fb_head_reads:
  assumes "take_bit 24 ref = ref" "pkt = fb_head lenw ssrc media base count ref fb @ t"
  shows "rd8 pkt 0 = Some (0x80 OR 15)" "rd32 pkt 4 = Some ssrc" "rd32 pkt 8 = Some media"
    "rd16 pkt 12 = Some base" "rd16 pkt 14 = Some (of_nat count)" "rd24 pkt 16 = Some ref" "rd8 pkt 19 = Some fb"
proof -
  define a where "a = [0x80 OR 15, RTCP_PT_RTPFB] @ write_u16 lenw"
  have la: "length a = 4" by (simp add: a_def)
  have pa: "pkt = a @ write_u32 ssrc @ write_u32 media @ write_u16 base @ write_u16 (of_nat count) @ write_u24 ref @ fb # t"
    by (simp add: assms(2) fb_head_def a_def)
  show "rd8 pkt 0 = Some (0x80 OR 15)" unfolding pa a_def by (simp add: rd8_def)
  show "rd32 pkt 4 = Some ssrc" unfolding pa by (rule rd32_at [OF la])
  show "rd32 pkt 8 = Some media" unfolding pa using rd32_at [of "a @ write_u32 ssrc" 8] la by simp
  show "rd16 pkt 12 = Some base" unfolding pa using rd16_at [of "a @ write_u32 ssrc @ write_u32 media" 12] la by simp
  show "rd16 pkt 14 = Some (of_nat count)" unfolding pa
    using rd16_at [of "a @ write_u32 ssrc @ write_u32 media @ write_u16 base" 14] la by simp
  show "rd24 pkt 16 = Some ref" unfolding pa using rd24_at [of "a @ write_u32 ssrc @ write_u32 media @
    write_u16 base @ write_u16 (of_nat count)" 16 ref] la assms(1) by simp
  show "rd8 pkt 19 = Some fb" unfolding pa using rd8_at [of "a @ write_u32 ssrc @ write_u32 media @
    write_u16 base @ write_u16 (of_nat count) @ write_u24 ref" 19] la by simp
qed

lemma fb_head_parse:
  assumes ref: "take_bit 24 ref = ref" and count: "0 < count" "count \<le> 256"
    and pkt: "pkt = fb_head lenw ssrc media base count ref fb @ t" and tb: "ucast ref * 64000 = tb"
    and chunks: "twcc_parse_chunks pkt 20 [] count = Some (Inr (st, q))"
    and deltas: "twcc_parse_deltas pkt q tb base st = Some (Inr items)"
  shows "rtc_rtcp_parse_twcc pkt = Some (Inr \<lparr>tf_sender_ssrc = ssrc, tf_media_ssrc = media, tf_base_seq = base,
    tf_fb_pkt_count = fb, tf_reference_time_us = tb, tf_items = items\<rparr>)"
proof -
  have un: "unat (of_nat count :: u16) = count" using count by (simp add: unat_of_nat)
  have g: "(length pkt < 20) = False" "(drop_bit 6 (0x80 OR 15 :: u8) AND 0x3 \<noteq> 2) = False"
    "((of_nat count :: u16) = 0 \<or> count > RTC_TWCC_PARSE_MAX) = False"
    using pkt un count by (simp add: fb_head_def, simp, metis RTC_TWCC_PARSE_MAX_def less_irrefl not_le unat_0)
  show ?thesis unfolding rtc_rtcp_parse_twcc_def fb_head_reads [OF ref pkt]
      g(1,2) if_False bind.bind_lunit Let_def un g(3) tb chunks sum.case prod.case deltas ..
qed

lemma feedback_parses:
  assumes inv: "twcc_inv r" and base: "rw_have_base r" and cap: "1047 \<le> cap"
    and sts: "twcc_status (take (rw_count r) (rw_window r)) (ref_base (re_recv_time_us (rw_window r ! 0))) = (s0, d0) # sts"
    and st: "set (map fst sts) \<subseteq> {STATUS_NOT_RECV, STATUS_SMALL_DELTA}"
  shows "\<exists>pkt. rtc_twcc_receiver_build_feedback r ssrc media cap =
      (Inr pkt, rtc_twcc_receiver_init\<lparr>rw_fb_pkt_count := rw_fb_pkt_count r + 1\<rparr>) \<and>
    length pkt \<le> 1047 \<and> length pkt mod 4 = 0 \<and>
    rtc_rtcp_parse_twcc pkt = Some (Inr \<lparr>tf_sender_ssrc = ssrc, tf_media_ssrc = media, tf_base_seq = rw_base_seq r,
      tf_fb_pkt_count = rw_fb_pkt_count r, tf_reference_time_us = ref_base (re_recv_time_us (rw_window r ! 0)),
      tf_items = items_of ((s0, d0) # sts) (ref_base (re_recv_time_us (rw_window r ! 0))) (rw_base_seq r)\<rparr>)"
proof -
  define es where "es = take (rw_count r) (rw_window r)"
  define ref where "ref = (ucast ((re_recv_time_us (rw_window r ! 0) div 64000) AND 0x00FFFFFF) :: u32)"
  define tb where "tb = ref_base (re_recv_time_us (rw_window r ! 0))"
  have cnt: "0 < rw_count r" "rw_count r \<le> 256" "length es = rw_count r" "re_received (rw_window r ! 0)"
    using inv base by (auto simp: twcc_inv_def twcc_consts es_def)
  have first: "first_recv es 0 = Some 0" using cnt by (cases "rw_window r"; cases "rw_count r") (auto simp: es_def)
  have all: "\<forall>x \<in> set ((s0, d0) # sts). delta_ok x" using twcc_status_ok sts by metis
  have len: "length ((s0, d0) # sts) = rw_count r" using twcc_status_length sts cnt(3) unfolding es_def by metis
  have two: "2 * length ((s0, d0) # sts) \<le> 512" "2 * length (map fst ((s0, d0) # sts)) \<le> 512" using len cnt(2) by simp_all
  have "\<exists>c. twcc_chunks cap 20 (map fst ((s0, d0) # sts)) = Some c \<and> length c \<le> 2 * length (map fst ((s0, d0) # sts))"
    by (rule twcc_chunks_fit) (use two cap in linarith)
  then obtain c where c: "twcc_chunks cap 20 (map fst ((s0, d0) # sts)) = Some c" "length c \<le> 512" using two by (elim exE conjE) (rule that, assumption, erule order_trans, assumption)
  have "\<exists>d. twcc_deltas cap (20 + length c) ((s0, d0) # sts) = Some d \<and> length d \<le> 2 * length ((s0, d0) # sts)"
    by (rule twcc_deltas_fit) (use two c(2) cap in linarith)
  then obtain d where d: "twcc_deltas cap (20 + length c) ((s0, d0) # sts) = Some d" "length d \<le> 512" using two by (elim exE conjE) (rule that, assumption, erule order_trans, assumption)
  have fit: "20 + length c + length d + 3 \<le> cap" using c(2) d(2) cap by linarith
  obtain z where z: "twcc_pad cap (20 + length c + length d) = Some z" "length z \<le> 3" "(20 + length c + length d + length z) mod 4 = 0"
    using twcc_pad_fit [OF fit] by (elim exE conjE) (rule that)
  define lenw where "lenw = (of_nat ((20 + length c + length d + length z) div 4 - 1) :: u16)"
  define hd where "hd = fb_head lenw ssrc media (rw_base_seq r) (rw_count r) ref (rw_fb_pkt_count r)"
  define pkt where "pkt = hd @ c @ d @ z"
  have g: "(\<not> rw_have_base r \<or> rw_count r = 0) = False" "(cap < 32) = False" using base cnt(1) cap by simp_all
  have tb: "ucast ref * 64000 = tb" unfolding ref_def tb_def ref_base_def ..
  have build: "rtc_twcc_receiver_build_feedback r ssrc media cap =
      (Inr pkt, rtc_twcc_receiver_init\<lparr>rw_fb_pkt_count := rw_fb_pkt_count r + 1\<rparr>)"
    unfolding rtc_twcc_receiver_build_feedback_def g if_False es_def [symmetric] Let_def first option.case
      ref_def [symmetric] tb sts [folded es_def tb_def] c(1) d(1) z(1) lenw_def [symmetric] pkt_def hd_def fb_head_def append_assoc ..
  have hl: "length hd = 20" by (simp add: hd_def fb_head_def)
  have len_pkt: "length pkt = 20 + length c + length d + length z" using hl by (simp add: pkt_def)
  have ref: "take_bit 24 ref = ref" unfolding ref_def and_masks by (rule bit_word_eqI) (auto simp: bit_simps)
  have s0: "s0 \<in> {STATUS_NOT_RECV, STATUS_SMALL_DELTA, STATUS_LARGE_DELTA}" using all by (auto simp: delta_ok_def)
  have "twcc_parse_chunks pkt 20 [] (rw_count r) = Some (Inr (map fst ((s0, d0) # sts), 20 + length c))"
    using parse_chunks_head [of cap 20 s0 "map fst sts" c hd 20 "d @ z"] c(1) s0 st len cnt(2) hl by (simp add: pkt_def)
  moreover have "twcc_parse_deltas pkt (20 + length c) tb (rw_base_seq r) (map fst ((s0, d0) # sts)) =
      Some (Inr (items_of ((s0, d0) # sts) tb (rw_base_seq r)))"
    using parse_deltas_roundtrip [OF d(1) all, of "hd @ c" "20 + length c" z tb "rw_base_seq r"] hl by (simp add: pkt_def)
  ultimately have "rtc_rtcp_parse_twcc pkt = Some (Inr \<lparr>tf_sender_ssrc = ssrc, tf_media_ssrc = media, tf_base_seq = rw_base_seq r,
      tf_fb_pkt_count = rw_fb_pkt_count r, tf_reference_time_us = tb,
      tf_items = items_of ((s0, d0) # sts) tb (rw_base_seq r)\<rparr>)"
    by (rule fb_head_parse [OF ref cnt(1,2) pkt_def [unfolded hd_def] tb])
  then show ?thesis using build len_pkt c(2) d(2) z(2,3) unfolding tb_def by (intro exI [of _ pkt] conjI) simp_all
qed

text \<open>The arrivals of a run of packets, in sequence order from the first packet on.\<close>

definition seq_arrivals :: "(u16 \<times> u64) list \<Rightarrow> u64 list" where
  "seq_arrivals pkts = List.map_filter (\<lambda>i. map_of pkts (fst (hd pkts) + of_nat i)) [0..<256]"

lemma map_filter_nth:
  assumes "\<forall>i < length w. f i = (if P (w ! i) then Some (g (w ! i)) else None)"
  shows "List.map_filter f [0..<length w] = map g (filter P w)"
proof -
  have "List.map_filter f is = map g (filter P (map (nth w) is))" if "set is \<subseteq> {0..<length w}" for "is"
    using that assms by (induction "is") (auto simp: List.map_filter_simps)
  then show ?thesis using map_nth [of w] by simp
qed

lemma seq_arrivals_window:
  assumes "pkts \<noteq> []" "r = twcc_window pkts n"
  shows "seq_arrivals pkts = map re_recv_time_us (filter re_received (take (rw_count r) (rw_window r)))"
proof -
  let ?w = "rw_window r"
  have inv: "twcc_inv r" unfolding assms(2) by (rule twcc_window_inv)
  then have len: "length ?w = 256" by (simp add: twcc_inv_def twcc_consts)
  have late: "\<not> re_received (?w ! i)" if "rw_count r \<le> i" "i < 256" for i
    using inv that by (auto simp: twcc_inv_def twcc_consts)
  have "\<not> re_received x" if "x \<in> set (drop (rw_count r) ?w)" for x
    using that late len by (auto simp: in_set_conv_nth)
  then have "filter re_received ?w = filter re_received (take (rw_count r) ?w)"
    by (metis (no_types, lifting) append_Nil2 append_take_drop_id filter_append filter_empty_conv)
  moreover have "seq_arrivals pkts = map re_recv_time_us (filter re_received ?w)" unfolding seq_arrivals_def
    using map_filter_nth [of ?w "\<lambda>i. map_of pkts (fst (hd pkts) + of_nat i)" re_received re_recv_time_us]
      twcc_window_first [OF assms(1), of _ n, folded assms(2)] unfolding len Let_def by blast
  ultimately show ?thesis by simp
qed

lemma ref_base_near:
  assumes "unat t < 2 ^ 24 * 64000"
  shows "unat (ref_base t) \<le> unat t" "unat t < unat (ref_base t) + 64000"
proof -
  have q: "unat (t div 64000) = unat t div 64000" by (simp add: unat_div)
  have small: "unat t div 64000 < 2 ^ 24" using assms by (simp add: div_less_iff_less_mult)
  have tb: "take_bit 24 (t div 64000) = t div 64000" using small q by (intro take_bit_self) simp
  then have bits: "n < 24" if "bit (t div 64000) n" for n using that by (metis bit_take_bit_iff)
  from tb have "ref_base t = ucast (ucast (t div 64000) :: u32) * 64000" unfolding ref_base_def and_masks by simp
  moreover have "(ucast (ucast (t div 64000) :: u32) :: u64) = t div 64000"
    by (rule bit_word_eqI) (auto simp: bit_simps dest: bits)
  ultimately have "unat (ref_base t) = unat t div 64000 * 64000"
    using q small by (simp add: unat_word_ariths)
  then show "unat (ref_base t) \<le> unat t" "unat t < unat (ref_base t) + 64000"
    using div_mult_mod_eq [of "unat t" 64000] mod_less_divisor [of 64000 "unat t"] by linarith+
qed

lemma twcc_inv_D:
  assumes "twcc_inv r"
  shows "length (rw_window r) = 256" "rw_have_base r \<Longrightarrow> 0 < rw_count r \<and> rw_count r \<le> 256 \<and> re_received (rw_window r ! 0)"
    "i < 256 \<Longrightarrow> rw_count r \<le> i \<Longrightarrow> \<not> re_received (rw_window r ! i)"
  using assms unfolding twcc_inv_def RTC_TWCC_RECV_WINDOW_def by (simp, simp, meson not_le)

lemma near_status:
  assumes "\<forall>e \<in> set (e # es). re_received e \<longrightarrow> unat (re_recv_time_us e) < 2 ^ 24 * 64000" "re_received e"
    "successively near (map re_recv_time_us (filter re_received (e # es)))"
  shows "\<exists>s d sts. twcc_status (e # es) (ref_base (re_recv_time_us e)) = (s, d) # sts \<and> s \<noteq> STATUS_NOT_RECV \<and>
    map fst sts = map (\<lambda>e. if re_received e then STATUS_SMALL_DELTA else STATUS_NOT_RECV) es"
proof -
  let ?t = "re_recv_time_us e" let ?b = "ref_base (re_recv_time_us e)"
  have lt: "unat t < 2 ^ 62" if "unat t < 2 ^ 24 * 64000" for t :: u64 using that by simp
  have t: "unat ?t < 2 ^ 24 * 64000" using assms(1,2) by simp
  note b = ref_base_near [OF t]
  have bt: "unat ?b < 2 ^ 62" "unat ?t < 2 ^ 62" using b(1) lt [OF t] by simp_all
  have "\<bar>int (unat ?b) - int (unat ?t)\<bar> < 250 * 256" using b by linarith
  then have d: "\<bar>ticks ?b ?t\<bar> < 256" by (rule ticks_small [OF bt])
  have times: "\<forall>x \<in> set es. re_received x \<longrightarrow> unat (re_recv_time_us x) < 2 ^ 62" using assms(1) lt by auto
  have rest: "map fst (twcc_status es (tick_time ?b ?t)) = map (\<lambda>e. if re_received e then STATUS_SMALL_DELTA else STATUS_NOT_RECV) es"
    by (rule status_near [OF times tick_time_near(2,1) [OF bt]]) (use assms(2,3) in simp)
  show ?thesis
  proof (cases "-128 \<le> ticks ?b ?t \<and> ticks ?b ?t \<le> 127")
    case True
    then show ?thesis unfolding twcc_status_recv [OF assms(2)] Let_def using rest by (simp add: twcc_consts)
  next
    case False
    moreover have "-32768 \<le> ticks ?b ?t \<and> ticks ?b ?t \<le> 32767" using d by linarith
    ultimately show ?thesis unfolding twcc_status_recv [OF assms(2)] Let_def using rest by (simp add: twcc_consts)
  qed
qed

lemma window_times:
  assumes "pkts \<noteq> []" "\<forall>(s, t) \<in> set pkts. unat t < k" "e \<in> set (rw_window (twcc_window pkts n))" "re_received e"
  shows "unat (re_recv_time_us e) < k"
proof -
  obtain i where i: "i < 256" "e = rw_window (twcc_window pkts n) ! i"
    using assms(3) twcc_inv_D(1) [OF twcc_window_inv] by (metis in_set_conv_nth)
  then have "map_of pkts (fst (hd pkts) + of_nat i) = Some (re_recv_time_us e)"
    using twcc_window_first [OF assms(1) i(1), of n] assms(4) by simp
  then show ?thesis using map_of_SomeD assms(2) by fast
qed

lemma near_items:
  assumes "\<forall>e \<in> set es. re_received e \<longrightarrow> unat (re_recv_time_us e) < 2 ^ 24 * 64000" "es \<noteq> []" "re_received (hd es)"
    "successively near (map re_recv_time_us (filter re_received es))" "i < length es"
  defines "b \<equiv> ref_base (re_recv_time_us (hd es))"
  shows "let it = items_of (twcc_status es b) b seq ! i; e = es ! i
     in ti_seq it = seq + of_nat i \<and> ti_received it = re_received e \<and>
        (re_received e \<longrightarrow> \<bar>int (unat (ti_recv_time_us it)) - int (unat (re_recv_time_us e))\<bar> < 250)"
proof (rule items_accurate [OF _ _ _ assms(5)])
  obtain e es' where es: "es = e # es'" using assms(2) by (cases es) auto
  have t: "unat (re_recv_time_us (hd es)) < 2 ^ 24 * 64000" using assms(1-3) by simp
  show "unat b < 2 ^ 62" using ref_base_near(1) [OF t] t unfolding b_def by simp
  show "\<forall>e \<in> set es. re_received e \<longrightarrow> unat (re_recv_time_us e) < 2 ^ 62" using assms(1) by fastforce
  obtain s d sts where st: "twcc_status es b = (s, d) # sts" "s \<noteq> STATUS_NOT_RECV"
    "map fst sts = map (\<lambda>e. if re_received e then STATUS_SMALL_DELTA else STATUS_NOT_RECV) es'"
    using near_status [of e es'] assms(1,3,4) unfolding b_def es by auto
  have "fst (twcc_status es b ! j) \<noteq> STATUS_NOT_RECV" if j: "j < length es" "re_received (es ! j)" for j
  proof (cases j)
    case (Suc k)
    then have "fst (sts ! k) = (map fst sts) ! k" using st(3) j es by (metis length_Cons length_map not_less_eq nth_map)
    then show ?thesis using Suc j es st by (simp add: twcc_consts)
  qed (simp add: st)
  then show "\<forall>j < length es. re_received (es ! j) \<longrightarrow> fst (twcc_status es b ! j) \<noteq> STATUS_NOT_RECV" by blast
qed

text \<open>
  C15. Transport-wide feedback tells the sender when its packets arrived. Feed any run of packets
  to a fresh receiver whose numbers' arrivals are at most 31 milliseconds apart (in sequence order)
  and before the 24-bit reference time wraps: building the feedback into a buffer of 1047 bytes or
  more succeeds, resets the window and advances the feedback counter; the packet is whole words, at
  most 1047 bytes, and parses; its items number the packets from the first one on, and an item is
  received exactly when its number arrived within the window, with the time of its first arrival
  to less than a tick of 250 microseconds.
\<close>

theorem twcc_feedback_roundtrip:
  assumes "pkts \<noteq> []" "\<forall>(s, t) \<in> set pkts. unat t < 2 ^ 24 * 64000" "successively near (seq_arrivals pkts)" "1047 \<le> cap"
  shows "\<exists>pkt fb. rtc_twcc_receiver_build_feedback (twcc_window pkts n) ssrc media cap =
      (Inr pkt, rtc_twcc_receiver_init\<lparr>rw_fb_pkt_count := n + 1\<rparr>) \<and>
    length pkt \<le> 1047 \<and> length pkt mod 4 = 0 \<and> rtc_rtcp_parse_twcc pkt = Some (Inr fb) \<and>
    tf_sender_ssrc fb = ssrc \<and> tf_media_ssrc fb = media \<and> tf_fb_pkt_count fb = n \<and> tf_base_seq fb = fst (hd pkts) \<and>
    length (tf_items fb) \<le> 256 \<and>
    (\<forall>i < 256. if i < length (tf_items fb) then
       ti_seq (tf_items fb ! i) = fst (hd pkts) + of_nat i \<and>
       (case map_of pkts (fst (hd pkts) + of_nat i) of
          None \<Rightarrow> \<not> ti_received (tf_items fb ! i)
        | Some t \<Rightarrow> ti_received (tf_items fb ! i) \<and>
            \<bar>int (unat (ti_recv_time_us (tf_items fb ! i))) - int (unat t)\<bar> < 250)
     else map_of pkts (fst (hd pkts) + of_nat i) = None)"
proof -
  define r where "r = twcc_window pkts n"
  have inv: "twcc_inv r" unfolding r_def by (rule twcc_window_inv)
  have base: "rw_have_base r" "rw_base_seq r = fst (hd pkts)" "rw_fb_pkt_count r = n"
    using twcc_window_base [of pkts n] assms(1) by (simp_all add: r_def)
  note w = twcc_inv_D(1) [OF inv] and c = twcc_inv_D(2) [OF inv base(1)]
  define es where "es = take (rw_count r) (rw_window r)"
  have es: "length es = rw_count r" "es \<noteq> []" "hd es = rw_window r ! 0" using w c by (auto simp: es_def intro: hd_conv_nth)
  have nth: "es ! i = rw_window r ! i" if "i < rw_count r" for i using that by (simp add: es_def)
  have times: "\<forall>e \<in> set es. re_received e \<longrightarrow> unat (re_recv_time_us e) < 2 ^ 24 * 64000"
    using window_times [OF assms(1,2)] unfolding es_def r_def by (meson in_set_takeD)
  have rd: "re_received (hd es)" using c es(3) by simp
  have near: "successively near (map re_recv_time_us (filter re_received es))"
    using assms(3) seq_arrivals_window [OF assms(1) r_def] by (simp add: es_def)
  obtain s d sts where st: "twcc_status es (ref_base (re_recv_time_us (hd es))) = (s, d) # sts"
    "map fst sts = map (\<lambda>e. if re_received e then STATUS_SMALL_DELTA else STATUS_NOT_RECV) (tl es)"
    using near_status [of "hd es" "tl es"] times rd near es(2) by auto
  have "set (map fst sts) \<subseteq> {STATUS_NOT_RECV, STATUS_SMALL_DELTA}" unfolding st(2) by auto
  from feedback_parses [OF inv base(1) assms(4) st(1) [unfolded es_def es(3) [unfolded es_def]] this, of ssrc media]
  obtain pkt fb where p: "rtc_twcc_receiver_build_feedback r ssrc media cap =
      (Inr pkt, rtc_twcc_receiver_init\<lparr>rw_fb_pkt_count := n + 1\<rparr>)" "length pkt \<le> 1047" "length pkt mod 4 = 0"
    "rtc_rtcp_parse_twcc pkt = Some (Inr fb)" "tf_sender_ssrc fb = ssrc" "tf_media_ssrc fb = media" "tf_fb_pkt_count fb = n"
    "tf_base_seq fb = fst (hd pkts)"
    "tf_items fb = items_of (twcc_status es (ref_base (re_recv_time_us (hd es)))) (ref_base (re_recv_time_us (hd es))) (fst (hd pkts))"
    unfolding es(3) st(1) [unfolded es(3)] base(2,3) by (auto simp del: items_of.simps)
  have len: "length (tf_items fb) = rw_count r" unfolding p(9) items_length twcc_status_length by (rule es(1))
  have "if i < rw_count r then ti_seq (tf_items fb ! i) = fst (hd pkts) + of_nat i \<and>
       (case map_of pkts (fst (hd pkts) + of_nat i) of None \<Rightarrow> \<not> ti_received (tf_items fb ! i)
        | Some t \<Rightarrow> ti_received (tf_items fb ! i) \<and> \<bar>int (unat (ti_recv_time_us (tf_items fb ! i))) - int (unat t)\<bar> < 250)
     else map_of pkts (fst (hd pkts) + of_nat i) = None" if i: "i < 256" for i
    using near_items [OF times es(2) rd near, of i "fst (hd pkts)"] twcc_inv_D(3) [OF inv i] nth [of i]
    unfolding twcc_window_first [OF assms(1) i, of n, folded r_def] p(9) es(1) Let_def by auto
  then show ?thesis using p(1-8) c unfolding r_def [symmetric] by (intro exI [of _ pkt] exI [of _ fb], unfold len) blast
qed

definition demo_arrivals :: "(u16 \<times> u64) list" where
  "demo_arrivals = [(65535, 128100), (1, 130000), (0, 150000), (0, 160000), (4, 155000)]"

theorem twcc_feedback_roundtrip_witness:
  "\<exists>pkt fb. rtc_twcc_receiver_build_feedback (twcc_window demo_arrivals 7) 1 2 1200 =
      (Inr pkt, rtc_twcc_receiver_init\<lparr>rw_fb_pkt_count := 8\<rparr>) \<and> rtc_rtcp_parse_twcc pkt = Some (Inr fb) \<and>
    tf_fb_pkt_count fb = 7 \<and> tf_base_seq fb = 65535 \<and> length (tf_items fb) \<le> 256"
proof -
  have h: "demo_arrivals \<noteq> []" "\<forall>(s, t) \<in> set demo_arrivals. unat t < 2 ^ 24 * 64000" by (simp_all add: demo_arrivals_def)
  have "seq_arrivals demo_arrivals = [128100, 150000, 130000, 155000]" by code_simp
  then have n: "successively near (seq_arrivals demo_arrivals)" by (simp add: near_def)
  have "fst (hd demo_arrivals) = 65535" by (simp add: demo_arrivals_def)
  then show ?thesis using twcc_feedback_roundtrip [OF h n, of 1200 7 1 2] by auto
qed

text \<open>
  The hypothesis on the spacing is needed: a packet 100 milliseconds after its predecessor has a
  two-byte delta, which a one-bit status vector cannot carry, and it is reported as lost.
\<close>

lemma large_delta_reported_lost:
  "map_option (map_sum id (map ti_received \<circ> tf_items)) (case fst (rtc_twcc_receiver_build_feedback
      (twcc_window [(0, 0), (1, 100000)] 0) 1 2 1200) of Inl e \<Rightarrow> None | Inr pkt \<Rightarrow> rtc_rtcp_parse_twcc pkt) =
   Some (Inr [True, False])"
  by code_simp

end
