(* ===== verification/Common.thy ===== *)
theory Common
  imports Prelude
begin

text \<open>
  Addresses and random strings of \<^verbatim>\<open>rtc_common.c\<close>. A socket address is its family with the port
  and the address in host byte order; \<open>inet_pton\<close> and \<open>inet_ntop\<close> of the C library and the random
  source are arguments. C strings are byte lists without their terminator.
\<close>

datatype rtc_addr = Addr_None | Addr_In u16 u32 | Addr_In6 u16 bytes

definition rtc_addr_from_string ::
  "(bytes \<Rightarrow> u32 option) \<Rightarrow> (bytes \<Rightarrow> bytes option) \<Rightarrow> bytes \<Rightarrow> u16 \<Rightarrow> rtc_err + rtc_addr" where
  "rtc_addr_from_string pton4 pton6 ip port =
    (case pton4 ip of
       Some a \<Rightarrow> Inr (Addr_In port a)
     | None \<Rightarrow> (case pton6 ip of Some a \<Rightarrow> Inr (Addr_In6 port a) | None \<Rightarrow> Inl RTC_ERR_INVALID))"

text \<open>\<open>ntop\<close> is given the buffer length and fails when the text does not fit.\<close>

definition rtc_addr_to_string ::
  "(nat \<Rightarrow> u32 \<Rightarrow> bytes option) \<Rightarrow> (nat \<Rightarrow> bytes \<Rightarrow> bytes option) \<Rightarrow> rtc_addr \<Rightarrow> nat \<Rightarrow> rtc_err + bytes \<times> u16" where
  "rtc_addr_to_string ntop4 ntop6 a buflen =
    (case a of
       Addr_In port ip \<Rightarrow> (case ntop4 buflen ip of None \<Rightarrow> Inl RTC_ERR_INVALID | Some s \<Rightarrow> Inr (s, port))
     | Addr_In6 port ip \<Rightarrow> (case ntop6 buflen ip of None \<Rightarrow> Inl RTC_ERR_INVALID | Some s \<Rightarrow> Inr (s, port))
     | Addr_None \<Rightarrow> Inl RTC_ERR_INVALID)"

text \<open>The sixty-two letters and digits of the generated credentials.\<close>

definition charset :: bytes where
  "charset = map of_nat ([97..<123] @ [65..<91] @ [48..<58])"

text \<open>\<open>rand n\<close> is what the random source delivers for \<open>n\<close> bytes, \<open>None\<close> when it fails. The result is
  the string written (without its terminator).\<close>

definition rtc_random_string :: "(nat \<Rightarrow> bytes option) \<Rightarrow> nat \<Rightarrow> rtc_err + bytes" where
  "rtc_random_string rand len =
    (if len = 0 then Inl RTC_ERR_INVALID
     else
       let need = min (len - 1) 256
       in case rand need of
            None \<Rightarrow> Inl RTC_ERR_GENERIC
          | Some tmp \<Rightarrow> Inr (map (\<lambda>i. charset ! (unat (tmp ! i) mod 62)) [0..<need]))"

end
