(* ===== verification/Crc32.thy ===== *)
theory Crc32
  imports Prelude
begin

text \<open>
  The CRC-32 of the STUN fingerprint (\<^verbatim>\<open>rtc_stun.c\<close>): the compiled-in table of 256 words, the
  byte-at-a-time loop, and the bit-at-a-time division it stands for.
\<close>

definition crc32_table :: "u32 list" where
  "crc32_table = [
    0x00000000, 0x77073096, 0xEE0E612C, 0x990951BA, 0x076DC419, 0x706AF48F, 0xE963A535, 0x9E6495A3,
    0x0EDB8832, 0x79DCB8A4, 0xE0D5E91E, 0x97D2D988, 0x09B64C2B, 0x7EB17CBD, 0xE7B82D07, 0x90BF1D91,
    0x1DB71064, 0x6AB020F2, 0xF3B97148, 0x84BE41DE, 0x1ADAD47D, 0x6DDDE4EB, 0xF4D4B551, 0x83D385C7,
    0x136C9856, 0x646BA8C0, 0xFD62F97A, 0x8A65C9EC, 0x14015C4F, 0x63066CD9, 0xFA0F3D63, 0x8D080DF5,
    0x3B6E20C8, 0x4C69105E, 0xD56041E4, 0xA2677172, 0x3C03E4D1, 0x4B04D447, 0xD20D85FD, 0xA50AB56B,
    0x35B5A8FA, 0x42B2986C, 0xDBBBC9D6, 0xACBCF940, 0x32D86CE3, 0x45DF5C75, 0xDCD60DCF, 0xABD13D59,
    0x26D930AC, 0x51DE003A, 0xC8D75180, 0xBFD06116, 0x21B4F4B5, 0x56B3C423, 0xCFBA9599, 0xB8BDA50F,
    0x2802B89E, 0x5F058808, 0xC60CD9B2, 0xB10BE924, 0x2F6F7C87, 0x58684C11, 0xC1611DAB, 0xB6662D3D,
    0x76DC4190, 0x01DB7106, 0x98D220BC, 0xEFD5102A, 0x71B18589, 0x06B6B51F, 0x9FBFE4A5, 0xE8B8D433,
    0x7807C9A2, 0x0F00F934, 0x9609A88E, 0xE10E9818, 0x7F6A0DBB, 0x086D3D2D, 0x91646C97, 0xE6635C01,
    0x6B6B51F4, 0x1C6C6162, 0x856530D8, 0xF262004E, 0x6C0695ED, 0x1B01A57B, 0x8208F4C1, 0xF50FC457,
    0x65B0D9C6, 0x12B7E950, 0x8BBEB8EA, 0xFCB9887C, 0x62DD1DDF, 0x15DA2D49, 0x8CD37CF3, 0xFBD44C65,
    0x4DB26158, 0x3AB551CE, 0xA3BC0074, 0xD4BB30E2, 0x4ADFA541, 0x3DD895D7, 0xA4D1C46D, 0xD3D6F4FB,
    0x4369E96A, 0x346ED9FC, 0xAD678846, 0xDA60B8D0, 0x44042D73, 0x33031DE5, 0xAA0A4C5F, 0xDD0D7CC9,
    0x5005713C, 0x270241AA, 0xBE0B1010, 0xC90C2086, 0x5768B525, 0x206F85B3, 0xB966D409, 0xCE61E49F,
    0x5EDEF90E, 0x29D9C998, 0xB0D09822, 0xC7D7A8B4, 0x59B33D17, 0x2EB40D81, 0xB7BD5C3B, 0xC0BA6CAD,
    0xEDB88320, 0x9ABFB3B6, 0x03B6E20C, 0x74B1D29A, 0xEAD54739, 0x9DD277AF, 0x04DB2615, 0x73DC1683,
    0xE3630B12, 0x94643B84, 0x0D6D6A3E, 0x7A6A5AA8, 0xE40ECF0B, 0x9309FF9D, 0x0A00AE27, 0x7D079EB1,
    0xF00F9344, 0x8708A3D2, 0x1E01F268, 0x6906C2FE, 0xF762575D, 0x806567CB, 0x196C3671, 0x6E6B06E7,
    0xFED41B76, 0x89D32BE0, 0x10DA7A5A, 0x67DD4ACC, 0xF9B9DF6F, 0x8EBEEFF9, 0x17B7BE43, 0x60B08ED5,
    0xD6D6A3E8, 0xA1D1937E, 0x38D8C2C4, 0x4FDFF252, 0xD1BB67F1, 0xA6BC5767, 0x3FB506DD, 0x48B2364B,
    0xD80D2BDA, 0xAF0A1B4C, 0x36034AF6, 0x41047A60, 0xDF60EFC3, 0xA867DF55, 0x316E8EEF, 0x4669BE79,
    0xCB61B38C, 0xBC66831A, 0x256FD2A0, 0x5268E236, 0xCC0C7795, 0xBB0B4703, 0x220216B9, 0x5505262F,
    0xC5BA3BBE, 0xB2BD0B28, 0x2BB45A92, 0x5CB36A04, 0xC2D7FFA7, 0xB5D0CF31, 0x2CD99E8B, 0x5BDEAE1D,
    0x9B64C2B0, 0xEC63F226, 0x756AA39C, 0x026D930A, 0x9C0906A9, 0xEB0E363F, 0x72076785, 0x05005713,
    0x95BF4A82, 0xE2B87A14, 0x7BB12BAE, 0x0CB61B38, 0x92D28E9B, 0xE5D5BE0D, 0x7CDCEFB7, 0x0BDBDF21,
    0x86D3D2D4, 0xF1D4E242, 0x68DDB3F8, 0x1FDA836E, 0x81BE16CD, 0xF6B9265B, 0x6FB077E1, 0x18B74777,
    0x88085AE6, 0xFF0F6A70, 0x66063BCA, 0x11010B5C, 0x8F659EFF, 0xF862AE69, 0x616BFFD3, 0x166CCF45,
    0xA00AE278, 0xD70DD2EE, 0x4E048354, 0x3903B3C2, 0xA7672661, 0xD06016F7, 0x4969474D, 0x3E6E77DB,
    0xAED16A4A, 0xD9D65ADC, 0x40DF0B66, 0x37D83BF0, 0xA9BCAE53, 0xDEBB9EC5, 0x47B2CF7F, 0x30B5FFE9,
    0xBDBDF21C, 0xCABAC28A, 0x53B39330, 0x24B4A3A6, 0xBAD03605, 0xCDD70693, 0x54DE5729, 0x23D967BF,
    0xB3667A2E, 0xC4614AB8, 0x5D681B02, 0x2A6F2B94, 0xB40BBE37, 0xC30C8EA1, 0x5A05DF1B, 0x2D02EF8D]"

fun crc32_loop :: "u32 \<Rightarrow> bytes \<Rightarrow> u32" where
  "crc32_loop crc [] = crc"
| "crc32_loop crc (b # data) =
    crc32_loop (crc32_table ! unat ((crc XOR ucast b) AND 0xFF) XOR drop_bit 8 crc) data"

definition crc32_calc :: "bytes \<Rightarrow> u32" where
  "crc32_calc data = crc32_loop 0xFFFFFFFF data XOR 0xFFFFFFFF"

subsection \<open>Division bit by bit\<close>

text \<open>
  The IEEE 802.3 code, reflected: shift right and subtract the polynomial 0xEDB88320 whenever a one
  falls out; a byte is added at the low end and divided eight times.
\<close>

definition crc_bit :: "u32 \<Rightarrow> u32" where
  "crc_bit x = (if x AND 1 = 1 then drop_bit 1 x XOR 0xEDB88320 else drop_bit 1 x)"

definition crc_byte :: "u32 \<Rightarrow> u32" where
  "crc_byte x = crc_bit (crc_bit (crc_bit (crc_bit (crc_bit (crc_bit (crc_bit (crc_bit x)))))))"

fun crc_ref :: "u32 \<Rightarrow> bytes \<Rightarrow> u32" where
  "crc_ref crc [] = crc"
| "crc_ref crc (b # data) = crc_ref (crc_byte (crc XOR ucast b)) data"

lemma crc_bit_odd: "crc_bit x = (if odd x then drop_bit 1 x XOR 0xEDB88320 else drop_bit 1 x)"
  by (simp add: crc_bit_def and_one_eq odd_iff_mod_2_eq_one)

lemma crc_byte_bits: "crc_byte x = (crc_bit ^^ 8) x"
  by (simp add: crc_byte_def numeral_eq_Suc)

lemma crc_bit_xor: "crc_bit (x XOR y) = crc_bit x XOR crc_bit y"
proof (rule bit_word_eqI)
  fix n assume "n < LENGTH(32)"
  show "bit (crc_bit (x XOR y)) n = bit (crc_bit x XOR crc_bit y) n"
    unfolding crc_bit_odd by (auto simp: bit_simps even_xor_iff)
qed

lemma crc_bits_xor: "(crc_bit ^^ k) (x XOR y) = (crc_bit ^^ k) x XOR (crc_bit ^^ k) y"
  by (induction k) (simp_all add: crc_bit_xor)

lemma crc_bits_high: "k \<le> 8 \<Longrightarrow> take_bit 8 x = 0 \<Longrightarrow> (crc_bit ^^ k) x = drop_bit k x"
proof (induction k)
  case (Suc k)
  have "\<not> bit x k" using Suc.prems by (metis Suc_le_lessD bit_take_bit_iff bit_0_eq bot_apply bot_bool_def)
  then have "even (drop_bit k x)" by (simp add: bit_iff_odd_drop_bit)
  then show ?case using Suc by (simp add: crc_bit_odd)
qed simp

text \<open>The table is spanned by eight entries: each doubling adds one more.\<close>

definition double :: "u32 \<Rightarrow> u32 list \<Rightarrow> u32 list" where
  "double c xs = xs @ map (\<lambda>x. c XOR x) xs"

definition entries :: "nat \<Rightarrow> u32 list" where
  "entries k = map (\<lambda>i. crc_byte (of_nat i)) [0..<2 ^ k]"

lemma double_step:
  assumes "crc_byte (2 ^ k) = c" "k < 8"
  shows "double c (entries k) = entries (Suc k)"
proof -
  have "crc_byte (of_nat (i + 2 ^ k)) = c XOR crc_byte (of_nat i)" if "i < 2 ^ k" for i
  proof -
    have b: "\<not> bit (of_nat i :: u32) n \<or> n < k" for n
      using that by (metis bit_take_bit_iff of_nat_take_bit take_bit_nat_eq_self)
    have "of_nat (i + 2 ^ k) = (of_nat i + 2 ^ k :: u32)" by simp
    also have "\<dots> = of_nat i OR 2 ^ k"
    proof (rule disjunctive_add)
      fix n show "\<not> bit (of_nat i :: u32) n \<or> \<not> bit (2 ^ k :: u32) n" using b [of n] by (auto simp: bit_exp_iff)
    qed
    also have "\<dots> = (2 ^ k XOR of_nat i :: u32)"
    proof (rule bit_word_eqI)
      fix n show "bit (of_nat i OR 2 ^ k :: u32) n = bit (2 ^ k XOR of_nat i :: u32) n"
        using b [of n] by (auto simp: bit_or_iff bit_xor_iff bit_exp_iff)
    qed
    finally have "of_nat (i + 2 ^ k) = (2 ^ k XOR of_nat i :: u32)" .
    then show ?thesis unfolding assms(1) [symmetric] crc_byte_bits by (simp only: crc_bits_xor)
  qed
  then have "map (\<lambda>i. crc_byte (of_nat (i + 2 ^ k))) [0..<2 ^ k] = map (\<lambda>x. c XOR x) (entries k)"
    unfolding entries_def map_map by (intro map_cong) simp_all
  moreover have "map (\<lambda>i. crc_byte (of_nat i)) [2 ^ k..<2 ^ k + 2 ^ k] = map (\<lambda>i. crc_byte (of_nat (i + 2 ^ k))) [0..<2 ^ k]"
    unfolding map_add_upt [of "2 ^ k" "2 ^ k", symmetric] map_map by simp
  ultimately show ?thesis by (simp add: double_def entries_def upt_add_eq_append [of 0 "2 ^ k" "2 ^ k"] mult_2)
qed

lemma table_doubled:
  "crc32_table = double 0xEDB88320 (double 0x76DC4190 (double 0x3B6E20C8 (double 0x1DB71064
     (double 0x0EDB8832 (double 0x076DC419 (double 0xEE0E612C (double 0x77073096 [0])))))))"
  by (simp add: crc32_table_def double_def)

lemma basis:
  "crc_byte 0 = 0" "crc_byte 1 = 0x77073096" "crc_byte 2 = 0xEE0E612C" "crc_byte 4 = 0x076DC419" "crc_byte 8 = 0x0EDB8832"
  "crc_byte 16 = 0x1DB71064" "crc_byte 32 = 0x3B6E20C8" "crc_byte 64 = 0x76DC4190" "crc_byte 128 = 0xEDB88320"
  by (simp_all add: crc_byte_def crc_bit_def)

lemma table_entries: "crc32_table = map (\<lambda>i. crc_byte (of_nat i)) [0..<256]"
proof -
  have "[0] = entries 0" by (simp add: entries_def basis)
  then have "crc32_table = entries 8"
    unfolding table_doubled
    using double_step [of 0, simplified basis] double_step [of 1, simplified basis] double_step [of 2, simplified basis]
      double_step [of 3, simplified basis] double_step [of 4, simplified basis] double_step [of 5, simplified basis]
      double_step [of 6, simplified basis] double_step [of 7, simplified basis] by (simp add: basis eval_nat_numeral)
  then show ?thesis by (simp add: entries_def)
qed

lemma table_byte:
  "crc_byte x = crc32_table ! unat (x AND 0xFF) XOR drop_bit 8 x"
proof -
  define l where "l = take_bit 8 x"
  define h where "h = push_bit 8 (drop_bit 8 x)"
  have x: "x = l XOR h" unfolding l_def h_def by (rule bit_word_eqI) (auto simp: bit_simps)
  have h: "take_bit 8 h = 0" "drop_bit 8 h = drop_bit 8 x" unfolding h_def by (rule bit_word_eqI; auto simp: bit_simps dest: bit_imp_le_length)+
  have "unat l < 256" unfolding l_def by (simp add: unat_take_bit)
  then have "crc32_table ! unat l = crc_byte l" unfolding table_entries by (simp add: ucast_id)
  moreover have "crc_byte x = crc_byte l XOR crc_byte h" unfolding x crc_byte_bits crc_bits_xor ..
  moreover have "crc_byte h = drop_bit 8 x" unfolding crc_byte_bits crc_bits_high [OF order_refl h(1)] h(2) ..
  ultimately show ?thesis unfolding and_masks l_def by simp
qed

lemma crc32_loop_ref: "crc32_loop crc data = crc_ref crc data"
proof (induction crc data rule: crc32_loop.induct)
  case (2 crc b data)
  have "drop_bit 8 (crc XOR ucast b) = drop_bit 8 crc" by (rule bit_word_eqI) (auto simp: bit_simps dest: bit_imp_le_length)
  then show ?case using 2 by (simp add: table_byte [of "crc XOR ucast b"])
qed simp

text \<open>
  C36. The table-driven checksum is the CRC-32 of IEEE 802.3: for every message it equals dividing bit by
  bit by the reflected polynomial from the all-ones state and complementing the remainder.
\<close>

theorem crc32_is_division: "crc32_calc data = NOT (crc_ref 0xFFFFFFFF data)"
proof -
  have "x XOR 0xFFFFFFFF = NOT x" for x :: u32
  proof -
    have "(0xFFFFFFFF :: u32) = -1" by simp
    then show ?thesis by (simp only:) (rule bit_word_eqI, simp add: bit_simps)
  qed
  then show ?thesis by (simp add: crc32_calc_def crc32_loop_ref)
qed

end
