(* ===== verification/Stun.thy ===== *)
theory Stun
  imports Common Crc32
begin

text \<open>
  STUN and TURN messages (\<^verbatim>\<open>rtc_stun.c\<close>): the attribute encoder and walkers, binding requests and
  responses, message integrity and fingerprint, the TURN request builder and ChannelData frames.

  A message under construction is the prefix of \<^verbatim>\<open>msg->buf\<close> written so far; its length is \<^verbatim>\<open>pos\<close>.
  A write past the end of a buffer makes the result \<open>None\<close>, like a read outside it. HMAC-SHA1 and MD5
  are the arguments \<open>hmac\<close> and \<open>md5\<close>, and the transaction identifier is the argument \<open>txn\<close>.
\<close>

subsection \<open>Constants and the message\<close>

definition STUN_BINDING_REQUEST :: u16 where "STUN_BINDING_REQUEST = 0x0001"
definition STUN_BINDING_RESPONSE :: u16 where "STUN_BINDING_RESPONSE = 0x0101"
definition STUN_ATTR_MAPPED_ADDRESS :: u16 where "STUN_ATTR_MAPPED_ADDRESS = 0x0001"
definition STUN_ATTR_USERNAME :: u16 where "STUN_ATTR_USERNAME = 0x0006"
definition STUN_ATTR_MESSAGE_INTEGRITY :: u16 where "STUN_ATTR_MESSAGE_INTEGRITY = 0x0008"
definition STUN_ATTR_ERROR_CODE :: u16 where "STUN_ATTR_ERROR_CODE = 0x0009"
definition STUN_ATTR_XOR_MAPPED_ADDRESS :: u16 where "STUN_ATTR_XOR_MAPPED_ADDRESS = 0x0020"
definition STUN_ATTR_PRIORITY :: u16 where "STUN_ATTR_PRIORITY = 0x0024"
definition STUN_ATTR_USE_CANDIDATE :: u16 where "STUN_ATTR_USE_CANDIDATE = 0x0025"
definition STUN_ATTR_ICE_CONTROLLED :: u16 where "STUN_ATTR_ICE_CONTROLLED = 0x8029"
definition STUN_ATTR_ICE_CONTROLLING :: u16 where "STUN_ATTR_ICE_CONTROLLING = 0x802A"
definition STUN_ATTR_FINGERPRINT :: u16 where "STUN_ATTR_FINGERPRINT = 0x8028"
definition STUN_ATTR_CHANNEL_NUMBER :: u16 where "STUN_ATTR_CHANNEL_NUMBER = 0x000C"
definition STUN_ATTR_LIFETIME :: u16 where "STUN_ATTR_LIFETIME = 0x000D"
definition STUN_ATTR_XOR_PEER_ADDRESS :: u16 where "STUN_ATTR_XOR_PEER_ADDRESS = 0x0012"
definition STUN_ATTR_REALM :: u16 where "STUN_ATTR_REALM = 0x0014"
definition STUN_ATTR_NONCE :: u16 where "STUN_ATTR_NONCE = 0x0015"
definition STUN_ATTR_XOR_RELAYED_ADDR :: u16 where "STUN_ATTR_XOR_RELAYED_ADDR = 0x0016"
definition STUN_ATTR_REQUESTED_TRANSPORT :: u16 where "STUN_ATTR_REQUESTED_TRANSPORT = 0x0019"
definition STUN_MAGIC_COOKIE :: u32 where "STUN_MAGIC_COOKIE = 0x2112A442"
definition STUN_HEADER_SIZE :: nat where "STUN_HEADER_SIZE = 20"
definition STUN_TXN_ID_SIZE :: nat where "STUN_TXN_ID_SIZE = 12"
definition STUN_MAX_MSG_SIZE :: nat where "STUN_MAX_MSG_SIZE = 1500"

lemmas stun_attrs = STUN_ATTR_MAPPED_ADDRESS_def STUN_ATTR_USERNAME_def STUN_ATTR_MESSAGE_INTEGRITY_def
  STUN_ATTR_ERROR_CODE_def STUN_ATTR_XOR_MAPPED_ADDRESS_def STUN_ATTR_PRIORITY_def STUN_ATTR_USE_CANDIDATE_def
  STUN_ATTR_ICE_CONTROLLED_def STUN_ATTR_ICE_CONTROLLING_def STUN_ATTR_FINGERPRINT_def STUN_ATTR_CHANNEL_NUMBER_def
  STUN_ATTR_LIFETIME_def STUN_ATTR_XOR_PEER_ADDRESS_def STUN_ATTR_REALM_def STUN_ATTR_NONCE_def
  STUN_ATTR_XOR_RELAYED_ADDR_def STUN_ATTR_REQUESTED_TRANSPORT_def

lemmas stun_sizes = STUN_HEADER_SIZE_def STUN_TXN_ID_SIZE_def STUN_MAX_MSG_SIZE_def

record rtc_stun_msg =
  sm_type :: u16
  sm_length :: u16
  sm_txn_id :: bytes
  sm_buf :: bytes

subsection \<open>Building\<close>

text \<open>\<^verbatim>\<open>uint16_t padded = (vlen + 3) & ~3\<close>: rounding up to whole words, in sixteen bits.\<close>

definition pad4 :: "u16 \<Rightarrow> u16" where
  "pad4 vlen = (vlen + 3) AND NOT 3"

definition append_attr :: "bytes \<Rightarrow> nat \<Rightarrow> u16 \<Rightarrow> bytes \<Rightarrow> u16 \<Rightarrow> (rtc_err + bytes) option" where
  "append_attr buf maxlen type value vlen =
    (let padded = unat (pad4 vlen)
     in if length buf + 4 + padded > maxlen then Some (Inl RTC_ERR_NOMEM)
        else if length buf + 4 + unat vlen > maxlen then None
        else Some (Inr (buf @ write_u16 type @ write_u16 vlen @
          take padded (take (unat vlen) value @ replicate (padded - unat vlen) 0))))"

text \<open>The header is written over the first twenty bytes.\<close>

definition put_header :: "u16 \<Rightarrow> u16 \<Rightarrow> bytes \<Rightarrow> bytes \<Rightarrow> bytes" where
  "put_header type len txn buf =
    write_u16 type @ write_u16 len @ write_u32 STUN_MAGIC_COOKIE @ txn @ drop STUN_HEADER_SIZE buf"

definition put_length :: "u16 \<Rightarrow> bytes \<Rightarrow> bytes" where
  "put_length len buf = take 2 buf @ write_u16 len @ drop 4 buf"

text \<open>Sequencing of steps that may stop with an error.\<close>

definition stun_then :: "(rtc_err + 'a) option \<Rightarrow> ('a \<Rightarrow> (rtc_err + 'b) option) \<Rightarrow> (rtc_err + 'b) option" where
  "stun_then r f = do { x \<leftarrow> r; case x of Inl e \<Rightarrow> Some (Inl e) | Inr y \<Rightarrow> f y }"

definition append_if :: "bool \<Rightarrow> bytes \<Rightarrow> u16 \<Rightarrow> bytes \<Rightarrow> u16 \<Rightarrow> (rtc_err + bytes) option" where
  "append_if c buf type value vlen =
    (if c then append_attr buf STUN_MAX_MSG_SIZE type value vlen else Some (Inr buf))"

definition rtc_stun_build_binding_request ::
  "(bytes \<Rightarrow> bytes \<Rightarrow> bytes) \<Rightarrow> bytes \<Rightarrow> bytes option \<Rightarrow> bytes option \<Rightarrow> u32 \<Rightarrow> bool \<Rightarrow> u64 \<Rightarrow> bool \<Rightarrow>
    (rtc_err + rtc_stun_msg) option" where
  "rtc_stun_build_binding_request hmac txn username password priority use_candidate tie_breaker controlling =
    stun_then (case username of None \<Rightarrow> Some (Inr (replicate STUN_HEADER_SIZE 0))
        | Some u \<Rightarrow> append_attr (replicate STUN_HEADER_SIZE 0) STUN_MAX_MSG_SIZE STUN_ATTR_USERNAME u (of_nat (length u))) (\<lambda>buf.
    stun_then (append_if (priority > 0) buf STUN_ATTR_PRIORITY (write_u32 priority) 4) (\<lambda>buf.
    stun_then (append_if use_candidate buf STUN_ATTR_USE_CANDIDATE [] 0) (\<lambda>buf.
    stun_then (append_if (tie_breaker > 0) buf
        (if controlling then STUN_ATTR_ICE_CONTROLLING else STUN_ATTR_ICE_CONTROLLED) (write_u64 tie_breaker) 8) (\<lambda>buf.
    stun_then (case password of None \<Rightarrow> Some (Inr buf)
        | Some pw \<Rightarrow>
            let buf = put_header STUN_BINDING_REQUEST (of_nat (length buf - STUN_HEADER_SIZE + 24)) txn buf
            in append_attr buf STUN_MAX_MSG_SIZE STUN_ATTR_MESSAGE_INTEGRITY (hmac pw buf) 20) (\<lambda>buf.
    stun_then (let buf = put_header STUN_BINDING_REQUEST (of_nat (length buf - STUN_HEADER_SIZE + 8)) txn buf
        in append_attr buf STUN_MAX_MSG_SIZE STUN_ATTR_FINGERPRINT (write_u32 (crc32_calc buf XOR 0x5354554E)) 4) (\<lambda>buf.
    let len = of_nat (length buf - STUN_HEADER_SIZE)
    in Some (Inr \<lparr>sm_type = STUN_BINDING_REQUEST, sm_length = len, sm_txn_id = txn,
         sm_buf = put_header STUN_BINDING_REQUEST len txn buf\<rparr>)))))))"

definition rtc_stun_build_binding_response :: "bytes \<Rightarrow> rtc_addr \<Rightarrow> nat \<Rightarrow> (rtc_err + bytes) option" where
  "rtc_stun_build_binding_response req mapped_addr out_cap =
    (if length req < STUN_HEADER_SIZE then Some (Inl RTC_ERR_INVALID)
     else if out_cap < 128 then Some (Inl RTC_ERR_NOMEM)
     else case mapped_addr of
       Addr_In port ip \<Rightarrow>
         let xport = port XOR ucast (drop_bit 16 STUN_MAGIC_COOKIE);
             xip = ip XOR STUN_MAGIC_COOKIE
         in stun_then (append_attr (replicate STUN_HEADER_SIZE 0) out_cap STUN_ATTR_XOR_MAPPED_ADDRESS
                ([0, 1] @ write_u16 xport @ write_u32 xip) 8) (\<lambda>out.
              do { txn \<leftarrow> rd_bytes req 8 STUN_TXN_ID_SIZE;
                   Some (Inr (put_header STUN_BINDING_RESPONSE (of_nat (length out - STUN_HEADER_SIZE)) txn out)) })
     | _ \<Rightarrow> Some (Inl RTC_ERR_INVALID))"

definition rtc_stun_build_request :: "bytes \<Rightarrow> u16 \<Rightarrow> rtc_stun_msg" where
  "rtc_stun_build_request txn method =
    \<lparr>sm_type = method, sm_length = 0, sm_txn_id = txn, sm_buf = put_header method 0 txn []\<rparr>"

definition msg_append_attr :: "rtc_stun_msg \<Rightarrow> u16 \<Rightarrow> bytes \<Rightarrow> u16 \<Rightarrow> (rtc_err + rtc_stun_msg) option" where
  "msg_append_attr msg type value vlen =
    stun_then (append_attr (sm_buf msg) STUN_MAX_MSG_SIZE type value vlen) (\<lambda>buf. Some (Inr (msg\<lparr>sm_buf := buf\<rparr>)))"

definition msg_update_header :: "rtc_stun_msg \<Rightarrow> rtc_stun_msg" where
  "msg_update_header msg =
    (let len = of_nat (length (sm_buf msg) - STUN_HEADER_SIZE)
     in msg\<lparr>sm_length := len, sm_buf := put_length len (sm_buf msg)\<rparr>)"

definition msg_add :: "rtc_stun_msg \<Rightarrow> u16 \<Rightarrow> bytes \<Rightarrow> u16 \<Rightarrow> (rtc_err + rtc_stun_msg) option" where
  "msg_add msg type value vlen = stun_then (msg_append_attr msg type value vlen) (\<lambda>msg. Some (Inr (msg_update_header msg)))"

definition rtc_stun_add_requested_transport :: "rtc_stun_msg \<Rightarrow> u8 \<Rightarrow> (rtc_err + rtc_stun_msg) option" where
  "rtc_stun_add_requested_transport msg protocol = msg_add msg STUN_ATTR_REQUESTED_TRANSPORT [protocol, 0, 0, 0] 4"

definition rtc_stun_add_lifetime :: "rtc_stun_msg \<Rightarrow> u32 \<Rightarrow> (rtc_err + rtc_stun_msg) option" where
  "rtc_stun_add_lifetime msg seconds = msg_add msg STUN_ATTR_LIFETIME (write_u32 seconds) 4"

definition rtc_stun_add_xor_peer_address :: "rtc_stun_msg \<Rightarrow> rtc_addr \<Rightarrow> (rtc_err + rtc_stun_msg) option" where
  "rtc_stun_add_xor_peer_address msg peer =
    (case peer of
       Addr_In port ip \<Rightarrow> msg_add msg STUN_ATTR_XOR_PEER_ADDRESS
         ([0, 1] @ write_u16 (port XOR ucast (drop_bit 16 STUN_MAGIC_COOKIE)) @ write_u32 (ip XOR STUN_MAGIC_COOKIE)) 8
     | _ \<Rightarrow> Some (Inl RTC_ERR_INVALID))"

definition rtc_stun_add_channel_number :: "rtc_stun_msg \<Rightarrow> u16 \<Rightarrow> (rtc_err + rtc_stun_msg) option" where
  "rtc_stun_add_channel_number msg channel = msg_add msg STUN_ATTR_CHANNEL_NUMBER (write_u16 channel @ write_u16 0) 4"

definition rtc_stun_add_username :: "rtc_stun_msg \<Rightarrow> bytes \<Rightarrow> (rtc_err + rtc_stun_msg) option" where
  "rtc_stun_add_username msg username = msg_add msg STUN_ATTR_USERNAME username (of_nat (length username))"

definition rtc_stun_add_realm :: "rtc_stun_msg \<Rightarrow> bytes \<Rightarrow> (rtc_err + rtc_stun_msg) option" where
  "rtc_stun_add_realm msg realm = msg_add msg STUN_ATTR_REALM realm (of_nat (length realm))"

definition rtc_stun_add_nonce :: "rtc_stun_msg \<Rightarrow> bytes \<Rightarrow> (rtc_err + rtc_stun_msg) option" where
  "rtc_stun_add_nonce msg nonce = msg_add msg STUN_ATTR_NONCE nonce (of_nat (length nonce))"

text \<open>An absent key is the empty one: \<^verbatim>\<open>key && key_len > 0\<close>.\<close>

definition rtc_stun_finalize_key ::
  "(bytes \<Rightarrow> bytes \<Rightarrow> bytes) \<Rightarrow> rtc_stun_msg \<Rightarrow> bytes \<Rightarrow> (rtc_err + rtc_stun_msg) option" where
  "rtc_stun_finalize_key hmac msg key =
    stun_then (if key = [] then Some (Inr (sm_buf msg))
        else
          let buf = put_length (of_nat (length (sm_buf msg) - STUN_HEADER_SIZE + 24)) (sm_buf msg)
          in append_attr buf STUN_MAX_MSG_SIZE STUN_ATTR_MESSAGE_INTEGRITY (hmac key buf) 20) (\<lambda>buf.
    stun_then (let buf = put_length (of_nat (length buf - STUN_HEADER_SIZE + 8)) buf
        in append_attr buf STUN_MAX_MSG_SIZE STUN_ATTR_FINGERPRINT (write_u32 (crc32_calc buf XOR 0x5354554E)) 4) (\<lambda>buf.
    let len = of_nat (length buf - STUN_HEADER_SIZE)
    in Some (Inr (msg\<lparr>sm_length := len, sm_buf := write_u16 (sm_type msg) @ write_u16 len @ drop 4 buf\<rparr>))))"

definition rtc_stun_finalize ::
  "(bytes \<Rightarrow> bytes \<Rightarrow> bytes) \<Rightarrow> rtc_stun_msg \<Rightarrow> bytes option \<Rightarrow> (rtc_err + rtc_stun_msg) option" where
  "rtc_stun_finalize hmac msg password =
    (case password of Some pw \<Rightarrow> rtc_stun_finalize_key hmac msg pw | None \<Rightarrow> rtc_stun_finalize_key hmac msg [])"

definition rtc_stun_long_term_key :: "(bytes \<Rightarrow> bytes option) \<Rightarrow> bytes \<Rightarrow> bytes \<Rightarrow> bytes \<Rightarrow> rtc_err + bytes" where
  "rtc_stun_long_term_key md5 username realm password =
    (let input = username @ [58] @ realm @ [58] @ password
     in if length input \<ge> 512 then Inl RTC_ERR_INVALID
        else case md5 input of None \<Rightarrow> Inl RTC_ERR_GENERIC | Some key \<Rightarrow> Inr key)"

subsection \<open>Parsing\<close>

definition rtc_stun_parse :: "bytes \<Rightarrow> (rtc_err + rtc_stun_msg) option" where
  "rtc_stun_parse data =
    (if length data < STUN_HEADER_SIZE then Some (Inl RTC_ERR_INVALID)
     else do {
       type \<leftarrow> rd16 data 0;
       len \<leftarrow> rd16 data 2;
       cookie \<leftarrow> rd32 data 4;
       if cookie \<noteq> STUN_MAGIC_COOKIE then Some (Inl RTC_ERR_INVALID)
       else do {
         txn \<leftarrow> rd_bytes data 8 STUN_TXN_ID_SIZE;
         if STUN_HEADER_SIZE + unat len > length data then Some (Inl RTC_ERR_INVALID)
         else do {
           buf \<leftarrow> rd_bytes data 0 (min (STUN_HEADER_SIZE + unat len) STUN_MAX_MSG_SIZE);
           Some (Inr \<lparr>sm_type = type, sm_length = len, sm_txn_id = txn, sm_buf = buf\<rparr>) } } })"

text \<open>The walk over the attributes: the position and length of the first value of a given type.\<close>

function find_attr_loop :: "bytes \<Rightarrow> u16 \<Rightarrow> nat \<Rightarrow> (nat \<times> u16) option option" where
  "find_attr_loop buf attr_type pos =
    (if pos + 4 \<le> length buf then
       do { atype \<leftarrow> rd16 buf pos;
            alen \<leftarrow> rd16 buf (pos + 2);
            if pos + 4 + unat alen > length buf then Some None
            else if atype = attr_type then Some (Some (pos + 4, alen))
            else find_attr_loop buf attr_type (pos + 4 + unat (pad4 alen)) }
     else Some None)"
  by pat_completeness auto
termination by (relation "measure (\<lambda>(buf, t, pos). length buf - pos)") auto

declare find_attr_loop.simps [simp del]

definition rtc_stun_find_attr :: "rtc_stun_msg \<Rightarrow> u16 \<Rightarrow> (nat \<times> u16) option option" where
  "rtc_stun_find_attr msg attr_type = find_attr_loop (sm_buf msg) attr_type STUN_HEADER_SIZE"

text \<open>The address in an attribute value at \<open>pos\<close> of length \<open>alen\<close>; \<open>masked\<close> when it is combined with the cookie.\<close>

definition mapped_value :: "rtc_stun_msg \<Rightarrow> nat \<Rightarrow> u16 \<Rightarrow> bool \<Rightarrow> (rtc_err + rtc_addr) option" where
  "mapped_value msg pos alen masked =
    (if alen < 8 then Some (Inl RTC_ERR_INVALID)
     else do {
       family \<leftarrow> rd8 (sm_buf msg) (pos + 1);
       port \<leftarrow> rd16 (sm_buf msg) (pos + 2);
       let port = (if masked then port XOR ucast (drop_bit 16 STUN_MAGIC_COOKIE) else port);
       if family = 1 then
         do { ip \<leftarrow> rd32 (sm_buf msg) (pos + 4);
              Some (Inr (Addr_In port (if masked then ip XOR STUN_MAGIC_COOKIE else ip))) }
       else if family = 2 then
         if alen < 20 then Some (Inl RTC_ERR_INVALID)
         else do { a \<leftarrow> rd_bytes (sm_buf msg) (pos + 4) 16;
                   let key = write_u32 STUN_MAGIC_COOKIE @ sm_txn_id msg;
                   Some (Inr (Addr_In6 port (if masked then map2 (\<lambda>x k. x XOR k) a key else a))) }
       else Some (Inl RTC_ERR_INVALID) })"

function mapped_loop :: "rtc_stun_msg \<Rightarrow> nat \<Rightarrow> (rtc_err + rtc_addr) option" where
  "mapped_loop msg pos =
    (if pos + 4 \<le> length (sm_buf msg) then
       do { atype \<leftarrow> rd16 (sm_buf msg) pos;
            alen \<leftarrow> rd16 (sm_buf msg) (pos + 2);
            if pos + 4 + unat alen > length (sm_buf msg) then Some (Inl RTC_ERR_INVALID)
            else if atype = STUN_ATTR_XOR_MAPPED_ADDRESS \<or> atype = STUN_ATTR_MAPPED_ADDRESS then
              mapped_value msg (pos + 4) alen (atype = STUN_ATTR_XOR_MAPPED_ADDRESS)
            else mapped_loop msg (pos + 4 + unat (pad4 alen)) }
     else Some (Inl RTC_ERR_INVALID))"
  by pat_completeness auto
termination by (relation "measure (\<lambda>(msg, pos). length (sm_buf msg) - pos)") auto

declare mapped_loop.simps [simp del]

definition rtc_stun_get_mapped_address :: "rtc_stun_msg \<Rightarrow> (rtc_err + rtc_addr) option" where
  "rtc_stun_get_mapped_address msg = mapped_loop msg STUN_HEADER_SIZE"

function verify_loop :: "(bytes \<Rightarrow> bytes \<Rightarrow> bytes) \<Rightarrow> bytes \<Rightarrow> bytes \<Rightarrow> nat \<Rightarrow> nat \<Rightarrow> rtc_err option" where
  "verify_loop hmac key data fin pos =
    (if pos + 4 \<le> fin then
       do { atype \<leftarrow> rd16 data pos;
            alen \<leftarrow> rd16 data (pos + 2);
            if atype = STUN_ATTR_MESSAGE_INTEGRITY then
              if alen \<noteq> 20 then Some RTC_ERR_INVALID
              else if pos > STUN_MAX_MSG_SIZE then Some RTC_ERR_INVALID
              else do {
                tmp \<leftarrow> rd_bytes data 0 pos;
                let tmp = put_length (of_nat (pos - STUN_HEADER_SIZE + 24)) tmp;
                sent \<leftarrow> rd_bytes data (pos + 4) 20;
                Some (if hmac key tmp = sent then RTC_OK else RTC_ERR_INVALID) }
            else verify_loop hmac key data fin (pos + 4 + unat (pad4 alen)) }
     else Some RTC_ERR_INVALID)"
  by pat_completeness auto
termination by (relation "measure (\<lambda>(hmac, key, data, fin, pos). fin - pos)") auto

declare verify_loop.simps [simp del]

definition rtc_stun_verify_integrity_key :: "(bytes \<Rightarrow> bytes \<Rightarrow> bytes) \<Rightarrow> bytes \<Rightarrow> bytes \<Rightarrow> rtc_err option" where
  "rtc_stun_verify_integrity_key hmac data key =
    (if length data < STUN_HEADER_SIZE + 24 then Some RTC_ERR_INVALID
     else do {
       msg_len_claim \<leftarrow> rd16 data 2;
       verify_loop hmac key data (min (STUN_HEADER_SIZE + unat msg_len_claim) (length data)) STUN_HEADER_SIZE })"

definition rtc_stun_verify_integrity :: "(bytes \<Rightarrow> bytes \<Rightarrow> bytes) \<Rightarrow> bytes \<Rightarrow> bytes option \<Rightarrow> rtc_err option" where
  "rtc_stun_verify_integrity hmac data password =
    (case password of None \<Rightarrow> Some RTC_ERR_INVALID | Some pw \<Rightarrow> rtc_stun_verify_integrity_key hmac data pw)"

definition rtc_stun_get_relayed_address :: "rtc_stun_msg \<Rightarrow> (rtc_err + rtc_addr) option" where
  "rtc_stun_get_relayed_address msg =
    do { f \<leftarrow> rtc_stun_find_attr msg STUN_ATTR_XOR_RELAYED_ADDR;
         case f of None \<Rightarrow> Some (Inl RTC_ERR_INVALID)
         | Some (pos, alen) \<Rightarrow>
             if alen < 8 then Some (Inl RTC_ERR_INVALID)
             else do {
               family \<leftarrow> rd8 (sm_buf msg) (pos + 1);
               port \<leftarrow> rd16 (sm_buf msg) (pos + 2);
               if family = 1 then
                 do { ip \<leftarrow> rd32 (sm_buf msg) (pos + 4);
                      Some (Inr (Addr_In (port XOR ucast (drop_bit 16 STUN_MAGIC_COOKIE)) (ip XOR STUN_MAGIC_COOKIE))) }
               else Some (Inl RTC_ERR_INVALID) } }"

definition rtc_stun_get_lifetime :: "rtc_stun_msg \<Rightarrow> (rtc_err + u32) option" where
  "rtc_stun_get_lifetime msg =
    do { f \<leftarrow> rtc_stun_find_attr msg STUN_ATTR_LIFETIME;
         case f of None \<Rightarrow> Some (Inl RTC_ERR_INVALID)
         | Some (pos, alen) \<Rightarrow>
             if alen < 4 then Some (Inl RTC_ERR_INVALID)
             else do { v \<leftarrow> rd32 (sm_buf msg) pos; Some (Inr v) } }"

definition rtc_stun_get_error_code :: "rtc_stun_msg \<Rightarrow> (rtc_err + int) option" where
  "rtc_stun_get_error_code msg =
    do { f \<leftarrow> rtc_stun_find_attr msg STUN_ATTR_ERROR_CODE;
         case f of None \<Rightarrow> Some (Inl RTC_ERR_INVALID)
         | Some (pos, alen) \<Rightarrow>
             if alen < 4 then Some (Inl RTC_ERR_INVALID)
             else do { c \<leftarrow> rd8 (sm_buf msg) (pos + 2);
                       n \<leftarrow> rd8 (sm_buf msg) (pos + 3);
                       Some (Inr (uint (c AND 0x07) * 100 + uint n)) } }"

text \<open>A string attribute copied with its terminator into a buffer of \<open>buflen\<close> bytes; \<^verbatim>\<open>buflen - 1\<close>
  wraps for an empty buffer.\<close>

definition copy_string :: "rtc_stun_msg \<Rightarrow> u16 \<Rightarrow> nat \<Rightarrow> (rtc_err + bytes) option" where
  "copy_string msg attr_type buflen =
    do { f \<leftarrow> rtc_stun_find_attr msg attr_type;
         case f of None \<Rightarrow> Some (Inl RTC_ERR_INVALID)
         | Some (pos, alen) \<Rightarrow>
             let n = (if buflen = 0 then unat alen else min (unat alen) (buflen - 1))
             in if n + 1 > buflen then None
                else do { v \<leftarrow> rd_bytes (sm_buf msg) pos n; Some (Inr (v @ [0])) } }"

definition rtc_stun_get_realm :: "rtc_stun_msg \<Rightarrow> nat \<Rightarrow> (rtc_err + bytes) option" where
  "rtc_stun_get_realm msg buflen = copy_string msg STUN_ATTR_REALM buflen"

definition rtc_stun_get_nonce :: "rtc_stun_msg \<Rightarrow> nat \<Rightarrow> (rtc_err + bytes) option" where
  "rtc_stun_get_nonce msg buflen = copy_string msg STUN_ATTR_NONCE buflen"

text \<open>
  One blocking exchange with a server: \<open>dest\<close> is the resolved address, \<open>sent\<close> whether the datagram went
  out, \<open>ready\<close> whether an answer came in time and \<open>recvd\<close> the answer (\<open>None\<close> when receiving failed).
\<close>

definition rtc_stun_binding ::
  "(bytes \<Rightarrow> bytes \<Rightarrow> bytes) \<Rightarrow> bytes \<Rightarrow> rtc_err + rtc_addr \<Rightarrow> bool \<Rightarrow> bool \<Rightarrow> bytes option \<Rightarrow> (rtc_err + rtc_addr) option" where
  "rtc_stun_binding hmac txn dest sent ready recvd =
    stun_then (rtc_stun_build_binding_request hmac txn None None 0 False 0 False) (\<lambda>req.
    stun_then (Some dest) (\<lambda>d.
    if \<not> sent then Some (Inl RTC_ERR_SOCKET)
    else if \<not> ready then Some (Inl RTC_ERR_TIMEOUT)
    else case recvd of None \<Rightarrow> Some (Inl RTC_ERR_SOCKET)
      | Some data \<Rightarrow>
          if length data < STUN_HEADER_SIZE then Some (Inl RTC_ERR_SOCKET)
          else stun_then (rtc_stun_parse data) (\<lambda>resp.
            if sm_type resp \<noteq> STUN_BINDING_RESPONSE then Some (Inl RTC_ERR_INVALID)
            else if sm_txn_id resp \<noteq> sm_txn_id req then Some (Inl RTC_ERR_INVALID)
            else rtc_stun_get_mapped_address resp)))"

subsection \<open>ChannelData frames\<close>

definition TURN_CHANNEL_DATA_HEADER :: nat where "TURN_CHANNEL_DATA_HEADER = 4"
definition TURN_CHANNEL_MIN :: u16 where "TURN_CHANNEL_MIN = 0x4000"
definition TURN_CHANNEL_MAX :: u16 where "TURN_CHANNEL_MAX = 0x7FFF"

definition rtc_turn_build_channel_data :: "nat \<Rightarrow> u16 \<Rightarrow> bytes \<Rightarrow> rtc_err + bytes" where
  "rtc_turn_build_channel_data buflen channel data =
    (let padded = (length data + 3) div 4 * 4
     in if TURN_CHANNEL_DATA_HEADER + padded > buflen then Inl RTC_ERR_NOMEM
        else if channel < TURN_CHANNEL_MIN \<or> channel > TURN_CHANNEL_MAX then Inl RTC_ERR_INVALID
        else Inr (write_u16 channel @ write_u16 (of_nat (length data)) @ data @ replicate (padded - length data) 0))"

definition rtc_turn_parse_channel_data :: "bytes \<Rightarrow> (rtc_err + u16 \<times> bytes) option" where
  "rtc_turn_parse_channel_data buf =
    (if length buf < TURN_CHANNEL_DATA_HEADER then Some (Inl RTC_ERR_INVALID)
     else do {
       channel \<leftarrow> rd16 buf 0;
       data_len \<leftarrow> rd16 buf 2;
       if channel < TURN_CHANNEL_MIN \<or> channel > TURN_CHANNEL_MAX then Some (Inl RTC_ERR_INVALID)
       else if TURN_CHANNEL_DATA_HEADER + unat data_len > length buf then Some (Inl RTC_ERR_INVALID)
       else do { data \<leftarrow> rd_bytes buf TURN_CHANNEL_DATA_HEADER (unat data_len); Some (Inr (channel, data)) } })"

end
