(* ===== verification/Stun_Attrs.thy ===== *)
theory Stun_Attrs
  imports Stun
begin

text \<open>
  STUN messages as lists of attributes: what the encoder of \<^verbatim>\<open>rtc_stun.c\<close> appends, what its walkers
  find, and the properties of whole messages.
\<close>

subsection \<open>Attributes as type-length-value triples\<close>

definition padded :: "nat \<Rightarrow> nat" where
  "padded n = (n + 3) div 4 * 4"

definition tlv :: "u16 \<times> bytes \<Rightarrow> bytes" where
  "tlv a = write_u16 (fst a) @ write_u16 (of_nat (length (snd a))) @ snd a @ replicate (padded (length (snd a)) - length (snd a)) 0"

definition attr_ok :: "u16 \<times> bytes \<Rightarrow> bool" where
  "attr_ok a \<longleftrightarrow> length (snd a) \<le> 65532"

lemma padded_ge: "n \<le> padded n" "padded n < n + 4" "padded n mod 4 = 0"
  unfolding padded_def by presburger+

lemma length_tlv [simp]: "length (tlv a) = 4 + padded (length (snd a))"
  using padded_ge(1) [of "length (snd a)"] by (simp add: tlv_def)

lemma pad4_nat: "n \<le> 65532 \<Longrightarrow> unat (pad4 (of_nat n)) = padded n"
proof -
  assume n: "n \<le> 65532"
  have "w AND NOT (mask 2) = push_bit 2 (drop_bit 2 w)" for w :: u16
  proof (rule bit_word_eqI)
    fix k assume k: "k < LENGTH(16)"
    show "bit (w AND NOT (mask 2)) k = bit (push_bit 2 (drop_bit 2 w)) k"
    proof (cases "k < 2")
      case False
      then obtain j where "k = 2 + j" by (metis le_Suc_ex not_le)
      then show ?thesis using k by (simp add: bit_and_iff bit_not_iff bit_push_bit_iff bit_drop_bit_eq bit_mask_iff)
    qed (use k in \<open>simp add: bit_and_iff bit_not_iff bit_push_bit_iff bit_mask_iff\<close>)
  qed
  moreover have "mask 2 = (3 :: u16)" by (simp add: mask_eq_exp_minus_1)
  ultimately have "w AND NOT 3 = push_bit 2 (drop_bit 2 w)" for w :: u16 by metis
  then have p: "pad4 (of_nat n) = push_bit 2 (drop_bit 2 (of_nat (n + 3)))" unfolding pad4_def by simp
  have "unat (of_nat (n + 3) :: u16) = n + 3" using n by (simp only: unat_of_nat) simp
  then have d: "unat (drop_bit 2 (of_nat (n + 3) :: u16)) = (n + 3) div 4" by (simp add: unat_drop_bit)
  have "(n + 3) div 4 * 4 < 65536" using n by presburger
  then show ?thesis unfolding p push_bit_eq_mult padded_def using d by (simp add: unat_word_ariths)
qed

lemma append_attr_tlv:
  assumes "length v \<le> 65532" "n = of_nat (length v)"
  shows "append_attr buf cap t v n =
    (if length buf + length (tlv (t, v)) > cap then Some (Inl RTC_ERR_NOMEM) else Some (Inr (buf @ tlv (t, v))))"
proof -
  have u: "unat n = length v" using assms by (simp add: unat_of_nat)
  have "unat (pad4 n) = padded (length v)" using pad4_nat [OF assms(1)] assms(2) by simp
  then show ?thesis using u padded_ge(1) [of "length v"] assms(2)
    by (simp add: append_attr_def Let_def tlv_def)
qed

subsection \<open>The walkers\<close>

lemma tlv_head:
  assumes "length pre = pos" "attr_ok a"
  shows "rd16 (pre @ tlv a @ rest) pos = Some (fst a)" "rd16 (pre @ tlv a @ rest) (pos + 2) = Some (of_nat (length (snd a)))"
    "pos + 4 + unat (of_nat (length (snd a)) :: u16) \<le> length (pre @ tlv a @ rest)"
    "pos + 4 + unat (pad4 (of_nat (length (snd a)))) = length (pre @ tlv a)"
    "rd_bytes (pre @ tlv a @ rest) (pos + 4) (length (snd a)) = Some (snd a)"
proof -
  let ?n = "length (snd a)"
  have u: "unat (of_nat ?n :: u16) = ?n" using assms(2) by (simp add: unat_of_nat attr_ok_def)
  show "rd16 (pre @ tlv a @ rest) pos = Some (fst a)" unfolding tlv_def append_assoc by (rule rd16_at [OF assms(1)])
  show "rd16 (pre @ tlv a @ rest) (pos + 2) = Some (of_nat ?n)"
    using rd16_at [of "pre @ write_u16 (fst a)" "pos + 2"] assms(1) by (simp add: tlv_def)
  show "pos + 4 + unat (of_nat ?n :: u16) \<le> length (pre @ tlv a @ rest)"
    using assms(1) padded_ge(1) [of ?n] unfolding u by simp
  show "pos + 4 + unat (pad4 (of_nat ?n)) = length (pre @ tlv a)"
    using assms pad4_nat [of ?n] by (simp add: attr_ok_def)
  show "rd_bytes (pre @ tlv a @ rest) (pos + 4) ?n = Some (snd a)"
    using rd_bytes_at [of "pre @ write_u16 (fst a) @ write_u16 (of_nat ?n)" "pos + 4" "snd a" ?n] assms(1) by (simp add: tlv_def)
qed

lemma find_attr_loop_step:
  assumes "length pre = pos" "attr_ok a"
  shows "find_attr_loop (pre @ tlv a @ rest) t pos =
    (if fst a = t then Some (Some (pos + 4, of_nat (length (snd a)))) else find_attr_loop (pre @ tlv a @ rest) t (length (pre @ tlv a)))"
proof -
  have "pos + 4 \<le> length (pre @ tlv a @ rest)" using assms(1) by simp
  then show ?thesis
    by (subst find_attr_loop.simps) (simp only: if_True bind.bind_lunit not_less [symmetric] if_False
      tlv_head(1,2,3) [OF assms, of rest, folded not_less] tlv_head(4) [OF assms] HOL.simp_thms)
qed

definition wire :: "(u16 \<times> bytes) list \<Rightarrow> bytes" where
  "wire attrs = concat (map tlv attrs)"

lemma wire_simps [simp]: "wire [] = []" "wire (a # attrs) = tlv a @ wire attrs" "wire (xs @ ys) = wire xs @ wire ys"
  by (simp_all add: wire_def)

lemma length_wire_mod: "length (wire attrs) mod 4 = 0"
  using padded_ge(3) by (induction attrs) (simp_all add: mod_add_eq [symmetric, of _ "length (wire _)"])

lemma find_attr_loop_wire:
  assumes "length pre = pos" "\<forall>a \<in> set attrs. attr_ok a"
  shows "case map_of attrs t of
      None \<Rightarrow> find_attr_loop (pre @ wire attrs) t pos = Some None
    | Some v \<Rightarrow> \<exists>A B. find_attr_loop (pre @ wire attrs) t pos = Some (Some (length A, of_nat (length v))) \<and>
        length v \<le> 65532 \<and> pre @ wire attrs = A @ v @ B"
  using assms
proof (induction attrs arbitrary: pre pos)
  case Nil
  then show ?case by (subst find_attr_loop.simps) simp
next
  case (Cons a attrs)
  have ok: "attr_ok a" "\<forall>a \<in> set attrs. attr_ok a" using Cons.prems(2) by simp_all
  note step = find_attr_loop_step [OF Cons.prems(1) ok(1), of "wire attrs" t]
  show ?case
  proof (cases "fst a = t")
    case True
    let ?A = "pre @ write_u16 (fst a) @ write_u16 (of_nat (length (snd a)))"
    have "map_of (a # attrs) t = Some (snd a)" using True by (cases a) simp
    moreover have "find_attr_loop (pre @ wire (a # attrs)) t pos = Some (Some (length ?A, of_nat (length (snd a))))"
      using step True Cons.prems(1) by simp
    moreover have "\<exists>B. pre @ wire (a # attrs) = ?A @ snd a @ B" by (simp add: tlv_def)
    ultimately show ?thesis using ok(1) unfolding attr_ok_def by (simp only: option.case) blast
  next
    case False
    then have m: "map_of (a # attrs) t = map_of attrs t" by (cases a) simp
    have s: "find_attr_loop (pre @ wire (a # attrs)) t pos = find_attr_loop ((pre @ tlv a) @ wire attrs) t (length (pre @ tlv a))"
      using step False by simp
    have w: "pre @ wire (a # attrs) = (pre @ tlv a) @ wire attrs" by simp
    show ?thesis unfolding m s unfolding w by (rule Cons.IH [OF refl ok(2)])
  qed
qed

text \<open>A message: its header over a list of attributes.\<close>

definition stun_bytes :: "u16 \<Rightarrow> bytes \<Rightarrow> (u16 \<times> bytes) list \<Rightarrow> bytes" where
  "stun_bytes type txn attrs =
    write_u16 type @ write_u16 (of_nat (length (wire attrs))) @ write_u32 STUN_MAGIC_COOKIE @ txn @ wire attrs"

definition stun_msg :: "u16 \<Rightarrow> bytes \<Rightarrow> (u16 \<times> bytes) list \<Rightarrow> rtc_stun_msg" where
  "stun_msg type txn attrs = \<lparr>sm_type = type, sm_length = of_nat (length (wire attrs)), sm_txn_id = txn,
     sm_buf = stun_bytes type txn attrs\<rparr>"

lemma length_stun_bytes [simp]: "length txn = 12 \<Longrightarrow> length (stun_bytes type txn attrs) = 20 + length (wire attrs)"
  by (simp add: stun_bytes_def)

lemma stun_bytes_split:
  "stun_bytes type txn attrs =
    (write_u16 type @ write_u16 (of_nat (length (wire attrs))) @ write_u32 STUN_MAGIC_COOKIE @ txn) @ wire attrs"
  by (simp add: stun_bytes_def)

lemma parse_stun_bytes:
  assumes "length txn = 12" "20 + length (wire attrs) \<le> 1500"
  shows "rtc_stun_parse (stun_bytes type txn attrs) = Some (Inr (stun_msg type txn attrs))"
proof -
  let ?d = "stun_bytes type txn attrs"
  have u: "unat (of_nat (length (wire attrs)) :: u16) = length (wire attrs)" using assms(2) by (simp add: unat_of_nat)
  have len: "length ?d = 20 + length (wire attrs)" using assms(1) by simp
  have "rd16 ?d 0 = Some type" unfolding stun_bytes_def using rd16_at [of "[]" 0] by simp
  moreover have "rd16 ?d 2 = Some (of_nat (length (wire attrs)))" unfolding stun_bytes_def
    using rd16_at [of "write_u16 type" 2] by simp
  moreover have "rd32 ?d 4 = Some STUN_MAGIC_COOKIE" unfolding stun_bytes_def
    using rd32_at [of "write_u16 type @ write_u16 (of_nat (length (wire attrs)))" 4] by simp
  moreover have "rd_bytes ?d 8 12 = Some txn" unfolding stun_bytes_def
    using rd_bytes_at [of "write_u16 type @ write_u16 (of_nat (length (wire attrs))) @ write_u32 STUN_MAGIC_COOKIE" 8 txn 12] assms(1)
    by simp
  moreover have "rd_bytes ?d 0 (20 + length (wire attrs)) = Some ?d" using rd_bytes_at [of "[]" 0 ?d _ "[]"] len by simp
  ultimately show ?thesis using len u assms(2) unfolding rtc_stun_parse_def stun_msg_def
    by (simp add: stun_sizes del: rd16_in rd32_in rd_bytes_in)
qed

text \<open>What a client reads of an attribute.\<close>

definition attr_value :: "rtc_stun_msg \<Rightarrow> u16 \<Rightarrow> bytes option option" where
  "attr_value msg t =
    do { f \<leftarrow> rtc_stun_find_attr msg t;
         case f of None \<Rightarrow> Some None
         | Some (pos, alen) \<Rightarrow> do { v \<leftarrow> rd_bytes (sm_buf msg) pos (unat alen); Some (Some v) } }"

lemma find_attr_msg:
  assumes "length txn = 12" "\<forall>a \<in> set attrs. attr_ok a"
  shows "map_of attrs t = None \<Longrightarrow> rtc_stun_find_attr (stun_msg type txn attrs) t = Some None"
    "map_of attrs t = Some v \<Longrightarrow> \<exists>A B. rtc_stun_find_attr (stun_msg type txn attrs) t = Some (Some (length A, of_nat (length v))) \<and>
      length v \<le> 65532 \<and> sm_buf (stun_msg type txn attrs) = A @ v @ B"
proof -
  have len: "length (write_u16 type @ write_u16 (of_nat (length (wire attrs))) @ write_u32 STUN_MAGIC_COOKIE @ txn) = 20"
    using assms(1) by simp
  have f: "rtc_stun_find_attr (stun_msg type txn attrs) t = find_attr_loop (stun_bytes type txn attrs) t 20"
    and b: "sm_buf (stun_msg type txn attrs) = stun_bytes type txn attrs"
    by (simp_all add: rtc_stun_find_attr_def stun_msg_def STUN_HEADER_SIZE_def)
  note w = find_attr_loop_wire [OF len assms(2), of t, folded stun_bytes_split]
  show "map_of attrs t = None \<Longrightarrow> rtc_stun_find_attr (stun_msg type txn attrs) t = Some None" using w f by simp
  show "map_of attrs t = Some v \<Longrightarrow> \<exists>A B. rtc_stun_find_attr (stun_msg type txn attrs) t = Some (Some (length A, of_nat (length v))) \<and>
      length v \<le> 65532 \<and> sm_buf (stun_msg type txn attrs) = A @ v @ B" using w unfolding f b by simp
qed

lemma attr_value_msg:
  assumes "length txn = 12" "\<forall>a \<in> set attrs. attr_ok a"
  shows "attr_value (stun_msg type txn attrs) t = Some (map_of attrs t)"
proof (cases "map_of attrs t")
  case None
  then show ?thesis using find_attr_msg(1) [OF assms] by (simp add: attr_value_def)
next
  case (Some v)
  from find_attr_msg(2) [OF assms Some]
  obtain A B where f: "rtc_stun_find_attr (stun_msg type txn attrs) t = Some (Some (length A, of_nat (length v)))"
    "length v \<le> 65532" "sm_buf (stun_msg type txn attrs) = A @ v @ B" by blast
  have "unat (of_nat (length v) :: u16) = length v" using f(2) by (simp add: unat_of_nat)
  then show ?thesis using f rd_bytes_at [of A "length A" v "length v" B] Some
    by (simp add: attr_value_def del: rd_bytes_in)
qed

end
