(* ===== verification/Stun_Messages.thy ===== *)
theory Stun_Messages
  imports Stun_Attrs
begin

text \<open>
  Whole STUN messages: what the builders of \<^verbatim>\<open>rtc_stun.c\<close> produce is a header over a list of attributes
  closed by its integrity and fingerprint attributes, and what is built parses, verifies and reads back.
\<close>

subsection \<open>Sealing a list of attributes\<close>

definition stun_head :: "u16 \<Rightarrow> u16 \<Rightarrow> bytes \<Rightarrow> bytes" where
  "stun_head type len txn = write_u16 type @ write_u16 len @ write_u32 STUN_MAGIC_COOKIE @ txn"

definition mi_attr :: "(bytes \<Rightarrow> bytes \<Rightarrow> bytes) \<Rightarrow> bytes \<Rightarrow> u16 \<Rightarrow> bytes \<Rightarrow> (u16 \<times> bytes) list \<Rightarrow> u16 \<times> bytes" where
  "mi_attr hmac key type txn attrs =
    (STUN_ATTR_MESSAGE_INTEGRITY, hmac key (stun_head type (of_nat (length (wire attrs) + 24)) txn @ wire attrs))"

definition fp_attr :: "u16 \<Rightarrow> bytes \<Rightarrow> (u16 \<times> bytes) list \<Rightarrow> u16 \<times> bytes" where
  "fp_attr type txn attrs =
    (STUN_ATTR_FINGERPRINT, write_u32 (crc32_calc (stun_head type (of_nat (length (wire attrs) + 8)) txn @ wire attrs) XOR 0x5354554E))"

definition with_mi :: "(bytes \<Rightarrow> bytes \<Rightarrow> bytes) \<Rightarrow> bytes option \<Rightarrow> u16 \<Rightarrow> bytes \<Rightarrow> (u16 \<times> bytes) list \<Rightarrow> (u16 \<times> bytes) list" where
  "with_mi hmac key type txn attrs = attrs @ (case key of None \<Rightarrow> [] | Some k \<Rightarrow> [mi_attr hmac k type txn attrs])"

definition seal :: "(bytes \<Rightarrow> bytes \<Rightarrow> bytes) \<Rightarrow> bytes option \<Rightarrow> u16 \<Rightarrow> bytes \<Rightarrow> (u16 \<times> bytes) list \<Rightarrow> (u16 \<times> bytes) list" where
  "seal hmac key type txn attrs = (let as = with_mi hmac key type txn attrs in as @ [fp_attr type txn as])"

lemma length_fp_attr [simp]: "length (snd (fp_attr type txn attrs)) = 4"
  by (simp add: fp_attr_def)

lemma stun_bytes_head: "stun_bytes type txn attrs = stun_head type (of_nat (length (wire attrs))) txn @ wire attrs"
  by (simp add: stun_bytes_def stun_head_def)

lemma length_stun_head [simp]: "length txn = 12 \<Longrightarrow> length (stun_head type len txn) = 20"
  by (simp add: stun_head_def)

lemma put_header_head: "length h = 20 \<Longrightarrow> put_header type len txn (h @ w) = stun_head type len txn @ w"
  by (simp add: put_header_def stun_head_def STUN_HEADER_SIZE_def)

lemma put_length_head: "put_length len (stun_head type l txn @ w) = stun_head type len txn @ w"
  by (simp add: put_length_def stun_head_def write_u16_def)

lemma padded_values [simp]: "padded 0 = 0" "padded 4 = 4" "padded 8 = 8" "padded 20 = 20"
  by (simp_all add: padded_def)

lemma append_fit:
  assumes "length buf + 4 + padded (length v) \<le> cap" "n = of_nat (length v)" "cap \<le> 65532"
  shows "append_attr buf cap t v n = Some (Inr (buf @ tlv (t, v)))"
proof -
  have "length v \<le> 65532" using assms(1,3) padded_ge(1) [of "length v"] by simp
  then show ?thesis using append_attr_tlv [OF _ assms(2), of buf cap t] assms(1) by simp
qed

lemma with_mi_length:
  assumes "\<And>k d. length (hmac k d) = 20"
  shows "length (wire (with_mi hmac key type txn attrs)) = length (wire attrs) + (if key = None then 0 else 24)"
  using assms by (simp add: with_mi_def mi_attr_def split: option.split)

lemma seal_length:
  assumes "\<And>k d. length (hmac k d) = 20"
  shows "length (wire (seal hmac key type txn attrs)) = length (wire attrs) + (if key = None then 8 else 32)"
  using with_mi_length [OF assms] by (simp add: seal_def Let_def fp_attr_def)

lemma seal_ok:
  assumes "\<And>k d. length (hmac k d) = 20" "\<forall>a \<in> set attrs. attr_ok a"
  shows "\<forall>a \<in> set (seal hmac key type txn attrs). attr_ok a"
  using assms by (auto simp: seal_def Let_def with_mi_def fp_attr_def mi_attr_def attr_ok_def split: option.splits)

lemma seal_lookup:
  assumes "t \<noteq> STUN_ATTR_MESSAGE_INTEGRITY" "t \<noteq> STUN_ATTR_FINGERPRINT"
  shows "map_of (seal hmac key type txn attrs) t = map_of attrs t"
  using assms by (auto simp: seal_def Let_def with_mi_def fp_attr_def mi_attr_def map_add_def split: option.splits)

lemma wire_attr_ok: "length (wire attrs) \<le> 65532 \<Longrightarrow> \<forall>a \<in> set attrs. attr_ok a"
proof (induction attrs)
  case (Cons a attrs)
  then show ?case using padded_ge(1) [of "length (snd a)"] by (simp add: attr_ok_def)
qed simp

text \<open>The two closing steps both builders share.\<close>

lemma append_mi:
  assumes "\<And>k d. length (hmac k d) = 20" "length txn = 12" "length (wire attrs) + 44 \<le> 1500"
  shows "append_attr (stun_head type (of_nat (length (wire attrs) + 24)) txn @ wire attrs) 1500 STUN_ATTR_MESSAGE_INTEGRITY
     (hmac k (stun_head type (of_nat (length (wire attrs) + 24)) txn @ wire attrs)) 20 =
    Some (Inr (stun_head type (of_nat (length (wire attrs) + 24)) txn @ wire (with_mi hmac (Some k) type txn attrs)))"
  by (subst append_fit) (use assms in \<open>simp_all add: with_mi_def mi_attr_def\<close>)

lemma append_fp:
  assumes "length txn = 12" "length (wire attrs) + 28 \<le> 1500"
  shows "append_attr (stun_head type (of_nat (length (wire attrs) + 8)) txn @ wire attrs) 1500 STUN_ATTR_FINGERPRINT
     (write_u32 (crc32_calc (stun_head type (of_nat (length (wire attrs) + 8)) txn @ wire attrs) XOR 0x5354554E)) 4 =
    Some (Inr (stun_bytes type txn (attrs @ [fp_attr type txn attrs])))"
  by (subst append_fit) (use assms in \<open>simp_all add: fp_attr_def stun_bytes_head\<close>)

subsection \<open>The builders\<close>

definition ice_attrs :: "bytes option \<Rightarrow> u32 \<Rightarrow> bool \<Rightarrow> u64 \<Rightarrow> bool \<Rightarrow> (u16 \<times> bytes) list" where
  "ice_attrs username priority use_candidate tie_breaker controlling =
    (case username of None \<Rightarrow> [] | Some u \<Rightarrow> [(STUN_ATTR_USERNAME, u)]) @
    (if priority > 0 then [(STUN_ATTR_PRIORITY, write_u32 priority)] else []) @
    (if use_candidate then [(STUN_ATTR_USE_CANDIDATE, [])] else []) @
    (if tie_breaker > 0 then [(if controlling then STUN_ATTR_ICE_CONTROLLING else STUN_ATTR_ICE_CONTROLLED, write_u64 tie_breaker)] else [])"

lemma stun_then_Inr [simp]: "stun_then (Some (Inr x)) f = f x"
  by (simp add: stun_then_def)

lemma stun_then_Inl [simp]: "stun_then (Some (Inl e)) f = Some (Inl e)"
  by (simp add: stun_then_def)

lemma append_if_wire:
  assumes "length h = 20" "20 + length (wire (attrs @ (if c then [(t, v)] else []))) \<le> 1500" "n = of_nat (length v)"
  shows "append_if c (h @ wire attrs) t v n = Some (Inr (h @ wire (attrs @ (if c then [(t, v)] else []))))"
  using assms by (cases c) (simp_all add: append_if_def STUN_MAX_MSG_SIZE_def append_fit)

lemma build_binding_request_seal:
  assumes hmac: "\<And>k d. length (hmac k d) = 20" and txn: "length txn = 12"
    and fit: "length (wire (ice_attrs username priority use_candidate tie_breaker controlling)) \<le> 1448"
  shows "rtc_stun_build_binding_request hmac txn username password priority use_candidate tie_breaker controlling =
    Some (Inr (stun_msg STUN_BINDING_REQUEST txn (seal hmac password STUN_BINDING_REQUEST txn
      (ice_attrs username priority use_candidate tie_breaker controlling))))"
proof -
  let ?h = "replicate 20 (0 :: u8)" and ?T = STUN_BINDING_REQUEST
  define a1 where "a1 = (case username of None \<Rightarrow> [] | Some u \<Rightarrow> [(STUN_ATTR_USERNAME, u)])"
  define a2 where "a2 = a1 @ (if priority > 0 then [(STUN_ATTR_PRIORITY, write_u32 priority)] else [])"
  define a3 where "a3 = a2 @ (if use_candidate then [(STUN_ATTR_USE_CANDIDATE, [] :: bytes)] else [])"
  define a4 where "a4 = a3 @ (if tie_breaker > 0 then
    [(if controlling then STUN_ATTR_ICE_CONTROLLING else STUN_ATTR_ICE_CONTROLLED, write_u64 tie_breaker)] else [])"
  have a4: "ice_attrs username priority use_candidate tie_breaker controlling = a4"
    unfolding ice_attrs_def a4_def a3_def a2_def a1_def by simp
  have l4: "length (wire a4) \<le> 1448" using fit a4 by simp
  then have l3: "length (wire a3) \<le> 1448" unfolding a4_def by simp
  then have l2: "length (wire a2) \<le> 1448" unfolding a3_def by simp
  then have l1: "length (wire a1) \<le> 1448" unfolding a2_def by simp
  have s1: "(case username of None \<Rightarrow> Some (Inr ?h) | Some u \<Rightarrow> append_attr ?h 1500 STUN_ATTR_USERNAME u (of_nat (length u))) =
      Some (Inr (?h @ wire a1))"
    using l1 unfolding a1_def by (cases username) (simp_all add: append_fit)
  have s2: "append_if (priority > 0) (?h @ wire a1) STUN_ATTR_PRIORITY (write_u32 priority) 4 = Some (Inr (?h @ wire a2))"
    unfolding a2_def by (rule append_if_wire) (use l2 in \<open>simp_all add: a2_def\<close>)
  have s3: "append_if use_candidate (?h @ wire a2) STUN_ATTR_USE_CANDIDATE [] 0 = Some (Inr (?h @ wire a3))"
    unfolding a3_def by (rule append_if_wire) (use l3 in \<open>simp_all add: a3_def\<close>)
  have s4: "append_if (tie_breaker > 0) (?h @ wire a3) (if controlling then STUN_ATTR_ICE_CONTROLLING else STUN_ATTR_ICE_CONTROLLED)
      (write_u64 tie_breaker) 8 = Some (Inr (?h @ wire a4))"
    unfolding a4_def by (rule append_if_wire) (use l4 in \<open>simp_all add: a4_def\<close>)
  obtain h where h: "length h = 20"
    and s5: "(case password of None \<Rightarrow> Some (Inr (?h @ wire a4)) | Some pw \<Rightarrow>
        let buf = put_header ?T (of_nat (length (?h @ wire a4) - 20 + 24)) txn (?h @ wire a4)
        in append_attr buf 1500 STUN_ATTR_MESSAGE_INTEGRITY (hmac pw buf) 20) = Some (Inr (h @ wire (with_mi hmac password ?T txn a4)))"
  proof (cases password)
    case None
    then show ?thesis using that [of ?h] by (simp add: with_mi_def)
  next
    case (Some pw)
    show ?thesis
      by (rule that [of "stun_head ?T (of_nat (length (wire a4) + 24)) txn"])
        (use Some append_mi [of hmac txn a4 ?T pw] hmac txn l4 in \<open>simp_all add: put_header_head Let_def\<close>)
  qed
  let ?w = "with_mi hmac password ?T txn a4"
  have lw: "length (wire ?w) + 28 \<le> 1500" using with_mi_length [of hmac password ?T txn a4, OF hmac] l4 by simp
  have s6: "(let buf = put_header ?T (of_nat (length (h @ wire ?w) - 20 + 8)) txn (h @ wire ?w)
      in append_attr buf 1500 STUN_ATTR_FINGERPRINT (write_u32 (crc32_calc buf XOR 0x5354554E)) 4) =
      Some (Inr (stun_bytes ?T txn (seal hmac password ?T txn a4)))"
    using append_fp [OF txn lw, of ?T] h by (simp add: put_header_head seal_def Let_def)
  have fin: "put_header ?T (of_nat (length (wire as))) txn (stun_bytes ?T txn as) = stun_bytes ?T txn as" for as
    unfolding stun_bytes_head by (rule put_header_head) (simp add: txn)
  show ?thesis
    unfolding rtc_stun_build_binding_request_def stun_sizes s1 stun_then_Inr s2 s3 s4 s5 s6 a4
    by (simp add: Let_def txn stun_msg_def fin)
qed

subsection \<open>Message integrity\<close>

lemma verify_loop_skip:
  assumes "length pre = pos" "\<forall>a \<in> set attrs. attr_ok a \<and> fst a \<noteq> STUN_ATTR_MESSAGE_INTEGRITY"
    "length (pre @ wire attrs) \<le> fin"
  shows "verify_loop hmac key (pre @ wire attrs @ rest) fin pos = verify_loop hmac key (pre @ wire attrs @ rest) fin (length (pre @ wire attrs))"
  using assms
proof (induction attrs arbitrary: pre pos)
  case (Cons a attrs)
  have a: "attr_ok a" "fst a \<noteq> STUN_ATTR_MESSAGE_INTEGRITY" using Cons.prems(2) by simp_all
  have fin: "pos + 4 \<le> fin" using Cons.prems(1,3) by simp
  let ?d = "pre @ tlv a @ wire attrs @ rest"
  have "verify_loop hmac key ?d fin pos = verify_loop hmac key ?d fin (length (pre @ tlv a))"
    by (subst verify_loop.simps) (simp only: fin a(2) if_True if_False bind.bind_lunit
      tlv_head(1,2) [OF Cons.prems(1) a(1), of "wire attrs @ rest"] tlv_head(4) [OF Cons.prems(1) a(1)])
  also have "\<dots> = verify_loop hmac key ?d fin (length ((pre @ tlv a) @ wire attrs))"
    using Cons.IH [of "pre @ tlv a" "length (pre @ tlv a)"] Cons.prems(2,3) by simp
  finally show ?case by simp
qed simp

lemma verify_seal:
  assumes hmac: "\<And>k d. length (hmac k d) = 20" and txn: "length txn = 12"
    and attrs: "\<forall>a \<in> set attrs. fst a \<noteq> STUN_ATTR_MESSAGE_INTEGRITY" and fit: "length (wire attrs) \<le> 1448"
  shows "rtc_stun_verify_integrity_key hmac (stun_bytes type txn (seal hmac (Some key) type txn attrs)) key' =
    Some (if hmac key' (stun_head type (of_nat (length (wire attrs) + 24)) txn @ wire attrs) =
             hmac key (stun_head type (of_nat (length (wire attrs) + 24)) txn @ wire attrs) then RTC_OK else RTC_ERR_INVALID)"
proof -
  let ?s = "seal hmac (Some key) type txn attrs" and ?n = "length (wire attrs)"
  let ?w = "with_mi hmac (Some key) type txn attrs"
  define h where "h = stun_head type (of_nat (length (wire ?s))) txn"
  define m where "m = mi_attr hmac key type txn attrs"
  define rest where "rest = tlv (fp_attr type txn ?w)"
  define data where "data = h @ wire attrs @ tlv m @ rest"
  have ls: "length (wire ?s) = ?n + 32" using seal_length [of hmac "Some key" type txn attrs, OF hmac] by simp
  have h: "length h = 20" using txn by (simp add: h_def)
  have d: "stun_bytes type txn ?s = data"
    by (simp add: stun_bytes_head data_def h_def rest_def m_def seal_def with_mi_def Let_def)
  have ld: "length data = ?n + 52" using d ls txn by (simp flip: d)
  have ok: "\<forall>a \<in> set attrs. attr_ok a \<and> fst a \<noteq> STUN_ATTR_MESSAGE_INTEGRITY" using wire_attr_ok [of attrs] fit attrs by simp
  have mok: "attr_ok m" and ml: "length (snd m) = 20" and mt: "fst m = STUN_ATTR_MESSAGE_INTEGRITY"
    using hmac by (simp_all add: m_def mi_attr_def attr_ok_def)
  have r2: "rd16 data 2 = Some (of_nat (?n + 32))"
    using rd16_at [of "write_u16 type" 2] unfolding data_def h_def stun_head_def ls by simp
  have u: "unat (of_nat (?n + 32) :: u16) = ?n + 32" using fit by (simp only: unat_of_nat) simp
  have skip: "verify_loop hmac key' data (?n + 52) 20 = verify_loop hmac key' data (?n + 52) (20 + ?n)"
    using verify_loop_skip [OF h ok, of "?n + 52" hmac key' "tlv m @ rest"] h by (simp add: data_def)
  have pre: "length (h @ wire attrs) = 20 + ?n" using h by simp
  note mh = tlv_head(1,2) [OF pre mok, of rest, unfolded append_assoc, folded data_def, unfolded mt ml]
    tlv_head(5) [OF pre mok, of rest, unfolded append_assoc, folded data_def, unfolded ml]
  have tmp: "rd_bytes data 0 (20 + ?n) = Some (h @ wire attrs)"
    using rd_bytes_at [of "[]" 0 "h @ wire attrs" "20 + ?n" "tlv m @ rest"] pre by (simp add: data_def)
  have "put_length (of_nat (20 + ?n - 20 + 24)) (h @ wire attrs) = stun_head type (of_nat (?n + 24)) txn @ wire attrs"
    unfolding h_def put_length_head by simp
  moreover have "snd m = hmac key (stun_head type (of_nat (?n + 24)) txn @ wire attrs)" by (simp add: m_def mi_attr_def)
  ultimately have "verify_loop hmac key' data (?n + 52) (20 + ?n) =
      Some (if hmac key' (stun_head type (of_nat (?n + 24)) txn @ wire attrs) =
               hmac key (stun_head type (of_nat (?n + 24)) txn @ wire attrs) then RTC_OK else RTC_ERR_INVALID)"
    using fit mh tmp by (subst verify_loop.simps) (simp add: stun_sizes del: rd16_in rd_bytes_in)
  moreover have "min (20 + (?n + 32)) (length data) = ?n + 52" "(length data < 20 + 24) = False" unfolding ld by simp_all
  ultimately show ?thesis unfolding d rtc_stun_verify_integrity_key_def stun_sizes r2 bind.bind_lunit u
    by (simp only: if_False skip)
qed

subsection \<open>TURN requests\<close>

datatype turn_attr = Transport u8 | Lifetime u32 | Peer u16 u32 | Channel u16 | Username bytes | Realm bytes | Nonce bytes

fun turn_add :: "rtc_stun_msg \<Rightarrow> turn_attr \<Rightarrow> (rtc_err + rtc_stun_msg) option" where
  "turn_add msg (Transport p) = rtc_stun_add_requested_transport msg p"
| "turn_add msg (Lifetime s) = rtc_stun_add_lifetime msg s"
| "turn_add msg (Peer port ip) = rtc_stun_add_xor_peer_address msg (Addr_In port ip)"
| "turn_add msg (Channel c) = rtc_stun_add_channel_number msg c"
| "turn_add msg (Username u) = rtc_stun_add_username msg u"
| "turn_add msg (Realm r) = rtc_stun_add_realm msg r"
| "turn_add msg (Nonce n) = rtc_stun_add_nonce msg n"

fun turn_adds :: "rtc_stun_msg \<Rightarrow> turn_attr list \<Rightarrow> (rtc_err + rtc_stun_msg) option" where
  "turn_adds msg [] = Some (Inr msg)"
| "turn_adds msg (a # as) = stun_then (turn_add msg a) (\<lambda>msg. turn_adds msg as)"

text \<open>A masked address, and the attribute each call stands for.\<close>

definition xor_addr :: "u16 \<Rightarrow> u32 \<Rightarrow> bytes" where
  "xor_addr port ip = [0, 1] @ write_u16 (port XOR ucast (drop_bit 16 STUN_MAGIC_COOKIE)) @ write_u32 (ip XOR STUN_MAGIC_COOKIE)"

fun turn_tlv :: "turn_attr \<Rightarrow> u16 \<times> bytes" where
  "turn_tlv (Transport p) = (STUN_ATTR_REQUESTED_TRANSPORT, [p, 0, 0, 0])"
| "turn_tlv (Lifetime s) = (STUN_ATTR_LIFETIME, write_u32 s)"
| "turn_tlv (Peer port ip) = (STUN_ATTR_XOR_PEER_ADDRESS, xor_addr port ip)"
| "turn_tlv (Channel c) = (STUN_ATTR_CHANNEL_NUMBER, write_u16 c @ write_u16 0)"
| "turn_tlv (Username u) = (STUN_ATTR_USERNAME, u)"
| "turn_tlv (Realm r) = (STUN_ATTR_REALM, r)"
| "turn_tlv (Nonce n) = (STUN_ATTR_NONCE, n)"

lemma put_length_msg:
  "put_length (of_nat (length (wire as))) (stun_head type l txn @ wire as) = stun_bytes type txn as"
  by (simp add: put_length_head stun_bytes_head)

lemma msg_add_wire:
  assumes "length txn = 12" "20 + length (wire (attrs @ [(t, v)])) \<le> 1500" "n = of_nat (length v)"
  shows "msg_add (stun_msg type txn attrs) t v n = Some (Inr (stun_msg type txn (attrs @ [(t, v)])))"
proof -
  have "append_attr (stun_bytes type txn attrs) 1500 t v n = Some (Inr (stun_bytes type txn attrs @ tlv (t, v)))"
    by (rule append_fit) (use assms in simp_all)
  then show ?thesis
    using assms(1) unfolding stun_bytes_head
    by (simp add: msg_add_def msg_append_attr_def msg_update_header_def stun_msg_def stun_sizes stun_bytes_head Let_def
      put_length_head add_ac)
qed

lemma turn_add_wire:
  assumes "length txn = 12" "20 + length (wire (attrs @ [turn_tlv a])) \<le> 1500"
  shows "turn_add (stun_msg type txn attrs) a = Some (Inr (stun_msg type txn (attrs @ [turn_tlv a])))"
proof -
  have "msg_add (stun_msg type txn attrs) (fst (turn_tlv a)) (snd (turn_tlv a)) (of_nat (length (snd (turn_tlv a)))) =
      Some (Inr (stun_msg type txn (attrs @ [turn_tlv a])))"
    using msg_add_wire [OF assms(1), of attrs "fst (turn_tlv a)" "snd (turn_tlv a)"] assms(2) by simp
  then show ?thesis
    by (cases a) (simp_all add: rtc_stun_add_requested_transport_def rtc_stun_add_lifetime_def rtc_stun_add_xor_peer_address_def
      rtc_stun_add_channel_number_def rtc_stun_add_username_def rtc_stun_add_realm_def rtc_stun_add_nonce_def xor_addr_def)
qed

lemma turn_adds_wire:
  "length txn = 12 \<Longrightarrow> 20 + length (wire (attrs @ map turn_tlv as)) \<le> 1500 \<Longrightarrow>
    turn_adds (stun_msg type txn attrs) as = Some (Inr (stun_msg type txn (attrs @ map turn_tlv as)))"
proof (induction as arbitrary: attrs)
  case (Cons a as)
  then show ?case using turn_add_wire [of txn attrs a type] Cons.IH [of "attrs @ [turn_tlv a]"] by simp
qed simp

lemma build_request_msg: "rtc_stun_build_request txn method = stun_msg method txn []"
  by (simp add: rtc_stun_build_request_def stun_msg_def stun_bytes_def put_header_def)

lemma finalize_key_seal:
  assumes hmac: "\<And>k d. length (hmac k d) = 20" and txn: "length txn = 12" and fit: "length (wire attrs) \<le> 1448"
  shows "rtc_stun_finalize_key hmac (stun_msg type txn attrs) key =
    Some (Inr (stun_msg type txn (seal hmac (if key = [] then None else Some key) type txn attrs)))"
proof -
  let ?k = "if key = [] then None else Some key"
  let ?w = "with_mi hmac ?k type txn attrs"
  obtain l where s1: "(if key = [] then Some (Inr (stun_bytes type txn attrs))
      else let buf = put_length (of_nat (length (stun_bytes type txn attrs) - 20 + 24)) (stun_bytes type txn attrs)
        in append_attr buf 1500 STUN_ATTR_MESSAGE_INTEGRITY (hmac key buf) 20) = Some (Inr (stun_head type l txn @ wire ?w))"
  proof (cases "key = []")
    case True
    then show ?thesis using that by (simp add: with_mi_def stun_bytes_head)
  next
    case False
    then show ?thesis using that [of "of_nat (length (wire attrs) + 24)"] append_mi [of hmac txn attrs type key, OF hmac txn] fit txn
      by (simp add: stun_bytes_head put_length_head Let_def)
  qed
  have lw: "length (wire ?w) + 28 \<le> 1500" using with_mi_length [of hmac ?k type txn attrs, OF hmac] fit by simp
  have s2: "(let buf = put_length (of_nat (length (stun_head type l txn @ wire ?w) - 20 + 8)) (stun_head type l txn @ wire ?w)
      in append_attr buf 1500 STUN_ATTR_FINGERPRINT (write_u32 (crc32_calc buf XOR 0x5354554E)) 4) =
      Some (Inr (stun_bytes type txn (seal hmac ?k type txn attrs)))"
    using append_fp [OF txn lw, of type] txn by (simp add: put_length_head seal_def Let_def)
  have fin: "write_u16 type @ write_u16 (of_nat (length (wire as))) @ drop 4 (stun_bytes type txn as) = stun_bytes type txn as" for as
    by (simp add: stun_bytes_def)
  show ?thesis unfolding rtc_stun_finalize_key_def stun_sizes stun_msg_def rtc_stun_msg.simps s1 stun_then_Inr s2
    by (simp add: txn fin Let_def)
qed

end
