(* ===== verification/Stun_Properties.thy ===== *)
theory Stun_Properties
  imports Stun_Messages
begin

text \<open>
  The properties of STUN and TURN: requests that parse, verify and read back, the binding exchange,
  memory safety on arbitrary bytes, and what an accepted integrity attribute means.
\<close>

subsection \<open>Requests\<close>

lemma ice_attrs_length: "length (wire (ice_attrs (Some u) p c t r)) \<le> padded (length u) + 28"
  by (simp add: ice_attrs_def)

lemma ice_attrs_lookup:
  "map_of (ice_attrs (Some u) p c t r) STUN_ATTR_USERNAME = Some u"
  "map_of (ice_attrs (Some u) p c t r) STUN_ATTR_PRIORITY = (if p > 0 then Some (write_u32 p) else None)"
  "map_of (ice_attrs (Some u) p c t r) STUN_ATTR_USE_CANDIDATE = (if c then Some [] else None)"
  "map_of (ice_attrs (Some u) p c t r) STUN_ATTR_ICE_CONTROLLING = (if t > 0 \<and> r then Some (write_u64 t) else None)"
  "map_of (ice_attrs (Some u) p c t r) STUN_ATTR_ICE_CONTROLLED = (if t > 0 \<and> \<not> r then Some (write_u64 t) else None)"
  by (simp_all add: ice_attrs_def stun_attrs)

lemma ice_attrs_no_seal: "\<forall>a \<in> set (ice_attrs u p c t r). fst a \<noteq> STUN_ATTR_MESSAGE_INTEGRITY \<and> fst a \<noteq> STUN_ATTR_FINGERPRINT"
  by (auto simp: ice_attrs_def stun_attrs split: option.splits if_splits)

lemma seal_fingerprint:
  assumes "\<And>k d. length (hmac k d) = 20" "\<forall>a \<in> set attrs. fst a \<noteq> STUN_ATTR_FINGERPRINT" "length txn = 12"
    "b = stun_bytes type txn (seal hmac key type txn attrs)"
  shows "map_of (seal hmac key type txn attrs) STUN_ATTR_FINGERPRINT =
    Some (write_u32 (crc32_calc (take (length b - 8) b) XOR 0x5354554E))"
proof -
  let ?w = "with_mi hmac key type txn attrs"
  have "\<forall>a \<in> set ?w. fst a \<noteq> STUN_ATTR_FINGERPRINT"
    using assms(2) by (auto simp: with_mi_def mi_attr_def stun_attrs split: option.splits)
  then have "map_of ?w STUN_ATTR_FINGERPRINT = None" by (auto simp: map_of_eq_None_iff)
  then have m: "map_of (seal hmac key type txn attrs) STUN_ATTR_FINGERPRINT = Some (snd (fp_attr type txn ?w))"
    by (simp add: seal_def Let_def map_add_def fp_attr_def)
  have l: "length (wire (seal hmac key type txn attrs)) = length (wire ?w) + 8"
    using seal_length [of hmac key type txn attrs, OF assms(1)] with_mi_length [of hmac key type txn attrs, OF assms(1)] by simp
  have b: "b = (stun_head type (of_nat (length (wire ?w) + 8)) txn @ wire ?w) @ tlv (fp_attr type txn ?w)"
    unfolding assms(4) stun_bytes_head l by (simp add: seal_def Let_def)
  have "length (tlv (fp_attr type txn ?w)) = 8" by (simp add: fp_attr_def)
  then have "take (length b - 8) b = stun_head type (of_nat (length (wire ?w) + 8)) txn @ wire ?w"
    unfolding b by simp
  then show ?thesis unfolding m by (simp only: fp_attr_def snd_conv)
qed

text \<open>
  C19. An ICE connectivity check survives the wire: for a user name of at most 1400 bytes, whatever the other
  arguments, the binding request is built, fits the 1500-byte buffer and parses back to itself; its
  user name, priority, nomination and role attributes read back as given, its integrity verifies under
  the same password, and its fingerprint is the checksum of all the bytes before it.
\<close>

theorem stun_request_roundtrip:
  assumes "\<forall>k d. length (hmac k d) = 20" "length txn = 12" "length u \<le> 1400"
  shows "\<exists>msg. rtc_stun_build_binding_request hmac txn (Some u) (Some pw) priority use_candidate tie_breaker controlling = Some (Inr msg) \<and>
    length (sm_buf msg) \<le> 1500 \<and> rtc_stun_parse (sm_buf msg) = Some (Inr msg) \<and>
    sm_type msg = STUN_BINDING_REQUEST \<and> sm_txn_id msg = txn \<and>
    attr_value msg STUN_ATTR_USERNAME = Some (Some u) \<and>
    attr_value msg STUN_ATTR_PRIORITY = Some (if priority > 0 then Some (write_u32 priority) else None) \<and>
    attr_value msg STUN_ATTR_USE_CANDIDATE = Some (if use_candidate then Some [] else None) \<and>
    attr_value msg STUN_ATTR_ICE_CONTROLLING = Some (if tie_breaker > 0 \<and> controlling then Some (write_u64 tie_breaker) else None) \<and>
    attr_value msg STUN_ATTR_ICE_CONTROLLED = Some (if tie_breaker > 0 \<and> \<not> controlling then Some (write_u64 tie_breaker) else None) \<and>
    attr_value msg STUN_ATTR_FINGERPRINT =
      Some (Some (write_u32 (crc32_calc (take (length (sm_buf msg) - 8) (sm_buf msg)) XOR 0x5354554E))) \<and>
    rtc_stun_verify_integrity hmac (sm_buf msg) (Some pw) = Some RTC_OK"
proof -
  let ?T = STUN_BINDING_REQUEST
  define as where "as = ice_attrs (Some u) priority use_candidate tie_breaker controlling"
  define msg where "msg = stun_msg ?T txn (seal hmac (Some pw) ?T txn as)"
  have hmac: "\<And>k d. length (hmac k d) = 20" using assms(1) by blast
  have fit: "length (wire as) \<le> 1448"
    using ice_attrs_length [of u priority use_candidate tie_breaker controlling] padded_ge(2) [of "length u"] assms(3) by (simp add: as_def)
  have ls: "length (wire (seal hmac (Some pw) ?T txn as)) = length (wire as) + 32" using seal_length [of hmac "Some pw", OF hmac] by simp
  have ok: "\<forall>a \<in> set (seal hmac (Some pw) ?T txn as). attr_ok a" by (rule wire_attr_ok) (use ls fit in simp)
  have val: "attr_value msg t = Some (map_of (seal hmac (Some pw) ?T txn as) t)" for t
    unfolding msg_def by (rule attr_value_msg [OF assms(2) ok])
  have buf: "sm_buf msg = stun_bytes ?T txn (seal hmac (Some pw) ?T txn as)" by (simp add: msg_def stun_msg_def)
  have look: "attr_value msg t = Some (map_of as t)" if "t \<noteq> STUN_ATTR_MESSAGE_INTEGRITY" "t \<noteq> STUN_ATTR_FINGERPRINT" for t
    unfolding val seal_lookup [OF that] ..
  have "rtc_stun_build_binding_request hmac txn (Some u) (Some pw) priority use_candidate tie_breaker controlling = Some (Inr msg)"
    unfolding msg_def as_def by (rule build_binding_request_seal [OF hmac assms(2)]) (use fit in \<open>simp add: as_def\<close>)
  moreover have "length (sm_buf msg) \<le> 1500" "rtc_stun_parse (sm_buf msg) = Some (Inr msg)"
    unfolding buf using parse_stun_bytes [OF assms(2), of "seal hmac (Some pw) ?T txn as" ?T] ls fit assms(2) by (simp_all add: msg_def)
  moreover have "rtc_stun_verify_integrity hmac (sm_buf msg) (Some pw) = Some RTC_OK"
    unfolding rtc_stun_verify_integrity_def buf using verify_seal [of hmac txn as ?T pw pw, OF hmac assms(2) _ fit]
      ice_attrs_no_seal by (simp add: as_def)
  moreover have "attr_value msg STUN_ATTR_FINGERPRINT =
      Some (Some (write_u32 (crc32_calc (take (length (sm_buf msg) - 8) (sm_buf msg)) XOR 0x5354554E)))"
    unfolding val buf using seal_fingerprint [of hmac as txn _ ?T "Some pw", OF hmac _ assms(2) refl] ice_attrs_no_seal by (simp add: as_def)
  moreover have "sm_type msg = ?T" "sm_txn_id msg = txn" by (simp_all add: msg_def stun_msg_def)
  ultimately show ?thesis
    using look [of STUN_ATTR_USERNAME] look [of STUN_ATTR_PRIORITY] look [of STUN_ATTR_USE_CANDIDATE]
      look [of STUN_ATTR_ICE_CONTROLLING] look [of STUN_ATTR_ICE_CONTROLLED]
    unfolding as_def ice_attrs_lookup by (intro exI [of _ msg]) (simp add: stun_attrs)
qed

definition toy_hmac :: "bytes \<Rightarrow> bytes \<Rightarrow> bytes" where
  "toy_hmac key data = replicate 20 (sum_list key + sum_list data)"

theorem stun_request_roundtrip_witness:
  "\<exists>msg. rtc_stun_build_binding_request toy_hmac (replicate 12 7) (Some [65, 58, 66]) (Some [112]) 100 True 9 True = Some (Inr msg) \<and>
    rtc_stun_parse (sm_buf msg) = Some (Inr msg) \<and> attr_value msg STUN_ATTR_USERNAME = Some (Some [65, 58, 66]) \<and>
    rtc_stun_verify_integrity toy_hmac (sm_buf msg) (Some [112]) = Some RTC_OK"
  using stun_request_roundtrip [of toy_hmac "replicate 12 7" "[65, 58, 66]" "[112]" 100 True 9 True]
  by (auto simp: toy_hmac_def)

text \<open>
  C20. TURN requests survive the wire: adding any sequence of attributes (together at most 1448 bytes) to a fresh
  request and finalizing it under a non-empty key succeeds; the message parses back to itself, every
  attribute reads back as the first value added for its type (absent when none was), and its integrity
  verifies under the key.
\<close>

theorem turn_request_roundtrip:
  assumes "\<forall>k d. length (hmac k d) = 20" "length txn = 12" "key \<noteq> []" "length (wire (map turn_tlv as)) \<le> 1448"
  shows "\<exists>msg. stun_then (turn_adds (rtc_stun_build_request txn meth) as) (\<lambda>m. rtc_stun_finalize_key hmac m key) = Some (Inr msg) \<and>
    length (sm_buf msg) \<le> 1500 \<and> rtc_stun_parse (sm_buf msg) = Some (Inr msg) \<and>
    sm_type msg = meth \<and> sm_txn_id msg = txn \<and>
    (\<forall>t. t = STUN_ATTR_MESSAGE_INTEGRITY \<or> t = STUN_ATTR_FINGERPRINT \<or> attr_value msg t = Some (map_of (map turn_tlv as) t)) \<and>
    rtc_stun_verify_integrity_key hmac (sm_buf msg) key = Some RTC_OK"
proof -
  have hmac: "\<And>k d. length (hmac k d) = 20" using assms(1) by blast
  let ?as = "map turn_tlv as"
  define sl where "sl = seal hmac (Some key) meth txn ?as"
  have ls: "length (wire sl) = length (wire ?as) + 32" using seal_length [of hmac "Some key", OF hmac] by (simp add: sl_def)
  have ok: "\<forall>a \<in> set sl. attr_ok a" by (rule wire_attr_ok) (use ls assms(4) in simp)
  have "fst (turn_tlv a) \<noteq> STUN_ATTR_MESSAGE_INTEGRITY" for a by (cases a) (simp_all add: stun_attrs)
  then have nomi: "\<forall>a \<in> set ?as. fst a \<noteq> STUN_ATTR_MESSAGE_INTEGRITY" by auto
  have "stun_then (turn_adds (rtc_stun_build_request txn meth) as) (\<lambda>m. rtc_stun_finalize_key hmac m key) = Some (Inr (stun_msg meth txn sl))"
    using turn_adds_wire [OF assms(2), of "[]" as meth] finalize_key_seal [of hmac txn ?as meth key, OF hmac assms(2)] assms(3,4)
    by (simp add: build_request_msg sl_def)
  moreover have "rtc_stun_parse (stun_bytes meth txn sl) = Some (Inr (stun_msg meth txn sl))"
    by (rule parse_stun_bytes [OF assms(2)]) (use ls assms(4) in simp)
  moreover have "attr_value (stun_msg meth txn sl) t = Some (map_of ?as t)"
    if "t \<noteq> STUN_ATTR_MESSAGE_INTEGRITY" "t \<noteq> STUN_ATTR_FINGERPRINT" for t
    using attr_value_msg [OF assms(2) ok] seal_lookup [OF that] by (simp add: sl_def)
  moreover have "rtc_stun_verify_integrity_key hmac (stun_bytes meth txn sl) key = Some RTC_OK"
    unfolding sl_def using verify_seal [of hmac txn ?as meth key key, OF hmac assms(2) nomi assms(4)] by simp
  ultimately show ?thesis using ls assms(2,4) by (intro exI [of _ "stun_msg meth txn sl"]) (auto simp: stun_msg_def)
qed

theorem turn_request_roundtrip_witness:
  "\<exists>msg. stun_then (turn_adds (rtc_stun_build_request (replicate 12 5) 3) [Transport 17, Username [97], Realm [98, 99]])
      (\<lambda>m. rtc_stun_finalize_key toy_hmac m [1, 0, 2]) = Some (Inr msg) \<and>
    rtc_stun_parse (sm_buf msg) = Some (Inr msg) \<and> sm_type msg = 3 \<and>
    rtc_stun_verify_integrity_key toy_hmac (sm_buf msg) [1, 0, 2] = Some RTC_OK"
proof -
  have "length (wire (map turn_tlv [Transport 17, Username [97], Realm [98, 99]])) \<le> 1448" by (simp add: padded_def)
  moreover have "\<forall>k d. length (toy_hmac k d) = 20" by (simp add: toy_hmac_def)
  ultimately show ?thesis
    using turn_request_roundtrip [of toy_hmac "replicate 12 5" "[1, 0, 2]" "[Transport 17, Username [97], Realm [98, 99]]" 3] by auto
qed

subsection \<open>Reading answers\<close>

lemma xor_addr_length [simp]: "length (xor_addr port ip) = 8"
  by (simp add: xor_addr_def)

lemma xor_addr_reads:
  assumes "buf = A @ xor_addr port ip @ B"
  shows "rd8 buf (length A + 1) = Some 1"
    "rd16 buf (length A + 2) = Some (port XOR ucast (drop_bit 16 STUN_MAGIC_COOKIE))"
    "rd32 buf (length A + 4) = Some (ip XOR STUN_MAGIC_COOKIE)"
  using rd8_at [of "A @ [0]" "length A + 1" 1] rd16_at [of "A @ [0, 1]" "length A + 2"]
    rd32_at [of "A @ [0, 1] @ write_u16 (port XOR ucast (drop_bit 16 STUN_MAGIC_COOKIE))" "length A + 4"]
  unfolding assms xor_addr_def by simp_all

lemma word_xor_cancel: "(x XOR k) XOR k = (x :: 'a :: len word)"
  by (simp add: xor.assoc)

lemma build_response_msg:
  assumes "length req \<ge> 20" "128 \<le> cap" "cap \<le> 65532"
  shows "rtc_stun_build_binding_response req (Addr_In port ip) cap =
    Some (Inr (stun_bytes STUN_BINDING_RESPONSE (take 12 (drop 8 req)) [(STUN_ATTR_XOR_MAPPED_ADDRESS, xor_addr port ip)]))"
proof -
  have "append_attr (replicate 20 0) cap STUN_ATTR_XOR_MAPPED_ADDRESS (xor_addr port ip) 8 =
      Some (Inr (replicate 20 0 @ tlv (STUN_ATTR_XOR_MAPPED_ADDRESS, xor_addr port ip)))"
    by (rule append_fit) (use assms(2,3) in simp_all)
  moreover have "rd_bytes req 8 12 = Some (take 12 (drop 8 req))" using assms(1) by (simp add: rd_bytes_def)
  ultimately show ?thesis using assms
    by (simp add: rtc_stun_build_binding_response_def stun_sizes Let_def xor_addr_def put_header_head stun_bytes_head del: rd_bytes_in)
qed

lemma mapped_address_msg:
  assumes "length txn = 12" "attr_ok (STUN_ATTR_XOR_MAPPED_ADDRESS, xor_addr port ip)"
  shows "rtc_stun_get_mapped_address (stun_msg type txn ((STUN_ATTR_XOR_MAPPED_ADDRESS, xor_addr port ip) # as)) = Some (Inr (Addr_In port ip))"
proof -
  let ?a = "(STUN_ATTR_XOR_MAPPED_ADDRESS, xor_addr port ip)"
  define h where "h = stun_head type (of_nat (length (wire (?a # as)))) txn"
  have h: "length h = 20" using assms(1) by (simp add: h_def)
  define buf where "buf = h @ tlv ?a @ wire as"
  have b: "stun_bytes type txn (?a # as) = buf" by (simp add: stun_bytes_head buf_def h_def)
  note hd = tlv_head(1,2,3) [OF h assms(2), of "wire as", folded buf_def]
  have "buf = (h @ write_u16 STUN_ATTR_XOR_MAPPED_ADDRESS @ write_u16 8) @ xor_addr port ip @ wire as"
    by (simp add: buf_def tlv_def)
  from xor_addr_reads [OF this] h
  have rd: "rd8 buf 25 = Some 1" "rd16 buf 26 = Some (port XOR ucast (drop_bit 16 STUN_MAGIC_COOKIE))"
    "rd32 buf 28 = Some (ip XOR STUN_MAGIC_COOKIE)" by simp_all
  have "24 \<le> length buf" "\<not> length buf < 32" using h by (simp_all add: buf_def)
  then show ?thesis unfolding rtc_stun_get_mapped_address_def stun_sizes stun_msg_def b
    using hd rd by (subst mapped_loop.simps) (simp add: mapped_value_def word_xor_cancel Let_def del: rd8_in rd16_in rd32_in)
qed

text \<open>
  C21. The binding exchange learns the reflexive address: when the server answers the client's request with
  the response built for it, the client returns exactly the address and port the server saw; when the
  answer carries another transaction identifier, it is refused.
\<close>

theorem stun_exchange:
  assumes "length txn = 12" "128 \<le> cap" "cap \<le> 1500"
  shows "\<exists>req resp. rtc_stun_build_binding_request hmac txn None None 0 False 0 False = Some (Inr req) \<and>
    rtc_stun_build_binding_response (sm_buf req) (Addr_In port ip) cap = Some (Inr resp) \<and> length resp \<le> cap \<and>
    rtc_stun_binding hmac txn (Inr dest) True True (Some resp) = Some (Inr (Addr_In port ip)) \<and>
    (\<forall>txn'. length txn' = 12 \<and> txn' \<noteq> txn \<longrightarrow>
       rtc_stun_binding hmac txn' (Inr dest) True True (Some resp) = Some (Inl RTC_ERR_INVALID))"
proof -
  let ?T = STUN_BINDING_REQUEST and ?R = STUN_BINDING_RESPONSE
  let ?a = "(STUN_ATTR_XOR_MAPPED_ADDRESS, xor_addr port ip)"
  define fp where "fp = (\<lambda>txn. [fp_attr ?T txn []])"
  have fl: "length (wire (fp txn)) = 8" for txn by (simp add: fp_def fp_attr_def)
  have req: "rtc_stun_build_binding_request hmac txn None None 0 False 0 False = Some (Inr (stun_msg ?T txn (fp txn)))"
    if "length txn = 12" for txn
  proof -
    have "put_header ?T 8 txn (replicate 20 0) = stun_head ?T (of_nat (length (wire []) + 8)) txn @ wire []"
      using put_header_head [of "replicate 20 0" ?T 8 txn "[]"] by simp
    moreover have "put_header ?T 8 txn (stun_bytes ?T txn (fp txn)) = stun_bytes ?T txn (fp txn)"
      using that put_header_head [of "stun_head ?T 8 txn" ?T 8 txn "wire (fp txn)"] fl [of txn] by (simp add: stun_bytes_head)
    ultimately show ?thesis using append_fp [OF that, of "[]" ?T] that
      by (simp add: rtc_stun_build_binding_request_def append_if_def stun_sizes Let_def stun_msg_def fp_def)
  qed
  define resp where "resp = stun_bytes ?R txn [?a]"
  have l: "length (sm_buf (stun_msg ?T txn (fp txn))) \<ge> 20" using assms(1) by (simp add: stun_msg_def)
  have "take 12 (drop 8 (sm_buf (stun_msg ?T txn (fp txn)))) = txn" using assms(1) by (simp add: stun_msg_def stun_bytes_def)
  then have build: "rtc_stun_build_binding_response (sm_buf (stun_msg ?T txn (fp txn))) (Addr_In port ip) cap = Some (Inr resp)"
    using build_response_msg [OF l assms(2), of port ip] assms(3) by (simp add: resp_def)
  have parse: "rtc_stun_parse resp = Some (Inr (stun_msg ?R txn [?a]))" unfolding resp_def
    by (rule parse_stun_bytes [OF assms(1)]) simp
  have lr: "length resp = 32" using assms(1) by (simp add: resp_def)
  have get: "rtc_stun_get_mapped_address (stun_msg ?R txn [?a]) = Some (Inr (Addr_In port ip))"
    by (rule mapped_address_msg [OF assms(1)]) (simp add: attr_ok_def)
  have "rtc_stun_binding hmac txn' (Inr dest) True True (Some resp) =
      (if txn' = txn then Some (Inr (Addr_In port ip)) else Some (Inl RTC_ERR_INVALID))" if "length txn' = 12" for txn'
    using req [OF that] lr parse get by (auto simp: rtc_stun_binding_def stun_sizes stun_msg_def)
  then show ?thesis using req [OF assms(1)] build lr assms(1,2) by auto
qed

theorem stun_exchange_witness:
  "\<exists>req resp. rtc_stun_build_binding_request toy_hmac (replicate 12 9) None None 0 False 0 False = Some (Inr req) \<and>
    rtc_stun_build_binding_response (sm_buf req) (Addr_In 5000 0x7F000001) 128 = Some (Inr resp) \<and>
    rtc_stun_binding toy_hmac (replicate 12 9) (Inr Addr_None) True True (Some resp) = Some (Inr (Addr_In 5000 0x7F000001))"
  using stun_exchange [of "replicate 12 9" 128 toy_hmac 5000 "0x7F000001" Addr_None] by auto

lemma find_attr_found:
  assumes "length txn = 12" "\<forall>a \<in> set attrs. length (snd a) \<le> 65532" "map_of attrs t = Some v"
  shows "\<exists>A B. rtc_stun_find_attr (stun_msg type txn attrs) t = Some (Some (length A, of_nat (length v))) \<and>
    unat (of_nat (length v) :: u16) = length v \<and> sm_buf (stun_msg type txn attrs) = A @ v @ B"
proof -
  have ok: "\<forall>a \<in> set attrs. attr_ok a" using assms(2) by (simp add: attr_ok_def)
  from find_attr_msg(2) [OF assms(1) ok assms(3), of type] obtain A B where f:
    "rtc_stun_find_attr (stun_msg type txn attrs) t = Some (Some (length A, of_nat (length v)))" "length v \<le> 65532"
    "sm_buf (stun_msg type txn attrs) = A @ v @ B" by blast
  then have "unat (of_nat (length v) :: u16) = length v" by (simp add: unat_of_nat)
  with f show ?thesis by blast
qed

text \<open>
  C37. Reading TURN answers: in any well-formed message, the lifetime, the relayed address, the error code and the
  realm and nonce are read as the first attribute of their type says; strings are cut to the caller's buffer
  and terminated.
\<close>

theorem turn_getters:
  assumes "length txn = 12" "\<forall>a \<in> set attrs. length (snd a) \<le> 65532"
  shows "(map_of attrs STUN_ATTR_LIFETIME = Some (write_u32 secs) \<longrightarrow> rtc_stun_get_lifetime (stun_msg type txn attrs) = Some (Inr secs)) \<and>
    (map_of attrs STUN_ATTR_XOR_RELAYED_ADDR = Some (xor_addr port ip) \<longrightarrow>
       rtc_stun_get_relayed_address (stun_msg type txn attrs) = Some (Inr (Addr_In port ip))) \<and>
    (map_of attrs STUN_ATTR_ERROR_CODE = Some ([0, 0, c, n] @ reason) \<and> c < 8 \<longrightarrow>
       rtc_stun_get_error_code (stun_msg type txn attrs) = Some (Inr (100 * uint c + uint n))) \<and>
    (map_of attrs STUN_ATTR_REALM = Some r \<and> 0 < cap \<longrightarrow>
       rtc_stun_get_realm (stun_msg type txn attrs) cap = Some (Inr (take (cap - 1) r @ [0]))) \<and>
    (map_of attrs STUN_ATTR_NONCE = Some r \<and> 0 < cap \<longrightarrow>
       rtc_stun_get_nonce (stun_msg type txn attrs) cap = Some (Inr (take (cap - 1) r @ [0])))"
proof (intro conjI impI)
  let ?m = "stun_msg type txn attrs"
  note fnd = find_attr_found [OF assms, of _ _ type]
  show "rtc_stun_get_lifetime ?m = Some (Inr secs)" if "map_of attrs STUN_ATTR_LIFETIME = Some (write_u32 secs)"
  proof -
    from fnd [OF that] obtain A B where "rtc_stun_find_attr ?m STUN_ATTR_LIFETIME = Some (Some (length A, 4))" "sm_buf ?m = A @ write_u32 secs @ B" by auto
    then show ?thesis using rd32_at [OF refl, of A secs B] by (simp add: rtc_stun_get_lifetime_def del: rd32_in)
  qed
  show "rtc_stun_get_relayed_address ?m = Some (Inr (Addr_In port ip))" if "map_of attrs STUN_ATTR_XOR_RELAYED_ADDR = Some (xor_addr port ip)"
  proof -
    from fnd [OF that] obtain A B where f: "rtc_stun_find_attr ?m STUN_ATTR_XOR_RELAYED_ADDR = Some (Some (length A, 8))"
      "sm_buf ?m = A @ xor_addr port ip @ B" by auto
    show ?thesis using f(1) xor_addr_reads [OF f(2)]
      by (simp add: rtc_stun_get_relayed_address_def word_xor_cancel del: rd8_in rd16_in rd32_in)
  qed
  show "rtc_stun_get_error_code ?m = Some (Inr (100 * uint c + uint n))"
    if "map_of attrs STUN_ATTR_ERROR_CODE = Some ([0, 0, c, n] @ reason) \<and> c < 8"
  proof -
    from fnd [OF conjunct1 [OF that]] obtain A B where f: "rtc_stun_find_attr ?m STUN_ATTR_ERROR_CODE = Some (Some (length A, of_nat (4 + length reason)))"
      "unat (of_nat (4 + length reason) :: u16) = 4 + length reason" "sm_buf ?m = A @ ([0, 0, c, n] @ reason) @ B" by auto
    have "\<not> (of_nat (4 + length reason) :: u16) < 4" using f(2) by (simp add: word_less_nat_alt)
    moreover have "rd8 (sm_buf ?m) (length A + 2) = Some c" "rd8 (sm_buf ?m) (length A + 3) = Some n"
      using rd8_at [of "A @ [0, 0]" "length A + 2" c] rd8_at [of "A @ [0, 0, c]" "length A + 3" n] unfolding f(3) by simp_all
    moreover have "c AND 7 = c" unfolding and_masks by (rule take_bit_self) (use that in \<open>simp add: word_less_nat_alt\<close>)
    ultimately show ?thesis using f(1) by (simp add: rtc_stun_get_error_code_def del: rd8_in)
  qed
  have copy: "copy_string ?m t cap = Some (Inr (take (cap - 1) r @ [0]))" if "map_of attrs t = Some r" "0 < cap" for t
  proof -
    from fnd [OF that(1)] obtain A B where f: "rtc_stun_find_attr ?m t = Some (Some (length A, of_nat (length r)))"
      "unat (of_nat (length r) :: u16) = length r" "sm_buf ?m = A @ r @ B" by blast
    have "rd_bytes (sm_buf ?m) (length A) (min (length r) (cap - 1)) = Some (take (cap - 1) r)"
      unfolding f(3) by (simp add: rd_bytes_def min_def)
    then show ?thesis using f(1,2) that(2) by (simp add: copy_string_def Let_def del: rd_bytes_in)
  qed
  show "rtc_stun_get_realm ?m cap = Some (Inr (take (cap - 1) r @ [0]))" if "map_of attrs STUN_ATTR_REALM = Some r \<and> 0 < cap"
    unfolding rtc_stun_get_realm_def using that by (intro copy) simp_all
  show "rtc_stun_get_nonce ?m cap = Some (Inr (take (cap - 1) r @ [0]))" if "map_of attrs STUN_ATTR_NONCE = Some r \<and> 0 < cap"
    unfolding rtc_stun_get_nonce_def using that by (intro copy) simp_all
qed

theorem turn_getters_witness:
  "let m = stun_msg 0x0103 (replicate 12 1) [(STUN_ATTR_LIFETIME, write_u32 600), (STUN_ATTR_XOR_RELAYED_ADDR, xor_addr 4000 0x0A000001),
      (STUN_ATTR_ERROR_CODE, [0, 0, 4, 1]), (STUN_ATTR_REALM, [97, 98, 99])]
   in rtc_stun_get_lifetime m = Some (Inr 600) \<and> rtc_stun_get_relayed_address m = Some (Inr (Addr_In 4000 0x0A000001)) \<and>
      rtc_stun_get_error_code m = Some (Inr 401) \<and> rtc_stun_get_realm m 3 = Some (Inr [97, 98, 0])"
  using turn_getters [of "replicate 12 1" "[(STUN_ATTR_LIFETIME, write_u32 600), (STUN_ATTR_XOR_RELAYED_ADDR, xor_addr 4000 0x0A000001),
      (STUN_ATTR_ERROR_CODE, [0, 0, 4, 1]), (STUN_ATTR_REALM, [97, 98, 99])]" 600 "0x0103" 4000 "0x0A000001" 4 1 "[]" "[97, 98, 99]" 3]
  by (simp add: stun_attrs Let_def)

subsection \<open>Arbitrary bytes\<close>

lemma find_attr_loop_total: "\<exists>f. find_attr_loop buf t pos = Some f \<and>
    (case f of None \<Rightarrow> True | Some (p, l) \<Rightarrow> p + unat l \<le> length buf)"
proof (induction buf t pos rule: find_attr_loop.induct)
  case (1 buf t pos)
  show ?case
  proof (cases "pos + 4 \<le> length buf")
    case True
    then obtain ty al where rd: "rd16 buf pos = Some ty" "rd16 buf (pos + 2) = Some al" by simp
    show ?thesis
    proof (cases "pos + 4 + unat al > length buf \<or> ty = t")
      case True
      then show ?thesis using rd by (subst find_attr_loop.simps) (auto simp del: rd16_in)
    next
      case False
      then show ?thesis using "1.IH" [OF \<open>pos + 4 \<le> length buf\<close> rd] rd \<open>pos + 4 \<le> length buf\<close>
        by (subst find_attr_loop.simps) (simp del: rd16_in)
    qed
  qed (subst find_attr_loop.simps, simp)
qed

lemma mapped_value_total:
  assumes "pos + unat alen \<le> length (sm_buf msg)"
  shows "mapped_value msg pos alen m \<noteq> None"
proof (cases "alen < 8")
  case False
  then have l: "8 \<le> unat alen" by (simp add: word_less_nat_alt)
  then obtain f p i where rd: "rd8 (sm_buf msg) (pos + 1) = Some f" "rd16 (sm_buf msg) (pos + 2) = Some p" "rd32 (sm_buf msg) (pos + 4) = Some i"
    using assms by simp
  show ?thesis
  proof (cases "alen < 20")
    case True
    then show ?thesis using rd False by (simp add: mapped_value_def Let_def del: rd8_in rd16_in rd32_in)
  next
    case b: False
    then have "20 \<le> unat alen" by (simp add: word_less_nat_alt)
    then obtain a where "rd_bytes (sm_buf msg) (pos + 4) 16 = Some a" using assms by simp
    then show ?thesis using rd False b by (simp add: mapped_value_def Let_def del: rd8_in rd16_in rd32_in rd_bytes_in)
  qed
qed (simp add: mapped_value_def)

lemma mapped_loop_total: "mapped_loop msg pos \<noteq> None"
proof (induction msg pos rule: mapped_loop.induct)
  case (1 msg pos)
  show ?case
  proof (cases "pos + 4 \<le> length (sm_buf msg)")
    case True
    then obtain ty al where rd: "rd16 (sm_buf msg) pos = Some ty" "rd16 (sm_buf msg) (pos + 2) = Some al" by simp
    then show ?thesis using "1.IH" [OF True rd] mapped_value_total [of "pos + 4" al msg] True
      by (subst mapped_loop.simps) (auto simp del: rd16_in)
  qed (subst mapped_loop.simps, simp)
qed

text \<open>
  C22. Reading STUN messages is safe on arbitrary bytes: parsing any datagram reads only inside it and yields a
  message whose buffer is a prefix of it of at most 1500 bytes, or the invalid error; and every walker and
  getter on any such message reads only inside its buffer (for a non-empty destination string buffer).
\<close>

theorem stun_parse_safe:
  "(\<exists>r. rtc_stun_parse data = Some r \<and>
     (case r of Inl e \<Rightarrow> e = RTC_ERR_INVALID
      | Inr msg \<Rightarrow> length (sm_buf msg) \<le> 1500 \<and> sm_buf msg = take (length (sm_buf msg)) data \<and> length (sm_txn_id msg) = 12)) \<and>
   rtc_stun_find_attr msg t \<noteq> None \<and> rtc_stun_get_mapped_address msg \<noteq> None \<and> rtc_stun_get_relayed_address msg \<noteq> None \<and>
   rtc_stun_get_lifetime msg \<noteq> None \<and> rtc_stun_get_error_code msg \<noteq> None \<and>
   rtc_stun_get_realm msg (Suc n) \<noteq> None \<and> rtc_stun_get_nonce msg (Suc n) \<noteq> None"
proof (intro conjI)
  have f: "\<exists>f. rtc_stun_find_attr msg t = Some f \<and> (case f of None \<Rightarrow> True | Some (p, l) \<Rightarrow> p + unat l \<le> length (sm_buf msg))" for t
    unfolding rtc_stun_find_attr_def by (rule find_attr_loop_total)
  have copy: "copy_string msg t (Suc n) \<noteq> None" for t
    using f [of t] by (auto simp: copy_string_def Let_def rd_bytes_def min_def split: option.splits)
  show "\<exists>r. rtc_stun_parse data = Some r \<and>
     (case r of Inl e \<Rightarrow> e = RTC_ERR_INVALID
      | Inr msg \<Rightarrow> length (sm_buf msg) \<le> 1500 \<and> sm_buf msg = take (length (sm_buf msg)) data \<and> length (sm_txn_id msg) = 12)"
    by (auto simp: rtc_stun_parse_def stun_sizes rd_bytes_def min_def)
  show "rtc_stun_find_attr msg t \<noteq> None" using f [of t] by auto
  show "rtc_stun_get_mapped_address msg \<noteq> None" unfolding rtc_stun_get_mapped_address_def by (rule mapped_loop_total)
  show "rtc_stun_get_relayed_address msg \<noteq> None"
    using f [of STUN_ATTR_XOR_RELAYED_ADDR] by (auto simp: rtc_stun_get_relayed_address_def word_less_nat_alt split: option.splits)
  show "rtc_stun_get_lifetime msg \<noteq> None"
    using f [of STUN_ATTR_LIFETIME] by (auto simp: rtc_stun_get_lifetime_def word_less_nat_alt split: option.splits)
  show "rtc_stun_get_error_code msg \<noteq> None"
    using f [of STUN_ATTR_ERROR_CODE] by (auto simp: rtc_stun_get_error_code_def word_less_nat_alt split: option.splits)
  show "rtc_stun_get_realm msg (Suc n) \<noteq> None" unfolding rtc_stun_get_realm_def by (rule copy)
  show "rtc_stun_get_nonce msg (Suc n) \<noteq> None" unfolding rtc_stun_get_nonce_def by (rule copy)
qed

lemma verify_loop_sound:
  "verify_loop hmac key data fin pos = Some RTC_OK \<Longrightarrow> 20 \<le> pos \<Longrightarrow>
    \<exists>p \<ge> pos. p + 24 \<le> length data \<and> p \<le> 1500 \<and> rd16 data p = Some STUN_ATTR_MESSAGE_INTEGRITY \<and>
      hmac key (put_length (of_nat (p + 4)) (take p data)) = take 20 (drop (p + 4) data)"
proof (induction hmac key data fin pos rule: verify_loop.induct)
  case (1 hmac key data fin pos)
  have fin: "pos + 4 \<le> fin" using "1.prems"(1) by (subst (asm) verify_loop.simps) (auto split: if_splits)
  obtain ty where ty: "rd16 data pos = Some ty"
    using "1.prems"(1) fin by (subst (asm) verify_loop.simps) (auto simp: bind_eq_Some_conv)
  obtain al where al: "rd16 data (pos + 2) = Some al"
    using "1.prems"(1) fin ty by (subst (asm) verify_loop.simps) (auto simp: bind_eq_Some_conv)
  show ?case
  proof (cases "ty = STUN_ATTR_MESSAGE_INTEGRITY")
    case True
    from "1.prems"(1) fin ty al True have "al = 20 \<and> pos \<le> 1500 \<and> pos + 24 \<le> length data \<and>
        hmac key (put_length (of_nat (pos - 20 + 24)) (take pos data)) = take 20 (drop (pos + 4) data)"
      by (subst (asm) verify_loop.simps)
        (auto simp: bind_eq_Some_conv stun_sizes rd_bytes_def Let_def split: if_splits simp del: rd16_in of_nat_add)
    then show ?thesis using "1.prems"(2) ty True by (intro exI [of _ pos]) (auto simp: add.commute)
  next
    case False
    then have "verify_loop hmac key data fin (pos + 4 + unat (pad4 al)) = Some RTC_OK"
      using "1.prems"(1) fin ty al by (subst (asm) verify_loop.simps) (simp del: rd16_in)
    from "1.IH" [OF fin ty al False this] "1.prems"(2) show ?thesis by (meson dual_order.trans le_add1)
  qed
qed

text \<open>
  C10. Integrity is sound: a message is accepted only when, at some attribute position inside it, it carries the
  twenty bytes that the key's HMAC gives for everything before that position (with the length field as the
  sender had it).
\<close>

theorem stun_integrity_sound:
  assumes "rtc_stun_verify_integrity_key hmac data key = Some RTC_OK"
  shows "\<exists>p \<ge> 20. p + 24 \<le> length data \<and> rd16 data p = Some STUN_ATTR_MESSAGE_INTEGRITY \<and>
    hmac key (put_length (of_nat (p + 4)) (take p data)) = take 20 (drop (p + 4) data)"
proof -
  obtain fin where "verify_loop hmac key data fin 20 = Some RTC_OK"
    using assms by (auto simp: rtc_stun_verify_integrity_key_def stun_sizes bind_eq_Some_conv split: if_splits)
  from verify_loop_sound [OF this order_refl] show ?thesis by blast
qed

theorem stun_integrity_sound_witness:
  "let data = write_u16 1 @ write_u16 24 @ write_u32 STUN_MAGIC_COOKIE @ replicate 12 0 @ write_u16 8 @ write_u16 20 @ replicate 20 0
   in (\<exists>p \<ge> 20. p + 24 \<le> length data \<and> rd16 data p = Some STUN_ATTR_MESSAGE_INTEGRITY \<and>
     (\<lambda>k d. replicate 20 0) [] (put_length (of_nat (p + 4)) (take p data)) = take 20 (drop (p + 4) data))"
proof -
  have "rtc_stun_verify_integrity_key (\<lambda>k d. replicate 20 0) (write_u16 1 @ write_u16 24 @ write_u32 STUN_MAGIC_COOKIE @
      replicate 12 0 @ write_u16 8 @ write_u16 20 @ replicate 20 0) [] = Some RTC_OK" by code_simp
  from stun_integrity_sound [OF this] show ?thesis unfolding Let_def .
qed

text \<open>
  The walk itself is not safe on every datagram: an integrity attribute whose twenty bytes are cut off by the
  end of the datagram is compared all the same, reading past it.
\<close>

lemma verify_reads_outside:
  "rtc_stun_verify_integrity_key (\<lambda>k d. replicate 20 0)
     (write_u16 1 @ write_u16 24 @ write_u32 STUN_MAGIC_COOKIE @ replicate 12 0 @ write_u16 0x14 @ write_u16 16 @ replicate 16 0 @
      write_u16 8 @ write_u16 20) [] = None"
  by code_simp

text \<open>The padded length of the longest values wraps to zero, and the copy then leaves the buffer.\<close>

lemma append_attr_overflows:
  "append_attr (replicate 20 0) 1500 STUN_ATTR_USERNAME (replicate 65533 0) 65533 = None"
  by (simp add: append_attr_def pad4_def Let_def)

subsection \<open>ChannelData\<close>

text \<open>
  ChannelData frames survive the wire: for data shorter than 65536 bytes and a channel number in the TURN
  range, the frame built into a large enough buffer is whole words and parses back to the channel and the
  data; other channels and short buffers are refused; and parsing never reads outside the frame.
\<close>

theorem channel_data_roundtrip:
  assumes "length data < 65536"
  shows "(case rtc_turn_build_channel_data cap ch data of
      Inl e \<Rightarrow> e = (if 4 + padded (length data) > cap then RTC_ERR_NOMEM else RTC_ERR_INVALID) \<and>
        (4 + padded (length data) > cap \<or> ch < 0x4000 \<or> ch > 0x7FFF)
    | Inr frame \<Rightarrow> 0x4000 \<le> ch \<and> ch \<le> 0x7FFF \<and> length frame \<le> cap \<and> length frame mod 4 = 0 \<and>
        rtc_turn_parse_channel_data frame = Some (Inr (ch, data))) \<and>
    rtc_turn_parse_channel_data junk \<noteq> None"
proof
  let ?f = "write_u16 ch @ write_u16 (of_nat (length data)) @ data @ replicate (padded (length data) - length data) 0"
  have u: "unat (of_nat (length data) :: u16) = length data" using assms by (simp add: unat_of_nat)
  have l: "length ?f = 4 + padded (length data)" using padded_ge(1) [of "length data"] by simp
  have "rd16 ?f 0 = Some ch" using rd16_at [of "[]" 0] by simp
  moreover have "rd16 ?f 2 = Some (of_nat (length data))" using rd16_at [of "write_u16 ch" 2] by simp
  moreover have "rd_bytes ?f 4 (length data) = Some data"
    using rd_bytes_at [of "write_u16 ch @ write_u16 (of_nat (length data))" 4 data "length data"] by simp
  ultimately have "rtc_turn_parse_channel_data ?f = Some (Inr (ch, data))" if "\<not> ch < 0x4000" "\<not> ch > 0x7FFF"
    using that l u padded_ge(1) [of "length data"]
    unfolding rtc_turn_parse_channel_data_def TURN_CHANNEL_DATA_HEADER_def TURN_CHANNEL_MIN_def TURN_CHANNEL_MAX_def
    by (simp only: bind.bind_lunit if_False l u) simp
  moreover have "length ?f mod 4 = 0" unfolding l using padded_ge(3) [of "length data"] by simp
  ultimately show "case rtc_turn_build_channel_data cap ch data of
      Inl e \<Rightarrow> e = (if 4 + padded (length data) > cap then RTC_ERR_NOMEM else RTC_ERR_INVALID) \<and>
        (4 + padded (length data) > cap \<or> ch < 0x4000 \<or> ch > 0x7FFF)
    | Inr frame \<Rightarrow> 0x4000 \<le> ch \<and> ch \<le> 0x7FFF \<and> length frame \<le> cap \<and> length frame mod 4 = 0 \<and>
        rtc_turn_parse_channel_data frame = Some (Inr (ch, data))"
    using l unfolding rtc_turn_build_channel_data_def TURN_CHANNEL_DATA_HEADER_def TURN_CHANNEL_MIN_def TURN_CHANNEL_MAX_def Let_def
      padded_def [symmetric]
    by (auto simp: not_less)
  show "rtc_turn_parse_channel_data junk \<noteq> None"
    by (auto simp: rtc_turn_parse_channel_data_def TURN_CHANNEL_DATA_HEADER_def rd_bytes_def)
qed

theorem channel_data_roundtrip_witness:
  "case rtc_turn_build_channel_data 100 0x4001 [1, 2, 3] of Inl e \<Rightarrow> False
   | Inr frame \<Rightarrow> rtc_turn_parse_channel_data frame = Some (Inr (0x4001, [1, 2, 3]))"
  using channel_data_roundtrip [of "[1, 2, 3]" 100 "0x4001" "[]"]
  by (auto simp: padded_def split: sum.splits)

end
