(* ===== verification/Timer_Heap.thy ===== *)
theory Timer_Heap
  imports Prelude "HOL-Library.Multiset"
begin

text \<open>
  The binary heap of the timer scheduler (\<^verbatim>\<open>rtc_timer_sched.c\<close>): the nodes, the two sifting loops and
  the removal of the root, with the order they keep and the elements they preserve.
\<close>

subsection \<open>Nodes and loops\<close>

text \<open>The callback and its argument are the opaque value \<open>nd_cb\<close>.\<close>

record 'c rtc_timer_sched_node =
  nd_deadline_ms :: u64
  nd_cb :: 'c
  nd_generation :: u32
  nd_slot :: nat

definition heap_swap :: "'a list \<Rightarrow> nat \<Rightarrow> nat \<Rightarrow> 'a list" where
  "heap_swap h a b = h[a := h ! b, b := h ! a]"

fun heap_sift_up :: "('c, 'b) rtc_timer_sched_node_scheme list \<Rightarrow> nat \<Rightarrow> ('c, 'b) rtc_timer_sched_node_scheme list" where
  "heap_sift_up h idx =
    (if idx > 0 then
       let parent = (idx - 1) div 2
       in if nd_deadline_ms (h ! parent) \<le> nd_deadline_ms (h ! idx) then h
          else heap_sift_up (heap_swap h parent idx) parent
     else h)"

declare heap_sift_up.simps [simp del]

definition smaller :: "('c, 'b) rtc_timer_sched_node_scheme list \<Rightarrow> nat \<Rightarrow> nat \<Rightarrow> nat" where
  "smaller h child smallest =
    (if child < length h \<and> nd_deadline_ms (h ! child) < nd_deadline_ms (h ! smallest) then child else smallest)"

lemma length_heap_swap [simp]: "length (heap_swap h a b) = length h"
  by (simp add: heap_swap_def)

function heap_sift_down :: "('c, 'b) rtc_timer_sched_node_scheme list \<Rightarrow> nat \<Rightarrow> ('c, 'b) rtc_timer_sched_node_scheme list" where
  "heap_sift_down h idx =
    (let left = idx * 2 + 1; right = left + 1; smallest = smaller h right (smaller h left idx)
     in if smallest = idx then h else heap_sift_down (heap_swap h idx smallest) smallest)"
  by pat_completeness auto
termination by (relation "measure (\<lambda>(h, idx). length h - idx)") (auto simp: smaller_def split: if_splits)

declare heap_sift_down.simps [simp del]

definition heap_pop :: "('c, 'b) rtc_timer_sched_node_scheme list \<Rightarrow>
    ('c, 'b) rtc_timer_sched_node_scheme \<times> ('c, 'b) rtc_timer_sched_node_scheme list" where
  "heap_pop h =
    (let node = h ! 0; rest = butlast h
     in (node, if length rest > 0 then heap_sift_down (rest[0 := last h]) 0 else rest))"

subsection \<open>The elements\<close>

lemma mset_heap_swap: "a < length h \<Longrightarrow> b < length h \<Longrightarrow> mset (heap_swap h a b) = mset h"
  unfolding heap_swap_def by (rule mset_swap)

lemma heap_sift_up_mset: "idx < length h \<Longrightarrow> mset (heap_sift_up h idx) = mset h"
proof (induction h idx rule: heap_sift_up.induct)
  case (1 h idx)
  show ?case
  proof (cases "idx > 0 \<and> \<not> nd_deadline_ms (h ! ((idx - 1) div 2)) \<le> nd_deadline_ms (h ! idx)")
    case True
    then have "heap_sift_up h idx = heap_sift_up (heap_swap h ((idx - 1) div 2) idx) ((idx - 1) div 2)"
      by (subst heap_sift_up.simps) (simp add: Let_def)
    moreover have "(idx - 1) div 2 < length h" using 1(2) by linarith
    ultimately show ?thesis using 1(1) [OF _ refl] True 1(2) mset_heap_swap [of "(idx - 1) div 2" h idx] by simp
  qed (subst heap_sift_up.simps, auto simp: Let_def)
qed

lemma smaller_lt: "idx < length h \<Longrightarrow> smaller h c idx < length h"
  by (simp add: smaller_def)

lemma heap_sift_down_mset: "idx < length h \<Longrightarrow> mset (heap_sift_down h idx) = mset h"
proof (induction h idx rule: heap_sift_down.induct)
  case (1 h idx)
  let ?s = "smaller h (idx * 2 + 1 + 1) (smaller h (idx * 2 + 1) idx)"
  have s: "?s < length h" using 1(2) by (intro smaller_lt)
  show ?case
  proof (cases "?s = idx")
    case True
    then show ?thesis by (subst heap_sift_down.simps) simp
  next
    case False
    then have "heap_sift_down h idx = heap_sift_down (heap_swap h idx ?s) ?s"
      by (subst heap_sift_down.simps) (simp add: Let_def)
    then show ?thesis using 1(1) [OF refl refl refl False] s mset_heap_swap [OF 1(2) s] by simp
  qed
qed

lemma heap_sift_length [simp]:
  "idx < length h \<Longrightarrow> length (heap_sift_up h idx) = length h"
  "idx < length h \<Longrightarrow> length (heap_sift_down h idx) = length h"
  using heap_sift_up_mset heap_sift_down_mset by (metis mset_eq_length)+

lemma heap_pop_mset:
  assumes "h \<noteq> []"
  shows "fst (heap_pop h) = h ! 0" "add_mset (h ! 0) (mset (snd (heap_pop h))) = mset h"
proof -
  show "fst (heap_pop h) = h ! 0" by (simp add: heap_pop_def Let_def)
  obtain xs x where h: "h = xs @ [x]" using assms by (cases h rule: rev_cases) auto
  show "add_mset (h ! 0) (mset (snd (heap_pop h))) = mset h"
  proof (cases xs)
    case Nil
    then show ?thesis using h by (simp add: heap_pop_def)
  next
    case (Cons y ys)
    then have "mset (snd (heap_pop h)) = mset (x # ys)" using h heap_sift_down_mset [of 0 "x # ys"] by (simp add: heap_pop_def Let_def)
    then show ?thesis using h Cons by simp
  qed
qed

lemma heap_pop_length: "h \<noteq> [] \<Longrightarrow> length (snd (heap_pop h)) = length h - 1"
  using arg_cong [OF heap_pop_mset(2), of h size] by simp

subsection \<open>The order\<close>

definition dl :: "('c, 'b) rtc_timer_sched_node_scheme list \<Rightarrow> nat \<Rightarrow> u64" where
  "dl h i = nd_deadline_ms (h ! i)"

definition par :: "nat \<Rightarrow> nat" where
  "par i = (i - 1) div 2"

definition heap_ok :: "('c, 'b) rtc_timer_sched_node_scheme list \<Rightarrow> bool" where
  "heap_ok h \<longleftrightarrow> (\<forall>i. 0 < i \<and> i < length h \<longrightarrow> dl h (par i) \<le> dl h i)"

text \<open>A heap except that the node at \<open>k\<close> may be too small for its place, or too large.\<close>

definition up_ok :: "('c, 'b) rtc_timer_sched_node_scheme list \<Rightarrow> nat \<Rightarrow> bool" where
  "up_ok h k \<longleftrightarrow> (\<forall>i. 0 < i \<and> i < length h \<and> i \<noteq> k \<longrightarrow> dl h (par i) \<le> dl h i) \<and>
    (\<forall>i. 0 < k \<and> 0 < i \<and> i < length h \<and> par i = k \<longrightarrow> dl h (par k) \<le> dl h i)"

definition down_ok :: "('c, 'b) rtc_timer_sched_node_scheme list \<Rightarrow> nat \<Rightarrow> bool" where
  "down_ok h k \<longleftrightarrow> (\<forall>i. 0 < i \<and> i < length h \<and> par i \<noteq> k \<longrightarrow> dl h (par i) \<le> dl h i) \<and>
    (\<forall>i. 0 < k \<and> 0 < i \<and> i < length h \<and> par i = k \<longrightarrow> dl h (par k) \<le> dl h i)"

lemma dl_swap:
  "a < length h \<Longrightarrow> b < length h \<Longrightarrow> dl (heap_swap h a b) i = (if i = a then dl h b else if i = b then dl h a else dl h i)"
  by (auto simp: dl_def heap_swap_def nth_list_update)

lemma par_lt: "0 < i \<Longrightarrow> par i < i"
  unfolding par_def by linarith

lemma par_cases: "0 < i \<Longrightarrow> par i = k \<longleftrightarrow> i = k * 2 + 1 \<or> i = k * 2 + 2"
  unfolding par_def by presburger

lemma up_step:
  assumes "up_ok h k" "0 < k" "k < length h" "dl h k < dl h (par k)"
  shows "up_ok (heap_swap h (par k) k) (par k)"
proof -
  have p: "par k < k" "par k < length h" using par_lt [OF assms(2)] assms(3) by simp_all
  note sw = dl_swap [OF p(2) assms(3)]
  have o: "\<And>i. 0 < i \<Longrightarrow> i < length h \<Longrightarrow> i \<noteq> k \<Longrightarrow> dl h (par i) \<le> dl h i"
    and c: "\<And>i. 0 < i \<Longrightarrow> i < length h \<Longrightarrow> par i = k \<Longrightarrow> dl h (par k) \<le> dl h i" using assms(1,2) by (auto simp: up_ok_def)
  have main: "dl (heap_swap h (par k) k) (par i) \<le> dl (heap_swap h (par k) k) i" if i: "0 < i" "i < length h" "i \<noteq> par k" for i
  proof -
    consider "i = k" | "i \<noteq> k" "par i = k" | "i \<noteq> k" "par i = par k" | "i \<noteq> k" "par i \<noteq> k" "par i \<noteq> par k" by blast
    then show ?thesis
    proof cases
      case 1
      then show ?thesis unfolding sw using assms(4) p(1) by simp
    next
      case 2
      then show ?thesis unfolding sw using c [OF i(1,2)] p(1) i(3) by simp
    next
      case 3
      then show ?thesis unfolding sw using o [OF i(1,2)] assms(4) i(3) by simp
    next
      case 4
      then show ?thesis unfolding sw using o [OF i(1,2)] i(3) by simp
    qed
  qed
  have "dl (heap_swap h (par k) k) (par (par k)) \<le> dl (heap_swap h (par k) k) i"
    if i: "0 < par k" "0 < i" "i < length h" "par i = par k" for i
  proof -
    have pp: "par (par k) < par k" using par_lt [OF i(1)] .
    have a: "dl h (par (par k)) \<le> dl h (par k)" using o [OF i(1) p(2)] p(1) by simp
    show ?thesis
    proof (cases "i = k")
      case True
      then show ?thesis unfolding sw using a pp p(1) by simp
    next
      case False
      have "i \<noteq> par k" using i(4) par_lt [OF i(2)] by auto
      then show ?thesis unfolding sw using a pp p(1) False o [OF i(2,3) False] i(4) by simp
    qed
  qed
  then show ?thesis using main unfolding up_ok_def by simp
qed

lemma heap_sift_up_ok: "up_ok h k \<Longrightarrow> k < length h \<Longrightarrow> heap_ok (heap_sift_up h k)"
proof (induction h k rule: heap_sift_up.induct)
  case (1 h k)
  show ?case
  proof (cases "0 < k \<and> \<not> nd_deadline_ms (h ! ((k - 1) div 2)) \<le> nd_deadline_ms (h ! k)")
    case True
    then have eq: "heap_sift_up h k = heap_sift_up (heap_swap h (par k) k) (par k)"
      by (subst heap_sift_up.simps) (simp add: Let_def par_def)
    have "up_ok (heap_swap h (par k) k) (par k)" by (rule up_step) (use 1(2,3) True in \<open>simp_all add: dl_def par_def not_le\<close>)
    then show ?thesis unfolding eq using 1(1) [OF _ refl] True 1(3) par_lt [of k] by (simp add: par_def)
  next
    case False
    then have "heap_sift_up h k = h" by (subst heap_sift_up.simps) (auto simp: Let_def)
    moreover have "heap_ok h" unfolding heap_ok_def
    proof (intro allI impI)
      fix i assume "0 < i \<and> i < length h"
      then show "dl h (par i) \<le> dl h i" using 1(2) False by (cases "i = k") (auto simp: up_ok_def dl_def par_def)
    qed
    ultimately show ?thesis by simp
  qed
qed

lemma down_step:
  assumes "down_ok h k" "k < length h" "par s = k" "0 < s" "s < length h" "dl h s < dl h k"
    "\<And>i. 0 < i \<Longrightarrow> i < length h \<Longrightarrow> par i = k \<Longrightarrow> dl h s \<le> dl h i"
  shows "down_ok (heap_swap h k s) s"
proof -
  have ks: "k < s" using par_lt [OF assms(4)] assms(3) by simp
  note sw = dl_swap [OF assms(2,5)]
  have o: "\<And>i. 0 < i \<Longrightarrow> i < length h \<Longrightarrow> par i \<noteq> k \<Longrightarrow> dl h (par i) \<le> dl h i"
    and c: "0 < k \<Longrightarrow> dl h (par k) \<le> dl h s" using assms(1,3,4,5) by (auto simp: down_ok_def)
  have main: "dl (heap_swap h k s) (par i) \<le> dl (heap_swap h k s) i" if i: "0 < i" "i < length h" "par i \<noteq> s" for i
  proof -
    consider "i = s" | "i \<noteq> s" "par i = k" | "i = k" "par i \<noteq> k" | "i \<noteq> s" "i \<noteq> k" "par i \<noteq> k" by blast
    then show ?thesis
    proof cases
      case 1
      then show ?thesis unfolding sw using assms(3,6) ks by simp
    next
      case 2
      then show ?thesis unfolding sw using assms(7) [OF i(1,2)] par_lt [OF i(1)] ks by simp
    next
      case 3
      then show ?thesis unfolding sw using c i ks par_lt [OF i(1)] by simp
    next
      case 4
      then show ?thesis unfolding sw using o [OF i(1,2)] i(3) by simp
    qed
  qed
  have "dl (heap_swap h k s) (par s) \<le> dl (heap_swap h k s) i" if i: "0 < i" "i < length h" "par i = s" for i
  proof -
    have "i \<noteq> s" "i \<noteq> k" using par_lt [OF i(1)] i(3) ks by auto
    then show ?thesis unfolding sw using o [OF i(1,2)] i(3) ks assms(3) by simp
  qed
  then show ?thesis using main unfolding down_ok_def by simp
qed

lemma smallest_child:
  assumes "k < length h" "s = smaller h (k * 2 + 1 + 1) (smaller h (k * 2 + 1) k)"
  shows "0 < i \<Longrightarrow> i < length h \<Longrightarrow> par i = k \<Longrightarrow> dl h s \<le> dl h i"
    "s \<noteq> k \<Longrightarrow> par s = k \<and> 0 < s \<and> s < length h \<and> dl h s < dl h k"
proof -
  show "0 < i \<Longrightarrow> i < length h \<Longrightarrow> par i = k \<Longrightarrow> dl h s \<le> dl h i"
    using assms par_cases [of i k] unfolding smaller_def dl_def by (auto split: if_splits)
  show "s \<noteq> k \<Longrightarrow> par s = k \<and> 0 < s \<and> s < length h \<and> dl h s < dl h k"
    using assms par_cases [of s k] unfolding smaller_def dl_def by (auto split: if_splits)
qed

lemma heap_sift_down_ok: "down_ok h k \<Longrightarrow> k < length h \<Longrightarrow> heap_ok (heap_sift_down h k)"
proof (induction h k rule: heap_sift_down.induct)
  case (1 h k)
  define s where "s = smaller h (k * 2 + 1 + 1) (smaller h (k * 2 + 1) k)"
  note sm = smallest_child [OF 1(3) s_def]
  show ?case
  proof (cases "s = k")
    case True
    then have "heap_sift_down h k = h" by (subst heap_sift_down.simps) (simp add: Let_def s_def)
    moreover have "heap_ok h" unfolding heap_ok_def
    proof (intro allI impI)
      fix i assume "0 < i \<and> i < length h"
      then show "dl h (par i) \<le> dl h i" using 1(2) sm(1) [of i] True by (cases "par i = k") (auto simp: down_ok_def)
    qed
    ultimately show ?thesis by simp
  next
    case False
    then have eq: "heap_sift_down h k = heap_sift_down (heap_swap h k s) s"
      by (subst heap_sift_down.simps) (simp add: Let_def s_def)
    have "down_ok (heap_swap h k s) s" by (rule down_step [OF 1(2,3)]) (use sm(2) [OF False] sm(1) in blast)+
    then show ?thesis unfolding eq using 1(1) [OF refl refl s_def False] sm(2) [OF False] by simp
  qed
qed

lemma heap_ok_min: "heap_ok h \<Longrightarrow> i < length h \<Longrightarrow> dl h 0 \<le> dl h i"
proof (induction i rule: less_induct)
  case (less i)
  show ?case
  proof (cases "i = 0")
    case False
    then have "dl h 0 \<le> dl h (par i)" using less.IH [of "par i"] less.prems par_lt [of i] by simp
    also have "\<dots> \<le> dl h i" using less.prems False by (simp add: heap_ok_def)
    finally show ?thesis .
  qed simp
qed

lemma heap_push_ok: "heap_ok h \<Longrightarrow> heap_ok (heap_sift_up (h @ [x]) (length h))"
proof (rule heap_sift_up_ok)
  assume h: "heap_ok h"
  have a: "dl (h @ [x]) (par i) \<le> dl (h @ [x]) i" if i: "0 < i" "i < length (h @ [x])" "i \<noteq> length h" for i
  proof -
    have "dl h (par i) \<le> dl h i" using h i by (simp add: heap_ok_def)
    then show ?thesis using i par_lt [OF i(1)] by (simp add: dl_def nth_append)
  qed
  have b: "par i \<noteq> length h" if "0 < i" "i < length (h @ [x])" for i using par_lt [OF that(1)] that(2) by auto
  show "up_ok (h @ [x]) (length h)" unfolding up_ok_def using a b by blast
qed simp

lemma heap_pop_ok: "heap_ok h \<Longrightarrow> h \<noteq> [] \<Longrightarrow> heap_ok (snd (heap_pop h))"
proof -
  assume h: "heap_ok h" "h \<noteq> []"
  let ?r = "(butlast h)[0 := last h]"
  have "down_ok ?r 0" if "length (butlast h) > 0"
  proof -
    have "dl ?r (par i) \<le> dl ?r i" if i: "0 < i" "i < length ?r" "par i \<noteq> 0" for i
    proof -
      have "dl h (par i) \<le> dl h i" using h(1) i by (auto simp: heap_ok_def)
      then show ?thesis using i par_lt [OF i(1)] by (simp add: dl_def nth_butlast)
    qed
    then show ?thesis by (auto simp: down_ok_def)
  qed
  then have "length (butlast h) > 0 \<Longrightarrow> heap_ok (heap_sift_down ?r 0)" using heap_sift_down_ok [of ?r 0] by simp
  moreover have "length (butlast h) = 0 \<Longrightarrow> heap_ok (butlast h)" by (simp add: heap_ok_def)
  ultimately show ?thesis unfolding heap_pop_def Let_def snd_conv by (metis gr0I)
qed

end
