(* ===== verification/Timer_Sched.thy ===== *)
theory Timer_Sched
  imports Timer_Heap
begin

text \<open>
  The timer scheduler (\<^verbatim>\<open>rtc_timer_sched.c\<close>): handles of a slot and a generation, lazy cancellation,
  the two growing arrays, and the loops that discard stale roots and pop due timers. Capacities are
  natural numbers, the outcome of each reallocation is an argument. The abstract view of a scheduler is a
  map from handles to a deadline and a callback.
\<close>

subsection \<open>State and operations\<close>

definition TIMER_INITIAL_HEAP_CAP :: nat where "TIMER_INITIAL_HEAP_CAP = 16"
definition TIMER_INITIAL_SLOT_CAP :: nat where "TIMER_INITIAL_SLOT_CAP = 16"
definition RTC_TIMER_HANDLE_INVALID :: u64 where "RTC_TIMER_HANDLE_INVALID = 0"
definition INT_MAX :: nat where "INT_MAX = 2147483647"

record 'c rtc_timer_sched =
  ts_heap :: "'c rtc_timer_sched_node list"
  ts_heap_cap :: nat
  ts_generations :: "u32 list"
  ts_active :: "bool list"
  ts_slot_count :: nat
  ts_slot_cap :: nat

definition timer_make_handle :: "nat \<Rightarrow> u32 \<Rightarrow> u64" where
  "timer_make_handle slot generation = push_bit 32 (ucast generation) OR ucast (of_nat slot :: u32)"

definition timer_handle_slot :: "u64 \<Rightarrow> int" where
  "timer_handle_slot handle = sint (ucast (handle AND 0xFFFFFFFF) :: u32)"

definition timer_handle_generation :: "u64 \<Rightarrow> u32" where
  "timer_handle_generation handle = ucast (drop_bit 32 handle)"

definition timer_node_active :: "'c rtc_timer_sched \<Rightarrow> 'c rtc_timer_sched_node \<Rightarrow> bool" where
  "timer_node_active s n \<longleftrightarrow> nd_slot n < ts_slot_count s \<and> ts_active s ! nd_slot n \<and> ts_generations s ! nd_slot n = nd_generation n"

definition ensure_heap_cap :: "bool \<Rightarrow> 'c rtc_timer_sched \<Rightarrow> rtc_err \<times> 'c rtc_timer_sched" where
  "ensure_heap_cap a s =
    (if length (ts_heap s) < ts_heap_cap s then (RTC_OK, s)
     else
       let new_cap = (if ts_heap_cap s \<noteq> 0 then ts_heap_cap s * 2 else TIMER_INITIAL_HEAP_CAP)
       in if \<not> a then (RTC_ERR_NOMEM, s) else (RTC_OK, s\<lparr>ts_heap_cap := new_cap\<rparr>))"

definition ensure_slot_cap :: "bool \<Rightarrow> bool \<Rightarrow> 'c rtc_timer_sched \<Rightarrow> rtc_err \<times> 'c rtc_timer_sched" where
  "ensure_slot_cap a1 a2 s =
    (if ts_slot_count s < ts_slot_cap s then (RTC_OK, s)
     else
       let old_cap = ts_slot_cap s; new_cap = (if old_cap \<noteq> 0 then old_cap * 2 else TIMER_INITIAL_SLOT_CAP)
       in if \<not> a1 then (RTC_ERR_NOMEM, s)
          else if \<not> a2 then (RTC_ERR_NOMEM, s)
          else (RTC_OK, s\<lparr>ts_generations := ts_generations s @ replicate (new_cap - old_cap) 0,
                          ts_active := ts_active s @ replicate (new_cap - old_cap) False, ts_slot_cap := new_cap\<rparr>))"

fun free_slot :: "bool list \<Rightarrow> nat \<Rightarrow> nat \<Rightarrow> nat option" where
  "free_slot [] i n = None"
| "free_slot (b # bs) i n = (if i < n then if \<not> b then Some i else free_slot bs (i + 1) n else None)"

definition alloc_slot :: "bool \<Rightarrow> bool \<Rightarrow> 'c rtc_timer_sched \<Rightarrow> nat option \<times> 'c rtc_timer_sched" where
  "alloc_slot a1 a2 s =
    (case free_slot (ts_active s) 0 (ts_slot_count s) of
       Some i \<Rightarrow> (Some i, s)
     | None \<Rightarrow>
         case ensure_slot_cap a1 a2 s of (e, s) \<Rightarrow>
           if e \<noteq> RTC_OK then (None, s)
           else (Some (ts_slot_count s), s\<lparr>ts_slot_count := ts_slot_count s + 1\<rparr>))"

function prune_stale_roots :: "'c rtc_timer_sched \<Rightarrow> 'c rtc_timer_sched" where
  "prune_stale_roots s =
    (if ts_heap s \<noteq> [] \<and> \<not> timer_node_active s (ts_heap s ! 0) then
       prune_stale_roots (s\<lparr>ts_heap := snd (heap_pop (ts_heap s))\<rparr>)
     else s)"
  by pat_completeness auto
termination by (relation "measure (\<lambda>s. length (ts_heap s))") (auto simp: heap_pop_length)

declare prune_stale_roots.simps [simp del]

definition rtc_timer_sched_init :: "'c rtc_timer_sched" where
  "rtc_timer_sched_init = \<lparr>ts_heap = [], ts_heap_cap = 0, ts_generations = [], ts_active = [], ts_slot_count = 0, ts_slot_cap = 0\<rparr>"

definition rtc_timer_sched_close :: "'c rtc_timer_sched \<Rightarrow> 'c rtc_timer_sched" where
  "rtc_timer_sched_close s = rtc_timer_sched_init"

text \<open>\<^verbatim>\<open>generations[slot]++\<close>, skipping zero.\<close>

definition bump :: "u32 \<Rightarrow> u32" where
  "bump g = (if g + 1 = 0 then 1 else g + 1)"

definition rtc_timer_sched_add :: "bool \<times> bool \<times> bool \<Rightarrow> 'c rtc_timer_sched \<Rightarrow> u64 \<Rightarrow> 'c \<Rightarrow> u64 \<times> 'c rtc_timer_sched" where
  "rtc_timer_sched_add al s deadline_ms cb =
    (case al of (a0, a1, a2) \<Rightarrow>
     case ensure_heap_cap a0 s of (e, s) \<Rightarrow>
     if e \<noteq> RTC_OK then (RTC_TIMER_HANDLE_INVALID, s)
     else case alloc_slot a1 a2 s of
       (None, s) \<Rightarrow> (RTC_TIMER_HANDLE_INVALID, s)
     | (Some slot, s) \<Rightarrow>
         let g = bump (ts_generations s ! slot);
             node = \<lparr>nd_deadline_ms = deadline_ms, nd_cb = cb, nd_generation = g, nd_slot = slot\<rparr>;
             idx = length (ts_heap s)
         in (timer_make_handle slot g,
             s\<lparr>ts_generations := (ts_generations s)[slot := g], ts_active := (ts_active s)[slot := True],
               ts_heap := heap_sift_up (ts_heap s @ [node]) idx\<rparr>))"

definition rtc_timer_sched_cancel :: "'c rtc_timer_sched \<Rightarrow> u64 \<Rightarrow> 'c rtc_timer_sched" where
  "rtc_timer_sched_cancel s handle =
    (if handle = RTC_TIMER_HANDLE_INVALID then s
     else
       let slot = timer_handle_slot handle; generation = timer_handle_generation handle
       in if slot < 0 \<or> slot \<ge> int (ts_slot_count s) then s
          else if ts_generations s ! nat slot \<noteq> generation then s
          else s\<lparr>ts_active := (ts_active s)[nat slot := False]\<rparr>)"

definition rtc_timer_sched_next_timeout_ms :: "'c rtc_timer_sched \<Rightarrow> u64 \<Rightarrow> int \<Rightarrow> int \<times> 'c rtc_timer_sched" where
  "rtc_timer_sched_next_timeout_ms s now_ms default_timeout_ms =
    (let s = prune_stale_roots s
     in if ts_heap s = [] then (default_timeout_ms, s)
        else
          let deadline = nd_deadline_ms (ts_heap s ! 0)
          in if now_ms \<ge> deadline then (0, s)
             else
               let diff = deadline - now_ms
               in (if unat diff > INT_MAX then int INT_MAX else uint diff, s))"

lemma prune_length: "length (ts_heap (prune_stale_roots s)) \<le> length (ts_heap s)"
proof (induction s rule: prune_stale_roots.induct)
  case (1 s)
  show ?case
  proof (cases "ts_heap s \<noteq> [] \<and> \<not> timer_node_active s (ts_heap s ! 0)")
    case True
    then show ?thesis using 1 heap_pop_length [of "ts_heap s"] by (subst prune_stale_roots.simps) simp
  next
    case False
    then show ?thesis by (subst prune_stale_roots.simps) (simp only: if_False order_refl)
  qed
qed

function rtc_timer_sched_pop_due :: "'c rtc_timer_sched \<Rightarrow> u64 \<Rightarrow> 'c option \<times> 'c rtc_timer_sched" where
  "rtc_timer_sched_pop_due s now_ms =
    (let s1 = prune_stale_roots s
     in if ts_heap s1 = [] \<or> nd_deadline_ms (ts_heap s1 ! 0) > now_ms then (None, s1)
        else
          let (node, h) = heap_pop (ts_heap s1); s2 = s1\<lparr>ts_heap := h\<rparr>
          in if \<not> timer_node_active s2 node then rtc_timer_sched_pop_due s2 now_ms
             else (Some (nd_cb node), s2\<lparr>ts_active := (ts_active s2)[nd_slot node := False]\<rparr>))"
  by pat_completeness auto
termination
proof (relation "measure (\<lambda>(s, now). length (ts_heap s))", goal_cases)
  case (2 s now s1 x node h s2)
  have "length h = length (ts_heap s1) - 1" using heap_pop_length [of "ts_heap s1"] 2 by (metis snd_conv)
  moreover have "length (ts_heap s1) \<le> length (ts_heap s)" using prune_length [of s] 2(1) by simp
  ultimately show ?case using 2 by (cases "ts_heap s1") auto
qed simp

declare rtc_timer_sched_pop_due.simps [simp del]

text \<open>\<open>run cb\<close> is what the callback does to the scheduler.\<close>

partial_function (option) rtc_timer_sched_fire_due ::
  "('c \<Rightarrow> 'c rtc_timer_sched \<Rightarrow> 'c rtc_timer_sched) \<Rightarrow> 'c rtc_timer_sched \<Rightarrow> u64 \<Rightarrow> ('c list \<times> 'c rtc_timer_sched) option" where
  "rtc_timer_sched_fire_due run s now_ms =
    (case rtc_timer_sched_pop_due s now_ms of
       (None, s') \<Rightarrow> Some ([], s')
     | (Some cb, s') \<Rightarrow> do { (cbs, s'') \<leftarrow> rtc_timer_sched_fire_due run (run cb s') now_ms; Some (cb # cbs, s'') })"

definition rtc_timer_sched_pending_count :: "'c rtc_timer_sched \<Rightarrow> nat" where
  "rtc_timer_sched_pending_count s = length (filter (\<lambda>i. ts_active s ! i) [0..<ts_slot_count s])"

end
