(* ===== verification/Timer_Refine.thy ===== *)
theory Timer_Refine
  imports Timer_Sched
begin

text \<open>
  The scheduler refines a map from handles to deadlines and callbacks: its invariant, the abstraction, and what
  every operation does to both.
\<close>

subsection \<open>Handles\<close>

definition hnd :: "'c rtc_timer_sched_node \<Rightarrow> u64" where
  "hnd n = timer_make_handle (nd_slot n) (nd_generation n)"

lemma handle_generation [simp]: "timer_handle_generation (timer_make_handle i g) = g"
  unfolding timer_handle_generation_def timer_make_handle_def
  by (rule bit_word_eqI) (auto simp: bit_simps dest: bit_imp_le_length)

lemma handle_slot: "i < 2 ^ 31 \<Longrightarrow> timer_handle_slot (timer_make_handle i g) = int i"
proof -
  assume i: "i < 2 ^ 31"
  have m: "(x AND 0xFFFFFFFF :: u64) = take_bit 32 x" for x by (simp add: take_bit_eq_mask mask_eq_exp_minus_1)
  have "(ucast (timer_make_handle i g AND 0xFFFFFFFF) :: u32) = of_nat i"
    unfolding timer_make_handle_def m by (rule bit_word_eqI) (auto simp: bit_simps dest: bit_imp_le_length)
  moreover have "sint (of_nat i :: u32) = int i" using i by (simp add: signed_of_nat signed_take_bit_int_eq_self)
  ultimately show ?thesis by (simp add: timer_handle_slot_def)
qed

lemma handle_inject:
  assumes "timer_make_handle i g = timer_make_handle j h" "i < 2 ^ 31" "j < 2 ^ 31"
  shows "i = j \<and> g = h"
proof -
  have "g = h" using arg_cong [OF assms(1), of timer_handle_generation] by simp
  moreover have "i = j" using arg_cong [OF assms(1), of timer_handle_slot] handle_slot [OF assms(2)] handle_slot [OF assms(3)] by simp
  ultimately show ?thesis by simp
qed

lemma handle_decode:
  assumes "0 \<le> timer_handle_slot h" "timer_handle_slot h = int i"
  shows "h = timer_make_handle i (timer_handle_generation h)"
proof -
  have m: "(x AND 0xFFFFFFFF :: u64) = take_bit 32 x" for x by (simp add: take_bit_eq_mask mask_eq_exp_minus_1)
  define w where "w = (ucast (h AND 0xFFFFFFFF) :: u32)"
  have "sint w = int i" using assms(2) by (simp add: timer_handle_slot_def w_def)
  then have "w = of_nat i" by (metis of_int_of_nat_eq of_int_sint scast_id)
  moreover have "h = push_bit 32 (ucast (ucast (drop_bit 32 h) :: u32)) OR ucast w"
    unfolding w_def m by (rule bit_word_eqI) (auto simp: bit_simps dest: bit_imp_le_length)
  ultimately show ?thesis by (simp add: timer_make_handle_def timer_handle_generation_def)
qed

subsection \<open>Invariant and abstraction\<close>

text \<open>\<open>k\<close> bounds the number of timers added so far.\<close>

definition node_key :: "'c rtc_timer_sched_node \<Rightarrow> nat \<times> u32" where
  "node_key n = (nd_slot n, nd_generation n)"

definition timer_inv :: "nat \<Rightarrow> 'c rtc_timer_sched \<Rightarrow> bool" where
  "timer_inv k s \<longleftrightarrow> heap_ok (ts_heap s) \<and> length (ts_heap s) \<le> ts_heap_cap s \<and>
    length (ts_generations s) = ts_slot_cap s \<and> length (ts_active s) = ts_slot_cap s \<and>
    ts_slot_count s \<le> ts_slot_cap s \<and> ts_slot_count s \<le> k \<and>
    (\<forall>g \<in> set (ts_generations s). unat g \<le> k) \<and>
    (\<forall>n \<in> set (ts_heap s). nd_slot n < ts_slot_count s \<and> 0 < nd_generation n \<and> nd_generation n \<le> ts_generations s ! nd_slot n) \<and>
    distinct (map node_key (ts_heap s)) \<and>
    (\<forall>i < ts_slot_count s. ts_active s ! i \<longrightarrow> (\<exists>n \<in> set (ts_heap s). nd_slot n = i \<and> nd_generation n = ts_generations s ! i)) \<and>
    (\<forall>i. ts_slot_count s \<le> i \<and> i < ts_slot_cap s \<longrightarrow> \<not> ts_active s ! i)"

definition timers :: "'c rtc_timer_sched \<Rightarrow> u64 \<rightharpoonup> u64 \<times> 'c" where
  "timers s = map_of (map (\<lambda>n. (hnd n, (nd_deadline_ms n, nd_cb n))) (filter (timer_node_active s) (ts_heap s)))"

lemma timer_invD:
  assumes "timer_inv k s"
  shows "heap_ok (ts_heap s)" "length (ts_heap s) \<le> ts_heap_cap s" "length (ts_generations s) = ts_slot_cap s"
    "length (ts_active s) = ts_slot_cap s" "ts_slot_count s \<le> ts_slot_cap s" "ts_slot_count s \<le> k"
    "g \<in> set (ts_generations s) \<Longrightarrow> unat g \<le> k" "n \<in> set (ts_heap s) \<Longrightarrow> nd_slot n < ts_slot_count s"
    "n \<in> set (ts_heap s) \<Longrightarrow> 0 < nd_generation n" "n \<in> set (ts_heap s) \<Longrightarrow> nd_generation n \<le> ts_generations s ! nd_slot n"
    "distinct (map node_key (ts_heap s))"
    "i < ts_slot_count s \<Longrightarrow> ts_active s ! i \<Longrightarrow> \<exists>n \<in> set (ts_heap s). nd_slot n = i \<and> nd_generation n = ts_generations s ! i"
    "ts_slot_count s \<le> i \<Longrightarrow> i < ts_slot_cap s \<Longrightarrow> \<not> ts_active s ! i"
  using assms unfolding timer_inv_def by blast+

lemma active_unique:
  assumes "timer_inv k s" "m \<in> set (ts_heap s)" "n \<in> set (ts_heap s)" "timer_node_active s m" "timer_node_active s n"
    "nd_slot m = nd_slot n"
  shows "m = n"
proof -
  have "node_key m = node_key n" using assms(4-6) by (simp add: node_key_def timer_node_active_def)
  then show ?thesis using timer_invD(11) [OF assms(1)] assms(2,3) by (auto simp: distinct_map dest: inj_onD)
qed

lemma timers_Some:
  assumes "timer_inv k s" "k < 2 ^ 31"
  shows "timers s h = Some (d, c) \<longleftrightarrow>
    (\<exists>n \<in> set (ts_heap s). timer_node_active s n \<and> hnd n = h \<and> nd_deadline_ms n = d \<and> nd_cb n = c)"
proof -
  let ?l = "filter (timer_node_active s) (ts_heap s)"
  have slots: "nd_slot n < 2 ^ 31" if "n \<in> set (ts_heap s)" for n
    using timer_invD(6,8) [OF assms(1)] that assms(2) by fastforce
  have "inj_on hnd (set ?l)"
  proof (rule inj_onI)
    fix m n assume mn: "m \<in> set ?l" "n \<in> set ?l" "hnd m = hnd n"
    then have "nd_slot m = nd_slot n" using handle_inject slots unfolding hnd_def by auto
    then show "m = n" using active_unique [OF assms(1)] mn by simp
  qed
  moreover have "distinct ?l" using timer_invD(11) [OF assms(1)] by (simp add: distinct_map)
  ultimately have "distinct (map fst (map (\<lambda>n. (hnd n, (nd_deadline_ms n, nd_cb n))) ?l))"
    by (simp add: distinct_map comp_def inj_on_def)
  then show ?thesis unfolding timers_def by (auto simp: map_of_eq_Some_iff)
qed

lemma timers_None:
  assumes "timer_inv k s" "k < 2 ^ 31"
  shows "timers s h = None \<longleftrightarrow> (\<forall>n \<in> set (ts_heap s). timer_node_active s n \<longrightarrow> hnd n \<noteq> h)"
  using timers_Some [OF assms, of h] by (cases "timers s h") auto

lemma map_eq_SomeI: "(\<And>h d c. m h = Some (d, c) \<longleftrightarrow> m' h = Some (d, c)) \<Longrightarrow> m = m'"
  by (rule ext) (metis not_None_eq old.prod.exhaust)

subsection \<open>Removing the root\<close>

lemma heap_pop_facts:
  assumes "heap_ok h" "h \<noteq> []" "distinct (map node_key h)" "heap_pop h = (r, h')"
  shows "r = h ! 0" "r \<in> set h" "set h = insert r (set h')" "r \<notin> set h'" "distinct (map node_key h')" "heap_ok h'" "length h' < length h"
proof -
  note m = heap_pop_mset [OF assms(2), unfolded assms(4) fst_conv snd_conv]
  show r: "r = h ! 0" by (rule m(1))
  show "r \<in> set h" using r assms(2) by simp
  have m': "mset h = add_mset r (mset h')" using m r by simp
  show "set h = insert r (set h')" using arg_cong [OF m', of set_mset] by simp
  have "image_mset node_key (mset h) = add_mset (node_key r) (image_mset node_key (mset h'))" by (simp add: m')
  then have mm: "mset (map node_key h) = mset (map node_key (r # h'))" by simp
  have "distinct (map node_key (r # h'))" using mset_eq_imp_distinct_iff [OF mm] assms(3) by blast
  then show "r \<notin> set h'" "distinct (map node_key h')" by auto
  show "heap_ok h'" using heap_pop_ok [OF assms(1,2)] assms(4) by simp
  show "length h' < length h" using arg_cong [OF m', of size] by simp
qed

lemma pop_stale:
  assumes "timer_inv k s" "ts_heap s \<noteq> []" "\<not> timer_node_active s (ts_heap s ! 0)"
  shows "timer_inv k (s\<lparr>ts_heap := snd (heap_pop (ts_heap s))\<rparr>)"
    "k < 2 ^ 31 \<Longrightarrow> timers (s\<lparr>ts_heap := snd (heap_pop (ts_heap s))\<rparr>) = timers s"
proof -
  obtain r h' where p: "heap_pop (ts_heap s) = (r, h')" by fastforce
  let ?s = "s\<lparr>ts_heap := h'\<rparr>"
  note f = heap_pop_facts [OF timer_invD(1) [OF assms(1)] assms(2) timer_invD(11) [OF assms(1)] p]
  have act: "timer_node_active ?s n = timer_node_active s n" for n by (simp add: timer_node_active_def)
  have ex: "\<exists>n \<in> set h'. nd_slot n = i \<and> nd_generation n = ts_generations s ! i" if i: "i < ts_slot_count s" "ts_active s ! i" for i
  proof -
    obtain n where n: "n \<in> set (ts_heap s)" "nd_slot n = i" "nd_generation n = ts_generations s ! i"
      using timer_invD(12) [OF assms(1) i] by blast
    then have "timer_node_active s n" using i by (simp add: timer_node_active_def)
    then have "n \<noteq> r" using assms(3) f(1) by auto
    then show ?thesis using n f(3) by auto
  qed
  have inv: "timer_inv k ?s" unfolding timer_inv_def
    using timer_invD(2-10,13) [OF assms(1)] f(3,5,6,7) ex by auto
  then show "timer_inv k (s\<lparr>ts_heap := snd (heap_pop (ts_heap s))\<rparr>)" using p by simp
  assume k: "k < 2 ^ 31"
  have "timers ?s = timers s"
  proof (rule map_eq_SomeI)
    fix h d c show "timers ?s h = Some (d, c) \<longleftrightarrow> timers s h = Some (d, c)"
      unfolding timers_Some [OF inv k] timers_Some [OF assms(1) k] act using f(1,3) assms(3) by auto
  qed
  then show "timers (s\<lparr>ts_heap := snd (heap_pop (ts_heap s))\<rparr>) = timers s" using p by simp
qed

lemma prune_inv:
  "timer_inv k s \<Longrightarrow> k < 2 ^ 31 \<Longrightarrow> timer_inv k (prune_stale_roots s) \<and> timers (prune_stale_roots s) = timers s \<and>
    (ts_heap (prune_stale_roots s) \<noteq> [] \<longrightarrow> timer_node_active (prune_stale_roots s) (ts_heap (prune_stale_roots s) ! 0))"
proof (induction s rule: prune_stale_roots.induct)
  case (1 s)
  show ?case
  proof (cases "ts_heap s \<noteq> [] \<and> \<not> timer_node_active s (ts_heap s ! 0)")
    case True
    then have eq: "prune_stale_roots s = prune_stale_roots (s\<lparr>ts_heap := snd (heap_pop (ts_heap s))\<rparr>)"
      by (subst prune_stale_roots.simps) simp
    show ?thesis unfolding eq using 1(1) [OF True] pop_stale [of k s] 1(2,3) True by simp
  next
    case False
    then have "prune_stale_roots s = s" by (subst prune_stale_roots.simps) (simp only: if_False)
    then show ?thesis using 1(2) False by auto
  qed
qed

lemma deactivate:
  assumes inv: "timer_inv k s" and k: "k < 2 ^ 31" and i: "i < ts_slot_count s"
    and heap: "heap_ok h'" "distinct (map node_key h')" "length h' \<le> length (ts_heap s)" "set h' \<subseteq> set (ts_heap s)"
      "\<And>n. n \<in> set (ts_heap s) \<Longrightarrow> n \<notin> set h' \<Longrightarrow> nd_slot n = i"
  shows "timer_inv k (s\<lparr>ts_heap := h', ts_active := (ts_active s)[i := False]\<rparr>)"
    "timers (s\<lparr>ts_heap := h', ts_active := (ts_active s)[i := False]\<rparr>) = (timers s)(timer_make_handle i (ts_generations s ! i) := None)"
proof -
  let ?s = "s\<lparr>ts_heap := h', ts_active := (ts_active s)[i := False]\<rparr>"
  have il: "i < length (ts_active s)" using timer_invD(4,5) [OF inv] i by simp
  have act: "timer_node_active ?s n \<longleftrightarrow> timer_node_active s n \<and> nd_slot n \<noteq> i" for n
    using il by (auto simp: timer_node_active_def nth_list_update)
  have ex: "\<exists>n \<in> set h'. nd_slot n = j \<and> nd_generation n = ts_generations s ! j"
    if jc: "j < ts_slot_count s" "(ts_active s)[i := False] ! j" for j
  proof -
    have j: "j \<noteq> i" "ts_active s ! j" using jc il by (auto simp: nth_list_update split: if_splits)
    obtain n where "n \<in> set (ts_heap s)" "nd_slot n = j" "nd_generation n = ts_generations s ! j"
      using timer_invD(12) [OF inv jc(1) j(2)] by blast
    then show ?thesis using heap(5) j(1) by blast
  qed
  show inv': "timer_inv k ?s" unfolding timer_inv_def
    using timer_invD(2-10,13) [OF inv] heap(1-4) ex i by (auto simp: nth_list_update)
  have lt: "nd_slot n < 2 ^ 31" if "n \<in> set (ts_heap s)" for n using timer_invD(6,8) [OF inv] that k by fastforce
  have i31: "i < 2 ^ 31" using timer_invD(6) [OF inv] i k by simp
  have hn: "hnd n \<noteq> timer_make_handle i (ts_generations s ! i) \<longleftrightarrow> nd_slot n \<noteq> i"
    if "n \<in> set (ts_heap s)" "timer_node_active s n" for n
    using handle_inject [of "nd_slot n" "nd_generation n" i "ts_generations s ! i"] lt [OF that(1)] i31 that(2)
    by (auto simp: hnd_def timer_node_active_def)
  show "timers ?s = (timers s)(timer_make_handle i (ts_generations s ! i) := None)"
  proof (rule map_eq_SomeI)
    fix h d c
    have "timers ?s h = Some (d, c) \<longleftrightarrow>
        (\<exists>n \<in> set (ts_heap s). timer_node_active s n \<and> nd_slot n \<noteq> i \<and> hnd n = h \<and> nd_deadline_ms n = d \<and> nd_cb n = c)"
      unfolding timers_Some [OF inv' k] act using heap(4,5) by auto
    also have "\<dots> \<longleftrightarrow> h \<noteq> timer_make_handle i (ts_generations s ! i) \<and> timers s h = Some (d, c)"
      unfolding timers_Some [OF inv k] using hn by blast
    finally show "timers ?s h = Some (d, c) \<longleftrightarrow> ((timers s)(timer_make_handle i (ts_generations s ! i) := None)) h = Some (d, c)" by auto
  qed
qed

subsection \<open>The operations\<close>

lemma cancel_ok:
  assumes inv: "timer_inv k s" and k: "k < 2 ^ 31"
  shows "timer_inv k (rtc_timer_sched_cancel s h) \<and> timers (rtc_timer_sched_cancel s h) = (timers s)(h := None)"
proof -
  have lt: "nd_slot n < 2 ^ 31" if "n \<in> set (ts_heap s)" for n using timer_invD(6,8) [OF inv] that k by fastforce
  have dec: "timer_handle_slot (hnd n) = int (nd_slot n)" "timer_handle_generation (hnd n) = nd_generation n" if "n \<in> set (ts_heap s)" for n
    using handle_slot [OF lt [OF that]] by (simp_all add: hnd_def)
  define i where "i = nat (timer_handle_slot h)"
  show ?thesis
  proof (cases "0 \<le> timer_handle_slot h \<and> timer_handle_slot h < int (ts_slot_count s) \<and>
      ts_generations s ! i = timer_handle_generation h \<and> h \<noteq> RTC_TIMER_HANDLE_INVALID")
    case True
    then have eq: "rtc_timer_sched_cancel s h = s\<lparr>ts_heap := ts_heap s, ts_active := (ts_active s)[i := False]\<rparr>"
      by (simp add: rtc_timer_sched_cancel_def Let_def i_def)
    have "timer_handle_slot h = int i" using True by (simp add: i_def)
    then have "h = timer_make_handle i (timer_handle_generation h)" using handle_decode True by blast
    then have h: "timer_make_handle i (ts_generations s ! i) = h" using True by argo
    have i: "i < ts_slot_count s" using True unfolding i_def by linarith
    show ?thesis unfolding eq
      using deactivate [OF inv k i timer_invD(1) [OF inv] timer_invD(11) [OF inv] order_refl order_refl] unfolding h by blast
  next
    case False
    then have eq: "rtc_timer_sched_cancel s h = s" unfolding rtc_timer_sched_cancel_def Let_def i_def by auto
    have "hnd n \<noteq> h" if n: "n \<in> set (ts_heap s)" "timer_node_active s n" for n
    proof
      assume h: "hnd n = h"
      have "h \<noteq> RTC_TIMER_HANDLE_INVALID" using dec(2) [OF n(1)] timer_invD(9) [OF inv n(1)] h
        by (auto simp: RTC_TIMER_HANDLE_INVALID_def timer_handle_generation_def)
      moreover have "timer_handle_slot h = int (nd_slot n)" "timer_handle_generation h = nd_generation n" using dec [OF n(1)] h by simp_all
      ultimately show False using False n(2) by (simp add: i_def timer_node_active_def)
    qed
    then have "timers s h = None" using timers_None [OF inv k] by blast
    then show ?thesis unfolding eq using inv by (simp add: fun_upd_idem)
  qed
qed

lemma root_min:
  assumes inv: "timer_inv k s" and k: "k < 2 ^ 31" and h: "timers s h = Some (d, c)"
  shows "ts_heap s \<noteq> [] \<and> nd_deadline_ms (ts_heap s ! 0) \<le> d"
proof -
  obtain n where n: "n \<in> set (ts_heap s)" "nd_deadline_ms n = d" using h unfolding timers_Some [OF inv k] by blast
  then obtain i where "i < length (ts_heap s)" "ts_heap s ! i = n" by (metis in_set_conv_nth)
  then show ?thesis using heap_ok_min [OF timer_invD(1) [OF inv], of i] n by (auto simp: dl_def)
qed

lemma pop_due_ok:
  assumes inv: "timer_inv k s" and k: "k < 2 ^ 31" and pop: "rtc_timer_sched_pop_due s now = (r, s')"
  shows "timer_inv k s' \<and> (case r of
      None \<Rightarrow> timers s' = timers s \<and> (\<forall>h d c. timers s h = Some (d, c) \<longrightarrow> now < d)
    | Some c \<Rightarrow> \<exists>h d. timers s h = Some (d, c) \<and> d \<le> now \<and> (\<forall>h' d' c'. timers s h' = Some (d', c') \<longrightarrow> d \<le> d') \<and>
        timers s' = (timers s)(h := None))"
proof -
  define s1 where "s1 = prune_stale_roots s"
  note pr = prune_inv [OF inv k, folded s1_def]
  have inv1: "timer_inv k s1" and t1: "timers s1 = timers s" using pr by simp_all
  show ?thesis
  proof (cases "ts_heap s1 = [] \<or> nd_deadline_ms (ts_heap s1 ! 0) > now")
    case True
    then have "r = None" "s' = s1" using pop by (subst (asm) rtc_timer_sched_pop_due.simps; simp add: Let_def s1_def)+
    moreover have "now < d" if "timers s h = Some (d, c)" for h d c
      using root_min [OF inv1 k, of h d c] True that t1 by auto
    ultimately show ?thesis using inv1 t1 by auto
  next
    case False
    obtain nd h' where p: "heap_pop (ts_heap s1) = (nd, h')" by fastforce
    note f = heap_pop_facts [OF timer_invD(1) [OF inv1] _ timer_invD(11) [OF inv1] p]
    have ne: "ts_heap s1 \<noteq> []" using False by simp
    have act: "timer_node_active s1 nd" using pr f(1) [OF ne] ne by simp
    then have act2: "timer_node_active (s1\<lparr>ts_heap := h'\<rparr>) nd" by (simp add: timer_node_active_def)
    have res: "r = Some (nd_cb nd)" "s' = s1\<lparr>ts_heap := h', ts_active := (ts_active s1)[nd_slot nd := False]\<rparr>"
      using pop False p act2 by (subst (asm) rtc_timer_sched_pop_due.simps; simp add: Let_def s1_def)+
    have nd: "nd \<in> set (ts_heap s1)" "nd_slot nd < ts_slot_count s1" "nd_generation nd = ts_generations s1 ! nd_slot nd"
      using f(2) [OF ne] act by (simp_all add: timer_node_active_def)
    have "set h' \<subseteq> set (ts_heap s1)" "\<And>n. n \<in> set (ts_heap s1) \<Longrightarrow> n \<notin> set h' \<Longrightarrow> nd_slot n = nd_slot nd" using f(3) [OF ne] by auto
    note de = deactivate [OF inv1 k nd(2) f(6) [OF ne] f(5) [OF ne] _ this]
    have h: "timers s (hnd nd) = Some (nd_deadline_ms nd, nd_cb nd)" using timers_Some [OF inv1 k, of "hnd nd"] nd(1) act t1 by auto
    have min: "nd_deadline_ms nd \<le> d'" if "timers s h' = Some (d', c')" for h' d' c'
      using root_min [OF inv1 k, of h' d' c'] that t1 f(1) [OF ne] by simp
    have "timer_inv k s'" "timers s' = (timers s)(hnd nd := None)"
      using de f(7) [OF ne] res(2) t1 nd(3) by (simp_all add: hnd_def)
    moreover have "nd_deadline_ms nd \<le> now" using False f(1) [OF ne] by (simp add: not_less)
    ultimately show ?thesis unfolding res(1) option.case using h min by blast
  qed
qed

definition timeout :: "u64 \<Rightarrow> u64 \<Rightarrow> int" where
  "timeout now d = (if d \<le> now then 0 else min (int INT_MAX) (int (unat d) - int (unat now)))"

lemma clip_diff: "b < a \<Longrightarrow> (if m < a - b then int m else int (a - b)) = min (int m) (int a - int b)"
  by (simp add: min_def of_nat_diff) linarith

lemma next_timeout_ok:
  assumes inv: "timer_inv k s" and k: "k < 2 ^ 31" and nx: "rtc_timer_sched_next_timeout_ms s now dflt = (t, s')"
  shows "timer_inv k s' \<and> timers s' = timers s \<and>
    (if timers s = Map.empty then t = dflt
     else \<exists>h d c. timers s h = Some (d, c) \<and> (\<forall>h' d' c'. timers s h' = Some (d', c') \<longrightarrow> d \<le> d') \<and> t = timeout now d)"
proof -
  define s1 where "s1 = prune_stale_roots s"
  note pr = prune_inv [OF inv k, folded s1_def]
  have inv1: "timer_inv k s1" and t1: "timers s1 = timers s" using pr by simp_all
  have s': "s' = s1" using nx by (auto simp: rtc_timer_sched_next_timeout_ms_def Let_def s1_def split: if_splits)
  show ?thesis
  proof (cases "ts_heap s1 = []")
    case True
    then have "timers s1 = Map.empty" by (simp add: timers_def)
    then have "timers s = Map.empty" using t1 by simp
    moreover have "t = dflt" using nx True by (simp add: rtc_timer_sched_next_timeout_ms_def Let_def s1_def)
    ultimately show ?thesis using s' inv1 t1 by simp
  next
    case False
    define r where "r = ts_heap s1 ! 0"
    have act: "timer_node_active s1 r" "r \<in> set (ts_heap s1)" using pr False by (simp_all add: r_def)
    then have r: "timers s (hnd r) = Some (nd_deadline_ms r, nd_cb r)" using timers_Some [OF inv1 k, of "hnd r"] t1 by auto
    have min: "nd_deadline_ms r \<le> d'" if "timers s h' = Some (d', c')" for h' d' c'
      using root_min [OF inv1 k, of h' d' c'] that t1 by (simp add: r_def)
    have d: "unat (nd_deadline_ms r - now) = unat (nd_deadline_ms r) - unat now" if "\<not> nd_deadline_ms r \<le> now"
      using that by (intro unat_sub) simp
    have "t = timeout now (nd_deadline_ms r)"
    proof (cases "nd_deadline_ms r \<le> now")
      case True
      then show ?thesis using nx False by (simp add: rtc_timer_sched_next_timeout_ms_def Let_def s1_def r_def timeout_def)
    next
      case ne: False
      then have "t = (if unat (nd_deadline_ms r - now) > INT_MAX then int INT_MAX else int (unat (nd_deadline_ms r - now)))"
        using nx False by (auto simp: rtc_timer_sched_next_timeout_ms_def Let_def s1_def r_def)
      moreover have "unat now < unat (nd_deadline_ms r)" using ne by (simp add: word_less_nat_alt not_le)
      ultimately show ?thesis using clip_diff ne unfolding d [OF ne] timeout_def by (simp only: if_False)
    qed
    moreover have "timers s \<noteq> Map.empty" using r by auto
    ultimately show ?thesis using s' inv1 t1 r min by (simp only: if_False) blast
  qed
qed

lemma timers_cong:
  "ts_heap s' = ts_heap s \<Longrightarrow> (\<And>n. timer_node_active s' n = timer_node_active s n) \<Longrightarrow> timers s' = timers s"
  by (simp add: timers_def cong: filter_cong)

lemma free_slot_Some: "free_slot bs i n = Some j \<Longrightarrow> i \<le> j \<and> j < n \<and> j - i < length bs \<and> \<not> bs ! (j - i)"
proof (induction bs i n rule: free_slot.induct)
  case (2 b bs i n)
  then show ?case by (auto split: if_splits simp: nth_Cons')
qed simp

lemma ensure_heap_cap_ok:
  assumes "timer_inv k s" "ensure_heap_cap a s = (e, s')"
  shows "timer_inv k s' \<and> timers s' = timers s \<and> (e = RTC_OK \<longrightarrow> length (ts_heap s') < ts_heap_cap s') \<and> (a \<longrightarrow> e = RTC_OK) \<and>
    ts_slot_cap s' = ts_slot_cap s \<and> ts_slot_count s' = ts_slot_count s"
  using assms unfolding ensure_heap_cap_def timer_inv_def timers_def timer_node_active_def TIMER_INITIAL_HEAP_CAP_def
  by (auto simp: Let_def split: if_splits)

lemma ensure_slot_cap_ok:
  assumes inv: "timer_inv k s" and en: "ensure_slot_cap a1 a2 s = (e, s')"
  shows "timer_inv k s' \<and> timers s' = timers s \<and> (e = RTC_OK \<longrightarrow> ts_slot_count s' < ts_slot_cap s') \<and> (a1 \<and> a2 \<longrightarrow> e = RTC_OK) \<and>
    ts_heap s' = ts_heap s \<and> ts_heap_cap s' = ts_heap_cap s \<and> ts_slot_count s' = ts_slot_count s"
proof (cases "ts_slot_count s < ts_slot_cap s \<or> \<not> a1 \<or> \<not> a2")
  case True
  then show ?thesis using inv en by (auto simp: ensure_slot_cap_def Let_def split: if_splits)
next
  case False
  define d where "d = (if ts_slot_cap s \<noteq> 0 then ts_slot_cap s else TIMER_INITIAL_SLOT_CAP)"
  have s': "e = RTC_OK" "s' = s\<lparr>ts_generations := ts_generations s @ replicate d 0, ts_active := ts_active s @ replicate d False,
      ts_slot_cap := ts_slot_cap s + d\<rparr>"
    using False en by (auto simp: ensure_slot_cap_def Let_def d_def TIMER_INITIAL_SLOT_CAP_def)
  have d: "0 < d" by (simp add: d_def TIMER_INITIAL_SLOT_CAP_def)
  note len = timer_invD(3,4,5) [OF inv]
  have lt: "(ts_generations s @ replicate d 0) ! i = ts_generations s ! i" "(ts_active s @ replicate d False) ! i = ts_active s ! i"
    if "i < ts_slot_count s" for i using that len by (simp_all add: nth_append)
  have act: "timer_node_active s' n = timer_node_active s n" for n unfolding s'(2) timer_node_active_def using lt [of "nd_slot n"] by auto
  have "\<not> (ts_active s @ replicate d False) ! i" if "ts_slot_count s \<le> i" "i < ts_slot_cap s + d" for i
    using that timer_invD(13) [OF inv, of i] len by (simp add: nth_append)
  then have "timer_inv k s'" unfolding timer_inv_def s'(2)
    using timer_invD(1,2,3,4,5,6,7,8,9,10,11,12) [OF inv] lt by auto
  moreover have "timers s' = timers s" by (rule timers_cong [OF _ act]) (simp add: s'(2))
  ultimately show ?thesis using s' d False timer_invD(5) [OF inv] by simp
qed

lemma alloc_slot_ok:
  assumes inv: "timer_inv k s" and al: "alloc_slot a1 a2 s = (r, s')"
  shows "timer_inv (k + 1) s'" "timers s' = timers s" "a1 \<and> a2 \<Longrightarrow> r \<noteq> None" "ts_heap s' = ts_heap s" "ts_heap_cap s' = ts_heap_cap s"
    "r = Some i \<Longrightarrow> i < ts_slot_count s' \<and> \<not> ts_active s' ! i \<and> unat (ts_generations s' ! i) \<le> k"
proof -
  have "timer_inv (k + 1) s' \<and> timers s' = timers s \<and> (a1 \<and> a2 \<longrightarrow> r \<noteq> None) \<and> ts_heap s' = ts_heap s \<and> ts_heap_cap s' = ts_heap_cap s \<and>
    (\<forall>i. r = Some i \<longrightarrow> i < ts_slot_count s' \<and> \<not> ts_active s' ! i \<and> unat (ts_generations s' ! i) \<le> k)"
  proof (cases "free_slot (ts_active s) 0 (ts_slot_count s)")
    case (Some i)
    then have r: "r = Some i" "s' = s" using al by (simp_all add: alloc_slot_def)
    have i: "i < ts_slot_count s" "\<not> ts_active s ! i" using free_slot_Some [OF Some] by simp_all
    moreover have "unat (ts_generations s ! i) \<le> k" using timer_invD(3,5) [OF inv] timer_invD(7) [OF inv, of "ts_generations s ! i"] i by simp
    moreover have "timer_inv (k + 1) s" using inv unfolding timer_inv_def by fastforce
    ultimately show ?thesis using r by simp
  next
    case None
    obtain e s1 where en: "ensure_slot_cap a1 a2 s = (e, s1)" by fastforce
    note ok = ensure_slot_cap_ok [OF inv en]
    then have inv1: "timer_inv k s1" by simp
    show ?thesis
    proof (cases "e = RTC_OK")
      case False
      then have "r = None" "s' = s1" using al None en by (simp_all add: alloc_slot_def)
      moreover have "timer_inv (k + 1) s1" using inv1 unfolding timer_inv_def by fastforce
      ultimately show ?thesis using ok False by auto
    next
      case True
      let ?n = "ts_slot_count s1"
      have r: "r = Some ?n" "s' = s1\<lparr>ts_slot_count := ?n + 1\<rparr>" using al None en True by (simp_all add: alloc_slot_def)
      have n: "?n < ts_slot_cap s1" "\<not> ts_active s1 ! ?n" using ok True timer_invD(13) [OF inv1] by simp_all
      have "unat (ts_generations s1 ! ?n) \<le> k" using timer_invD(3) [OF inv1] timer_invD(7) [OF inv1, of "ts_generations s1 ! ?n"] n(1) by simp
      moreover have act: "timer_node_active s' x = timer_node_active s1 x" for x
        unfolding r(2) timer_node_active_def using n(2) by (auto simp: less_Suc_eq)
      have "timer_inv (k + 1) s'" unfolding timer_inv_def r(2)
        using timer_invD(1-13) [OF inv1] n by (auto simp: less_Suc_eq le_SucI)
      moreover have "timers s' = timers s1" by (rule timers_cong [OF _ act]) (simp add: r(2))
      ultimately show ?thesis using ok r n by simp
    qed
  qed
  then show "timer_inv (k + 1) s'" "timers s' = timers s" "a1 \<and> a2 \<Longrightarrow> r \<noteq> None" "ts_heap s' = ts_heap s" "ts_heap_cap s' = ts_heap_cap s"
    "r = Some i \<Longrightarrow> i < ts_slot_count s' \<and> \<not> ts_active s' ! i \<and> unat (ts_generations s' ! i) \<le> k" by simp_all
qed

lemma bump_next: "unat g \<le> k \<Longrightarrow> k + 1 < 2 ^ 31 \<Longrightarrow> unat (bump g) = unat g + 1"
proof -
  assume "unat g \<le> k" "k + 1 < 2 ^ 31"
  then have "unat (g + 1) = unat g + 1" by (simp add: unat_word_ariths)
  then show ?thesis by (auto simp: bump_def)
qed

lemma activate:
  assumes inv: "timer_inv k s" and k: "k < 2 ^ 31" and i: "i < ts_slot_count s" "\<not> ts_active s ! i"
    and g: "unat g = unat (ts_generations s ! i) + 1" "unat g \<le> k"
    and nd: "nd_slot nd = i" "nd_generation nd = g"
    and hp: "mset hp = add_mset nd (mset (ts_heap s))" "heap_ok hp" "length (ts_heap s) < ts_heap_cap s"
  defines "s' \<equiv> s\<lparr>ts_generations := (ts_generations s)[i := g], ts_active := (ts_active s)[i := True], ts_heap := hp\<rparr>"
  shows "timer_inv k s'" "timers s (hnd nd) = None" "timers s' = (timers s)(hnd nd \<mapsto> (nd_deadline_ms nd, nd_cb nd))"
proof -
  have len: "i < length (ts_generations s)" "i < length (ts_active s)" using timer_invD(3,4,5) [OF inv] i(1) by simp_all
  have hs: "set hp = insert nd (set (ts_heap s))" using arg_cong [OF hp(1), of set_mset] by simp
  have hl: "length hp = length (ts_heap s) + 1" using arg_cong [OF hp(1), of size] by simp
  have old: "nd_generation n < g" if "n \<in> set (ts_heap s)" "nd_slot n = i" for n
    using timer_invD(10) [OF inv that(1)] g(1) that(2) by (simp add: word_le_nat_alt word_less_nat_alt)
  have "node_key nd \<notin> node_key ` set (ts_heap s)" using old nd by (force simp: node_key_def)
  moreover have "mset (map node_key hp) = mset (map node_key (nd # ts_heap s))" using hp(1) by simp
  ultimately have dist: "distinct (map node_key hp)"
    using mset_eq_imp_distinct_iff [of "map node_key hp" "map node_key (nd # ts_heap s)"] timer_invD(11) [OF inv] by simp
  have act: "timer_node_active s' n \<longleftrightarrow> n = nd \<or> timer_node_active s n" if "n = nd \<or> n \<in> set (ts_heap s)" for n
  proof (cases "nd_slot n = i")
    case True
    show ?thesis
    proof (cases "n = nd")
      case True
      then show ?thesis using nd i len by (simp add: timer_node_active_def s'_def)
    next
      case False
      then have "nd_generation n < g" using old that True by simp
      then show ?thesis using False True i len by (auto simp: timer_node_active_def s'_def)
    qed
  next
    case False
    then have "n \<noteq> nd" using nd by auto
    then show ?thesis using False by (simp add: timer_node_active_def s'_def)
  qed
  have gs: "unat x \<le> k" if "x \<in> set ((ts_generations s)[i := g])" for x
    using set_update_subset_insert [of "ts_generations s" i g] that timer_invD(7) [OF inv] g(2) by blast
  have nodes: "nd_slot n < ts_slot_count s \<and> 0 < nd_generation n \<and> nd_generation n \<le> (ts_generations s)[i := g] ! nd_slot n" if "n \<in> set hp" for n
  proof (cases "n = nd")
    case True
    then show ?thesis using nd i len g(1) by (simp add: word_less_nat_alt)
  next
    case False
    then have n: "n \<in> set (ts_heap s)" using that hs by simp
    then show ?thesis using timer_invD(8,9,10) [OF inv n] old [OF n] len by (auto simp: nth_list_update)
  qed
  have ex: "\<exists>n \<in> set hp. nd_slot n = j \<and> nd_generation n = (ts_generations s)[i := g] ! j"
    if "j < ts_slot_count s" "(ts_active s)[i := True] ! j" for j
    using that timer_invD(12) [OF inv, of j] nd hs len by (cases "j = i") auto
  show inv': "timer_inv k s'" unfolding timer_inv_def s'_def
    using timer_invD(3,4,5,6,13) [OF inv] i(1) hp(2,3) hl dist gs nodes ex by (auto simp: nth_list_update)
  have i31: "i < 2 ^ 31" using timer_invD(6) [OF inv] i(1) k by simp
  have ne: "hnd n \<noteq> hnd nd" if "n \<in> set (ts_heap s)" "timer_node_active s n" for n
  proof -
    have "nd_slot n \<noteq> i" using that(2) i(2) by (auto simp: timer_node_active_def)
    moreover have "nd_slot n < 2 ^ 31" using timer_invD(8) [OF inv that(1)] timer_invD(6) [OF inv] k by simp
    ultimately show ?thesis using handle_inject i31 nd(1) unfolding hnd_def by metis
  qed
  show "timers s (hnd nd) = None" unfolding timers_None [OF inv k] using ne by blast
  show "timers s' = (timers s)(hnd nd \<mapsto> (nd_deadline_ms nd, nd_cb nd))"
  proof (rule map_eq_SomeI)
    fix h d c
    have "timers s' h = Some (d, c) \<longleftrightarrow> (\<exists>n. (n = nd \<or> n \<in> set (ts_heap s) \<and> timer_node_active s n) \<and> hnd n = h \<and> nd_deadline_ms n = d \<and> nd_cb n = c)"
      unfolding timers_Some [OF inv' k] using act hs by (auto simp: s'_def)
    also have "\<dots> \<longleftrightarrow> ((timers s)(hnd nd \<mapsto> (nd_deadline_ms nd, nd_cb nd))) h = Some (d, c)"
      using ne timers_Some [OF inv k, of h d c] by auto
    finally show "timers s' h = Some (d, c) \<longleftrightarrow> ((timers s)(hnd nd \<mapsto> (nd_deadline_ms nd, nd_cb nd))) h = Some (d, c)" .
  qed
qed

lemma add_ok:
  assumes inv: "timer_inv k s" and k: "k + 1 < 2 ^ 31" and add: "rtc_timer_sched_add al s d c = (h, s')"
  shows "timer_inv (k + 1) s' \<and> (if h = 0 then timers s' = timers s \<and> al \<noteq> (True, True, True)
    else timers s h = None \<and> timers s' = (timers s)(h \<mapsto> (d, c)))"
proof -
  obtain a0 a1 a2 where al: "al = (a0, a1, a2)" by (cases al)
  obtain e s1 where en: "ensure_heap_cap a0 s = (e, s1)" by fastforce
  obtain r s2 where als: "alloc_slot a1 a2 s1 = (r, s2)" by fastforce
  note ok1 = ensure_heap_cap_ok [OF inv en]
  have inv1: "timer_inv k s1" using ok1 by simp
  note ok2 = alloc_slot_ok [OF inv1 als]
  have t2: "timers s2 = timers s" using ok1 ok2(2) by simp
  consider "e \<noteq> RTC_OK" | "e = RTC_OK" "r = None" | i where "e = RTC_OK" "r = Some i" by (cases r) auto
  then show ?thesis
  proof cases
    case 1
    then have "h = 0" "s' = s1" using add al en by (simp_all add: rtc_timer_sched_add_def RTC_TIMER_HANDLE_INVALID_def)
    moreover have "timer_inv (k + 1) s1" using inv1 unfolding timer_inv_def by fastforce
    ultimately show ?thesis using ok1 al 1 by auto
  next
    case 2
    then have "h = 0" "s' = s2" using add al en als by (simp_all add: rtc_timer_sched_add_def RTC_TIMER_HANDLE_INVALID_def)
    then show ?thesis using ok2(1,3) t2 al 2 by auto
  next
    case (3 i)
    define g where "g = bump (ts_generations s2 ! i)"
    define nd where "nd = \<lparr>nd_deadline_ms = d, nd_cb = c, nd_generation = g, nd_slot = i\<rparr>"
    define hp where "hp = heap_sift_up (ts_heap s2 @ [nd]) (length (ts_heap s2))"
    have res: "h = timer_make_handle i g" "s' = s2\<lparr>ts_generations := (ts_generations s2)[i := g], ts_active := (ts_active s2)[i := True], ts_heap := hp\<rparr>"
      using add al en als 3 by (simp_all add: rtc_timer_sched_add_def Let_def g_def nd_def hp_def)
    note inv2 = ok2(1) and i = ok2(6) [OF 3(2)]
    have g: "unat g = unat (ts_generations s2 ! i) + 1" unfolding g_def using bump_next [OF conjunct2 [OF conjunct2 [OF i]] k] .
    have hp: "mset hp = add_mset nd (mset (ts_heap s2))" "heap_ok hp"
      using heap_sift_up_mset [of "length (ts_heap s2)" "ts_heap s2 @ [nd]"] heap_push_ok [OF timer_invD(1) [OF inv2], of nd] by (simp_all add: hp_def)
    have cap: "length (ts_heap s2) < ts_heap_cap s2" using ok1 ok2(4,5) 3(1) by simp
    have nd: "nd_slot nd = i" "nd_generation nd = g" "hnd nd = h" "nd_deadline_ms nd = d" "nd_cb nd = c" by (simp_all add: nd_def hnd_def res(1))
    have i': "i < ts_slot_count s2" "\<not> ts_active s2 ! i" "unat g \<le> k + 1" using i g by simp_all
    have "timer_handle_generation 0 = 0" by (simp add: timer_handle_generation_def)
    then have "h \<noteq> 0" using handle_generation [of i g] g res(1) by (metis Suc_eq_plus1 nat.distinct(1) unat_0)
    then show ?thesis using activate [OF inv2 k i'(1,2) g i'(3) nd(1,2) hp cap] t2 unfolding res(2) nd(3,4,5) by simp
  qed
qed

end
