(* ===== verification/Timer_Trace.thy ===== *)
theory Timer_Trace
  imports Timer_Refine
begin

text \<open>
  Traces of the timer scheduler: every sequence of its operations is a run of an abstract machine whose state is a
  map from handles to deadlines and callbacks, together with the handles issued so far, and the loop of
  \<^verbatim>\<open>rtc_timer_sched_fire_due\<close> returns, having fired the due timers in the order of their deadlines.
\<close>

subsection \<open>Handles are never issued twice\<close>

definition issued :: "'c rtc_timer_sched \<Rightarrow> u64 set" where
  "issued s = {timer_make_handle i g | i g. i < ts_slot_count s \<and> g \<le> ts_generations s ! i}"

lemma prune_fields: "ts_generations (prune_stale_roots s) = ts_generations s \<and> ts_slot_count (prune_stale_roots s) = ts_slot_count s"
proof (induction s rule: prune_stale_roots.induct)
  case (1 s)
  then show ?case by (subst (1 2) prune_stale_roots.simps) simp
qed

lemma pop_due_fields:
  "ts_generations (snd (rtc_timer_sched_pop_due s now)) = ts_generations s \<and> ts_slot_count (snd (rtc_timer_sched_pop_due s now)) = ts_slot_count s"
proof (induction s now rule: rtc_timer_sched_pop_due.induct)
  case (1 s now)
  show ?case
    using 1 [OF refl _ refl surjective_pairing [symmetric] refl] prune_fields [of s]
    by (subst (1 2) rtc_timer_sched_pop_due.simps) (auto simp: Let_def split: prod.splits)
qed

lemma issued_pop: "issued (snd (rtc_timer_sched_pop_due s now)) = issued s"
  by (simp add: issued_def pop_due_fields)

lemma issued_cancel: "issued (rtc_timer_sched_cancel s h) = issued s"
  by (simp add: issued_def rtc_timer_sched_cancel_def Let_def)

lemma issued_next: "issued (snd (rtc_timer_sched_next_timeout_ms s now dflt)) = issued s"
  using prune_fields [of s] by (simp add: issued_def rtc_timer_sched_next_timeout_ms_def Let_def)

lemma alloc_slot_keeps:
  assumes "timer_inv k s" "alloc_slot a b s = (r, s')"
  shows "ts_slot_count s \<le> ts_slot_count s' \<and> (\<forall>i < ts_slot_count s. ts_generations s' ! i = ts_generations s ! i)"
  using assms timer_invD(3,5) [OF assms(1)]
  by (auto simp: alloc_slot_def ensure_slot_cap_def Let_def nth_append split: option.splits if_splits prod.splits)

lemma issued_mono:
  assumes "ts_slot_count s \<le> ts_slot_count s'" "\<And>i. i < ts_slot_count s \<Longrightarrow> ts_generations s ! i \<le> ts_generations s' ! i"
  shows "issued s \<subseteq> issued s'"
proof
  fix h assume "h \<in> issued s"
  then obtain i g where h: "h = timer_make_handle i g" "i < ts_slot_count s" "g \<le> ts_generations s ! i" unfolding issued_def by blast
  have "i < ts_slot_count s'" "g \<le> ts_generations s' ! i" using h(2,3) assms(1) assms(2) [OF h(2)] by simp_all
  then show "h \<in> issued s'" unfolding issued_def using h(1) by blast
qed

lemma add_issued:
  assumes inv: "timer_inv k s" and k: "k + 1 < 2 ^ 31" and add: "rtc_timer_sched_add al s d c = (h, s')"
  shows "issued s \<subseteq> issued s' \<and> (h \<noteq> 0 \<longrightarrow> h \<notin> issued s \<and> h \<in> issued s')"
proof -
  obtain a0 a1 a2 where al: "al = (a0, a1, a2)" by (cases al)
  obtain e s1 where en: "ensure_heap_cap a0 s = (e, s1)" by fastforce
  obtain r s2 where als: "alloc_slot a1 a2 s1 = (r, s2)" by fastforce
  have inv1: "timer_inv k s1" using ensure_heap_cap_ok [OF inv en] by simp
  have f1: "ts_slot_count s1 = ts_slot_count s" "ts_generations s1 = ts_generations s"
    using en by (auto simp: ensure_heap_cap_def Let_def split: if_splits)
  note keep = alloc_slot_keeps [OF inv1 als, unfolded f1]
  have i2: "issued s \<subseteq> issued s2" using keep by (intro issued_mono) auto
  consider "e \<noteq> RTC_OK \<or> r = None" | i where "e = RTC_OK" "r = Some i" by (cases r) auto
  then show ?thesis
  proof cases
    case 1
    have "issued s1 = issued s" by (simp add: issued_def f1)
    then show ?thesis using 1 add al en als i2 by (auto simp: rtc_timer_sched_add_def RTC_TIMER_HANDLE_INVALID_def split: if_splits)
  next
    case (2 i)
    note ok2 = alloc_slot_ok [OF inv1 als]
    note i = ok2(6) [OF 2(2)]
    define g where "g = bump (ts_generations s2 ! i)"
    have g: "unat g = unat (ts_generations s2 ! i) + 1" unfolding g_def using bump_next [OF conjunct2 [OF conjunct2 [OF i]] k] .
    have res: "h = timer_make_handle i g" "ts_slot_count s' = ts_slot_count s2" "ts_generations s' = (ts_generations s2)[i := g]"
      using add al en als 2 by (auto simp: rtc_timer_sched_add_def Let_def g_def)
    have len: "i < length (ts_generations s2)" using timer_invD(3,5) [OF ok2(1)] i by simp
    have "ts_generations s2 ! j \<le> ts_generations s' ! j" for j
      using g len by (cases "j = i") (simp_all add: res word_le_nat_alt)
    then have "issued s2 \<subseteq> issued s'" using res by (intro issued_mono) auto
    moreover have "h \<in> issued s'" unfolding issued_def mem_Collect_eq by (intro exI [of _ i] exI [of _ g]) (use res i len in simp)
    moreover have "h \<notin> issued s2"
    proof
      assume "h \<in> issued s2"
      then obtain j g' where j: "h = timer_make_handle j g'" "j < ts_slot_count s2" "g' \<le> ts_generations s2 ! j"
        unfolding issued_def by blast
      have "ts_slot_count s2 < 2 ^ 31" using timer_invD(6) [OF ok2(1)] k by simp
      then have "i = j \<and> g = g'" using handle_inject [of i g j g'] res(1) j(1,2) i by simp
      then show False using j(3) g by (simp add: word_le_nat_alt)
    qed
    ultimately show ?thesis using i2 by blast
  qed
qed

subsection \<open>Counting the pending timers\<close>

lemma pending_ok:
  assumes inv: "timer_inv k s" and k: "k < 2 ^ 31"
  shows "rtc_timer_sched_pending_count s = card (dom (timers s))"
proof -
  let ?A = "{n \<in> set (ts_heap s). timer_node_active s n}"
  have lt: "nd_slot n < 2 ^ 31" if "n \<in> set (ts_heap s)" for n using timer_invD(6,8) [OF inv] that k by fastforce
  have dom: "dom (timers s) = hnd ` ?A"
    using timers_Some [OF inv k] by (auto simp: dom_def)
  have inj: "inj_on nd_slot ?A" using active_unique [OF inv] by (auto intro!: inj_onI)
  have "inj_on hnd ?A"
    using handle_inject lt active_unique [OF inv] unfolding hnd_def by (auto intro!: inj_onI)
  then have "card (dom (timers s)) = card ?A" by (simp add: dom card_image)
  also have "\<dots> = card (nd_slot ` ?A)" by (simp add: card_image inj)
  also have "nd_slot ` ?A = {i. i < ts_slot_count s \<and> ts_active s ! i}"
  proof (rule equalityI; rule subsetI)
    fix i assume "i \<in> {i. i < ts_slot_count s \<and> ts_active s ! i}"
    moreover then obtain n where "n \<in> set (ts_heap s)" "nd_slot n = i" "nd_generation n = ts_generations s ! i"
      using timer_invD(12) [OF inv, of i] by blast
    ultimately show "i \<in> nd_slot ` ?A" by (auto simp: timer_node_active_def)
  qed (auto simp: timer_node_active_def)
  also have "{i. i < ts_slot_count s \<and> ts_active s ! i} = set (filter (\<lambda>i. ts_active s ! i) [0..<ts_slot_count s])" by auto
  also have "card \<dots> = length (filter (\<lambda>i. ts_active s ! i) [0..<ts_slot_count s])" by (rule distinct_card) simp
  finally show ?thesis by (simp add: rtc_timer_sched_pending_count_def)
qed

subsection \<open>Runs\<close>

datatype 'c timer_op = Op_add "bool \<times> bool \<times> bool" u64 'c | Op_cancel u64 | Op_next_timeout u64 int | Op_pop_due u64 | Op_pending

datatype 'c timer_out = Handle u64 | Unit | Timeout int | Fired "'c option" | Count nat

fun timer_step :: "'c timer_op \<Rightarrow> 'c rtc_timer_sched \<Rightarrow> 'c timer_out \<times> 'c rtc_timer_sched" where
  "timer_step (Op_add al d c) s = map_prod Handle (\<lambda>s. s) (rtc_timer_sched_add al s d c)"
| "timer_step (Op_cancel h) s = (Unit, rtc_timer_sched_cancel s h)"
| "timer_step (Op_next_timeout now dflt) s = map_prod Timeout (\<lambda>s. s) (rtc_timer_sched_next_timeout_ms s now dflt)"
| "timer_step (Op_pop_due now) s = map_prod Fired (\<lambda>s. s) (rtc_timer_sched_pop_due s now)"
| "timer_step Op_pending s = (Count (rtc_timer_sched_pending_count s), s)"

fun timer_run :: "'c timer_op list \<Rightarrow> 'c rtc_timer_sched \<Rightarrow> 'c timer_out list \<times> 'c rtc_timer_sched" where
  "timer_run [] s = ([], s)"
| "timer_run (op # ops) s = (case timer_step op s of (out, s') \<Rightarrow> map_prod ((#) out) (\<lambda>s. s) (timer_run ops s'))"

fun is_add :: "'c timer_op \<Rightarrow> bool" where
  "is_add (Op_add al d c) = True"
| "is_add _ = False"

text \<open>The abstract machine: the pending timers \<open>m\<close> by handle, and the handles \<open>I\<close> issued so far.\<close>

definition earliest :: "(u64 \<rightharpoonup> u64 \<times> 'c) \<Rightarrow> u64 \<Rightarrow> u64 \<Rightarrow> 'c \<Rightarrow> bool" where
  "earliest m h d c \<longleftrightarrow> m h = Some (d, c) \<and> (\<forall>h' d' c'. m h' = Some (d', c') \<longrightarrow> d \<le> d')"

inductive spec_step :: "(u64 \<rightharpoonup> u64 \<times> 'c) \<Rightarrow> u64 set \<Rightarrow> 'c timer_op \<Rightarrow> 'c timer_out \<Rightarrow> (u64 \<rightharpoonup> u64 \<times> 'c) \<Rightarrow> u64 set \<Rightarrow> bool" where
  spec_add: "h \<noteq> 0 \<Longrightarrow> h \<notin> I \<Longrightarrow> spec_step m I (Op_add al d c) (Handle h) (m(h \<mapsto> (d, c))) (insert h I)"
| spec_add_nomem: "al \<noteq> (True, True, True) \<Longrightarrow> spec_step m I (Op_add al d c) (Handle 0) m I"
| spec_cancel: "spec_step m I (Op_cancel h) Unit (m(h := None)) I"
| spec_idle: "m = Map.empty \<Longrightarrow> spec_step m I (Op_next_timeout now dflt) (Timeout dflt) m I"
| spec_timeout: "earliest m h d c \<Longrightarrow> spec_step m I (Op_next_timeout now dflt) (Timeout (timeout now d)) m I"
| spec_fire: "earliest m h d c \<Longrightarrow> d \<le> now \<Longrightarrow> spec_step m I (Op_pop_due now) (Fired (Some c)) (m(h := None)) I"
| spec_none_due: "(\<And>h d c. m h = Some (d, c) \<Longrightarrow> now < d) \<Longrightarrow> spec_step m I (Op_pop_due now) (Fired None) m I"
| spec_pending: "spec_step m I Op_pending (Count (card (dom m))) m I"

inductive spec_run :: "(u64 \<rightharpoonup> u64 \<times> 'c) \<Rightarrow> u64 set \<Rightarrow> 'c timer_op list \<Rightarrow> 'c timer_out list \<Rightarrow> (u64 \<rightharpoonup> u64 \<times> 'c) \<Rightarrow> u64 set \<Rightarrow> bool" where
  spec_done: "spec_run m I [] [] m I"
| spec_more: "spec_step m I op out m' I' \<Longrightarrow> spec_run m' I' ops outs m'' I'' \<Longrightarrow> spec_run m I (op # ops) (out # outs) m'' I''"

text \<open>The simulation relation and one step of it.\<close>

definition simulates :: "nat \<Rightarrow> 'c rtc_timer_sched \<Rightarrow> (u64 \<rightharpoonup> u64 \<times> 'c) \<Rightarrow> u64 set \<Rightarrow> bool" where
  "simulates k s m I \<longleftrightarrow> timer_inv k s \<and> timers s = m \<and> I \<subseteq> issued s"

lemma step_simulates:
  assumes sim: "simulates k s m I" and k: "k + (if is_add op then 1 else 0) < 2 ^ 31" and st: "timer_step op s = (out, s')"
  shows "\<exists>m' I'. spec_step m I op out m' I' \<and> simulates (k + (if is_add op then 1 else 0)) s' m' I'"
proof -
  have inv: "timer_inv k s" and tm: "timers s = m" and iss: "I \<subseteq> issued s" using sim by (simp_all add: simulates_def)
  have k': "k < 2 ^ 31" using k by (simp split: if_splits)
  show ?thesis
  proof (cases op)
    case (Op_add al d c)
    obtain h where r: "rtc_timer_sched_add al s d c = (h, s')" "out = Handle h" using st Op_add by (auto simp: map_prod_def split: prod.splits)
    have k1: "k + 1 < 2 ^ 31" using k Op_add by simp
    note ok = add_ok [OF inv k1 r(1)] and isd = add_issued [OF inv k1 r(1)]
    show ?thesis
    proof (cases "h = 0")
      case True
      have "spec_step m I op out m I" unfolding Op_add r(2) True using ok True by (intro spec_add_nomem) simp
      moreover have "simulates (k + 1) s' m I" using ok True tm isd iss by (auto simp: simulates_def)
      ultimately show ?thesis using Op_add by auto
    next
      case False
      have "spec_step m I op out (m(h \<mapsto> (d, c))) (insert h I)" unfolding Op_add r(2) using False isd iss by (intro spec_add) auto
      moreover have "simulates (k + 1) s' (m(h \<mapsto> (d, c))) (insert h I)" using ok False tm isd iss by (auto simp: simulates_def)
      ultimately show ?thesis using Op_add by auto
    qed
  next
    case (Op_cancel h)
    then show ?thesis using cancel_ok [OF inv k', of h] st tm iss spec_cancel [of m I h] by (auto simp: simulates_def issued_cancel)
  next
    case (Op_next_timeout now dflt)
    obtain t where r: "rtc_timer_sched_next_timeout_ms s now dflt = (t, s')" "out = Timeout t"
      using st Op_next_timeout by (auto simp: map_prod_def split: prod.splits)
    note ok = next_timeout_ok [OF inv k' r(1), unfolded tm]
    have "spec_step m I op out m I" unfolding Op_next_timeout r(2)
    proof (cases "m = Map.empty")
      case True
      then show "spec_step m I (Op_next_timeout now dflt) (Timeout t) m I" using ok spec_idle [of m I now dflt] by simp
    next
      case False
      then obtain h d c where "earliest m h d c" "t = timeout now d" using ok unfolding earliest_def by auto
      then show "spec_step m I (Op_next_timeout now dflt) (Timeout t) m I" using spec_timeout by simp
    qed
    moreover have "simulates k s' m I" using ok iss issued_next [of s now dflt] r by (simp add: simulates_def)
    ultimately show ?thesis using Op_next_timeout by auto
  next
    case (Op_pop_due now)
    obtain c where r: "rtc_timer_sched_pop_due s now = (c, s')" "out = Fired c"
      using st Op_pop_due by (auto simp: map_prod_def split: prod.splits)
    note ok = pop_due_ok [OF inv k' r(1), unfolded tm]
    have isd: "I \<subseteq> issued s'" using iss issued_pop [of s now] r by simp
    show ?thesis
    proof (cases c)
      case None
      have "spec_step m I op out m I" unfolding Op_pop_due r(2) None using ok None by (intro spec_none_due) auto
      then show ?thesis using ok None isd Op_pop_due by (auto simp: simulates_def)
    next
      case (Some cb)
      then obtain h d where hd: "earliest m h d cb" "d \<le> now" "timers s' = m(h := None)" using ok unfolding earliest_def by auto
      have "spec_step m I op out (m(h := None)) I" unfolding Op_pop_due r(2) Some by (rule spec_fire [OF hd(1,2)])
      then show ?thesis using ok hd isd Op_pop_due by (auto simp: simulates_def)
    qed
  next
    case Op_pending
    then show ?thesis using st sim pending_ok [OF inv k'] tm spec_pending [of m I] by auto
  qed
qed

lemma run_simulates:
  "simulates k s m I \<Longrightarrow> k + length (filter is_add ops) < 2 ^ 31 \<Longrightarrow> timer_run ops s = (outs, s') \<Longrightarrow>
   \<exists>m' I'. spec_run m I ops outs m' I' \<and> simulates (k + length (filter is_add ops)) s' m' I'"
proof (induction ops arbitrary: k s m I outs)
  case Nil
  then show ?case by (auto intro: spec_done simp: simulates_def)
next
  case (Cons op ops)
  obtain out s1 where st: "timer_step op s = (out, s1)" by fastforce
  obtain outs1 where outs: "outs = out # outs1" "timer_run ops s1 = (outs1, s')" using Cons.prems(3) st by (auto simp: map_prod_def split: prod.splits)
  have k: "k + (if is_add op then 1 else 0) < 2 ^ 31" using Cons.prems(2) by (simp split: if_splits)
  obtain m1 I1 where s1: "spec_step m I op out m1 I1" "simulates (k + (if is_add op then 1 else 0)) s1 m1 I1"
    using step_simulates [OF Cons.prems(1) k st] by blast
  have "k + (if is_add op then 1 else 0) + length (filter is_add ops) < 2 ^ 31" using Cons.prems(2) by (simp split: if_splits)
  then obtain m' I' where r: "spec_run m1 I1 ops outs1 m' I'"
    "simulates (k + (if is_add op then 1 else 0) + length (filter is_add ops)) s' m' I'" using Cons.IH [OF s1(2) _ outs(2)] by blast
  have "spec_run m I (op # ops) outs m' I'" unfolding outs(1) by (rule spec_more [OF s1(1) r(1)])
  moreover have "simulates (k + length (filter is_add (op # ops))) s' m' I'" using r(2) by (simp split: if_splits)
  ultimately show ?case by blast
qed

lemma init_simulates: "simulates 0 rtc_timer_sched_init Map.empty {}"
  by (simp add: simulates_def timer_inv_def timers_def rtc_timer_sched_init_def heap_ok_def)

subsection \<open>Firing the due timers\<close>

text \<open>A callback may cancel timers, \<open>cancels cb\<close> in this order.\<close>

definition run_cancels :: "('c \<Rightarrow> u64 list) \<Rightarrow> 'c \<Rightarrow> 'c rtc_timer_sched \<Rightarrow> 'c rtc_timer_sched" where
  "run_cancels cancels cb s = foldl rtc_timer_sched_cancel s (cancels cb)"

definition due :: "(u64 \<rightharpoonup> u64 \<times> 'c) \<Rightarrow> u64 \<Rightarrow> u64 set" where
  "due m now = {h. \<exists>d c. m h = Some (d, c) \<and> d \<le> now}"

lemma finite_timers: "finite (dom (timers s))"
  by (simp add: timers_def finite_dom_map_of)

lemma finite_due: "finite (dom m) \<Longrightarrow> finite (due m now)"
  by (rule finite_subset [of _ "dom m"]) (auto simp: due_def)

lemma cancels_ok:
  "timer_inv k s \<Longrightarrow> k < 2 ^ 31 \<Longrightarrow> timer_inv k (foldl rtc_timer_sched_cancel s hs) \<and>
   timers (foldl rtc_timer_sched_cancel s hs) = timers s |` (- set hs)"
proof (induction hs arbitrary: s)
  case (Cons h hs)
  note c = cancel_ok [OF Cons.prems, of h]
  show ?case using Cons.IH [of "rtc_timer_sched_cancel s h"] c Cons.prems(2)
    by (auto simp: restrict_map_def fun_eq_iff)
qed (simp add: restrict_map_def)

definition fires :: "(u64 \<rightharpoonup> u64 \<times> 'c) \<Rightarrow> ('c \<Rightarrow> u64 list) \<Rightarrow> u64 \<Rightarrow> 'c list \<Rightarrow> u64 list \<Rightarrow> (u64 \<rightharpoonup> u64 \<times> 'c) \<Rightarrow> bool" where
  "fires m cancels now cbs hs m' \<longleftrightarrow> distinct hs \<and> set hs \<subseteq> due m now \<and> due m now \<subseteq> set hs \<union> (\<Union>cb \<in> set cbs. set (cancels cb)) \<and>
    cbs = map (\<lambda>h. snd (the (m h))) hs \<and> sorted (map (\<lambda>h. fst (the (m h))) hs) \<and>
    m' = m |` (- (set hs \<union> (\<Union>cb \<in> set cbs. set (cancels cb))))"

lemma fires_Cons:
  assumes e: "earliest m h d c" "d \<le> now" and f: "fires ((m(h := None)) |` (- set (cancels c))) cancels now cbs hs m'"
  shows "fires m cancels now (c # cbs) (h # hs) m'"
proof -
  let ?m = "(m(h := None)) |` (- set (cancels c))"
  have f1: "distinct hs" and f2: "set hs \<subseteq> due ?m now" and f3: "due ?m now \<subseteq> set hs \<union> (\<Union>cb \<in> set cbs. set (cancels cb))"
    and f4: "cbs = map (\<lambda>h. snd (the (?m h))) hs" and f5: "sorted (map (\<lambda>h. fst (the (?m h))) hs)"
    and f6: "m' = ?m |` (- (set hs \<union> (\<Union>cb \<in> set cbs. set (cancels cb))))"
    using f unfolding fires_def by blast+
  have sub: "due ?m now = due m now - insert h (set (cancels c))" by (auto simp: due_def restrict_map_def)
  have hs: "m x = ?m x" "x \<noteq> h" if "x \<in> set hs" for x
    using f2 sub that by (auto simp: restrict_map_def)
  have min: "d \<le> fst (the (m x))" if "x \<in> set hs" for x
  proof -
    have "x \<in> due m now" using f2 sub that by auto
    then show ?thesis using e(1) unfolding earliest_def due_def by fastforce
  qed
  have h: "m h = Some (d, c)" using e(1) by (simp add: earliest_def)
  have eq: "map (\<lambda>h. fst (the (?m h))) hs = map (\<lambda>h. fst (the (m h))) hs" "map (\<lambda>h. snd (the (?m h))) hs = map (\<lambda>h. snd (the (m h))) hs"
    using hs(1) by simp_all
  have hd: "h \<in> due m now" using h e(2) by (auto simp: due_def)
  have rest: "m' = m |` (- (set (h # hs) \<union> (\<Union>cb \<in> set (c # cbs). set (cancels cb))))"
    unfolding f6 by (auto simp: restrict_map_def fun_eq_iff)
  have "distinct (h # hs)" "set (h # hs) \<subseteq> due m now" using f1 f2 hs(2) hd sub by auto
  moreover have "due m now \<subseteq> set (h # hs) \<union> (\<Union>cb \<in> set (c # cbs). set (cancels cb))" using f3 sub by auto
  moreover have "c # cbs = map (\<lambda>h. snd (the (m h))) (h # hs)" using f4 eq(2) h by (simp del: map_eq_conv)
  moreover have "sorted (map (\<lambda>h. fst (the (m h))) (h # hs))" using f5 h min unfolding eq(1) by simp
  ultimately show ?thesis unfolding fires_def using rest by blast
qed

lemma fire_due_ok:
  assumes "timer_inv k s" "k < 2 ^ 31"
  shows "\<exists>cbs s' hs. rtc_timer_sched_fire_due (run_cancels cancels) s now = Some (cbs, s') \<and> timer_inv k s' \<and>
    fires (timers s) cancels now cbs hs (timers s')"
  using assms
proof (induction "card (due (timers s) now)" arbitrary: s rule: less_induct)
  case less
  obtain r s1 where pop: "rtc_timer_sched_pop_due s now = (r, s1)" by fastforce
  note ok = pop_due_ok [OF less.prems pop]
  show ?case
  proof (cases r)
    case None
    then have d: "due (timers s) now = {}" "timers s1 = timers s" using ok by (fastforce simp: due_def)+
    have "rtc_timer_sched_fire_due (run_cancels cancels) s now = Some ([], s1)"
      by (subst rtc_timer_sched_fire_due.simps) (simp add: pop None)
    moreover have "fires (timers s) cancels now [] [] (timers s1)" using d by (simp add: fires_def restrict_map_def)
    ultimately show ?thesis using ok by blast
  next
    case (Some c)
    then obtain h d where e: "earliest (timers s) h d c" "d \<le> now" "timers s1 = (timers s)(h := None)" "timer_inv k s1"
      using ok unfolding earliest_def by auto
    define s2 where "s2 = run_cancels cancels c s1"
    have s2: "timer_inv k s2" "timers s2 = ((timers s)(h := None)) |` (- set (cancels c))"
      using cancels_ok [OF e(4) less.prems(2), of "cancels c"] e(3) by (simp_all add: s2_def run_cancels_def)
    have h: "h \<in> due (timers s) now" using e(1,2) by (auto simp: due_def earliest_def)
    have "due (timers s2) now \<subseteq> due (timers s) now - {h}" unfolding s2 by (auto simp: due_def restrict_map_def split: if_splits)
    then have "card (due (timers s2) now) < card (due (timers s) now)"
      using finite_due [OF finite_timers, of s now] h by (intro psubset_card_mono) auto
    from less.hyps [OF this s2(1) less.prems(2)] obtain cbs s' hs where
      f: "rtc_timer_sched_fire_due (run_cancels cancels) s2 now = Some (cbs, s')" "timer_inv k s'" "fires (timers s2) cancels now cbs hs (timers s')"
      by blast
    have "rtc_timer_sched_fire_due (run_cancels cancels) s now = Some (c # cbs, s')"
      by (subst rtc_timer_sched_fire_due.simps) (simp add: pop Some f(1) flip: s2_def)
    moreover have "fires (timers s) cancels now (c # cbs) (h # hs) (timers s')"
      using fires_Cons [OF e(1,2)] f(3) unfolding s2 by blast
    ultimately show ?thesis using f(2) by blast
  qed
qed

lemmas timer_eval = rtc_timer_sched_add_def rtc_timer_sched_init_def ensure_heap_cap_def alloc_slot_def ensure_slot_cap_def
  TIMER_INITIAL_HEAP_CAP_def TIMER_INITIAL_SLOT_CAP_def RTC_TIMER_HANDLE_INVALID_def INT_MAX_def bump_def timer_make_handle_def
  timer_handle_slot_def timer_handle_generation_def timer_node_active_def Let_def heap_sift_up.simps heap_sift_down.simps heap_pop_def
  heap_swap_def smaller_def prune_stale_roots.simps rtc_timer_sched_pop_due.simps rtc_timer_sched_cancel_def
  rtc_timer_sched_next_timeout_ms_def rtc_timer_sched_pending_count_def

lemma replicate_16: "replicate 16 x = [x, x, x, x, x, x, x, x, x, x, x, x, x, x, x, x]"
  by (simp add: numeral_eq_Suc)

subsection \<open>Properties\<close>

text \<open>
  C5. The timer scheduler refines a map of pending timers: any sequence of fewer than \<open>2 ^ 31\<close> additions
  and any number of cancellations, queries and pops, with any outcome of the reallocations, is a run of the abstract
  machine. An addition returns a handle that is not zero and was never returned before (or zero, only when an
  allocation failed, and then nothing changes), a cancellation removes exactly the timer of its handle and a stale handle removes
  none, a pop returns an earliest due timer and returns none only when none is due, the timeout is the distance to the earliest
  deadline (clipped to an int), and the pending count is the number of pending timers.
\<close>

theorem timer_sched_refines:
  assumes "length (filter is_add ops) < 2 ^ 31"
  shows "\<exists>I. spec_run Map.empty {} ops (fst (timer_run ops rtc_timer_sched_init)) (timers (snd (timer_run ops rtc_timer_sched_init))) I"
  using run_simulates [OF init_simulates, of ops] assms by (cases "timer_run ops rtc_timer_sched_init") (auto simp: simulates_def)

definition demo_ops :: "nat timer_op list" where
  "demo_ops = [Op_add (True, True, True) 30 7, Op_add (True, True, True) 10 8, Op_next_timeout 4 (- 1), Op_cancel 0x100000001,
    Op_pending, Op_pop_due 20, Op_pop_due 40, Op_add (False, True, True) 50 9, Op_cancel 0x100000000, Op_pop_due 70]"

theorem timer_sched_refines_witness:
  "fst (timer_run demo_ops rtc_timer_sched_init) = [Handle 0x100000000, Handle 0x100000001, Timeout 6, Unit, Count 1, Fired None,
     Fired (Some 7), Handle 0x200000000, Unit, Fired (Some 9)] \<and>
   (\<exists>I. spec_run Map.empty {} demo_ops (fst (timer_run demo_ops rtc_timer_sched_init)) (timers (snd (timer_run demo_ops rtc_timer_sched_init))) I)"
proof (rule conjI)
  show "fst (timer_run demo_ops rtc_timer_sched_init) = [Handle 0x100000000, Handle 0x100000001, Timeout 6, Unit, Count 1, Fired None,
     Fired (Some 7), Handle 0x200000000, Unit, Fired (Some 9)]" unfolding demo_ops_def by (simp add: timer_eval replicate_16)
  show "\<exists>I. spec_run Map.empty {} demo_ops (fst (timer_run demo_ops rtc_timer_sched_init)) (timers (snd (timer_run demo_ops rtc_timer_sched_init))) I"
    by (rule timer_sched_refines) (simp add: demo_ops_def)
qed

text \<open>
  C17. \<^verbatim>\<open>rtc_timer_sched_fire_due\<close> returns, also when the callbacks it runs cancel timers: after any run of the scheduler it
  fires, each once and in the order of the deadlines, timers that were due, every due timer is fired or was cancelled by
  a callback that fired, and the timers left are those neither fired nor cancelled.
\<close>

theorem fire_due_complete:
  assumes "length (filter is_add ops) < 2 ^ 31" and "s = snd (timer_run ops rtc_timer_sched_init)"
  shows "\<exists>cbs s' hs. rtc_timer_sched_fire_due (run_cancels cancels) s now = Some (cbs, s') \<and> fires (timers s) cancels now cbs hs (timers s')"
proof -
  obtain k where "timer_inv k s" "k < 2 ^ 31" 
    using run_simulates [OF init_simulates, of ops] assms by (cases "timer_run ops rtc_timer_sched_init") (auto simp: simulates_def)
  then show ?thesis using fire_due_ok by blast
qed

definition demo_fire :: "nat timer_op list" where
  "demo_fire = [Op_add (True, True, True) 30 7, Op_add (True, True, True) 10 8, Op_add (True, True, True) 20 9]"

definition demo_cancels :: "nat \<Rightarrow> u64 list" where
  "demo_cancels cb = (if cb = 8 then [0x100000002] else [])"

theorem fire_due_complete_witness:
  "map_option fst (rtc_timer_sched_fire_due (run_cancels demo_cancels) (snd (timer_run demo_fire rtc_timer_sched_init)) 40) = Some [8, 7] \<and>
   (\<exists>cbs s' hs. rtc_timer_sched_fire_due (run_cancels demo_cancels) (snd (timer_run demo_fire rtc_timer_sched_init)) 40 = Some (cbs, s') \<and>
     fires (timers (snd (timer_run demo_fire rtc_timer_sched_init))) demo_cancels 40 cbs hs (timers s'))"
proof (rule conjI)
  show "map_option fst (rtc_timer_sched_fire_due (run_cancels demo_cancels) (snd (timer_run demo_fire rtc_timer_sched_init)) 40) = Some [8, 7]"
    unfolding demo_fire_def
    by (simp add: timer_eval replicate_16 run_cancels_def demo_cancels_def rtc_timer_sched_fire_due.simps)
  show "\<exists>cbs s' hs. rtc_timer_sched_fire_due (run_cancels demo_cancels) (snd (timer_run demo_fire rtc_timer_sched_init)) 40 = Some (cbs, s') \<and>
     fires (timers (snd (timer_run demo_fire rtc_timer_sched_init))) demo_cancels 40 cbs hs (timers s')"
    by (rule fire_due_complete [of demo_fire]) (simp_all add: demo_fire_def)
qed

end
