(* ===== verification/Vp8_Packetizer.thy ===== *)
theory Vp8_Packetizer
  imports Prelude "HOL-Library.Sublist"
begin

text \<open>
  The VP8 payload format (\<^verbatim>\<open>vp8_packetizer.c\<close>): splitting an encoded frame into payloads, and the reassembly of
  frames from the payloads that arrive. The reassembly buffer is the list of the bytes collected so far, a read of the
  payload is checked.
\<close>

subsection \<open>Packetizer\<close>

definition VP8_PD_SIZE :: nat where "VP8_PD_SIZE = 1"
definition VP8_MTU_SIZE :: nat where "VP8_MTU_SIZE = 1400"
definition VP8_MAX_FRAG_SIZE :: nat where "VP8_MAX_FRAG_SIZE = VP8_MTU_SIZE - VP8_PD_SIZE"
definition VP8_MAX_FRAME_SIZE :: nat where "VP8_MAX_FRAME_SIZE = 256 * 1024"
definition VP8_MAX_PAYLOAD :: nat where "VP8_MAX_PAYLOAD = VP8_PD_SIZE + VP8_MAX_FRAG_SIZE"

record rtc_vp8_payload =
  pl_data :: bytes
  pl_marker :: bool

definition vp8_descriptor :: "bool \<Rightarrow> bool \<Rightarrow> u8" where
  "vp8_descriptor fst_frag is_keyframe = (if fst_frag then 0x10 else 0) OR (if is_keyframe then 0 else 0x20)"

function packetize_loop :: "bytes \<Rightarrow> bool \<Rightarrow> int \<Rightarrow> nat \<Rightarrow> bool \<Rightarrow> rtc_vp8_payload list \<Rightarrow> rtc_err \<times> rtc_vp8_payload list" where
  "packetize_loop frame is_keyframe max_payloads offset fst_frag payloads =
    (if offset < length frame then
       if int (length payloads) \<ge> max_payloads then (RTC_ERR_NOMEM, payloads)
       else
         let remaining = length frame - offset;
             frag = (if remaining > VP8_MAX_FRAG_SIZE then VP8_MAX_FRAG_SIZE else remaining);
             end_frag = (offset + frag \<ge> length frame);
             p = \<lparr>pl_data = vp8_descriptor fst_frag is_keyframe # take frag (drop offset frame), pl_marker = end_frag\<rparr>
         in packetize_loop frame is_keyframe max_payloads (offset + frag) False (payloads @ [p])
     else (RTC_OK, payloads))"
  by pat_completeness auto
termination
  by (relation "measure (\<lambda>(frame, kf, m, off, f, ps). length frame - off)")
    (auto simp: VP8_MAX_FRAG_SIZE_def VP8_MTU_SIZE_def VP8_PD_SIZE_def)

declare packetize_loop.simps [simp del]

definition rtc_vp8_packetize :: "bytes \<Rightarrow> bool \<Rightarrow> int \<Rightarrow> rtc_err \<times> rtc_vp8_payload list" where
  "rtc_vp8_packetize frame is_keyframe max_payloads =
    (if length frame = 0 then (RTC_ERR_INVALID, []) else packetize_loop frame is_keyframe max_payloads 0 True [])"

subsection \<open>Depacketizer\<close>

record rtc_vp8_depacketizer =
  dp_frame :: bytes
  dp_timestamp :: u32
  dp_collecting :: bool
  dp_got_start :: bool

definition rtc_vp8_depacketizer_init :: rtc_vp8_depacketizer where
  "rtc_vp8_depacketizer_init = \<lparr>dp_frame = [], dp_timestamp = 0, dp_collecting = False, dp_got_start = False\<rparr>"

text \<open>The length of the payload descriptor with its extension bytes.\<close>

definition vp8_pd_len :: "bytes \<Rightarrow> (rtc_err + nat) option" where
  "vp8_pd_len payload = do {
     pd \<leftarrow> rd8 payload 0;
     if pd AND 0x80 = 0 then Some (Inr VP8_PD_SIZE)
     else if length payload < 2 then Some (Inl RTC_ERR_INVALID)
     else do {
       ext \<leftarrow> rd8 payload 1;
       if ext AND 0x80 \<noteq> 0 \<and> 2 \<ge> length payload then Some (Inl RTC_ERR_INVALID)
       else do {
         pd_len \<leftarrow> (if ext AND 0x80 \<noteq> 0 then do { b \<leftarrow> rd8 payload 2; Some (2 + (if b AND 0x80 \<noteq> 0 then 2 else 1)) } else Some 2);
         let pd_len = pd_len + (if ext AND 0x40 \<noteq> 0 then 1 else 0);
             pd_len = pd_len + (if ext AND 0x20 \<noteq> 0 \<or> ext AND 0x10 \<noteq> 0 then 1 else 0)
         in Some (if pd_len > length payload then Inl RTC_ERR_INVALID else Inr pd_len)
       }
     }
   }"

text \<open>The answer is an error or the frame with its keyframe flag.\<close>

definition vp8_append :: "rtc_vp8_depacketizer \<Rightarrow> bytes \<Rightarrow> bool \<Rightarrow> bool \<Rightarrow> (rtc_err + bytes \<times> bool) \<times> rtc_vp8_depacketizer" where
  "vp8_append d vp8_data n_bit marker =
    (if \<not> dp_collecting d \<or> \<not> dp_got_start d then (Inl RTC_ERR_GENERIC, d)
     else if length (dp_frame d) + length vp8_data > VP8_MAX_FRAME_SIZE then (Inl RTC_ERR_NOMEM, d\<lparr>dp_collecting := False, dp_frame := []\<rparr>)
     else
       let d = d\<lparr>dp_frame := dp_frame d @ vp8_data\<rparr>
       in if marker then (Inr (dp_frame d, \<not> n_bit), d\<lparr>dp_collecting := False, dp_frame := []\<rparr>)
          else (Inl RTC_ERR_GENERIC, d))"

definition rtc_vp8_depacketize ::
  "rtc_vp8_depacketizer \<Rightarrow> bytes \<Rightarrow> u32 \<Rightarrow> bool \<Rightarrow> ((rtc_err + bytes \<times> bool) \<times> rtc_vp8_depacketizer) option" where
  "rtc_vp8_depacketize d payload timestamp marker =
    (if length payload < VP8_PD_SIZE then Some (Inl RTC_ERR_INVALID, d)
     else do {
       pd \<leftarrow> rd8 payload 0;
       let s_bit = (pd AND 0x10 \<noteq> 0);
       let n_bit = (pd AND 0x20 \<noteq> 0);
       r \<leftarrow> vp8_pd_len payload;
       case r of
         Inl e \<Rightarrow> Some (Inl e, d)
       | Inr pd_len \<Rightarrow>
           let vp8_data = drop pd_len payload
           in if s_bit then Some (vp8_append (d\<lparr>dp_frame := [], dp_timestamp := timestamp, dp_collecting := True, dp_got_start := True\<rparr>) vp8_data n_bit marker)
              else if dp_collecting d \<and> timestamp \<noteq> dp_timestamp d then Some (Inl RTC_ERR_GENERIC, d\<lparr>dp_collecting := False, dp_frame := []\<rparr>)
              else if \<not> dp_collecting d then Some (Inl RTC_ERR_GENERIC, d)
              else Some (vp8_append d vp8_data n_bit marker)
     })"

subsection \<open>What the packetizer produces\<close>

function frags :: "bytes \<Rightarrow> bytes list" where
  "frags xs = (if xs = [] then [] else take VP8_MAX_FRAG_SIZE xs # frags (drop VP8_MAX_FRAG_SIZE xs))"
  by pat_completeness auto
termination
  by (relation "measure length") (auto simp: VP8_MAX_FRAG_SIZE_def VP8_MTU_SIZE_def VP8_PD_SIZE_def)

declare frags.simps [simp del]

fun mk_payloads :: "bool \<Rightarrow> bool \<Rightarrow> bytes list \<Rightarrow> rtc_vp8_payload list" where
  "mk_payloads kf f [] = []"
| "mk_payloads kf f (x # xs) = \<lparr>pl_data = vp8_descriptor f kf # x, pl_marker = (xs = [])\<rparr> # mk_payloads kf False xs"

lemmas vp8_sizes = VP8_MAX_FRAG_SIZE_def VP8_MTU_SIZE_def VP8_PD_SIZE_def VP8_MAX_PAYLOAD_def VP8_MAX_FRAME_SIZE_def

lemma frags_concat: "concat (frags xs) = xs"
  by (induction xs rule: frags.induct) (subst frags.simps, simp)

lemma frags_eq_Nil [simp]: "frags xs = [] \<longleftrightarrow> xs = []"
  by (subst frags.simps) simp

lemma frags_length: "x \<in> set (frags xs) \<Longrightarrow> 0 < length x \<and> length x \<le> VP8_MAX_FRAG_SIZE"
proof (induction xs rule: frags.induct)
  case (1 xs)
  show ?case using 1 by (subst (asm) (2) frags.simps) (auto simp: vp8_sizes split: if_splits)
qed

lemma frags_count: "length (frags xs) = (length xs + (VP8_MAX_FRAG_SIZE - 1)) div VP8_MAX_FRAG_SIZE"
proof (induction xs rule: frags.induct)
  case (1 xs)
  show ?case
  proof (cases "xs = []")
    case True
    then show ?thesis by (simp add: frags.simps vp8_sizes)
  next
    case False
    then have l: "length (frags xs) = Suc ((length xs - 1399 + 1398) div 1399)"
      using 1 by (subst frags.simps) (simp add: vp8_sizes)
    show ?thesis
    proof (cases "1399 \<le> length xs")
      case True
      then have "length xs + 1398 = 1399 + (length xs - 1399 + 1398)" by simp
      then show ?thesis unfolding l by (simp add: vp8_sizes div_add_self1 del: add_diff_cancel_left')
    next
      case False
      then have "length xs - 1399 + 1398 = 1398" "length xs + 1398 = (length xs - 1) + 1399" using \<open>xs \<noteq> []\<close> by (auto simp: Suc_le_eq)
      then show ?thesis unfolding l using False by (simp add: vp8_sizes div_add_self2)
    qed
  qed
qed

lemma length_mk_payloads [simp]: "length (mk_payloads kf f xs) = length xs"
  by (induction xs arbitrary: f) simp_all

lemma mk_payloads_eq_Nil [simp]: "mk_payloads kf f xs = [] \<longleftrightarrow> xs = []"
  by (cases xs) simp_all

lemma packetize_loop_spec:
  "offset \<le> length frame \<Longrightarrow> packetize_loop frame kf m offset f ps =
    (let new = mk_payloads kf f (frags (drop offset frame))
     in if int (length ps) + int (length new) \<le> m \<or> new = [] then (RTC_OK, ps @ new)
        else (RTC_ERR_NOMEM, ps @ take (nat (m - int (length ps))) new))"
proof (induction frame kf m offset f ps rule: packetize_loop.induct)
  case (1 frame kf m offset f ps)
  show ?case
  proof (cases "offset < length frame")
    case False
    then show ?thesis using 1(2) by (subst packetize_loop.simps) (simp add: frags.simps)
  next
    case True
    let ?k = "min VP8_MAX_FRAG_SIZE (length frame - offset)"
    let ?d = "drop offset frame"
    have fr: "frags ?d = take VP8_MAX_FRAG_SIZE ?d # frags (drop VP8_MAX_FRAG_SIZE ?d)" using True by (subst frags.simps) simp
    have dr: "drop VP8_MAX_FRAG_SIZE ?d = drop (offset + ?k) frame" "take VP8_MAX_FRAG_SIZE ?d = take ?k ?d" by (auto simp: min_def add.commute)
    have e: "drop (offset + ?k) frame = [] \<longleftrightarrow> length frame \<le> offset + ?k" by simp
    show ?thesis
    proof (cases "m \<le> int (length ps)")
      case m: True
      then show ?thesis using True by (subst packetize_loop.simps) (auto simp: fr)
    next
      case False
      define p where "p = \<lparr>pl_data = vp8_descriptor f kf # take ?k ?d, pl_marker = (length frame \<le> offset + ?k)\<rparr>"
      define new where "new = mk_payloads kf False (frags (drop (offset + ?k) frame))"
      have k: "(if VP8_MAX_FRAG_SIZE < length frame - offset then VP8_MAX_FRAG_SIZE else length frame - offset) = ?k" by auto
      have mk: "mk_payloads kf f (frags ?d) = p # new" unfolding fr dr mk_payloads.simps frags_eq_Nil e p_def new_def ..
      have "packetize_loop frame kf m offset f ps = packetize_loop frame kf m (offset + ?k) False (ps @ [p])"
        using True False unfolding p_def by (subst packetize_loop.simps) (simp only: Let_def k if_True if_False)
      also have "\<dots> = (let new = new in if int (length (ps @ [p])) + int (length new) \<le> m \<or> new = [] then (RTC_OK, (ps @ [p]) @ new)
          else (RTC_ERR_NOMEM, (ps @ [p]) @ take (nat (m - int (length (ps @ [p])))) new))"
        unfolding p_def new_def by (rule 1(1) [OF True _ refl refl refl refl, unfolded k]) (use False True in auto)
      moreover have "nat (m - int (length ps)) = Suc (nat (m - int (length (ps @ [p]))))" using False by simp
      ultimately show ?thesis using False unfolding mk by (auto simp: Let_def)
    qed
  qed
qed

lemma packetize_eq:
  assumes "frame \<noteq> []"
  shows "rtc_vp8_packetize frame kf m =
    (if int (length (frags frame)) \<le> m then (RTC_OK, mk_payloads kf True (frags frame))
     else (RTC_ERR_NOMEM, take (nat m) (mk_payloads kf True (frags frame))))"
  using assms by (simp add: rtc_vp8_packetize_def packetize_loop_spec Let_def)

subsection \<open>Feeding the depacketizer\<close>

lemma descriptor_bits [simp]:
  "vp8_descriptor f kf AND 0x80 = 0" "vp8_descriptor f kf AND 0x10 = 0 \<longleftrightarrow> \<not> f" "vp8_descriptor f kf AND 0x20 = 0 \<longleftrightarrow> kf"
  by (cases f; cases kf; simp add: vp8_descriptor_def)+

lemma depacketize_own:
  "rtc_vp8_depacketize d (vp8_descriptor f kf # x) ts marker =
    Some (if f then vp8_append (d\<lparr>dp_frame := [], dp_timestamp := ts, dp_collecting := True, dp_got_start := True\<rparr>) x (\<not> kf) marker
      else if dp_collecting d \<and> ts \<noteq> dp_timestamp d then (Inl RTC_ERR_GENERIC, d\<lparr>dp_collecting := False, dp_frame := []\<rparr>)
      else if \<not> dp_collecting d then (Inl RTC_ERR_GENERIC, d)
      else vp8_append d x (\<not> kf) marker)"
  by (simp add: rtc_vp8_depacketize_def vp8_pd_len_def rd8_def Let_def vp8_sizes)

fun feed :: "rtc_vp8_depacketizer \<Rightarrow> (u32 \<times> rtc_vp8_payload) list \<Rightarrow> ((rtc_err + bytes \<times> bool) list \<times> rtc_vp8_depacketizer) option" where
  "feed d [] = Some ([], d)"
| "feed d ((ts, p) # ps) = do {
     (r, d') \<leftarrow> rtc_vp8_depacketize d (pl_data p) ts (pl_marker p);
     (rs, d'') \<leftarrow> feed d' ps;
     Some (r # rs, d'')
   }"

lemma feed_append:
  "feed d (ps @ qs) = do { (rs, d') \<leftarrow> feed d ps; (rs', d'') \<leftarrow> feed d' qs; Some (rs @ rs', d'') }"
proof (induction ps arbitrary: d)
  case (Cons p ps)
  then show ?case
    by (cases p; cases "rtc_vp8_depacketize d (pl_data (snd p)) (fst p) (pl_marker (snd p))")
      (auto simp: Option.bind_assoc split_def)
qed (simp add: split_def)

text \<open>Of a frame split into the fragments \<open>x # xs @ [y]\<close>, those that arrive, the first and the last among them.\<close>

definition fragment :: "bool \<Rightarrow> bool \<Rightarrow> bool \<Rightarrow> bytes \<Rightarrow> rtc_vp8_payload" where
  "fragment kf f l x = \<lparr>pl_data = vp8_descriptor f kf # x, pl_marker = l\<rparr>"

lemma mk_payloads_False:
  "mk_payloads kf False (xs @ [y]) = map (fragment kf False False) xs @ [fragment kf False True y]"
  by (induction xs) (simp_all add: fragment_def)

lemma mk_payloads_True:
  "mk_payloads kf True (x # xs @ [y]) = fragment kf True False x # map (fragment kf False False) xs @ [fragment kf False True y]"
  by (simp add: mk_payloads_False fragment_def)

definition mid_frame :: "rtc_vp8_depacketizer \<Rightarrow> u32 \<Rightarrow> bool" where
  "mid_frame d ts \<longleftrightarrow> dp_collecting d \<and> dp_got_start d \<and> dp_timestamp d = ts"

lemma feed_rest:
  assumes "mid_frame d ts" "length (dp_frame d) + length (concat xs) + length y \<le> VP8_MAX_FRAME_SIZE"
  shows "\<exists>d'. feed d (map (Pair ts) (map (fragment kf False False) xs @ [fragment kf False True y])) =
    Some (replicate (length xs) (Inl RTC_ERR_GENERIC) @ [Inr (dp_frame d @ concat xs @ y, kf)], d') \<and> \<not> dp_collecting d'"
  using assms
proof (induction xs arbitrary: d)
  case Nil
  then show ?case by (auto simp: fragment_def depacketize_own mid_frame_def vp8_append_def Let_def)
next
  case (Cons x xs)
  let ?d = "d\<lparr>dp_frame := dp_frame d @ x\<rparr>"
  have "rtc_vp8_depacketize d (pl_data (fragment kf False False x)) ts False = Some (Inl RTC_ERR_GENERIC, ?d)"
    using Cons.prems by (auto simp: fragment_def depacketize_own mid_frame_def vp8_append_def Let_def)
  moreover have "mid_frame ?d ts" using Cons.prems(1) by (simp add: mid_frame_def)
  ultimately show ?case using Cons.IH [of ?d] Cons.prems(2) by (auto simp: fragment_def)
qed

lemma feed_start:
  assumes "length x \<le> VP8_MAX_FRAME_SIZE"
  shows "feed d ((ts, fragment kf True l x) # ps) = do {
    (rs, d') \<leftarrow> feed \<lparr>dp_frame = (if l then [] else x), dp_timestamp = ts, dp_collecting = \<not> l, dp_got_start = True\<rparr> ps;
    Some ((if l then Inr (x, kf) else Inl RTC_ERR_GENERIC) # rs, d') }"
  using assms by (cases d) (simp add: fragment_def depacketize_own vp8_append_def Let_def)

lemma feed_arrived:
  assumes "length x + length (concat xs) + length y \<le> VP8_MAX_FRAME_SIZE"
  shows "\<exists>d'. feed d (map (Pair ts) (fragment kf True False x # map (fragment kf False False) xs @ [fragment kf False True y])) =
    Some (replicate (Suc (length xs)) (Inl RTC_ERR_GENERIC) @ [Inr (x @ concat xs @ y, kf)], d') \<and> \<not> dp_collecting d'"
proof -
  let ?d = "\<lparr>dp_frame = x, dp_timestamp = ts, dp_collecting = True, dp_got_start = True\<rparr>"
  have "mid_frame ?d ts" "length (dp_frame ?d) + length (concat xs) + length y \<le> VP8_MAX_FRAME_SIZE" using assms by (simp_all add: mid_frame_def)
  from feed_rest [OF this, of kf] show ?thesis using assms feed_start [of x d ts kf False] by auto
qed

lemma split_ends:
  obtains "xs = []" | x where "xs = [x]" | x ys y where "xs = x # ys @ [y]"
  by (metis append_butlast_last_id neq_Nil_conv)

lemma feed_frame:
  assumes "frame \<noteq> []" "length frame \<le> VP8_MAX_FRAME_SIZE"
  shows "\<exists>d'. feed d (map (Pair ts) (mk_payloads kf True (frags frame))) =
    Some (replicate (length (frags frame) - 1) (Inl RTC_ERR_GENERIC) @ [Inr (frame, kf)], d') \<and> \<not> dp_collecting d'"
proof (cases "frags frame" rule: split_ends)
  case 1
  then show ?thesis using assms(1) by simp
next
  case (2 x)
  then have "frame = x" using frags_concat [of frame] by simp
  then show ?thesis using 2 assms(2) feed_start [of x d ts kf True "[]"] by (simp add: fragment_def)
next
  case (3 x ys y)
  then have fr: "frame = x @ concat ys @ y" using frags_concat [of frame] by simp
  have "length x + length (concat ys) + length y \<le> VP8_MAX_FRAME_SIZE" using assms(2) fr by simp
  from feed_arrived [OF this, of d ts kf] show ?thesis unfolding 3 mk_payloads_True fr [symmetric] by (simp del: feed.simps)
qed

text \<open>A video stream: each frame with its timestamp and keyframe flag, and the payloads of all of them in order.\<close>

definition frame_ok :: "int \<Rightarrow> u32 \<times> bytes \<times> bool \<Rightarrow> bool" where
  "frame_ok m = (\<lambda>(ts, frame, kf). frame \<noteq> [] \<and> length frame \<le> VP8_MAX_FRAME_SIZE \<and> int (length frame) \<le> m * int VP8_MAX_FRAG_SIZE)"

text \<open>The frame type as the VP8 bitstream has it: bit 0 of the first byte is clear in a keyframe (RFC 7741, 4.3).\<close>

definition vp8_keyframe :: "bytes \<Rightarrow> bool" where
  "vp8_keyframe frame \<longleftrightarrow> hd frame AND 1 = 0"

definition stream_payloads :: "int \<Rightarrow> (u32 \<times> bytes \<times> bool) list \<Rightarrow> (u32 \<times> rtc_vp8_payload) list" where
  "stream_payloads m frames = concat (map (\<lambda>(ts, frame, kf). map (Pair ts) (snd (rtc_vp8_packetize frame kf m))) frames)"

definition delivered :: "(rtc_err + bytes \<times> bool) list \<Rightarrow> (bytes \<times> bool) list" where
  "delivered rs = concat (map (case_sum (\<lambda>e. []) (\<lambda>f. [f])) rs)"

lemma frags_fit: "int (length frame) \<le> m * int VP8_MAX_FRAG_SIZE \<Longrightarrow> int (length (frags frame)) \<le> m"
proof -
  assume a: "int (length frame) \<le> m * int VP8_MAX_FRAG_SIZE"
  have "int (length (frags frame)) * 1399 \<le> int (length frame) + 1398" by (simp add: frags_count vp8_sizes)
  moreover have "int (length frame) \<le> m * 1399" using a by (simp add: vp8_sizes)
  ultimately show ?thesis by linarith
qed

lemma delivered_simps [simp]:
  "delivered (rs @ rs') = delivered rs @ delivered rs'" "delivered (replicate n (Inl e)) = []" "delivered (Inr f # rs) = f # delivered rs"
  "delivered (Inl e # rs) = delivered rs" "delivered [] = []"
  by (induction n) (simp_all add: delivered_def)

lemma stream_delivered:
  "list_all (frame_ok m) frames \<Longrightarrow> \<exists>rs d'. feed d (stream_payloads m frames) = Some (rs, d') \<and> delivered rs = map snd frames"
proof (induction frames arbitrary: d)
  case (Cons f frames)
  obtain ts frame kf where f: "f = (ts, frame, kf)" by (cases f)
  have ok: "frame \<noteq> []" "length frame \<le> VP8_MAX_FRAME_SIZE" "int (length (frags frame)) \<le> m"
    using Cons.prems frags_fit f by (simp_all add: frame_ok_def)
  obtain d1 where d1: "feed d (map (Pair ts) (mk_payloads kf True (frags frame))) =
      Some (replicate (length (frags frame) - 1) (Inl RTC_ERR_GENERIC) @ [Inr (frame, kf)], d1)"
    using feed_frame [OF ok(1,2)] by blast
  obtain rs d2 where d2: "feed d1 (stream_payloads m frames) = Some (rs, d2)" "delivered rs = map snd frames"
    using Cons.IH [of d1] Cons.prems by auto
  have "stream_payloads m (f # frames) = map (Pair ts) (mk_payloads kf True (frags frame)) @ stream_payloads m frames"
    using ok by (simp add: stream_payloads_def f packetize_eq)
  then show ?case using d1 d2 by (simp add: feed_append f)
qed (simp add: stream_payloads_def)

lemma vp8_pd_len_returns: "payload \<noteq> [] \<Longrightarrow> \<exists>r. vp8_pd_len payload = Some r \<and> r \<noteq> Inl RTC_OK"
  by (cases "length payload < 2"; cases "length payload = 2") (auto simp: vp8_pd_len_def rd8_def Let_def)

subsection \<open>Properties\<close>

text \<open>
  C16. VP8 frames survive packetization: whatever state the depacketizer is in, the payloads, in order and none missing, of any
  sequence of non-empty frames of at most 256 KiB, each short enough for the payload array of the packetizer (1399 bytes per payload) and
  passed with the keyframe flag its own first byte carries (bit 0 clear), give back exactly these frames in order, each with the
  keyframe flag of its first byte.
\<close>

theorem vp8_stream_roundtrip:
  assumes "list_all (frame_ok max_payloads) frames" "list_all (\<lambda>(ts, frame, kf). kf = vp8_keyframe frame) frames"
  shows "\<exists>rs d'. feed d (stream_payloads max_payloads frames) = Some (rs, d') \<and>
    delivered rs = map (\<lambda>(ts, frame, kf). (frame, vp8_keyframe frame)) frames"
proof -
  have "map (\<lambda>(ts, frame, kf). (frame, vp8_keyframe frame)) frames = map snd frames" using assms(2) by (auto simp: list_all_iff)
  then show ?thesis using stream_delivered [OF assms(1), of d] by (simp only:)
qed

theorem vp8_stream_roundtrip_witness:
  "list_all (frame_ok 64) [(0, replicate 3000 6, True), (3000, [1, 2], False)] \<and>
   (\<exists>rs d'. feed rtc_vp8_depacketizer_init (stream_payloads 64 [(0, replicate 3000 6, True), (3000, [1, 2], False)]) = Some (rs, d') \<and>
     delivered rs = [(replicate 3000 6, True), ([1, 2], False)])"
proof -
  have ok: "list_all (frame_ok 64) [(0, replicate 3000 6, True), (3000, [1, 2], False)]" by (simp add: frame_ok_def vp8_sizes)
  have kf: "vp8_keyframe (replicate 3000 6)" "\<not> vp8_keyframe [1, 2]" by (simp_all add: vp8_keyframe_def)
  then show ?thesis using ok vp8_stream_roundtrip [OF ok, of rtc_vp8_depacketizer_init] by simp
qed

text \<open>
  The packetizer covers the frame exactly: it answers with the fewest payloads, each non-empty and within the fixed payload
  buffer, the first and only the first marked as the start and the last and only the last with the marker, whose data concatenate to the frame;
  an empty frame and a frame too long for the payload array are refused.
\<close>

theorem vp8_packetize_exact:
  "rtc_vp8_packetize frame kf m =
    (if frame = [] then (RTC_ERR_INVALID, [])
     else if int ((length frame + (VP8_MAX_FRAG_SIZE - 1)) div VP8_MAX_FRAG_SIZE) \<le> m then (RTC_OK, mk_payloads kf True (frags frame))
     else (RTC_ERR_NOMEM, take (nat m) (mk_payloads kf True (frags frame)))) \<and>
   concat (map (\<lambda>p. tl (pl_data p)) (mk_payloads kf True (frags frame))) = frame \<and>
   list_all (\<lambda>p. 1 < length (pl_data p) \<and> length (pl_data p) \<le> VP8_MAX_PAYLOAD) (mk_payloads kf True (frags frame))"
proof -
  have c: "concat (map (\<lambda>p. tl (pl_data p)) (mk_payloads kf f xs)) = concat xs" for f xs by (induction xs arbitrary: f) simp_all
  have l: "list_all (\<lambda>x. 0 < length x \<and> length x \<le> VP8_MAX_FRAG_SIZE) xs \<Longrightarrow>
      list_all (\<lambda>p. 1 < length (pl_data p) \<and> length (pl_data p) \<le> VP8_MAX_PAYLOAD) (mk_payloads kf f xs)" for f xs
    by (induction xs arbitrary: f) (auto simp: VP8_MAX_PAYLOAD_def VP8_PD_SIZE_def)
  have "list_all (\<lambda>x. 0 < length x \<and> length x \<le> VP8_MAX_FRAG_SIZE) (frags frame)" using frags_length by (auto simp: list_all_iff)
  then show ?thesis using c [of True "frags frame"] l [of "frags frame" True] packetize_eq [of frame kf m]
    by (simp add: frags_concat frags_count rtc_vp8_packetize_def)
qed

text \<open>
  The depacketizer reads only inside the payload, whatever its bytes, keeps its reassembly buffer within its fixed size, and a frame
  it delivers fits that buffer.
\<close>

theorem vp8_depacketize_safe:
  assumes "length (dp_frame d) \<le> VP8_MAX_FRAME_SIZE"
  shows "\<exists>r d'. rtc_vp8_depacketize d payload ts marker = Some (r, d') \<and> length (dp_frame d') \<le> VP8_MAX_FRAME_SIZE \<and>
    (case r of Inl e \<Rightarrow> e \<noteq> RTC_OK | Inr (frame, kf) \<Rightarrow> length frame \<le> VP8_MAX_FRAME_SIZE \<and> \<not> dp_collecting d' \<and> marker)"
proof -
  define Q where "Q z \<longleftrightarrow> length (dp_frame (snd z)) \<le> VP8_MAX_FRAME_SIZE \<and>
    (case fst z of Inl e \<Rightarrow> e \<noteq> RTC_OK | Inr (frame, kf) \<Rightarrow> length frame \<le> VP8_MAX_FRAME_SIZE \<and> \<not> dp_collecting (snd z) \<and> marker)"
    for z :: "(rtc_err + bytes \<times> bool) \<times> rtc_vp8_depacketizer"
  have app: "Q (vp8_append e x n marker)" if "length (dp_frame e) \<le> VP8_MAX_FRAME_SIZE" for e x n
    using that by (auto simp: vp8_append_def Let_def Q_def)
  have err: "Q (Inl e, d)" "Q (Inl e, d\<lparr>dp_collecting := False, dp_frame := []\<rparr>)" if "e \<noteq> RTC_OK" for e using that assms by (simp_all add: Q_def)
  have "\<exists>z. rtc_vp8_depacketize d payload ts marker = Some z \<and> Q z"
  proof (cases "payload = []")
    case True
    then show ?thesis using err(1) [of RTC_ERR_INVALID] by (simp add: rtc_vp8_depacketize_def vp8_sizes)
  next
    case False
    then obtain r where r: "vp8_pd_len payload = Some r" "r \<noteq> Inl RTC_OK" using vp8_pd_len_returns by blast
    have rd: "rd8 payload 0 = Some (payload ! 0)" "\<not> length payload < VP8_PD_SIZE" using False by (simp_all add: rd8_def vp8_sizes Suc_le_eq)
    show ?thesis
    proof (cases r)
      case (Inl e)
      then show ?thesis using r rd err(1) [of e] by (auto simp: rtc_vp8_depacketize_def Let_def)
    next
      case (Inr n)
      show ?thesis
        using assms app err [of RTC_ERR_GENERIC] r rd Inr by (simp add: rtc_vp8_depacketize_def Let_def del: split_paired_Ex)
    qed
  qed
  then show ?thesis unfolding Q_def by (metis prod.collapse)
qed

theorem vp8_depacketize_safe_witness:
  "\<exists>r d'. rtc_vp8_depacketize rtc_vp8_depacketizer_init [0x90, 0xF0, 0x80] 0 True = Some (r, d') \<and> length (dp_frame d') \<le> VP8_MAX_FRAME_SIZE \<and>
    (case r of Inl e \<Rightarrow> e \<noteq> RTC_OK | Inr (frame, kf) \<Rightarrow> length frame \<le> VP8_MAX_FRAME_SIZE \<and> \<not> dp_collecting d' \<and> True)"
  by (rule vp8_depacketize_safe) (simp add: rtc_vp8_depacketizer_init_def)

text \<open>
  Losing fragments between the first and the last of a frame is not noticed: the frame is delivered as complete with the bytes of the
  fragments that arrived, whichever they are.
\<close>

theorem vp8_gap_delivered:
  assumes "frags frame = x # xs @ [y]" and "length frame \<le> VP8_MAX_FRAME_SIZE" and "subseq zs xs"
  shows "\<exists>ps rs d'. subseq ps (mk_payloads kf True (frags frame)) \<and> feed d (map (Pair ts) ps) = Some (rs, d') \<and>
    delivered rs = [(x @ concat zs @ y, kf)]"
proof -
  let ?ps = "fragment kf True False x # map (fragment kf False False) zs @ [fragment kf False True y]"
  have "subseq ?ps (mk_payloads kf True (frags frame))"
    unfolding assms(1) mk_payloads_True using assms(3) by (intro subseq_Cons2 list_emb_append_mono) (simp_all add: subseq_map)
  moreover have "length (concat zs) \<le> length (concat xs)" using assms(3) by (induction rule: list_emb.induct) auto
  then have "length x + length (concat zs) + length y \<le> VP8_MAX_FRAME_SIZE" using assms(1,2) frags_concat [of frame] by auto
  ultimately show ?thesis using feed_arrived [of x zs y d ts kf] by fastforce
qed

theorem vp8_gap_delivered_witness:
  "frags (replicate 3000 7) = [replicate 1399 7, replicate 1399 7, replicate 202 7] \<and>
   (\<exists>ps rs d'. subseq ps (mk_payloads True True (frags (replicate 3000 7))) \<and> feed rtc_vp8_depacketizer_init (map (Pair 0) ps) = Some (rs, d') \<and>
     delivered rs = [(replicate 1399 7 @ replicate 202 7, True)])"
proof -
  have f: "frags (replicate 3000 7) = replicate 1399 7 # [replicate 1399 7] @ [replicate 202 7]" by (simp add: frags.simps vp8_sizes)
  show ?thesis using f vp8_gap_delivered [OF f, of "[]" True rtc_vp8_depacketizer_init 0] by (simp add: vp8_sizes)
qed

end
