(* ===== verification/Jitter_Buffer.thy ===== *)
theory Jitter_Buffer
  imports U32_Map "HOL-Library.Signed_Division"
begin

text \<open>
  The jitter buffer (\<^verbatim>\<open>media/src/jitter_buffer.c\<close>), a client of the hash map: packets are kept by sequence
  number, released in order once they are old enough, and missing ones are skipped when the rest has waited too long.
  The clock and the outcomes of the allocations are arguments. An operation is \<open>None\<close> when a signed addition would
  overflow, when it would read outside the packet, or when it would not return.
\<close>

subsection \<open>State\<close>

definition JB_MAX_PACKETS :: nat where "JB_MAX_PACKETS = 256"
definition JB_SLOT_DATA :: nat where "JB_SLOT_DATA = 2048"

record jb_slot =
  sl_data :: bytes
  sl_seq :: u16
  sl_timestamp :: u32
  sl_marker :: bool
  sl_arrival_ms :: u64

record jitter_buffer =
  jb_by_seq :: "jb_slot rtc_u32_map"
  jb_last_popped :: "jb_slot option"
  jb_next_seq :: u16
  jb_started :: bool
  jb_target_delay_ms :: int
  jb_min_delay_ms :: int
  jb_max_delay_ms :: int
  jb_est_jitter_ms :: int
  jb_last_arrival_ms :: u64
  jb_last_timestamp :: u32

record jitter_buffer_packet =
  pk_data :: bytes
  pk_timestamp :: u32
  pk_seq :: u16
  pk_marker :: bool

text \<open>The conversion of a \<^verbatim>\<open>uint64_t\<close> to an \<^verbatim>\<open>int\<close>.\<close>

definition to_int :: "u64 \<Rightarrow> int" where
  "to_int w = sint (ucast w :: u32)"

definition seq_compare :: "u16 \<Rightarrow> u16 \<Rightarrow> int" where
  "seq_compare a b = sint (a - b)"

subsection \<open>Operations\<close>

definition jitter_buffer_create :: "bool \<Rightarrow> (int \<times> int) option \<Rightarrow> jitter_buffer option" where
  "jitter_buffer_create a cfg =
    (if \<not> a then None
     else
       let target = (case cfg of Some (t, m) \<Rightarrow> t | None \<Rightarrow> 80);
           max_delay = (case cfg of Some (t, m) \<Rightarrow> m | None \<Rightarrow> 500)
       in Some \<lparr>jb_by_seq = rtc_u32_map_init, jb_last_popped = None, jb_next_seq = 0, jb_started = False,
         jb_target_delay_ms = (if target < 0 then 80 else target), jb_min_delay_ms = target,
         jb_max_delay_ms = (if max_delay \<le> 0 then 500 else max_delay), jb_est_jitter_ms = 0,
         jb_last_arrival_ms = 0, jb_last_timestamp = 0\<rparr>)"

fun oldest_of :: "jb_slot option \<Rightarrow> (u32 \<times> jb_slot option) list \<Rightarrow> jb_slot option" where
  "oldest_of old [] = old"
| "oldest_of old ((k, None) # kvs) = oldest_of old kvs"
| "oldest_of old ((k, Some s) # kvs) =
    oldest_of (case old of None \<Rightarrow> Some s | Some t \<Rightarrow> if seq_compare (sl_seq s) (sl_seq t) < 0 then Some s else Some t) kvs"

definition find_oldest :: "jitter_buffer \<Rightarrow> jb_slot option" where
  "find_oldest jb = oldest_of None (u32_map_all (jb_by_seq jb))"

text \<open>The parts of \<^verbatim>\<open>jitter_buffer_push\<close>: admission by sequence number (\<open>None\<close>: too old), the delay estimate, eviction.\<close>

definition jb_admit :: "jitter_buffer \<Rightarrow> u64 \<Rightarrow> u16 \<Rightarrow> u32 \<Rightarrow> jitter_buffer option" where
  "jb_admit jb now seq timestamp =
    (if \<not> jb_started jb then
       Some (jb\<lparr>jb_next_seq := seq, jb_started := True, jb_last_arrival_ms := now, jb_last_timestamp := timestamp\<rparr>)
     else if seq_compare seq (jb_next_seq jb) < 0 then
       let gap = seq_compare (jb_next_seq jb) seq
       in if gap > 0 \<and> gap < int (JB_MAX_PACKETS div 2) then Some (jb\<lparr>jb_next_seq := seq\<rparr>) else None
     else Some jb)"

definition jb_estimate :: "jitter_buffer \<Rightarrow> u64 \<Rightarrow> u32 \<Rightarrow> jitter_buffer option" where
  "jb_estimate jb now timestamp = do {
     est \<leftarrow> (if jb_last_arrival_ms jb > 0 then do {
         let arrival_diff = to_int (now - jb_last_arrival_ms jb);
         let ts_diff = uint ((timestamp - jb_last_timestamp jb) div 90);
         d \<leftarrow> as_int (arrival_diff - ts_diff);
         jitter_sample \<leftarrow> as_int \<bar>d\<bar>;
         p \<leftarrow> as_int (jb_est_jitter_ms jb * 15);
         q \<leftarrow> as_int (p + jitter_sample);
         Some (q sdiv 16)
       } else Some (jb_est_jitter_ms jb));
     let jb = jb\<lparr>jb_est_jitter_ms := est, jb_last_arrival_ms := now, jb_last_timestamp := timestamp\<rparr>;
     if jb_min_delay_ms jb > 0 then do {
       new_target \<leftarrow> as_int (jb_est_jitter_ms jb * 2);
       let new_target = (if new_target < jb_min_delay_ms jb then jb_min_delay_ms jb else new_target);
       let new_target = (if new_target > jb_max_delay_ms jb then jb_max_delay_ms jb else new_target);
       Some (jb\<lparr>jb_target_delay_ms := new_target\<rparr>)
     } else Some jb
   }"

definition jb_evict :: "bool \<Rightarrow> jitter_buffer \<Rightarrow> jitter_buffer option" where
  "jb_evict a jb =
    (if rtc_u32_map_len (jb_by_seq jb) \<ge> JB_MAX_PACKETS then
       case find_oldest jb of
         None \<Rightarrow> Some jb
       | Some old \<Rightarrow> do { (_, m) \<leftarrow> rtc_u32_map_remove a (jb_by_seq jb) (ucast (sl_seq old)); Some (jb\<lparr>jb_by_seq := m\<rparr>) }
     else Some jb)"

definition jb_store :: "bool \<Rightarrow> jitter_buffer \<Rightarrow> jb_slot \<Rightarrow> jitter_buffer option" where
  "jb_store a jb slot = do { (rc, m) \<leftarrow> rtc_u32_map_set a (jb_by_seq jb) (ucast (sl_seq slot)) (Some slot); Some (jb\<lparr>jb_by_seq := m\<rparr>) }"

definition jitter_buffer_push ::
  "bool \<times> bool \<times> bool \<Rightarrow> jitter_buffer \<Rightarrow> u64 \<Rightarrow> bytes \<Rightarrow> int \<Rightarrow> u16 \<Rightarrow> u32 \<Rightarrow> bool \<Rightarrow> jitter_buffer option" where
  "jitter_buffer_push al jb now data len seq timestamp marker =
    (case al of (a_evict, a_slot, a_set) \<Rightarrow>
     case jb_admit jb now seq timestamp of
       None \<Rightarrow> Some jb
     | Some jb \<Rightarrow> do {
         dup \<leftarrow> rtc_u32_map_get (jb_by_seq jb) (ucast seq);
         if dup \<noteq> None then Some jb
         else do {
           jb \<leftarrow> jb_estimate jb now timestamp;
           jb \<leftarrow> jb_evict a_evict jb;
           if \<not> a_slot then Some jb
           else do {
             let copy_len = (if len < 0 then 0 else len);
             let copy_len = (if copy_len > int JB_SLOT_DATA then int JB_SLOT_DATA else copy_len);
             d \<leftarrow> rd_bytes data 0 (nat copy_len);
             jb_store a_set jb \<lparr>sl_data = d, sl_seq = seq, sl_timestamp = timestamp, sl_marker = marker, sl_arrival_ms = now\<rparr>
           }
         }
       })"

definition packet_of :: "jb_slot \<Rightarrow> jitter_buffer_packet" where
  "packet_of slot = \<lparr>pk_data = sl_data slot, pk_timestamp = sl_timestamp slot, pk_seq = sl_seq slot, pk_marker = sl_marker slot\<rparr>"

text \<open>The packet popped (\<open>None\<close>: the call returns \<^verbatim>\<open>-1\<close>) and the buffer.\<close>

partial_function (option) pop_loop :: "bool \<Rightarrow> u64 \<Rightarrow> jitter_buffer \<Rightarrow> (jitter_buffer_packet option \<times> jitter_buffer) option" where
  "pop_loop a now jb = do {
     r \<leftarrow> rtc_u32_map_get (jb_by_seq jb) (ucast (jb_next_seq jb));
     case r of
       Some slot \<Rightarrow>
         if to_int (now - sl_arrival_ms slot) < jb_target_delay_ms jb then Some (None, jb)
         else do {
           (_, m) \<leftarrow> rtc_u32_map_remove a (jb_by_seq jb) (ucast (jb_next_seq jb));
           Some (Some (packet_of slot), jb\<lparr>jb_by_seq := m, jb_last_popped := Some slot, jb_next_seq := jb_next_seq jb + 1\<rparr>)
         }
     | None \<Rightarrow>
         (case find_oldest jb of
            None \<Rightarrow> Some (None, jb)
          | Some earliest \<Rightarrow>
              if to_int (now - sl_arrival_ms earliest) \<le> jb_max_delay_ms jb then Some (None, jb)
              else pop_loop a now (jb\<lparr>jb_next_seq := sl_seq earliest\<rparr>))
   }"

definition jitter_buffer_pop :: "bool \<Rightarrow> u64 \<Rightarrow> jitter_buffer \<Rightarrow> (jitter_buffer_packet option \<times> jitter_buffer) option" where
  "jitter_buffer_pop a now jb = (if rtc_u32_map_len (jb_by_seq jb) = 0 then Some (None, jb) else pop_loop a now jb)"

definition jitter_buffer_get_delay :: "jitter_buffer \<Rightarrow> int" where
  "jitter_buffer_get_delay jb = jb_target_delay_ms jb"

definition jitter_buffer_destroy :: "jitter_buffer \<Rightarrow> jb_slot rtc_u32_map" where
  "jitter_buffer_destroy jb = rtc_u32_map_free (jb_by_seq jb)"

subsection \<open>Sequence numbers and ages\<close>

lemma sint_of_int: "- (2 ^ (LENGTH('a) - 1)) \<le> x \<Longrightarrow> x < 2 ^ (LENGTH('a) - 1) \<Longrightarrow> sint (word_of_int x :: 'a::len word) = x"
  by (simp add: signed_of_int signed_take_bit_int_eq_self)

lemma seq_compare_offset:
  assumes "i < 2 ^ 15" "j < 2 ^ 15"
  shows "seq_compare (b + of_nat i) (b + of_nat j) = int i - int j"
proof -
  have "(b + of_nat i) - (b + of_nat j) = (word_of_int (int i - int j) :: u16)" by simp
  then show ?thesis unfolding seq_compare_def using assms sint_of_int [of "int i - int j", where 'a = 16] by (simp only:) simp
qed

lemma ucast_seq_inj [simp]: "(ucast (a :: u16) :: u32) = ucast b \<longleftrightarrow> a = b"
proof
  assume e: "(ucast a :: u32) = ucast b"
  show "a = b"
  proof (rule bit_word_eqI)
    fix n assume "n < LENGTH(16)"
    then show "bit a n = bit b n" using arg_cong [OF e, of "\<lambda>w. bit w n"] by (simp add: bit_ucast_iff)
  qed
qed simp

lemma to_int_bounds: "- (2 ^ 31) \<le> to_int w" "to_int w < 2 ^ 31"
  using sint_range_size [of "ucast w :: u32"] by (simp_all add: to_int_def word_size)

lemma ucast_of_int64: "(ucast (word_of_int x :: u64) :: u32) = word_of_int x"
  by (rule bit_word_eqI) (simp add: bit_simps)

lemma sint_diff: "n \<le> 2 ^ 26 \<Longrightarrow> m \<le> 2 ^ 26 \<Longrightarrow> sint (word_of_int (int n - int m) :: u32) = int n - int m"
  by (rule sint_of_int) simp_all

lemma abs_diff: "n \<le> 2 ^ 26 \<Longrightarrow> m \<le> 2 ^ 26 \<Longrightarrow> \<bar>int n - int m\<bar> \<le> 2 ^ 26"
  by simp

text \<open>Clock readings \<open>t\<close> that lie within 18 hours of \<open>T\<close>.\<close>

definition within :: "u64 \<Rightarrow> u64 \<Rightarrow> bool" where
  "within T t \<longleftrightarrow> unat (t - T) \<le> 2 ^ 26"

lemma within_diff:
  assumes "within T t" "within T u"
  shows "to_int (t - u) = int (unat (t - T)) - int (unat (u - T))" "\<bar>to_int (t - u)\<bar> \<le> 2 ^ 26"
proof -
  let ?x = "int (unat (t - T)) - int (unat (u - T))"
  have "t - u = (t - T) - (u - T)" by simp
  also have "\<dots> = word_of_int ?x" by simp
  finally have "ucast (t - u) = (word_of_int ?x :: u32)" using ucast_of_int64 [of ?x] by simp
  then show e: "to_int (t - u) = ?x" unfolding to_int_def by (simp only: sint_diff [OF assms [unfolded within_def]])
  show "\<bar>to_int (t - u)\<bar> \<le> 2 ^ 26" unfolding e by (rule abs_diff [OF assms [unfolded within_def]])
qed

subsection \<open>The oldest packet\<close>

lemma oldest_of_mem: "oldest_of old kvs = Some s \<Longrightarrow> old = Some s \<or> (\<exists>k. (k, Some s) \<in> set kvs)"
  by (induction old kvs rule: oldest_of.induct) (auto split: option.splits if_splits)

lemma oldest_of_Some: "old \<noteq> None \<Longrightarrow> oldest_of old kvs \<noteq> None"
  by (induction old kvs rule: oldest_of.induct) (auto split: option.splits)

lemma oldest_of_None: "oldest_of None kvs = None \<Longrightarrow> (k, v) \<in> set kvs \<Longrightarrow> v = None"
proof (induction kvs)
  case (Cons kv kvs)
  then show ?case using oldest_of_Some [of "snd kv" kvs] by (cases kv; cases "snd kv") auto
qed simp

lemma oldest_of_least:
  assumes "oldest_of old kvs = Some s"
    and "\<forall>t. old = Some t \<or> (\<exists>k. (k, Some t) \<in> set kvs) \<longrightarrow> sl_seq t = b + of_nat (ix t) \<and> ix t < 2 ^ 15"
  shows "\<forall>t. old = Some t \<or> (\<exists>k. (k, Some t) \<in> set kvs) \<longrightarrow> ix s \<le> ix t"
  using assms
proof (induction old kvs rule: oldest_of.induct)
  case (1 old)
  then show ?case by auto
next
  case (2 old k kvs)
  then show ?case by auto
next
  case (3 old k x kvs)
  define new where "new = (case old of None \<Rightarrow> Some x | Some t \<Rightarrow> if seq_compare (sl_seq x) (sl_seq t) < 0 then Some x else Some t)"
  have new: "new = Some x \<and> (\<forall>t. old = Some t \<longrightarrow> ix x \<le> ix t) \<or> new = old \<and> (\<exists>t. old = Some t \<and> ix t \<le> ix x)"
  proof (cases old)
    case None
    then show ?thesis by (simp add: new_def)
  next
    case (Some t)
    have "sl_seq x = b + of_nat (ix x) \<and> ix x < 2 ^ 15" "sl_seq t = b + of_nat (ix t) \<and> ix t < 2 ^ 15"
      using spec [OF 3(3), of x] spec [OF 3(3), of t] Some by auto
    then have "seq_compare (sl_seq x) (sl_seq t) = int (ix x) - int (ix t)" using seq_compare_offset by simp
    then show ?thesis using Some by (auto simp: new_def)
  qed
  have "\<forall>t. new = Some t \<or> (\<exists>k. (k, Some t) \<in> set kvs) \<longrightarrow> ix s \<le> ix t"
    using 3(1) [folded new_def] 3(2,3) new by (auto simp flip: new_def)
  then have ih: "new = Some t \<Longrightarrow> ix s \<le> ix t" "(k, Some t) \<in> set kvs \<Longrightarrow> ix s \<le> ix t" for t k by blast+
  have "ix s \<le> ix x" "old = Some t \<Longrightarrow> ix s \<le> ix t" for t using new ih(1) le_trans by blast+
  then show ?case using ih(2) by auto
qed

subsection \<open>Invariant\<close>

definition slots :: "jitter_buffer \<Rightarrow> u16 \<rightharpoonup> jb_slot" where
  "slots jb q = ptr_at (u32_map_abs (jb_by_seq jb)) (ucast q)"

definition jb_map_ok :: "jb_slot rtc_u32_map \<Rightarrow> bool" where
  "jb_map_ok m \<longleftrightarrow> u32_map_ok m \<and> (\<forall>k v. u32_map_abs m k = Some v \<longrightarrow>
    (\<exists>s. v = Some s \<and> k = ucast (sl_seq s) \<and> length (sl_data s) \<le> JB_SLOT_DATA))"

definition jb_ok :: "jitter_buffer \<Rightarrow> bool" where
  "jb_ok jb \<longleftrightarrow> jb_map_ok (jb_by_seq jb) \<and> card (dom (u32_map_abs (jb_by_seq jb))) \<le> JB_MAX_PACKETS"

lemma jb_okD: "jb_ok jb \<Longrightarrow> u32_map_ok (jb_by_seq jb)"
  by (simp add: jb_ok_def jb_map_ok_def)

lemma slots_Some:
  assumes "jb_ok jb"
  shows "slots jb q = Some s \<longleftrightarrow> u32_map_abs (jb_by_seq jb) (ucast q) = Some (Some s)"
  by (auto simp: slots_def ptr_at_def split: option.splits)

lemma slots_seq: "jb_ok jb \<Longrightarrow> slots jb q = Some s \<Longrightarrow> sl_seq s = q \<and> length (sl_data s) \<le> JB_SLOT_DATA"
  unfolding slots_Some by (fastforce simp: jb_ok_def jb_map_ok_def)

lemma slots_get: "jb_ok jb \<Longrightarrow> rtc_u32_map_get (jb_by_seq jb) (ucast q) = Some (slots jb q)"
  by (simp add: u32.get_abs jb_okD slots_def)

lemma find_oldest_slot: "jb_ok jb \<Longrightarrow> find_oldest jb = Some s \<Longrightarrow> slots jb (sl_seq s) = Some s"
  using oldest_of_mem [of None "u32_map_all (jb_by_seq jb)" s] u32_iter.in_items [OF jb_okD, of jb]
  by (fastforce simp: find_oldest_def slots_Some jb_ok_def jb_map_ok_def)

lemma find_oldest_None: "jb_ok jb \<Longrightarrow> find_oldest jb = None \<Longrightarrow> slots jb = Map.empty"
proof
  fix q assume ok: "jb_ok jb" and n: "find_oldest jb = None"
  show "slots jb q = None"
  proof (rule ccontr)
    assume "slots jb q \<noteq> None"
    then obtain s where "slots jb q = Some s" by blast
    then have "(ucast q, Some s) \<in> set (u32_map_all (jb_by_seq jb))" using u32_iter.in_items [OF jb_okD [OF ok]] slots_Some [OF ok] by blast
    then show False using n oldest_of_None by (auto simp: find_oldest_def)
  qed
qed

lemma dom_upd_None: "dom (f(k := None)) \<subseteq> dom f"
  by auto

lemma slots_empty: "jb_ok jb \<Longrightarrow> slots jb = Map.empty \<Longrightarrow> u32_map_abs (jb_by_seq jb) = Map.empty"
proof (rule ext, rule ccontr)
  fix k assume a: "jb_ok jb" "slots jb = Map.empty" "u32_map_abs (jb_by_seq jb) k \<noteq> None"
  then obtain s where "u32_map_abs (jb_by_seq jb) (ucast (sl_seq s)) = Some (Some s)" unfolding jb_ok_def jb_map_ok_def by blast
  then show False using a(2) slots_Some [OF a(1), of "sl_seq s" s] by simp
qed

lemma map_remove_ok:
  assumes "jb_ok jb"
  shows "\<exists>f m. rtc_u32_map_remove a (jb_by_seq jb) (ucast q) = Some (f, m) \<and> jb_map_ok m \<and>
    u32_map_abs m = (u32_map_abs (jb_by_seq jb))(ucast q := None) \<and> card (dom (u32_map_abs m)) \<le> card (dom (u32_map_abs (jb_by_seq jb))) \<and>
    (slots jb q \<noteq> None \<longrightarrow> card (dom (u32_map_abs m)) < card (dom (u32_map_abs (jb_by_seq jb))))"
proof -
  note ok = jb_okD [OF assms]
  obtain m where m: "rtc_u32_map_remove a (jb_by_seq jb) (ucast q) = Some (ucast q \<in> dom (u32_map_abs (jb_by_seq jb)), m)"
    "u32_map_ok m" "u32_map_abs m = (u32_map_abs (jb_by_seq jb))(ucast q := None)" using u32.remove_cases [OF ok] .
  have fin: "finite (dom (u32_map_abs (jb_by_seq jb)))" using u32_iter.finite_dom [OF ok] .
  have sub: "u32_map_abs (jb_by_seq jb) k = Some v" if "u32_map_abs m k = Some v" for k v using that m(3) by (simp split: if_splits)
  then have "jb_map_ok m" using m(2) assms unfolding jb_map_ok_def jb_ok_def by blast
  moreover have ds: "dom (u32_map_abs m) \<subseteq> dom (u32_map_abs (jb_by_seq jb))" using dom_upd_None m(3) by metis
  moreover have "card (dom (u32_map_abs m)) < card (dom (u32_map_abs (jb_by_seq jb)))" if ne: "slots jb q \<noteq> None"
  proof -
    obtain s where "u32_map_abs (jb_by_seq jb) (ucast q) = Some s" using ne by (auto simp: slots_def ptr_at_def split: option.splits)
    then have "ucast q \<in> dom (u32_map_abs (jb_by_seq jb))" "ucast q \<notin> dom (u32_map_abs m)" using m(3) by (simp_all add: domIff)
    then show ?thesis using ds by (intro psubset_card_mono [OF fin] psubsetI) auto
  qed
  ultimately show ?thesis using m card_mono [OF fin ds] by blast
qed

lemma slots_remove:
  assumes "u32_map_abs m = (u32_map_abs (jb_by_seq jb))(ucast q := None)"
  shows "slots (jb\<lparr>jb_by_seq := m\<rparr>) = (slots jb)(q := None)"
  using assms by (auto simp: slots_def ptr_at_def fun_eq_iff)


lemma slots_fields [simp]:
  "slots (jb\<lparr>jb_next_seq := q\<rparr>) = slots jb" "slots (jb\<lparr>jb_started := b\<rparr>) = slots jb" "slots (jb\<lparr>jb_last_arrival_ms := t\<rparr>) = slots jb"
  "slots (jb\<lparr>jb_last_timestamp := w\<rparr>) = slots jb" "slots (jb\<lparr>jb_est_jitter_ms := i\<rparr>) = slots jb"
  "slots (jb\<lparr>jb_target_delay_ms := i\<rparr>) = slots jb"
  by (simp_all add: slots_def fun_eq_iff)

lemma jb_ok_fields [simp]:
  "jb_ok (jb\<lparr>jb_next_seq := q\<rparr>) = jb_ok jb" "jb_ok (jb\<lparr>jb_started := b\<rparr>) = jb_ok jb" "jb_ok (jb\<lparr>jb_last_arrival_ms := t\<rparr>) = jb_ok jb"
  "jb_ok (jb\<lparr>jb_last_timestamp := w\<rparr>) = jb_ok jb" "jb_ok (jb\<lparr>jb_est_jitter_ms := i\<rparr>) = jb_ok jb"
  "jb_ok (jb\<lparr>jb_target_delay_ms := i\<rparr>) = jb_ok jb"
  by (simp_all add: jb_ok_def)

subsection \<open>Popping\<close>

lemma pop_found:
  assumes ok: "jb_ok jb" and s: "slots jb (jb_next_seq jb) = Some s"
  shows "\<exists>r jb'. pop_loop a now jb = Some (r, jb') \<and> jb_ok jb' \<and>
    (if to_int (now - sl_arrival_ms s) < jb_target_delay_ms jb then r = None \<and> jb' = jb
     else r = Some (packet_of s) \<and> slots jb' = (slots jb)(sl_seq s := None) \<and> jb_next_seq jb' = jb_next_seq jb + 1 \<and>
       (\<exists>m. jb' = jb\<lparr>jb_by_seq := m, jb_last_popped := Some s, jb_next_seq := jb_next_seq jb + 1\<rparr>))"
proof -
  have seq: "sl_seq s = jb_next_seq jb" using slots_seq [OF ok s] by simp
  obtain f m where m: "rtc_u32_map_remove a (jb_by_seq jb) (ucast (jb_next_seq jb)) = Some (f, m)" "jb_map_ok m"
    "u32_map_abs m = (u32_map_abs (jb_by_seq jb))(ucast (jb_next_seq jb) := None)"
    "card (dom (u32_map_abs m)) \<le> card (dom (u32_map_abs (jb_by_seq jb)))"
    using map_remove_ok [OF ok, of a "jb_next_seq jb"] by blast
  let ?jb = "jb\<lparr>jb_by_seq := m, jb_last_popped := Some s, jb_next_seq := jb_next_seq jb + 1\<rparr>"
  have ok': "jb_ok ?jb" using ok m by (simp add: jb_ok_def)
  have sl: "slots ?jb = (slots jb)(sl_seq s := None)" using slots_remove [OF m(3)] unfolding seq by (simp add: slots_def fun_eq_iff)
  show ?thesis
  proof (cases "to_int (now - sl_arrival_ms s) < jb_target_delay_ms jb")
    case True
    then have "pop_loop a now jb = Some (None, jb)" by (subst pop_loop.simps) (simp add: slots_get [OF ok] s)
    then show ?thesis using True ok by simp
  next
    case False
    then have "pop_loop a now jb = Some (Some (packet_of s), ?jb)" by (subst pop_loop.simps) (simp add: slots_get [OF ok] s m(1))
    then show ?thesis using False ok' sl by auto
  qed
qed

definition pop_result :: "jitter_buffer \<Rightarrow> u64 \<Rightarrow> jitter_buffer_packet option \<Rightarrow> jitter_buffer \<Rightarrow> bool" where
  "pop_result jb now r jb' \<longleftrightarrow> jb_ok jb' \<and> jb_target_delay_ms jb' = jb_target_delay_ms jb \<and> jb_min_delay_ms jb' = jb_min_delay_ms jb \<and>
    jb_max_delay_ms jb' = jb_max_delay_ms jb \<and> jb_est_jitter_ms jb' = jb_est_jitter_ms jb \<and> jb_last_arrival_ms jb' = jb_last_arrival_ms jb \<and>
    jb_last_timestamp jb' = jb_last_timestamp jb \<and> jb_started jb' = jb_started jb \<and>
    (case r of None \<Rightarrow> slots jb' = slots jb
     | Some p \<Rightarrow> \<exists>s. slots jb (sl_seq s) = Some s \<and> p = packet_of s \<and> slots jb' = (slots jb)(sl_seq s := None) \<and>
         jb_target_delay_ms jb \<le> to_int (now - sl_arrival_ms s))"

lemma pop_result_found:
  assumes ok: "jb_ok jb" and s: "slots jb (jb_next_seq jb) = Some s"
  shows "\<exists>r jb'. pop_loop a now jb = Some (r, jb') \<and> pop_result jb now r jb'"
proof -
  have seq: "sl_seq s = jb_next_seq jb" using slots_seq [OF ok s] by simp
  obtain r jb' where p: "pop_loop a now jb = Some (r, jb')" "jb_ok jb'"
    "if to_int (now - sl_arrival_ms s) < jb_target_delay_ms jb then r = None \<and> jb' = jb
     else r = Some (packet_of s) \<and> slots jb' = (slots jb)(sl_seq s := None) \<and> jb_next_seq jb' = jb_next_seq jb + 1 \<and>
       (\<exists>m. jb' = jb\<lparr>jb_by_seq := m, jb_last_popped := Some s, jb_next_seq := jb_next_seq jb + 1\<rparr>)"
    using pop_found [OF ok s, of a now] by blast
  then have "pop_result jb now r jb'" using s seq by (auto simp: pop_result_def split: if_splits intro!: exI [of _ s])
  then show ?thesis using p by blast
qed

lemma pop_ok:
  assumes ok: "jb_ok jb"
  shows "\<exists>r jb'. jitter_buffer_pop a now jb = Some (r, jb') \<and> pop_result jb now r jb'"
proof (cases "rtc_u32_map_len (jb_by_seq jb) = 0")
  case True
  then show ?thesis using ok by (simp add: jitter_buffer_pop_def pop_result_def)
next
  case len: False
  have same: "pop_result jb now None jb" using ok by (simp add: pop_result_def)
  have "\<exists>r jb'. pop_loop a now jb = Some (r, jb') \<and> pop_result jb now r jb'"
  proof (cases "slots jb (jb_next_seq jb)")
    case (Some s)
    then show ?thesis using pop_result_found [OF ok] by blast
  next
    case None
    show ?thesis
    proof (cases "find_oldest jb")
      case f: None
      have "pop_loop a now jb = Some (None, jb)" by (subst pop_loop.simps) (simp add: slots_get [OF ok] None f)
      then show ?thesis using same by blast
    next
      case (Some e)
      let ?jb = "jb\<lparr>jb_next_seq := sl_seq e\<rparr>"
      have e: "jb_ok ?jb" "slots ?jb (jb_next_seq ?jb) = Some e" using ok find_oldest_slot [OF ok Some] by (simp_all add: jb_ok_def slots_def)
      show ?thesis
      proof (cases "to_int (now - sl_arrival_ms e) \<le> jb_max_delay_ms jb")
        case True
        then have "pop_loop a now jb = Some (None, jb)" by (subst pop_loop.simps) (simp add: slots_get [OF ok] None Some)
        then show ?thesis using same by blast
      next
        case False
        then have "pop_loop a now jb = pop_loop a now ?jb" by (subst pop_loop.simps) (simp add: slots_get [OF ok] None Some)
        moreover have "pop_result ?jb now r jb' \<Longrightarrow> pop_result jb now r jb'" for r jb' by (simp add: pop_result_def split: option.splits)
        ultimately show ?thesis using pop_result_found [OF e, of a now] by metis
      qed
    qed
  qed
  then show ?thesis using len by (simp add: jitter_buffer_pop_def)
qed

subsection \<open>Pushing\<close>

definition est_max :: int where "est_max = 2 ^ 26 + 47721858"

definition calm :: "u64 \<Rightarrow> jitter_buffer \<Rightarrow> bool" where
  "calm T jb \<longleftrightarrow> 0 \<le> jb_est_jitter_ms jb \<and> jb_est_jitter_ms jb \<le> est_max \<and> (jb_last_arrival_ms jb = 0 \<or> within T (jb_last_arrival_ms jb))"

definition clamp :: "int \<Rightarrow> int \<Rightarrow> int \<Rightarrow> int" where
  "clamp lo hi x = min hi (max lo x)"

lemma ts_diff_bound: "uint (w div 90 :: u32) \<le> 47721858"
proof -
  have "uint w < 4294967296" using unsigned_less [of w, where 'a = int] by simp
  then have "uint w div 90 \<le> 47721858" by linarith
  then show ?thesis by (simp add: uint_div_distrib)
qed

lemma abs_sub: "\<bar>a\<bar> \<le> 2 ^ 26 \<Longrightarrow> 0 \<le> b \<Longrightarrow> b \<le> 47721858 \<Longrightarrow> \<bar>a - b\<bar> \<le> (114830722 :: int)"
  by simp

lemma estimate_ok:
  assumes c: "calm T jb" and now: "within T now"
  shows "\<exists>est. jb_estimate jb now ts = Some (jb\<lparr>jb_est_jitter_ms := est, jb_last_arrival_ms := now, jb_last_timestamp := ts,
      jb_target_delay_ms := (if jb_min_delay_ms jb > 0 then clamp (jb_min_delay_ms jb) (jb_max_delay_ms jb) (est * 2) else jb_target_delay_ms jb)\<rparr>) \<and>
    0 \<le> est \<and> est \<le> est_max"
proof -
  have e0: "0 \<le> jb_est_jitter_ms jb" "jb_est_jitter_ms jb \<le> 114830722" using c by (simp_all add: calm_def est_max_def)
  have tgt: "as_int (est * 2) = Some (est * 2)" if "0 \<le> est" "est \<le> 114830722" for est using that by (simp add: as_int_def)
  have "\<exists>est. (if jb_last_arrival_ms jb > 0 then do {
         let arrival_diff = to_int (now - jb_last_arrival_ms jb);
         let ts_diff = uint ((ts - jb_last_timestamp jb) div 90);
         d \<leftarrow> as_int (arrival_diff - ts_diff);
         jitter_sample \<leftarrow> as_int \<bar>d\<bar>;
         p \<leftarrow> as_int (jb_est_jitter_ms jb * 15);
         q \<leftarrow> as_int (p + jitter_sample);
         Some (q sdiv 16)
       } else Some (jb_est_jitter_ms jb)) = Some est \<and> 0 \<le> est \<and> est \<le> 114830722"
  proof (cases "jb_last_arrival_ms jb > 0")
    case False
    then show ?thesis using e0 by simp
  next
    case True
    then have w: "within T (jb_last_arrival_ms jb)" using c by (auto simp: calm_def)
    define x where "x = to_int (now - jb_last_arrival_ms jb) - uint ((ts - jb_last_timestamp jb) div 90)"
    have x: "\<bar>x\<bar> \<le> 114830722"
      unfolding x_def by (rule abs_sub [OF within_diff(2) [OF now w] uint_ge_0 ts_diff_bound])
    have q: "0 \<le> jb_est_jitter_ms jb * 15 + \<bar>x\<bar>" "jb_est_jitter_ms jb * 15 + \<bar>x\<bar> \<le> 1837291552" using e0 x by simp_all
    then have "(jb_est_jitter_ms jb * 15 + \<bar>x\<bar>) sdiv 16 = (jb_est_jitter_ms jb * 15 + \<bar>x\<bar>) div 16" by (simp add: signed_divide_int_def sgn_if)
    moreover have "0 \<le> (jb_est_jitter_ms jb * 15 + \<bar>x\<bar>) div 16" "(jb_est_jitter_ms jb * 15 + \<bar>x\<bar>) div 16 \<le> 114830722" using q by linarith+
    moreover have "as_int x = Some x" "as_int \<bar>x\<bar> = Some \<bar>x\<bar>" "as_int (jb_est_jitter_ms jb * 15) = Some (jb_est_jitter_ms jb * 15)"
      "as_int (jb_est_jitter_ms jb * 15 + \<bar>x\<bar>) = Some (jb_est_jitter_ms jb * 15 + \<bar>x\<bar>)" using x q e0 by (auto simp: as_int_def)
    ultimately show ?thesis using True by (simp add: Let_def flip: x_def)
  qed
  then obtain est where est: "(if jb_last_arrival_ms jb > 0 then do {
         let arrival_diff = to_int (now - jb_last_arrival_ms jb);
         let ts_diff = uint ((ts - jb_last_timestamp jb) div 90);
         d \<leftarrow> as_int (arrival_diff - ts_diff);
         jitter_sample \<leftarrow> as_int \<bar>d\<bar>;
         p \<leftarrow> as_int (jb_est_jitter_ms jb * 15);
         q \<leftarrow> as_int (p + jitter_sample);
         Some (q sdiv 16)
       } else Some (jb_est_jitter_ms jb)) = Some est" "0 \<le> est" "est \<le> 114830722" by blast
  show ?thesis unfolding jb_estimate_def est(1) est_max_def using tgt [OF est(2,3)] est(2,3)
    by (intro exI [of _ est]) (auto simp: Let_def clamp_def)
qed

lemma admit_cases:
  assumes "jb_admit jb now seq ts = Some jb'"
  shows "slots jb' = slots jb \<and> jb_ok jb' = jb_ok jb \<and> jb_by_seq jb' = jb_by_seq jb \<and> jb_started jb' \<and>
    (calm T jb \<longrightarrow> within T now \<longrightarrow> calm T jb') \<and> jb_target_delay_ms jb' = jb_target_delay_ms jb \<and>
    jb_min_delay_ms jb' = jb_min_delay_ms jb \<and> jb_max_delay_ms jb' = jb_max_delay_ms jb"
  using assms by (auto simp: jb_admit_def calm_def Let_def split: if_splits)

lemma evict_ok:
  assumes ok: "jb_ok jb"
  shows "\<exists>m. jb_evict a jb = Some (jb\<lparr>jb_by_seq := m\<rparr>) \<and> jb_map_ok m \<and> card (dom (u32_map_abs m)) < JB_MAX_PACKETS \<and>
    slots (jb\<lparr>jb_by_seq := m\<rparr>) \<subseteq>\<^sub>m slots jb"
proof (cases "rtc_u32_map_len (jb_by_seq jb) \<ge> JB_MAX_PACKETS")
  case False
  then show ?thesis using ok by (intro exI [of _ "jb_by_seq jb"]) (simp add: jb_evict_def jb_ok_def jb_map_ok_def u32.size_abs)
next
  case True
  then have c: "card (dom (u32_map_abs (jb_by_seq jb))) = JB_MAX_PACKETS" using ok by (simp add: jb_ok_def jb_map_ok_def u32.size_abs)
  show ?thesis
  proof (cases "find_oldest jb")
    case None
    then have "slots jb = Map.empty" using find_oldest_None [OF ok] by simp
    then have "u32_map_abs (jb_by_seq jb) = Map.empty" using slots_empty [OF ok] by simp
    then show ?thesis using c by (simp add: JB_MAX_PACKETS_def)
  next
    case (Some s)
    have ne: "slots jb (sl_seq s) \<noteq> None" using find_oldest_slot [OF ok Some] by simp
    obtain f m where m: "rtc_u32_map_remove a (jb_by_seq jb) (ucast (sl_seq s)) = Some (f, m)" "jb_map_ok m"
      "u32_map_abs m = (u32_map_abs (jb_by_seq jb))(ucast (sl_seq s) := None)" "card (dom (u32_map_abs m)) < card (dom (u32_map_abs (jb_by_seq jb)))"
      using map_remove_ok [OF ok, of a "sl_seq s"] ne by blast
    have "slots (jb\<lparr>jb_by_seq := m\<rparr>) \<subseteq>\<^sub>m slots jb" unfolding slots_remove [OF m(3)] by (auto simp: map_le_def)
    moreover have "jb_evict a jb = Some (jb\<lparr>jb_by_seq := m\<rparr>)" using m(1) True Some by (simp add: jb_evict_def)
    ultimately show ?thesis using m(2,4) c by auto
  qed
qed

lemma store_ok:
  assumes ok: "jb_map_ok (jb_by_seq jb)" and c: "card (dom (u32_map_abs (jb_by_seq jb))) < JB_MAX_PACKETS" and d: "length (sl_data s) \<le> JB_SLOT_DATA"
  shows "\<exists>m. jb_store a jb s = Some (jb\<lparr>jb_by_seq := m\<rparr>) \<and> jb_ok (jb\<lparr>jb_by_seq := m\<rparr>) \<and>
    (slots (jb\<lparr>jb_by_seq := m\<rparr>) = slots jb \<or> slots (jb\<lparr>jb_by_seq := m\<rparr>) = (slots jb)(sl_seq s \<mapsto> s))"
proof -
  have ok1: "u32_map_ok (jb_by_seq jb)" using ok by (simp add: jb_map_ok_def)
  obtain rc m where m: "rtc_u32_map_set a (jb_by_seq jb) (ucast (sl_seq s)) (Some s) = Some (rc, m)" using u32.set_returns [OF ok1] by blast
  note ok2 = u32.inv_set [OF ok1 m] and ab = u32.abs_set [OF ok1 m]
  have fin: "finite (dom (u32_map_abs (jb_by_seq jb)))" using u32_iter.finite_dom [OF ok1] .
  have "card (dom (u32_map_abs m)) \<le> Suc (card (dom (u32_map_abs (jb_by_seq jb))))" unfolding ab using fin by (simp add: card_insert_if)
  moreover have "jb_map_ok m" unfolding jb_map_ok_def ab using ok2 ok d by (simp add: jb_map_ok_def)
  ultimately have "jb_ok (jb\<lparr>jb_by_seq := m\<rparr>)" using c by (simp add: jb_ok_def)
  moreover have "slots (jb\<lparr>jb_by_seq := m\<rparr>) = (if rc = RTC_OK then (slots jb)(sl_seq s \<mapsto> s) else slots jb)"
    unfolding slots_def by (simp add: ab ptr_at_def fun_eq_iff)
  moreover have "jb_store a jb s = Some (jb\<lparr>jb_by_seq := m\<rparr>)" using m by (simp add: jb_store_def)
  ultimately show ?thesis by (intro exI [of _ m]) (simp split: if_splits)
qed

definition new_slot :: "u64 \<Rightarrow> bytes \<Rightarrow> u16 \<Rightarrow> u32 \<Rightarrow> bool \<Rightarrow> jb_slot" where
  "new_slot now data seq ts mk = \<lparr>sl_data = take JB_SLOT_DATA data, sl_seq = seq, sl_timestamp = ts, sl_marker = mk, sl_arrival_ms = now\<rparr>"

definition delay_ok :: "jitter_buffer \<Rightarrow> bool" where
  "delay_ok jb \<longleftrightarrow> jb_min_delay_ms jb \<le> jb_target_delay_ms jb \<and> jb_target_delay_ms jb \<le> jb_max_delay_ms jb"

definition limits :: "jitter_buffer \<Rightarrow> int \<times> int" where
  "limits jb = (jb_min_delay_ms jb, jb_max_delay_ms jb)"

lemma read_all: "rd_bytes data 0 (nat (if int (length data) > int JB_SLOT_DATA then int JB_SLOT_DATA else int (length data))) = Some (take JB_SLOT_DATA data)"
  by (simp add: rd_bytes_def)

lemma push_eq:
  assumes "jb_admit jb now seq ts = Some jb1" "jb_ok jb1" "slots jb1 seq = None" "jb_estimate jb1 now ts = Some jb2" "jb_evict a0 jb2 = Some jb3"
  shows "jitter_buffer_push (a0, a1, a2) jb now data (int (length data)) seq ts mk =
    (if \<not> a1 then Some jb3 else jb_store a2 jb3 (new_slot now data seq ts mk))"
  using assms by (simp add: jitter_buffer_push_def slots_get [OF assms(2)] Let_def read_all new_slot_def)

lemma push_ok:
  assumes ok: "jb_ok jb" and c: "calm T jb" "within T now"
  shows "\<exists>jb'. jitter_buffer_push al jb now data (int (length data)) seq ts mk = Some jb' \<and> jb_ok jb' \<and> calm T jb' \<and>
    (delay_ok jb \<longrightarrow> delay_ok jb') \<and> limits jb' = limits jb \<and> (slots jb' \<subseteq>\<^sub>m slots jb \<or> slots jb' \<subseteq>\<^sub>m (slots jb)(seq \<mapsto> new_slot now data seq ts mk))"
proof -
  obtain a0 a1 a2 where al: "al = (a0, a1, a2)" by (cases al)
  show ?thesis
  proof (cases "jb_admit jb now seq ts")
    case None
    then show ?thesis using ok c al by (simp add: jitter_buffer_push_def)
  next
    case (Some jb1)
    note adm = admit_cases [OF Some, of T]
    have ok1: "jb_ok jb1" using adm ok by simp
    have d1: "delay_ok jb \<longrightarrow> delay_ok jb1" "limits jb1 = limits jb" using adm by (simp_all add: delay_ok_def limits_def)
    show ?thesis
    proof (cases "slots jb1 seq")
      case dup: (Some x)
      then have "jitter_buffer_push al jb now data (int (length data)) seq ts mk = Some jb1"
        using al Some by (simp add: jitter_buffer_push_def slots_get [OF ok1])
      then show ?thesis using adm c ok1 d1 by auto
    next
      case None
      obtain jb2 where jb2: "jb_estimate jb1 now ts = Some jb2" "jb_ok jb2" "calm T jb2" "slots jb2 = slots jb" "delay_ok jb \<longrightarrow> delay_ok jb2"
        "limits jb2 = limits jb" using estimate_ok [of T jb1 now ts] adm c ok1 d1 by (auto simp: calm_def delay_ok_def clamp_def limits_def)
      obtain m where m: "jb_evict a0 jb2 = Some (jb2\<lparr>jb_by_seq := m\<rparr>)" "jb_map_ok m" "card (dom (u32_map_abs m)) < JB_MAX_PACKETS"
        "slots (jb2\<lparr>jb_by_seq := m\<rparr>) \<subseteq>\<^sub>m slots jb" using evict_ok [OF jb2(2), of a0] jb2(4) by auto
      define jb3 where "jb3 = jb2\<lparr>jb_by_seq := m\<rparr>"
      have jb3: "jb_map_ok (jb_by_seq jb3)" "card (dom (u32_map_abs (jb_by_seq jb3))) < JB_MAX_PACKETS" "slots jb3 \<subseteq>\<^sub>m slots jb" "calm T jb3"
        "delay_ok jb \<longrightarrow> delay_ok jb3" "jb_ok jb3" "limits jb3 = limits jb"
        using m jb2 by (simp_all add: jb3_def calm_def delay_ok_def jb_ok_def limits_def)
      have eq: "jitter_buffer_push al jb now data (int (length data)) seq ts mk =
          (if \<not> a1 then Some jb3 else jb_store a2 jb3 (new_slot now data seq ts mk))"
        unfolding al jb3_def by (rule push_eq [OF Some ok1 None jb2(1) m(1)])
      show ?thesis
      proof (cases a1)
        case False
        then show ?thesis using eq jb3 by auto
      next
        case True
        have nl: "length (sl_data (new_slot now data seq ts mk)) \<le> JB_SLOT_DATA" "sl_seq (new_slot now data seq ts mk) = seq" by (simp_all add: new_slot_def)
        obtain m' where m': "jb_store a2 jb3 (new_slot now data seq ts mk) = Some (jb3\<lparr>jb_by_seq := m'\<rparr>)" "jb_ok (jb3\<lparr>jb_by_seq := m'\<rparr>)"
          "slots (jb3\<lparr>jb_by_seq := m'\<rparr>) = slots jb3 \<or> slots (jb3\<lparr>jb_by_seq := m'\<rparr>) = (slots jb3)(seq \<mapsto> new_slot now data seq ts mk)"
          using store_ok [OF jb3(1,2) nl(1), of a2] nl(2) by auto
        have "calm T (jb3\<lparr>jb_by_seq := m'\<rparr>)" "delay_ok jb \<longrightarrow> delay_ok (jb3\<lparr>jb_by_seq := m'\<rparr>)"
          "limits (jb3\<lparr>jb_by_seq := m'\<rparr>) = limits jb" using jb3(4,5,7) by (simp_all add: calm_def delay_ok_def limits_def)
        moreover have "(slots jb3)(seq \<mapsto> x) \<subseteq>\<^sub>m (slots jb)(seq \<mapsto> x)" for x using jb3(3) by (auto simp: map_le_def)
        ultimately show ?thesis using eq True m' jb3(3) by auto
      qed
    qed
  qed
qed

end
