(* ===== verification/Rtp_Demux.thy ===== *)
theory Rtp_Demux
  imports U32_Map Rtp
begin

text \<open>
  \<^verbatim>\<open>rtc/src/rtc_rtp_demux.c\<close>: routing of received RTP packets to their consumers by SSRC, a client
  of the hash map. A consumer is a value of \<open>'c\<close> (the pointer the sink is called with). The
  resolver is an argument of the dispatch, \<open>None\<close> being no resolver; the call of the sink is the consumer
  the dispatch returns. An outer \<open>None\<close> is a table operation that does not return.
\<close>

record 'c rtc_rtp_demux =
  dm_by_ssrc :: "'c rtc_u32_map"
  dm_ready :: bool

definition rtc_rtp_demux_init :: "'c rtc_rtp_demux" where
  "rtc_rtp_demux_init = \<lparr>dm_by_ssrc = rtc_u32_map_init, dm_ready = True\<rparr>"

definition rtc_rtp_demux_close :: "'c rtc_rtp_demux \<Rightarrow> 'c rtc_rtp_demux" where
  "rtc_rtp_demux_close d =
    (if \<not> dm_ready d then d
     else d\<lparr>dm_by_ssrc := rtc_u32_map_free (dm_by_ssrc d), dm_ready := False\<rparr>)"

text \<open>\<open>mem\<close> tells whether the allocator has memory for a larger table.\<close>

definition rtc_rtp_demux_bind ::
  "bool \<Rightarrow> 'c rtc_rtp_demux \<Rightarrow> u32 \<Rightarrow> 'c option \<Rightarrow> (rtc_err \<times> 'c rtc_rtp_demux) option" where
  "rtc_rtp_demux_bind mem d ssrc user =
    (if \<not> dm_ready d \<or> user = None then Some (RTC_ERR_INVALID, d)
     else do {
       (rc, m) \<leftarrow> rtc_u32_map_set mem (dm_by_ssrc d) ssrc user;
       Some (rc, d\<lparr>dm_by_ssrc := m\<rparr>)
     })"

definition rtc_rtp_demux_unbind :: "bool \<Rightarrow> 'c rtc_rtp_demux \<Rightarrow> u32 \<Rightarrow> 'c rtc_rtp_demux option" where
  "rtc_rtp_demux_unbind mem d ssrc =
    (if dm_ready d then do {
       (_, m) \<leftarrow> rtc_u32_map_remove mem (dm_by_ssrc d) ssrc;
       Some (d\<lparr>dm_by_ssrc := m\<rparr>)
     }
     else Some d)"

definition rtc_rtp_demux_get :: "'c rtc_rtp_demux \<Rightarrow> u32 \<Rightarrow> 'c option option" where
  "rtc_rtp_demux_get d ssrc = (if dm_ready d then rtc_u32_map_get (dm_by_ssrc d) ssrc else Some None)"

definition rtc_rtp_demux_dispatch ::
  "bool \<Rightarrow> (rtc_rtp_packet \<Rightarrow> 'c option) option \<Rightarrow> 'c rtc_rtp_demux \<Rightarrow> rtc_rtp_packet \<Rightarrow>
   ('c option \<times> 'c rtc_rtp_demux) option" where
  "rtc_rtp_demux_dispatch mem resolve d pkt =
    (if \<not> dm_ready d then Some (None, d)
     else do {
       user \<leftarrow> rtc_u32_map_get (dm_by_ssrc d) (h_ssrc (pkt_header pkt));
       case (user, resolve) of
         (None, Some f) \<Rightarrow>
           (case f pkt of
              None \<Rightarrow> Some (None, d)
            | Some c \<Rightarrow> do {
                (_, m) \<leftarrow> rtc_u32_map_set mem (dm_by_ssrc d) (h_ssrc (pkt_header pkt)) (Some c);
                Some (Some c, d\<lparr>dm_by_ssrc := m\<rparr>)
              })
       | _ \<Rightarrow> Some (user, d)
     })"

subsection \<open>Routing refines a map from SSRCs to consumers\<close>

text \<open>The operations of the owner of a demultiplexer, and what each of them returns.\<close>

datatype 'c demux_op =
    Dm_bind u32 'c
  | Dm_unbind u32
  | Dm_packet "(rtc_rtp_packet \<Rightarrow> 'c option) option" rtc_rtp_packet
  | Dm_close

fun demux_step :: "'c rtc_rtp_demux \<Rightarrow> 'c demux_op \<Rightarrow> (rtc_err \<times> 'c option \<times> 'c rtc_rtp_demux) option" where
  "demux_step d (Dm_bind ssrc c) = do { (rc, d') \<leftarrow> rtc_rtp_demux_bind True d ssrc (Some c); Some (rc, None, d') }"
| "demux_step d (Dm_unbind ssrc) = do { d' \<leftarrow> rtc_rtp_demux_unbind True d ssrc; Some (RTC_OK, None, d') }"
| "demux_step d (Dm_packet r pkt) = do { (c, d') \<leftarrow> rtc_rtp_demux_dispatch True r d pkt; Some (RTC_OK, c, d') }"
| "demux_step d Dm_close = Some (RTC_OK, None, rtc_rtp_demux_close d)"

fun demux_run :: "'c rtc_rtp_demux \<Rightarrow> 'c demux_op list \<Rightarrow> ((rtc_err \<times> 'c option) list \<times> 'c rtc_rtp_demux) option" where
  "demux_run d [] = Some ([], d)"
| "demux_run d (op # ops) = do {
     (rc, c, d') \<leftarrow> demux_step d op;
     (outs, d'') \<leftarrow> demux_run d' ops;
     Some ((rc, c) # outs, d'')
   }"

text \<open>The specification: a table while open, nothing once closed.\<close>

fun route_spec :: "(u32 \<rightharpoonup> 'c) option \<Rightarrow> 'c demux_op \<Rightarrow> (rtc_err \<times> 'c option) \<times> (u32 \<rightharpoonup> 'c) option" where
  "route_spec (Some A) (Dm_bind ssrc c) = ((RTC_OK, None), Some (A(ssrc \<mapsto> c)))"
| "route_spec None (Dm_bind ssrc c) = ((RTC_ERR_INVALID, None), None)"
| "route_spec T (Dm_unbind ssrc) = ((RTC_OK, None), map_option (\<lambda>A. A(ssrc := None)) T)"
| "route_spec (Some A) (Dm_packet r pkt) =
     (let ssrc = h_ssrc (pkt_header pkt);
          c = (case A ssrc of Some c \<Rightarrow> Some c | None \<Rightarrow> (case r of None \<Rightarrow> None | Some f \<Rightarrow> f pkt))
      in ((RTC_OK, c), Some (A(ssrc := c))))"
| "route_spec None (Dm_packet r pkt) = ((RTC_OK, None), None)"
| "route_spec T Dm_close = ((RTC_OK, None), None)"

fun route_run :: "(u32 \<rightharpoonup> 'c) option \<Rightarrow> 'c demux_op list \<Rightarrow> (rtc_err \<times> 'c option) list \<times> (u32 \<rightharpoonup> 'c) option" where
  "route_run T [] = ([], T)"
| "route_run T (op # ops) =
     (let (out, T') = route_spec T op; (outs, T'') = route_run T' ops in (out # outs, T''))"

text \<open>A demultiplexer represents a table of consumers; it never binds an SSRC to \<^verbatim>\<open>NULL\<close>, and its table
  has room for every SSRC there is.\<close>

definition demux_rep :: "'c rtc_rtp_demux \<Rightarrow> (u32 \<rightharpoonup> 'c) option \<Rightarrow> bool" where
  "demux_rep d T = (case T of
     None \<Rightarrow> \<not> dm_ready d
   | Some A \<Rightarrow> dm_ready d \<and> u32_map_ok (dm_by_ssrc d) \<and> u32_fits (2 ^ 32) (dm_by_ssrc d) \<and>
       u32_map_abs (dm_by_ssrc d) = (\<lambda>k. map_option Some (A k)))"

lemma demux_rep_get:
  "demux_rep d (Some A) \<Longrightarrow> rtc_u32_map_get (dm_by_ssrc d) k = Some (A k)"
  using u32.get_abs [of "dm_by_ssrc d" k] by (auto simp: demux_rep_def ptr_at_def split: option.splits)

lemma demux_rep_set:
  assumes "demux_rep d (Some A)"
  shows "\<exists>m. rtc_u32_map_set True (dm_by_ssrc d) k (Some c) = Some (RTC_OK, m) \<and>
    demux_rep (d\<lparr>dm_by_ssrc := m\<rparr>) (Some (A(k \<mapsto> c)))"
proof -
  have "card (UNIV :: u32 set) \<le> 2 ^ 32" by (simp add: card_word)
  with u32_room.put_within [of "dm_by_ssrc d" "2 ^ 32" UNIV k "Some c"] assms obtain m where
    "rtc_u32_map_set True (dm_by_ssrc d) k (Some c) = Some (RTC_OK, m)" "u32_map_ok m" "u32_fits (2 ^ 32) m"
    "u32_map_abs m = (u32_map_abs (dm_by_ssrc d))(k \<mapsto> Some c)" by (auto simp: demux_rep_def)
  with assms show ?thesis by (auto simp: demux_rep_def fun_eq_iff)
qed

lemma demux_rep_unbind:
  assumes "demux_rep d (Some A)"
  shows "\<exists>d'. rtc_rtp_demux_unbind True d k = Some d' \<and> demux_rep d' (Some (A(k := None)))"
proof -
  have ok: "u32_map_ok (dm_by_ssrc d)" "u32_fits (2 ^ 32) (dm_by_ssrc d)" using assms by (simp_all add: demux_rep_def)
  obtain m where m: "rtc_u32_map_remove True (dm_by_ssrc d) k = Some (k \<in> dom (u32_map_abs (dm_by_ssrc d)), m)"
      "u32_map_ok m" "u32_map_abs m = (u32_map_abs (dm_by_ssrc d))(k := None)"
    using u32.remove_cases [OF ok(1)] .
  moreover have "u32_fits (2 ^ 32) m" using u32_room.del_good [OF ok m(1)] .
  ultimately show ?thesis using assms by (auto simp: demux_rep_def rtc_rtp_demux_unbind_def fun_eq_iff)
qed

lemma demux_rep_dispatch:
  assumes "demux_rep d (Some A)" "route_spec (Some A) (Dm_packet r pkt) = ((RTC_OK, c), T)"
  shows "\<exists>d'. rtc_rtp_demux_dispatch True r d pkt = Some (c, d') \<and> demux_rep d' T"
proof (cases "A (h_ssrc (pkt_header pkt)) = None \<and> c \<noteq> None")
  case True
  then obtain f y where f: "r = Some f" "f pkt = Some y" "c = Some y" using assms(2) by (auto simp: Let_def split: option.splits)
  obtain m where "rtc_u32_map_set True (dm_by_ssrc d) (h_ssrc (pkt_header pkt)) (Some y) = Some (RTC_OK, m)"
      "demux_rep (d\<lparr>dm_by_ssrc := m\<rparr>) (Some (A(h_ssrc (pkt_header pkt) \<mapsto> y)))"
    using demux_rep_set [OF assms(1)] by blast
  then show ?thesis using True f assms demux_rep_get [OF assms(1)]
    by (auto simp: rtc_rtp_demux_dispatch_def demux_rep_def [of d] Let_def)
next
  case False
  then have "T = Some A" using assms(2) by (auto simp: Let_def fun_eq_iff split: option.splits)
  then show ?thesis using False assms demux_rep_get [OF assms(1)]
    by (auto simp: rtc_rtp_demux_dispatch_def demux_rep_def [of d] Let_def split: option.splits)
qed

lemma demux_closed_step:
  "\<not> dm_ready d \<Longrightarrow> demux_step d op = (let (out, T) = route_spec None op in Some (fst out, snd out, d))"
  by (cases op) (simp_all add: rtc_rtp_demux_bind_def rtc_rtp_demux_unbind_def rtc_rtp_demux_dispatch_def
      rtc_rtp_demux_close_def)

lemma demux_step_refines:
  assumes "demux_rep d T" "route_spec T op = ((rc, c), T')"
  shows "\<exists>d'. demux_step d op = Some (rc, c, d') \<and> demux_rep d' T'"
proof (cases T)
  case None
  then show ?thesis using assms demux_closed_step [of d op] by (cases op) (auto simp: demux_rep_def)
next
  case (Some A)
  note rep = assms(1) [unfolded Some]
  show ?thesis
  proof (cases op)
    case (Dm_bind ssrc u)
    then show ?thesis using demux_rep_set [OF rep, of ssrc u] assms(2) rep Some
      by (auto simp: rtc_rtp_demux_bind_def demux_rep_def [of d])
  next
    case (Dm_packet r pkt)
    then have "rc = RTC_OK" using assms(2) Some by (simp add: Let_def)
    then show ?thesis using demux_rep_dispatch [OF rep, of r pkt c T'] assms(2) Some Dm_packet by auto
  next
    case (Dm_unbind ssrc)
    obtain d' where "rtc_rtp_demux_unbind True d ssrc = Some d'" "demux_rep d' (Some (A(ssrc := None)))"
      using demux_rep_unbind [OF rep] by blast
    then show ?thesis using assms(2) Some Dm_unbind by auto
  qed (use assms(2) Some in \<open>auto simp: rtc_rtp_demux_close_def demux_rep_def\<close>)
qed

text \<open>
  C9. The demultiplexer is a routing table: over any sequence of bindings, removals, packets and
  closings on a new demultiplexer, the allocations of its table succeeding, every operation returns, bindings succeed exactly while it is open,
  and each packet goes to the consumer its SSRC is bound to at that time. A packet of an unbound SSRC
  goes to the consumer the resolver names, which the SSRC then stays bound to.
\<close>

theorem rtp_demux_routes:
  "\<exists>d. demux_run rtc_rtp_demux_init ops = Some (fst (route_run (Some Map.empty) ops), d) \<and>
     demux_rep d (snd (route_run (Some Map.empty) ops))"
proof -
  have "\<exists>d'. demux_run d ops = Some (fst (route_run T ops), d') \<and> demux_rep d' (snd (route_run T ops))"
    if "demux_rep d T" for d :: "'a rtc_rtp_demux" and T using that
  proof (induction ops arbitrary: d T)
    case (Cons op ops)
    obtain rc c T' where s: "route_spec T op = ((rc, c), T')" by (metis prod.exhaust)
    obtain d' where d': "demux_step d op = Some (rc, c, d')" "demux_rep d' T'"
      using demux_step_refines [OF Cons.prems s] by blast
    obtain d'' where "demux_run d' ops = Some (fst (route_run T' ops), d'')" "demux_rep d'' (snd (route_run T' ops))"
      using Cons.IH [OF d'(2)] by blast
    then show ?case using s d'(1) by (simp add: case_prod_unfold Let_def)
  qed simp
  moreover have "demux_rep rtc_rtp_demux_init (Some Map.empty)"
    using u32.inv_new u32.abs_new u32_room.fits_new [of "2 ^ 32"]
    by (simp add: demux_rep_def rtc_rtp_demux_init_def fun_eq_iff)
  ultimately show ?thesis by blast
qed

end
