(* ===== verification/Packet_Io.thy ===== *)
theory Packet_Io
  imports Common Rtp Rtcp_Nack Twcc Stun_Messages
begin

text \<open>
  \<^verbatim>\<open>rtc/src/rtc_packet_io.c\<close>: the dual-stack UDP socket of a worker. Classification of datagrams,
  normalisation of IPv4-mapped addresses, the receive burst (the Linux path, one \<^verbatim>\<open>recvmmsg\<close> per
  wakeup), sending with its counters, and the published remote address. The kernel is a parameter: the datagrams
  a receive call returns and the outcome of a send. An address and its validity flag are one option.
\<close>

subsection \<open>Addresses\<close>

text \<open>\<open>::ffff:a.b.c.d\<close> to and from the plain IPv4 form.\<close>

definition addr_unmap_v4 :: "rtc_addr \<Rightarrow> rtc_addr" where
  "addr_unmap_v4 a = (case a of
     Addr_In6 port b \<Rightarrow>
       if (\<forall>i < 10. b ! i = 0) \<and> b ! 10 = 0xFF \<and> b ! 11 = 0xFF
       then Addr_In port (u32_of (b ! 12) (b ! 13) (b ! 14) (b ! 15)) else a
   | _ \<Rightarrow> a)"

definition addr_map_v4 :: "rtc_addr \<Rightarrow> rtc_addr" where
  "addr_map_v4 a = (case a of
     Addr_In port ip \<Rightarrow> Addr_In6 port (replicate 10 0 @ [0xFF, 0xFF] @ write_u32 ip)
   | _ \<Rightarrow> a)"

subsection \<open>Classification\<close>

datatype rtc_pkt_type = RTC_PKT_STUN | RTC_PKT_CHANNEL_DATA | RTC_PKT_DTLS | RTC_PKT_RTP | RTC_PKT_RTCP | RTC_PKT_UNKNOWN

definition transport_classify :: "bytes \<Rightarrow> rtc_pkt_type" where
  "transport_classify data =
    (if length data = 0 then RTC_PKT_UNKNOWN
     else
       let b = data ! 0
       in if b \<le> 3 then RTC_PKT_STUN
          else if b \<ge> 64 \<and> b \<le> 79 then RTC_PKT_CHANNEL_DATA
          else if b \<ge> 20 \<and> b \<le> 63 then RTC_PKT_DTLS
          else if b \<ge> 128 \<and> b \<le> 191 then
            (if length data \<ge> 2 \<and> data ! 1 \<ge> 200 \<and> data ! 1 \<le> 206 then RTC_PKT_RTCP else RTC_PKT_RTP)
          else RTC_PKT_UNKNOWN)"

subsection \<open>The socket\<close>

definition RTC_PACKET_IO_RECV_BATCH :: nat where "RTC_PACKET_IO_RECV_BATCH = 16"

record rtc_packet_io =
  io_sock :: bool
  io_local_addr :: rtc_addr
  io_remote_addr :: "rtc_addr option"
  io_pkts_recv :: u64
  io_bytes_recv :: u64
  io_pkts_sent :: u64
  io_bytes_sent :: u64
  io_send_errors :: u64
  io_send_would_block :: u64
  io_recv_drain_full :: u64
  io_recv_kernel_drops :: u64
  io_last_local :: "bytes option"

text \<open>A datagram as the kernel returns it, with the two control messages it may carry.\<close>

record datagram =
  dg_data :: bytes
  dg_from :: rtc_addr
  dg_pktinfo :: "bytes option"
  dg_rxq_ovfl :: "u32 option"

text \<open>What the calls of the initialisation return: the socket, the bind, the bound address, the non-blocking
  mode and the receive arena.\<close>

record io_setup =
  su_socket :: bool
  su_bind :: bool
  su_sockname :: "rtc_addr option"
  su_nonblocking :: rtc_err
  su_arena :: bool

text \<open>The address to bind: any address, or the parsed \<open>listen_ip\<close>.\<close>

definition packet_io_fill_bind_addr ::
  "(bytes \<Rightarrow> u32 option) \<Rightarrow> (bytes \<Rightarrow> bytes option) \<Rightarrow> bytes option \<Rightarrow> u16 \<Rightarrow> rtc_err + rtc_addr" where
  "packet_io_fill_bind_addr pton4 pton6 listen_ip port =
    (case listen_ip of
       None \<Rightarrow> Inr (Addr_In6 port (replicate 16 0))
     | Some ip \<Rightarrow>
         if ip = [] \<or> ip = [48, 46, 48, 46, 48, 46, 48] \<or> ip = [58, 58] then Inr (Addr_In6 port (replicate 16 0))
         else case pton6 ip of
           Some a \<Rightarrow> Inr (Addr_In6 port a)
         | None \<Rightarrow> (case pton4 ip of
             Some a \<Rightarrow> Inr (Addr_In6 port (replicate 10 0 @ [0xFF, 0xFF] @ write_u32 a))
           | None \<Rightarrow> Inl RTC_ERR_INVALID))"

definition rtc_packet_io_init_ex ::
  "(bytes \<Rightarrow> u32 option) \<Rightarrow> (bytes \<Rightarrow> bytes option) \<Rightarrow> io_setup \<Rightarrow> bytes option \<Rightarrow> u16 \<Rightarrow> rtc_err + rtc_packet_io" where
  "rtc_packet_io_init_ex pton4 pton6 su listen_ip port =
    (if \<not> su_socket su then Inl RTC_ERR_SOCKET
     else case packet_io_fill_bind_addr pton4 pton6 listen_ip port of
       Inl e \<Rightarrow> Inl e
     | Inr _ \<Rightarrow>
         if \<not> su_bind su then Inl RTC_ERR_SOCKET
         else case su_sockname su of
           None \<Rightarrow> Inl RTC_ERR_SOCKET
         | Some local \<Rightarrow>
             if su_nonblocking su \<noteq> RTC_OK then Inl (su_nonblocking su)
             else if \<not> su_arena su then Inl RTC_ERR_NOMEM
             else Inr \<lparr>io_sock = True, io_local_addr = local, io_remote_addr = None, io_pkts_recv = 0,
               io_bytes_recv = 0, io_pkts_sent = 0, io_bytes_sent = 0, io_send_errors = 0, io_send_would_block = 0,
               io_recv_drain_full = 0, io_recv_kernel_drops = 0, io_last_local = None\<rparr>)"

text \<open>One received datagram: the counters, the control messages, and the callback's arguments.\<close>

definition drain_one :: "rtc_packet_io \<Rightarrow> datagram \<Rightarrow> rtc_packet_io \<times> (rtc_pkt_type \<times> bytes \<times> rtc_addr)" where
  "drain_one t dg =
    (t\<lparr>io_pkts_recv := io_pkts_recv t + 1, io_bytes_recv := io_bytes_recv t + of_nat (length (dg_data dg)),
       io_last_local := (case dg_pktinfo dg of None \<Rightarrow> io_last_local t | Some a \<Rightarrow> Some a),
       io_recv_kernel_drops := (case dg_rxq_ovfl dg of None \<Rightarrow> io_recv_kernel_drops t | Some v \<Rightarrow> ucast v)\<rparr>,
     (transport_classify (dg_data dg), dg_data dg, addr_unmap_v4 (dg_from dg)))"

fun drain_loop :: "rtc_packet_io \<Rightarrow> datagram list \<Rightarrow> rtc_packet_io \<times> (rtc_pkt_type \<times> bytes \<times> rtc_addr) list" where
  "drain_loop t [] = (t, [])"
| "drain_loop t (dg # dgs) =
     (let (t', cb) = drain_one t dg; (t'', cbs) = drain_loop t' dgs in (t'', cb # cbs))"

text \<open>\<open>recvmmsg n\<close> is what the kernel returns for a burst of at most \<open>n\<close> datagrams (nothing on an error).\<close>

definition rtc_packet_io_drain ::
  "(nat \<Rightarrow> datagram list) \<Rightarrow> rtc_packet_io \<Rightarrow> nat \<times> (rtc_pkt_type \<times> bytes \<times> rtc_addr) list \<times> rtc_packet_io" where
  "rtc_packet_io_drain recvmmsg t =
    (if \<not> io_sock t then (0, [], t)
     else
       let dgs = recvmmsg RTC_PACKET_IO_RECV_BATCH;
           (t', cbs) = drain_loop t dgs;
           t'' = (if length dgs = RTC_PACKET_IO_RECV_BATCH
                  then t'\<lparr>io_recv_drain_full := io_recv_drain_full t' + 1\<rparr> else t')
       in (length dgs, cbs, t''))"

text \<open>\<open>sendto data dest\<close> is the number of bytes the kernel took, and whether a failure was a full buffer. The
  second result lists what went out.\<close>

definition rtc_packet_io_send ::
  "(bytes \<Rightarrow> rtc_addr \<Rightarrow> nat \<times> bool) \<Rightarrow> rtc_packet_io \<Rightarrow> bytes \<Rightarrow> rtc_addr \<Rightarrow>
   rtc_err \<times> (bytes \<times> rtc_addr) list \<times> rtc_packet_io" where
  "rtc_packet_io_send sendto t data dest =
    (if \<not> io_sock t then (RTC_ERR_SOCKET, [], t\<lparr>io_send_errors := io_send_errors t + 1\<rparr>)
     else
       let d = addr_map_v4 dest;
           (sent, would_block) = sendto data d
       in if sent > 0 then
            (RTC_OK, [(data, d)], t\<lparr>io_pkts_sent := io_pkts_sent t + 1, io_bytes_sent := io_bytes_sent t + of_nat sent\<rparr>)
          else if would_block then
            (RTC_ERR_SOCKET, [], t\<lparr>io_send_would_block := io_send_would_block t + 1\<rparr>)
          else (RTC_ERR_SOCKET, [], t\<lparr>io_send_errors := io_send_errors t + 1\<rparr>))"

text \<open>To the published remote, pinned to the local address traffic last arrived on (\<open>sendmsg\<close> with that
  source, counted like a plain send).\<close>

definition rtc_packet_io_send_to_remote ::
  "(bytes \<Rightarrow> rtc_addr \<Rightarrow> nat \<times> bool) \<Rightarrow> (bytes \<Rightarrow> bytes \<Rightarrow> rtc_addr \<Rightarrow> nat \<times> bool) \<Rightarrow> rtc_packet_io \<Rightarrow> bytes \<Rightarrow>
   rtc_err \<times> (bytes \<times> rtc_addr) list \<times> rtc_packet_io" where
  "rtc_packet_io_send_to_remote sendto sendmsg t data =
    (case io_remote_addr t of
       None \<Rightarrow> (RTC_ERR_INVALID, [], t)
     | Some remote \<Rightarrow>
         (case io_last_local t of
            Some local \<Rightarrow>
              if \<not> io_sock t then (RTC_ERR_SOCKET, [], t\<lparr>io_send_errors := io_send_errors t + 1\<rparr>)
              else rtc_packet_io_send (sendmsg local) t data remote
          | None \<Rightarrow> rtc_packet_io_send sendto t data remote))"

definition rtc_packet_io_set_remote :: "rtc_packet_io \<Rightarrow> rtc_addr \<Rightarrow> rtc_packet_io" where
  "rtc_packet_io_set_remote t addr = t\<lparr>io_remote_addr := Some addr\<rparr>"

definition rtc_packet_io_get_local_addr :: "rtc_packet_io \<Rightarrow> rtc_addr" where
  "rtc_packet_io_get_local_addr t = io_local_addr t"

definition rtc_packet_io_close :: "rtc_packet_io \<Rightarrow> rtc_packet_io" where
  "rtc_packet_io_close t = t\<lparr>io_sock := False\<rparr>"

subsection \<open>The reply path\<close>

lemma list16_split:
  assumes "length b = 16"
  shows "b = take 10 b @ [b ! 10, b ! 11, b ! 12, b ! 13, b ! 14, b ! 15]"
  by (rule nth_equalityI) (use assms in \<open>auto simp: nth_append nth_Cons' less_Suc_eq numeral_eq_Suc\<close>)

lemma map_unmap_v4:
  assumes "a = Addr_In6 port b" "length b = 16"
  shows "addr_map_v4 (addr_unmap_v4 a) = a"
proof (cases "(\<forall>i < 10. b ! i = 0) \<and> b ! 10 = 0xFF \<and> b ! 11 = 0xFF")
  case True
  have "take 10 b = replicate 10 0" using True assms(2) by (intro nth_equalityI) simp_all
  then have "replicate 10 0 @ [0xFF, 0xFF] @ [b ! 12, b ! 13, b ! 14, b ! 15] = b"
    using list16_split [OF assms(2)] True by simp
  then show ?thesis using True assms(1) by (simp add: addr_unmap_v4_def addr_map_v4_def)
qed (auto simp: addr_unmap_v4_def addr_map_v4_def assms(1))

lemma unmap_map_v4: "addr_unmap_v4 (addr_map_v4 (Addr_In port ip)) = Addr_In port ip"
  by (simp add: addr_unmap_v4_def addr_map_v4_def nth_append write_u32_def)

lemma drain_loop_cbs:
  "snd (drain_loop t dgs) = map (\<lambda>dg. (transport_classify (dg_data dg), dg_data dg, addr_unmap_v4 (dg_from dg))) dgs"
  by (induction dgs arbitrary: t) (auto simp: drain_one_def Let_def case_prod_unfold)

lemma drain_loop_sock: "io_sock (fst (drain_loop t dgs)) = io_sock t"
  by (induction dgs arbitrary: t) (auto simp: drain_one_def Let_def case_prod_unfold)

lemma drain_loop_counts:
  "io_pkts_recv (fst (drain_loop t dgs)) = io_pkts_recv t + of_nat (length dgs)"
  "io_bytes_recv (fst (drain_loop t dgs)) = io_bytes_recv t + of_nat (sum_list (map (length \<circ> dg_data) dgs))"
  by (induction dgs arbitrary: t) (auto simp: drain_one_def Let_def case_prod_unfold algebra_simps)

text \<open>
  A burst is delivered whole and in order, and answered to where it came from: every datagram the kernel
  returns is passed on once with its classification, and a reply to the reported source is handed to the
  kernel with exactly the address the datagram arrived from, whether that was IPv6 or IPv4-mapped. The
  receive counters advance by the datagrams and bytes of the burst.
\<close>

theorem packet_io_reply_path:
  assumes "io_sock t" "\<forall>dg \<in> set (recvmmsg RTC_PACKET_IO_RECV_BATCH). \<exists>port b. dg_from dg = Addr_In6 port b \<and> length b = 16"
    and took: "\<And>data d. fst (sendto data d) > 0"
  shows "\<exists>cbs t'. rtc_packet_io_drain recvmmsg t = (length cbs, cbs, t') \<and>
    map (\<lambda>(type, data, from). (type, data)) cbs =
      map (\<lambda>dg. (transport_classify (dg_data dg), dg_data dg)) (recvmmsg RTC_PACKET_IO_RECV_BATCH) \<and>
    map (\<lambda>(type, data, from). fst (snd (rtc_packet_io_send sendto t' reply from))) cbs =
      map (\<lambda>dg. [(reply, dg_from dg)]) (recvmmsg RTC_PACKET_IO_RECV_BATCH) \<and>
    io_pkts_recv t' = io_pkts_recv t + of_nat (length cbs) \<and>
    io_bytes_recv t' = io_bytes_recv t + of_nat (sum_list (map (\<lambda>(type, data, from). length data) cbs))"
proof -
  let ?dgs = "recvmmsg RTC_PACKET_IO_RECV_BATCH"
  have "fst (snd (rtc_packet_io_send sendto t' reply (addr_unmap_v4 (dg_from dg)))) = [(reply, dg_from dg)]"
    if "dg \<in> set ?dgs" "io_sock t'" for dg t'
    using that assms(2) map_unmap_v4 took
    by (fastforce simp: rtc_packet_io_send_def Let_def case_prod_unfold)
  then show ?thesis using assms(1) drain_loop_cbs [of t ?dgs] drain_loop_sock [of t ?dgs] drain_loop_counts [of t ?dgs]
    by (simp add: rtc_packet_io_drain_def Let_def case_prod_unfold comp_def)
qed

definition io_demo :: rtc_packet_io where
  "io_demo = \<lparr>io_sock = True, io_local_addr = Addr_None, io_remote_addr = None, io_pkts_recv = 0, io_bytes_recv = 0,
     io_pkts_sent = 0, io_bytes_sent = 0, io_send_errors = 0, io_send_would_block = 0, io_recv_drain_full = 0,
     io_recv_kernel_drops = 0, io_last_local = None\<rparr>"

definition mapped_demo :: bytes where
  "mapped_demo = replicate 10 0 @ [0xFF, 0xFF, 10, 0, 0, 1]"

theorem packet_io_reply_path_witness:
  "\<exists>cbs t'. rtc_packet_io_drain
       (\<lambda>n. [\<lparr>dg_data = [0, 1], dg_from = Addr_In6 7 mapped_demo, dg_pktinfo = None, dg_rxq_ovfl = None\<rparr>]) io_demo = (1, cbs, t') \<and>
     map (\<lambda>(type, data, from). fst (snd (rtc_packet_io_send (\<lambda>data d. (1, False)) t' [9] from))) cbs =
       [[([9], Addr_In6 7 mapped_demo)]]"
proof -
  have "length mapped_demo = 16" by (simp add: mapped_demo_def)
  then show ?thesis
    using packet_io_reply_path [of io_demo
        "\<lambda>n. [\<lparr>dg_data = [0, 1], dg_from = Addr_In6 7 mapped_demo, dg_pktinfo = None, dg_rxq_ovfl = None\<rparr>]"
        "\<lambda>data d. (1, False)" "[9]"]
    by (auto simp: io_demo_def)
qed

subsection \<open>Classification agrees with the message builders\<close>

lemma version2_range:
  assumes "drop_bit 6 (b :: u8) = 2"
  shows "128 \<le> b" "b \<le> 191"
proof -
  have "unat b div 64 = 2" using assms unat_drop_bit [of 6 b] by simp
  then show "128 \<le> b" "b \<le> 191" by (simp_all add: word_le_nat_alt)
qed

lemma classify_version2:
  assumes "drop_bit 6 b = 2"
  shows "transport_classify (b # c # data) = (if 200 \<le> c \<and> c \<le> 206 then RTC_PKT_RTCP else RTC_PKT_RTP)"
  using version2_range [OF assms] by (auto simp: transport_classify_def Let_def word_le_nat_alt)

lemma classify_rtcp:
  assumes "200 \<le> pt" "pt \<le> 206"
  shows "transport_classify (rtcp_head count pt len @ body) = RTC_PKT_RTCP"
proof -
  have "drop_bit 6 (push_bit 6 2 OR (count AND 0x1F) :: u8) = 2"
    by (rule bit_eqI) (auto simp: bit_simps)
  then show ?thesis using assms by (simp add: rtcp_head_def classify_version2)
qed

lemma rtp_second_byte:
  "unat (((pt :: u8) AND 0x7F) OR (if marker then 0x80 else 0)) = unat (pt AND 0x7F) + (if marker then 128 else 0)"
proof -
  have "pt AND 0x7F = take_bit 7 pt" by (simp add: and_masks)
  then have "unat (pt AND 0x7F) < 128" by (simp add: unat_take_bit take_bit_nat_def)
  moreover have "(pt AND 0x7F) AND 0x80 = 0" by (simp add: and.assoc)
  then have "(pt AND 0x7F) OR 0x80 = (pt AND 0x7F) + 0x80" by (rule disjunctive_add_eq_or [symmetric])
  ultimately show ?thesis by (simp add: unat_word_ariths)
qed

lemma classify_rtp:
  "transport_classify (rtp_fixed_header e pt marker seq ts ssrc @ rest) =
    (if marker \<and> 72 \<le> unat (pt AND 0x7F) \<and> unat (pt AND 0x7F) \<le> 78 then RTC_PKT_RTCP else RTC_PKT_RTP)"
proof -
  have "drop_bit 6 (push_bit 6 RTP_VERSION OR (if e then 0x10 else 0)) = 2"
    by (cases e) (simp_all add: RTP_VERSION_def)
  moreover have "unat (pt AND 0x7F) < 128"
    using unat_take_bit [of 7 pt] by (simp add: and_masks take_bit_nat_def)
  ultimately show ?thesis using rtp_second_byte [of pt marker]
    by (auto simp: rtp_fixed_header_def classify_version2 word_le_nat_alt)
qed

lemma classify_stun_head:
  assumes "unat type < 1024"
  shows "transport_classify (write_u16 type @ rest) = RTC_PKT_STUN"
proof -
  have "unat (ucast (drop_bit 8 type) :: u8) \<le> 3"
    using assms unat_drop_bit [of 8 type] by (simp add: unsigned_ucast_eq take_bit_nat_eq_self)
  then show ?thesis by (simp add: write_u16_def transport_classify_def Let_def word_le_nat_alt)
qed

lemma classify_stun: "unat type < 1024 \<Longrightarrow> transport_classify (put_header type len txn buf) = RTC_PKT_STUN"
  by (simp add: put_header_def classify_stun_head)

lemma classify_channel_data:
  assumes "rtc_turn_build_channel_data n channel data = Inr frame"
  shows "transport_classify frame = (if unat channel < 0x5000 then RTC_PKT_CHANNEL_DATA else RTC_PKT_UNKNOWN)"
proof -
  have "0x4000 \<le> unat channel" "unat channel \<le> 0x7FFF"
    using assms by (auto simp: rtc_turn_build_channel_data_def Let_def TURN_CHANNEL_MIN_def TURN_CHANNEL_MAX_def
        word_less_nat_alt split: if_splits)
  moreover define c :: u8 where "c = ucast (drop_bit 8 channel)"
  ultimately have u: "unat c = unat channel div 256"
    using unat_drop_bit [of 8 channel] by (simp add: unsigned_ucast_eq take_bit_nat_eq_self)
  have c: "64 \<le> unat c" "unat c \<le> 127" "unat channel < 0x5000 \<longleftrightarrow> unat c \<le> 79"
    using \<open>0x4000 \<le> unat channel\<close> \<open>unat channel \<le> 0x7FFF\<close> unfolding u by linarith+
  have "\<exists>rest. frame = c # rest"
    using assms by (auto simp: rtc_turn_build_channel_data_def Let_def write_u16_def c_def split: if_splits)
  then show ?thesis using c by (auto simp: transport_classify_def Let_def word_le_nat_alt)
qed

lemma stun_then_elim:
  assumes "stun_then r f = Some (Inr y)"
  obtains x where "f x = Some (Inr y)"
  using assms by (auto simp: stun_then_def split: sum.splits Option.bind_splits)

lemma binding_request_header:
  assumes "rtc_stun_build_binding_request hmac txn user pw prio uc tie ctl = Some (Inr req)"
  shows "\<exists>len buf. sm_buf req = put_header STUN_BINDING_REQUEST len txn buf"
  using assms unfolding rtc_stun_build_binding_request_def
  by (elim stun_then_elim) (clarsimp simp: Let_def, blast)

lemma binding_response_header:
  assumes "rtc_stun_build_binding_response data from n = Some (Inr resp)"
  shows "\<exists>len txn buf. resp = put_header STUN_BINDING_RESPONSE len txn buf"
  using assms unfolding rtc_stun_build_binding_response_def
  by (clarsimp elim!: stun_then_elim simp: Let_def split: if_splits rtc_addr.splits Option.bind_splits, blast)

lemma feedback_header:
  assumes "rtc_twcc_receiver_build_feedback r s m cap = (Inr fb, r')"
  shows "\<exists>rest. fb = [0x80 OR 15, RTCP_PT_RTPFB] @ rest"
  using assms by (auto simp: rtc_twcc_receiver_build_feedback_def Let_def split: if_splits option.splits)

lemma stun_then_cases:
  assumes "stun_then r f = Some (Inr y)"
  obtains x where "r = Some (Inr x)" "f x = Some (Inr y)"
  using assms by (auto simp: stun_then_def split: sum.splits Option.bind_splits)

lemma msg_add_type: "msg_add msg type v n = Some (Inr m) \<Longrightarrow> sm_type m = sm_type msg"
  by (auto simp: msg_add_def msg_append_attr_def msg_update_header_def Let_def elim!: stun_then_cases)

lemma turn_add_type: "turn_add msg a = Some (Inr m) \<Longrightarrow> sm_type m = sm_type msg"
  by (cases a)
    (auto simp: rtc_stun_add_requested_transport_def rtc_stun_add_lifetime_def rtc_stun_add_xor_peer_address_def
      rtc_stun_add_channel_number_def rtc_stun_add_username_def rtc_stun_add_realm_def rtc_stun_add_nonce_def Let_def
      split: if_splits dest: msg_add_type)

lemma turn_adds_type: "turn_adds msg as = Some (Inr m) \<Longrightarrow> sm_type m = sm_type msg"
  by (induction as arbitrary: msg) (auto elim!: stun_then_cases dest: turn_add_type)

lemma finalize_header:
  assumes "rtc_stun_finalize_key hmac m key = Some (Inr req)"
  shows "\<exists>rest. sm_buf req = write_u16 (sm_type m) @ rest"
  using assms by (auto simp: rtc_stun_finalize_key_def Let_def elim!: stun_then_cases)

text \<open>
  C23. What the program builds is recognised for what it is on the receiving socket: STUN binding requests and responses, TURN requests
  finalized with or without a key, RTCP sender and receiver reports, NACKs, picture loss indications, intra requests and
  transport-wide feedback, RTP packets of every payload type and ChannelData frames. The exceptions are exact: an RTP packet with the marker set and
  a payload type that is 72 to 78 modulo 128 is taken for RTCP, and a frame of a channel from 0x5000 on is not recognised.
\<close>

theorem datagram_classification:
  "(rtc_rtp_build_with_ext pt seq ts ssrc marker exts payload = Inr rtp \<longrightarrow>
      transport_classify (pkt_buf rtp) =
        (if marker \<and> 72 \<le> unat (pt AND 0x7F) \<and> unat (pt AND 0x7F) \<le> 78 then RTC_PKT_RTCP else RTC_PKT_RTP)) \<and>
   transport_classify (rp_buf (rtc_rtcp_build_sr stats unix_ms now)) = RTC_PKT_RTCP \<and>
   transport_classify (rp_buf (rtc_rtcp_build_rr stats now)) = RTC_PKT_RTCP \<and>
   (rtc_rtcp_build_nack cap s m lost = Inr nack \<longrightarrow> transport_classify nack = RTC_PKT_RTCP) \<and>
   (rtc_rtcp_build_pli cap s m = Inr pli \<longrightarrow> transport_classify pli = RTC_PKT_RTCP) \<and>
   (rtc_rtcp_build_fir cap s m nr = Inr fir \<longrightarrow> transport_classify fir = RTC_PKT_RTCP) \<and>
   (rtc_twcc_receiver_build_feedback r s m cap = (Inr fb, r') \<longrightarrow> transport_classify fb = RTC_PKT_RTCP) \<and>
   (rtc_stun_build_binding_request hmac txn user pw prio uc tie ctl = Some (Inr req) \<longrightarrow>
      transport_classify (sm_buf req) = RTC_PKT_STUN) \<and>
   (rtc_stun_build_binding_response data from n = Some (Inr resp) \<longrightarrow> transport_classify resp = RTC_PKT_STUN) \<and>
   (unat meth < 1024 \<and>
      stun_then (turn_adds (rtc_stun_build_request txn meth) as) (\<lambda>msg. rtc_stun_finalize_key hmac msg key) = Some (Inr treq) \<longrightarrow>
      transport_classify (sm_buf treq) = RTC_PKT_STUN) \<and>
   (rtc_turn_build_channel_data n channel data = Inr frame \<longrightarrow>
      transport_classify frame = (if unat channel < 0x5000 then RTC_PKT_CHANNEL_DATA else RTC_PKT_UNKNOWN))"
proof (intro conjI impI)
  assume b: "rtc_rtp_build_with_ext pt seq ts ssrc marker exts payload = Inr rtp"
  then show "transport_classify (pkt_buf rtp) =
      (if marker \<and> 72 \<le> unat (pt AND 0x7F) \<and> unat (pt AND 0x7F) \<le> 78 then RTC_PKT_RTCP else RTC_PKT_RTP)"
    by (cases rule: rtp_build_cases [OF b]) (simp_all only: classify_rtp append_assoc)
next
  assume t: "unat meth < 1024 \<and>
    stun_then (turn_adds (rtc_stun_build_request txn meth) as) (\<lambda>msg. rtc_stun_finalize_key hmac msg key) = Some (Inr treq)"
  then obtain msg where "turn_adds (rtc_stun_build_request txn meth) as = Some (Inr msg)"
    "rtc_stun_finalize_key hmac msg key = Some (Inr treq)" by (auto elim: stun_then_cases)
  then show "transport_classify (sm_buf treq) = RTC_PKT_STUN"
    using t turn_adds_type finalize_header by (fastforce simp: rtc_stun_build_request_def classify_stun_head)
next
  assume "rtc_twcc_receiver_build_feedback r s m cap = (Inr fb, r')"
  from feedback_header [OF this] show "transport_classify fb = RTC_PKT_RTCP"
    by (auto simp: classify_version2 RTCP_PT_RTPFB_def)
next
  assume "rtc_stun_build_binding_request hmac txn user pw prio uc tie ctl = Some (Inr req)"
  from binding_request_header [OF this] show "transport_classify (sm_buf req) = RTC_PKT_STUN"
    by (auto simp: classify_stun STUN_BINDING_REQUEST_def)
next
  assume "rtc_stun_build_binding_response data from n = Some (Inr resp)"
  from binding_response_header [OF this] show "transport_classify resp = RTC_PKT_STUN"
    by (auto simp: classify_stun STUN_BINDING_RESPONSE_def)
qed (auto simp: rtc_rtcp_build_sr_def rtc_rtcp_build_rr_def rtc_rtcp_build_nack_def rtc_rtcp_build_pli_def
    rtc_rtcp_build_fir_def Let_def case_prod_unfold classify_rtcp rtcp_consts classify_channel_data split: if_splits)

theorem datagram_classification_witness:
  "\<exists>rtp. rtc_rtp_build_with_ext 96 1 2 3 True [] [7] = Inr rtp \<and> transport_classify (pkt_buf rtp) = RTC_PKT_RTP"
proof -
  obtain rtp where "rtc_rtp_build_with_ext 96 1 2 3 True [] [7] = Inr rtp"
    by (simp add: rtc_rtp_build_with_ext_def rtp_sizes Let_def)
  with datagram_classification [of 96 1 2 3 True "[]" "[7]" rtp] show ?thesis by auto
qed

end
