(* ===== verification/Ascii.thy ===== *)
theory Ascii
  imports Prelude
begin

text \<open>
  Text the program prints and compares: decimal and hexadecimal digits, C strings (bytes up to the first
  zero), and their reading as the characters that the keys of the string maps are made of.
\<close>

function dec :: "nat \<Rightarrow> bytes" where
  "dec n = (if n < 10 then [of_nat (48 + n)] else dec (n div 10) @ [of_nat (48 + n mod 10)])"
  by auto
termination by (relation "measure id") auto

declare dec.simps [simp del]

definition undec :: "bytes \<Rightarrow> nat" where
  "undec bs = foldl (\<lambda>a b. a * 10 + (unat b - 48)) 0 bs"

definition digit :: "u8 \<Rightarrow> bool" where
  "digit b \<longleftrightarrow> 48 \<le> b \<and> b \<le> 57"

lemma unat_digit: "n < 10 \<Longrightarrow> unat (of_nat (48 + n) :: u8) = 48 + n"
  by (simp only: unat_of_nat) simp

lemma undec_append: "undec (bs @ [b]) = undec bs * 10 + (unat b - 48)"
  by (simp add: undec_def)

lemma undec_dec: "undec (dec n) = n"
proof (induction n rule: dec.induct)
  case (1 n)
  show ?case
  proof (cases "n < 10")
    case True
    then show ?thesis using unat_digit [of n] by (simp add: dec.simps [of n] undec_def del: of_nat_add)
  next
    case False
    then have "undec (dec n) = undec (dec (n div 10)) * 10 + (unat (of_nat (48 + n mod 10) :: u8) - 48)"
      by (subst dec.simps) (simp add: undec_append del: of_nat_add)
    then show ?thesis using 1 False unat_digit [of "n mod 10"] by (simp del: of_nat_add)
  qed
qed

lemma dec_inject [simp]: "dec m = dec n \<longleftrightarrow> m = n"
  using undec_dec by metis

lemma dec_digits: "b \<in> set (dec n) \<Longrightarrow> digit b"
proof (induction n rule: dec.induct)
  case (1 n)
  show ?case
  proof (cases "n < 10")
    case True
    then show ?thesis using 1(2) unat_digit [of n] by (simp add: dec.simps [of n] digit_def word_le_nat_alt del: of_nat_add)
  next
    case False
    then have "b \<in> set (dec (n div 10)) \<or> b = of_nat (48 + n mod 10)" using 1(2) by (subst (asm) dec.simps) auto
    then show ?thesis using 1(1) False unat_digit [of "n mod 10"] by (auto simp: digit_def word_le_nat_alt simp del: of_nat_add)
  qed
qed

lemma dec_neq_Nil [simp]: "dec n \<noteq> []"
  by (subst dec.simps) simp

lemma length_dec: "n < 10 ^ Suc k \<Longrightarrow> length (dec n) \<le> Suc k"
proof (induction k arbitrary: n)
  case (Suc k)
  then show ?case
  proof (cases "n < 10")
    case False
    have "n div 10 < 10 ^ Suc k" using Suc.prems by (simp add: less_mult_imp_div_less mult.commute)
    then show ?thesis using Suc.IH False by (subst dec.simps) simp
  qed (simp add: dec.simps)
qed (simp add: dec.simps)

text \<open>A C string is what stands before the first zero; the maps compare its characters.\<close>

definition c_string :: "bytes \<Rightarrow> bytes" where
  "c_string bs = takeWhile (\<lambda>b. b \<noteq> 0) bs"

definition chars :: "bytes \<Rightarrow> string" where
  "chars bs = map (\<lambda>b. char_of (unat b)) bs"

lemma chars_inject [simp]: "chars a = chars b \<longleftrightarrow> a = b"
proof -
  have "inj (\<lambda>b :: u8. char_of (unat b))"
  proof (rule injI)
    fix x y :: u8
    assume "(char_of (unat x) :: char) = char_of (unat y)"
    then have "unat x mod 256 = unat y mod 256" by (simp add: char_of_eq_iff take_bit_eq_mod)
    then show "x = y" using unat_range(1) [of x] unat_range(1) [of y] by (simp add: word_unat_eq_iff)
  qed
  then show ?thesis by (simp add: chars_def inj_map_eq_map)
qed

lemma c_string_id: "0 \<notin> set bs \<Longrightarrow> c_string bs = bs"
  by (auto simp: c_string_def takeWhile_eq_all_conv)

text \<open>Two hexadecimal digits per byte.\<close>

definition hex_digit :: "nat \<Rightarrow> u8" where
  "hex_digit n = (if n < 10 then of_nat (48 + n) else of_nat (87 + n))"

definition hex_bytes :: "bytes \<Rightarrow> bytes" where
  "hex_bytes bs = concat (map (\<lambda>b. [hex_digit (unat b div 16), hex_digit (unat b mod 16)]) bs)"

lemma unat_hex_digit: "m < 16 \<Longrightarrow> unat (hex_digit m) = (if m < 10 then 48 + m else 87 + m)"
  by (cases "m < 10") (simp_all only: hex_digit_def unat_of_nat if_True if_False, simp_all)

lemma hex_digit_inject:
  assumes "m < 16" "n < 16"
  shows "hex_digit m = hex_digit n \<longleftrightarrow> m = n"
proof
  assume "hex_digit m = hex_digit n"
  then have "(if m < 10 then 48 + m else 87 + m) = (if n < 10 then 48 + n else 87 + n)"
    using unat_hex_digit assms by metis
  then show "m = n" by (simp split: if_splits)
qed simp

lemma hex_bytes_inject [simp]: "hex_bytes a = hex_bytes b \<longleftrightarrow> a = b"
proof (induction a arbitrary: b)
  case Nil
  then show ?case by (cases b) (simp_all add: hex_bytes_def)
next
  case (Cons x a)
  show ?case
  proof (cases b)
    case (Cons y b')
    have lt: "unat x div 16 < 16" "unat y div 16 < 16" using unat_range(1) [of x] unat_range(1) [of y] by auto
    have "unat x div 16 = unat y div 16 \<and> unat x mod 16 = unat y mod 16 \<longleftrightarrow> x = y"
      by (metis div_mult_mod_eq word_unat_eq_iff)
    then show ?thesis using Cons Cons.IH lt hex_digit_inject [of "unat x div 16" "unat y div 16"]
        hex_digit_inject [of "unat x mod 16" "unat y mod 16"]
      by (auto simp: hex_bytes_def)
  qed (simp add: hex_bytes_def)
qed

end
