(* ===== verification/Listener.thy ===== *)
theory Listener
  imports Packet_Io Str_Map Ascii Stun_Attrs
begin

text \<open>
  \<^verbatim>\<open>rtc/src/rtc_listener.c\<close>: one UDP port shared by many transports. Three route tables (by ICE user fragment, by
  STUN transaction and by remote address), the local candidates, and the gathering of a
  server-reflexive one.

  A route is a value of \<open>'r\<close> (the callback and its argument), or the listener's own gathering handler. The
  inet functions and the resolver are the argument \<open>net\<close>, the allocator outcomes \<open>mem\<close>, the
  worker's timer handle \<open>tm\<close>. Callbacks to the application are the events a function returns. An outer
  \<open>None\<close> is a table operation that does not return or a read outside a message.
\<close>

subsection \<open>Data\<close>

record inet =
  n_pton4 :: "bytes \<Rightarrow> u32 option"
  n_pton6 :: "bytes \<Rightarrow> bytes option"
  n_ntop4 :: "nat \<Rightarrow> u32 \<Rightarrow> bytes option"
  n_ntop6 :: "nat \<Rightarrow> bytes \<Rightarrow> bytes option"
  n_resolve :: "bytes \<Rightarrow> u16 \<Rightarrow> rtc_addr option"
  n_sendto :: "bytes \<Rightarrow> rtc_addr \<Rightarrow> nat \<times> bool"

abbreviation addr_of_text :: "inet \<Rightarrow> bytes \<Rightarrow> u16 \<Rightarrow> rtc_err + rtc_addr" where
  "addr_of_text net \<equiv> rtc_addr_from_string (n_pton4 net) (n_pton6 net)"

abbreviation addr_text :: "inet \<Rightarrow> rtc_addr \<Rightarrow> nat \<Rightarrow> rtc_err + bytes \<times> u16" where
  "addr_text net \<equiv> rtc_addr_to_string (n_ntop4 net) (n_ntop6 net)"

datatype rtc_transport_candidate_type =
  RTC_TRANSPORT_CANDIDATE_HOST | RTC_TRANSPORT_CANDIDATE_SRFLX | RTC_TRANSPORT_CANDIDATE_RELAY

record rtc_transport_candidate =
  tc_foundation :: bytes
  tc_address :: bytes
  tc_related_address :: bytes
  tc_port :: u16
  tc_related_port :: u16
  tc_protocol :: bytes
  tc_type :: rtc_transport_candidate_type
  tc_has_related_address :: bool

datatype rtc_ice_candidate_type = ICE_CANDIDATE_HOST | ICE_CANDIDATE_SRFLX | ICE_CANDIDATE_RELAY

record rtc_ice_candidate =
  ic_type :: rtc_ice_candidate_type
  ic_addr :: rtc_addr
  ic_related_addr :: rtc_addr
  ic_priority :: u32
  ic_component :: int
  ic_has_related_addr :: bool
  ic_foundation :: bytes

definition ICE_MAX_CANDIDATES :: nat where "ICE_MAX_CANDIDATES = 16"

datatype 'r listener_route = Route_gather | Route_to 'r

datatype listener_event = On_candidate rtc_transport_candidate | On_gathering_done

record 'r rtc_listener =
  ls_io :: rtc_packet_io
  ls_candidates :: "rtc_transport_candidate list"
  ls_local_addr :: rtc_addr
  ls_ufrag_routes :: "'r listener_route rtc_str_map"
  ls_txn_routes :: "'r listener_route rtc_str_map"
  ls_tuple_routes :: "'r listener_route rtc_str_map"
  ls_on_candidate :: bool
  ls_on_gathering_done :: bool
  ls_gathering_complete :: bool
  ls_stun_server :: bytes
  ls_stun_port :: u16
  ls_stun_addr :: rtc_addr
  ls_gather_txn_id :: bytes
  ls_gather_txn_registered :: bool
  ls_gather_timer :: u64
  ls_gather_related_addr :: rtc_addr
  ls_closed :: bool
  ls_packets_unhandled :: u64

definition RTC_WORKER_TIMER_INVALID :: u64 where "RTC_WORKER_TIMER_INVALID = 0"

text \<open>\<^verbatim>\<open>copy_string\<close>: at most the buffer's size less one.\<close>

definition bounded_copy :: "nat \<Rightarrow> bytes \<Rightarrow> bytes" where
  "bounded_copy dst_len src = take (dst_len - 1) src"

definition is_wildcard_ip :: "bytes option \<Rightarrow> bool" where
  "is_wildcard_ip ip = (case ip of None \<Rightarrow> True
     | Some s \<Rightarrow> s = [] \<or> s = [48, 46, 48, 46, 48, 46, 48] \<or> s = [58, 58])"

subsection \<open>Routes\<close>

definition txn_key :: "bytes \<Rightarrow> string" where
  "txn_key txn_id = chars (hex_bytes txn_id)"

definition tuple_text :: "nat \<Rightarrow> bytes \<Rightarrow> u16 \<Rightarrow> bytes" where
  "tuple_text family ip port = dec family @ [124] @ ip @ [124] @ dec (unat port)"

text \<open>The family numbers are those of Linux.\<close>

definition addr_family :: "rtc_addr \<Rightarrow> nat" where
  "addr_family a = (case a of Addr_In _ _ \<Rightarrow> 2 | Addr_In6 _ _ \<Rightarrow> 10 | Addr_None \<Rightarrow> 0)"

text \<open>The key of a remote address: family, numeric address and port. The scope of a link-local IPv6 address is no part of
  \<^typ>\<open>rtc_addr\<close> and none of the key.\<close>

definition tuple_key :: "inet \<Rightarrow> rtc_addr \<Rightarrow> nat \<Rightarrow> rtc_err + string" where
  "tuple_key net addr out_len =
    (case addr_text net addr 64 of
       Inl e \<Rightarrow> Inl e
     | Inr (ip, port) \<Rightarrow>
         let text = tuple_text (addr_family addr) ip port
         in if length text \<ge> out_len then Inl RTC_ERR_INVALID else Inr (chars text))"

text \<open>The user fragment before the colon of a USERNAME, as a C string of at most \<open>out_len - 1\<close> bytes.\<close>

definition username_local_ufrag :: "rtc_stun_msg \<Rightarrow> nat \<Rightarrow> (rtc_err + bytes) option" where
  "username_local_ufrag msg out_len = do {
     f \<leftarrow> rtc_stun_find_attr msg STUN_ATTR_USERNAME;
     case f of
       None \<Rightarrow> Some (Inl RTC_ERR_INVALID)
     | Some (pos, attr_len) \<Rightarrow>
         if attr_len = 0 then Some (Inl RTC_ERR_INVALID)
         else do {
           attr \<leftarrow> rd_bytes (sm_buf msg) pos (unat attr_len);
           let len = length (takeWhile (\<lambda>b. b \<noteq> 58) attr);
           if len = 0 then Some (Inl RTC_ERR_INVALID)
           else Some (Inr (c_string (take (if len \<ge> out_len then out_len - 1 else len) attr)))
         }
   }"

definition listener_lookup_route :: "'r listener_route rtc_str_map \<Rightarrow> string \<Rightarrow> 'r listener_route option option" where
  "listener_lookup_route m key = rtc_str_map_get m key"

definition listener_route_stun :: "'r rtc_listener \<Rightarrow> bytes \<Rightarrow> 'r listener_route option option" where
  "listener_route_stun l data = do {
     r \<leftarrow> rtc_stun_parse data;
     case r of
       Inl _ \<Rightarrow> Some None
     | Inr msg \<Rightarrow> do {
         by_ufrag \<leftarrow>
           (if sm_type msg = STUN_BINDING_REQUEST then do {
              u \<leftarrow> username_local_ufrag msg 128;
              case u of Inl _ \<Rightarrow> Some None | Inr ufrag \<Rightarrow> listener_lookup_route (ls_ufrag_routes l) (chars ufrag)
            }
            else Some None);
         case by_ufrag of
           Some route \<Rightarrow> Some (Some route)
         | None \<Rightarrow> listener_lookup_route (ls_txn_routes l) (txn_key (sm_txn_id msg))
       }
   }"

definition listener_route_tuple :: "inet \<Rightarrow> 'r rtc_listener \<Rightarrow> rtc_addr \<Rightarrow> 'r listener_route option option" where
  "listener_route_tuple net l from =
    (case tuple_key net from 128 of
       Inl _ \<Rightarrow> Some None
     | Inr key \<Rightarrow> listener_lookup_route (ls_tuple_routes l) key)"

text \<open>\<open>mem\<close>: whether there is memory for the route, and the outcomes of the table's allocations.\<close>

type_synonym route_mem = "bool \<times> bool \<times> bool"

definition listener_register_route ::
  "route_mem \<Rightarrow> 'r listener_route rtc_str_map \<Rightarrow> string \<Rightarrow> 'r listener_route \<Rightarrow> (rtc_err \<times> 'r listener_route rtc_str_map) option" where
  "listener_register_route mem m key route =
    (if \<not> fst mem then Some (RTC_ERR_NOMEM, m) else rtc_str_map_set (snd mem) m key (Some route))"

definition listener_unregister_route ::
  "route_mem \<Rightarrow> 'r listener_route rtc_str_map \<Rightarrow> string \<Rightarrow> 'r listener_route rtc_str_map option" where
  "listener_unregister_route mem m key = do { (_, m') \<leftarrow> rtc_str_map_remove (snd mem) m key; Some m' }"

definition rtc_listener_register_ufrag ::
  "route_mem \<Rightarrow> 'r rtc_listener \<Rightarrow> bytes \<Rightarrow> 'r listener_route \<Rightarrow> (rtc_err \<times> 'r rtc_listener) option" where
  "rtc_listener_register_ufrag mem l ufrag route = do {
     (rc, m) \<leftarrow> listener_register_route mem (ls_ufrag_routes l) (chars ufrag) route;
     Some (rc, l\<lparr>ls_ufrag_routes := m\<rparr>)
   }"

definition rtc_listener_unregister_ufrag :: "route_mem \<Rightarrow> 'r rtc_listener \<Rightarrow> bytes \<Rightarrow> 'r rtc_listener option" where
  "rtc_listener_unregister_ufrag mem l ufrag = do {
     m \<leftarrow> listener_unregister_route mem (ls_ufrag_routes l) (chars ufrag);
     Some (l\<lparr>ls_ufrag_routes := m\<rparr>)
   }"

definition rtc_listener_register_stun_txn ::
  "route_mem \<Rightarrow> 'r rtc_listener \<Rightarrow> bytes \<Rightarrow> 'r listener_route \<Rightarrow> (rtc_err \<times> 'r rtc_listener) option" where
  "rtc_listener_register_stun_txn mem l txn_id route = do {
     (rc, m) \<leftarrow> listener_register_route mem (ls_txn_routes l) (txn_key txn_id) route;
     Some (rc, l\<lparr>ls_txn_routes := m\<rparr>)
   }"

definition rtc_listener_unregister_stun_txn :: "route_mem \<Rightarrow> 'r rtc_listener \<Rightarrow> bytes \<Rightarrow> 'r rtc_listener option" where
  "rtc_listener_unregister_stun_txn mem l txn_id = do {
     m \<leftarrow> listener_unregister_route mem (ls_txn_routes l) (txn_key txn_id);
     Some (l\<lparr>ls_txn_routes := m\<rparr>)
   }"

definition rtc_listener_register_tuple ::
  "inet \<Rightarrow> route_mem \<Rightarrow> 'r rtc_listener \<Rightarrow> rtc_addr \<Rightarrow> 'r listener_route \<Rightarrow> (rtc_err \<times> 'r rtc_listener) option" where
  "rtc_listener_register_tuple net mem l remote route =
    (case tuple_key net remote 128 of
       Inl e \<Rightarrow> Some (e, l)
     | Inr key \<Rightarrow> do {
         (rc, m) \<leftarrow> listener_register_route mem (ls_tuple_routes l) key route;
         Some (rc, l\<lparr>ls_tuple_routes := m\<rparr>)
       })"

definition rtc_listener_unregister_tuple :: "inet \<Rightarrow> route_mem \<Rightarrow> 'r rtc_listener \<Rightarrow> rtc_addr \<Rightarrow> 'r rtc_listener option" where
  "rtc_listener_unregister_tuple net mem l remote =
    (case tuple_key net remote 128 of
       Inl _ \<Rightarrow> Some l
     | Inr key \<Rightarrow> do {
         m \<leftarrow> listener_unregister_route mem (ls_tuple_routes l) key;
         Some (l\<lparr>ls_tuple_routes := m\<rparr>)
       })"

definition rtc_listener_send_to ::
  "inet \<Rightarrow> 'r rtc_listener \<Rightarrow> bytes \<Rightarrow> rtc_addr \<Rightarrow> rtc_err \<times> (bytes \<times> rtc_addr) list \<times> 'r rtc_listener" where
  "rtc_listener_send_to net l data dest =
    (let (rc, out, io) = rtc_packet_io_send (n_sendto net) (ls_io l) data dest in (rc, out, l\<lparr>ls_io := io\<rparr>))"

subsection \<open>Candidates\<close>

definition listener_add_candidate ::
  "'r rtc_listener \<Rightarrow> rtc_transport_candidate \<Rightarrow> rtc_err \<times> listener_event list \<times> 'r rtc_listener" where
  "listener_add_candidate l cand =
    (if length (ls_candidates l) \<ge> ICE_MAX_CANDIDATES then (RTC_ERR_NOMEM, [], l)
     else (RTC_OK, if ls_on_candidate l then [On_candidate cand] else [], l\<lparr>ls_candidates := ls_candidates l @ [cand]\<rparr>))"

definition listener_mark_gathering_done :: "'r rtc_listener \<Rightarrow> listener_event list \<times> 'r rtc_listener" where
  "listener_mark_gathering_done l =
    (if ls_gathering_complete l then ([], l)
     else (if ls_on_gathering_done l then [On_gathering_done] else [], l\<lparr>ls_gathering_complete := True\<rparr>))"

definition listener_candidate_from_address ::
  "bytes \<Rightarrow> bytes \<Rightarrow> u16 \<Rightarrow> rtc_transport_candidate_type \<Rightarrow> rtc_err + rtc_transport_candidate" where
  "listener_candidate_from_address foundation address port type =
    (if port = 0 then Inl RTC_ERR_INVALID
     else Inr \<lparr>tc_foundation = bounded_copy 32 foundation, tc_address = bounded_copy 64 address, tc_related_address = [],
       tc_port = port, tc_related_port = 0, tc_protocol = [117, 100, 112], tc_type = type, tc_has_related_address = False\<rparr>)"

definition listener_add_host_address ::
  "'r rtc_listener \<Rightarrow> bytes \<Rightarrow> u16 \<Rightarrow> rtc_err \<times> listener_event list \<times> 'r rtc_listener" where
  "listener_add_host_address l address port =
    (case listener_candidate_from_address ([72] @ dec (length (ls_candidates l))) address port RTC_TRANSPORT_CANDIDATE_HOST of
       Inl e \<Rightarrow> (e, [], l)
     | Inr cand \<Rightarrow> listener_add_candidate l cand)"

definition listener_has_srflx_duplicate_locked :: "'r rtc_listener \<Rightarrow> bytes \<Rightarrow> u16 \<Rightarrow> bool" where
  "listener_has_srflx_duplicate_locked l address port =
    list_ex (\<lambda>c. tc_type c = RTC_TRANSPORT_CANDIDATE_HOST \<and> tc_port c = port \<and> tc_address c = address) (ls_candidates l)"

definition listener_first_host_candidate :: "'r rtc_listener \<Rightarrow> rtc_transport_candidate option" where
  "listener_first_host_candidate l = List.find (\<lambda>c. tc_type c = RTC_TRANSPORT_CANDIDATE_HOST) (ls_candidates l)"

text \<open>The result of building the candidate is not looked at: a mapped port of zero leaves it uninitialised,
  which is the outer \<open>None\<close>.\<close>

definition listener_add_srflx_candidate ::
  "inet \<Rightarrow> 'r rtc_listener \<Rightarrow> rtc_addr \<Rightarrow> rtc_addr \<Rightarrow> (rtc_err \<times> listener_event list \<times> 'r rtc_listener) option" where
  "listener_add_srflx_candidate net l mapped related =
    (case addr_text net mapped 64 of
       Inl e \<Rightarrow> Some (e, [], l)
     | Inr (ip, port) \<Rightarrow>
         (case addr_text net related 64 of
            Inl e \<Rightarrow> Some (e, [], l)
          | Inr (related_ip, related_port) \<Rightarrow>
              if listener_has_srflx_duplicate_locked l ip port then Some (RTC_OK, [], l)
              else if length (ls_candidates l) \<ge> ICE_MAX_CANDIDATES then Some (RTC_ERR_NOMEM, [], l)
              else
                let srflx_index = length (filter (\<lambda>c. tc_type c = RTC_TRANSPORT_CANDIDATE_SRFLX) (ls_candidates l))
                in case listener_candidate_from_address ([83] @ dec srflx_index) ip port RTC_TRANSPORT_CANDIDATE_SRFLX of
                     Inl _ \<Rightarrow> None
                   | Inr cand \<Rightarrow>
                       let cand = cand\<lparr>tc_related_address := bounded_copy 64 related_ip, tc_related_port := related_port,
                             tc_has_related_address := True\<rparr>
                       in Some (RTC_OK, if ls_on_candidate l then [On_candidate cand] else [],
                            l\<lparr>ls_candidates := ls_candidates l @ [cand]\<rparr>)))"

definition listener_resolve_addr :: "inet \<Rightarrow> bytes \<Rightarrow> u16 \<Rightarrow> rtc_err + rtc_addr" where
  "listener_resolve_addr net server port =
    (case addr_of_text net server port of
       Inr a \<Rightarrow> Inr a
     | Inl _ \<Rightarrow> (case n_resolve net server port of Some a \<Rightarrow> Inr a | None \<Rightarrow> Inl RTC_ERR_INVALID))"

text \<open>The first result is the timer cancelled, if there was one.\<close>

definition listener_cancel_gather :: "route_mem \<Rightarrow> 'r rtc_listener \<Rightarrow> (u64 option \<times> 'r rtc_listener) option" where
  "listener_cancel_gather mem l = do {
     let armed = ls_gather_timer l \<noteq> RTC_WORKER_TIMER_INVALID;
     let l' = l\<lparr>ls_gather_timer := RTC_WORKER_TIMER_INVALID\<rparr>;
     l'' \<leftarrow> (if ls_gather_txn_registered l' then do {
               l2 \<leftarrow> rtc_listener_unregister_stun_txn mem l' (ls_gather_txn_id l');
               Some (l2\<lparr>ls_gather_txn_registered := False\<rparr>)
             }
             else Some l');
     Some (if armed then Some (ls_gather_timer l) else None, l'')
   }"

definition listener_stun_timeout :: "route_mem \<Rightarrow> 'r rtc_listener \<Rightarrow> (listener_event list \<times> 'r rtc_listener) option" where
  "listener_stun_timeout mem l = do {
     (_, l') \<leftarrow> listener_cancel_gather mem (l\<lparr>ls_gather_timer := RTC_WORKER_TIMER_INVALID\<rparr>);
     Some (listener_mark_gathering_done l')
   }"

definition listener_on_stun_gather_packet ::
  "inet \<Rightarrow> route_mem \<Rightarrow> 'r rtc_listener \<Rightarrow> bytes \<Rightarrow> (listener_event list \<times> 'r rtc_listener) option" where
  "listener_on_stun_gather_packet net mem l data = do {
     r \<leftarrow> rtc_stun_parse data;
     case r of
       Inl _ \<Rightarrow> Some ([], l)
     | Inr msg \<Rightarrow>
         if sm_type msg \<noteq> STUN_BINDING_RESPONSE then Some ([], l)
         else do {
           (_, l1) \<leftarrow> listener_cancel_gather mem l;
           m \<leftarrow> rtc_stun_get_mapped_address msg;
           (evs, l2) \<leftarrow> (case m of
               Inl _ \<Rightarrow> Some ([], l1)
             | Inr mapped \<Rightarrow> do {
                 (_, evs, l2) \<leftarrow> listener_add_srflx_candidate net l1 mapped (ls_gather_related_addr l1);
                 Some (evs, l2)
               });
           let (done, l3) = listener_mark_gathering_done l2;
           Some (evs @ done, l3)
         }
   }"

text \<open>\<open>txn\<close> is the random transaction identifier of the request and \<open>tm\<close> the handle of the timeout's timer.
  The events come with the datagrams sent.\<close>

definition gather_done :: "'r rtc_listener \<Rightarrow> (listener_event list \<times> (bytes \<times> rtc_addr) list \<times> 'r rtc_listener) option" where
  "gather_done l = (let (evs, l') = listener_mark_gathering_done l in Some (evs, [], l'))"

definition listener_start_stun_gather ::
  "inet \<Rightarrow> (bytes \<Rightarrow> bytes \<Rightarrow> bytes) \<Rightarrow> route_mem \<Rightarrow> bytes \<Rightarrow> u64 \<Rightarrow> 'r rtc_listener \<Rightarrow>
   (listener_event list \<times> (bytes \<times> rtc_addr) list \<times> 'r rtc_listener) option" where
  "listener_start_stun_gather net hmac mem txn tm l0 =
    (let l = l0\<lparr>ls_gather_timer := RTC_WORKER_TIMER_INVALID\<rparr>
     in if ls_closed l then Some ([], [], l)
        else if ls_stun_server l = [] then gather_done l
        else case listener_first_host_candidate l of
          None \<Rightarrow> gather_done l
        | Some host \<Rightarrow>
            (case addr_of_text net (tc_address host) (tc_port host) of
               Inl _ \<Rightarrow> gather_done l
             | Inr related \<Rightarrow>
                 let l = l\<lparr>ls_gather_related_addr := related\<rparr>
                 in case listener_resolve_addr net (ls_stun_server l) (ls_stun_port l) of
                      Inl _ \<Rightarrow> gather_done l
                    | Inr addr \<Rightarrow>
                        let l = l\<lparr>ls_stun_addr := addr\<rparr>
                        in do {
                          r \<leftarrow> rtc_stun_build_binding_request hmac txn None None 0 False 0 False;
                          case r of
                            Inl _ \<Rightarrow> gather_done l
                          | Inr req \<Rightarrow> do {
                              let l = l\<lparr>ls_gather_txn_id := sm_txn_id req\<rparr>;
                              (rc, l) \<leftarrow> rtc_listener_register_stun_txn mem l (ls_gather_txn_id l) Route_gather;
                              if rc \<noteq> RTC_OK then gather_done l
                              else do {
                                let l = l\<lparr>ls_gather_txn_registered := True\<rparr>;
                                let (rc, out, l) = rtc_listener_send_to net l (sm_buf req) (ls_stun_addr l);
                                if rc \<noteq> RTC_OK then do {
                                  (_, l) \<leftarrow> listener_cancel_gather mem l;
                                  gather_done l
                                }
                                else Some ([], out, l\<lparr>ls_gather_timer := tm\<rparr>)
                              }
                            }
                        }))"

text \<open>Host candidates: the announced address, the listening one, or the addresses of the interfaces that are up and
  not the loopback (\<open>ifaddrs\<close>, in order, with their IPv4 texts).\<close>

record ifaddr =
  if_inet :: bool
  if_loopback :: bool
  if_up :: bool
  if_text :: "bytes option"

fun add_ifaddrs :: "'r rtc_listener \<Rightarrow> u16 \<Rightarrow> ifaddr list \<Rightarrow> listener_event list \<times> 'r rtc_listener" where
  "add_ifaddrs l port [] = ([], l)"
| "add_ifaddrs l port (i # ifs) =
     (if \<not> if_inet i \<or> if_loopback i \<or> \<not> if_up i then add_ifaddrs l port ifs
      else case if_text i of
        None \<Rightarrow> add_ifaddrs l port ifs
      | Some ip \<Rightarrow>
          let (_, evs, l') = listener_add_host_address l ip port; (evs', l'') = add_ifaddrs l' port ifs
          in (evs @ evs', l''))"

definition listener_gather_host_candidates ::
  "inet \<Rightarrow> ifaddr list option \<Rightarrow> bytes option \<Rightarrow> bytes option \<Rightarrow> 'r rtc_listener \<Rightarrow>
   rtc_err \<times> listener_event list \<times> 'r rtc_listener" where
  "listener_gather_host_candidates net ifaddrs announced_ip listen_ip l =
    (case addr_text net (ls_local_addr l) 64 of
       Inl e \<Rightarrow> (e, [], l)
     | Inr (ip, port) \<Rightarrow>
         if announced_ip \<noteq> None \<and> announced_ip \<noteq> Some [] then listener_add_host_address l (the announced_ip) port
         else if \<not> is_wildcard_ip listen_ip then listener_add_host_address l (the listen_ip) port
         else case ifaddrs of
           None \<Rightarrow> (RTC_ERR_SOCKET, [], l)
         | Some ifs \<Rightarrow>
             let (evs, l') = add_ifaddrs l port ifs
             in if ls_candidates l' = [] then
                  let (rc, evs', l'') = listener_add_host_address l'
                        (if is_wildcard_ip (Some ip) then [49, 50, 55, 46, 48, 46, 48, 46, 49] else ip) port
                  in (rc, evs @ evs', l'')
                else (RTC_OK, evs, l'))"

subsection \<open>The listener\<close>

text \<open>The dispatch of one datagram: the route it takes, or one more unhandled packet. The gathering handler
  runs inside the listener.\<close>

definition listener_on_packet ::
  "inet \<Rightarrow> route_mem \<Rightarrow> 'r rtc_listener \<Rightarrow> rtc_pkt_type \<Rightarrow> bytes \<Rightarrow> rtc_addr \<Rightarrow>
   ('r option \<times> listener_event list \<times> 'r rtc_listener) option" where
  "listener_on_packet net mem l type data from = do {
     route \<leftarrow> (if type = RTC_PKT_STUN then listener_route_stun l data
               else if type = RTC_PKT_DTLS \<or> type = RTC_PKT_RTP \<or> type = RTC_PKT_RTCP then listener_route_tuple net l from
               else Some None);
     case route of
       None \<Rightarrow> Some (None, [], l\<lparr>ls_packets_unhandled := ls_packets_unhandled l + 1\<rparr>)
     | Some (Route_to r) \<Rightarrow> Some (Some r, [], l)
     | Some Route_gather \<Rightarrow> do {
         (evs, l') \<leftarrow> listener_on_stun_gather_packet net mem l data;
         Some (None, evs, l')
       }
   }"

text \<open>Creation: \<open>ready\<close> says whether the memory of the listener, its tables and its mutexes could be had, \<open>io_init\<close> is the outcome of
  opening the socket, \<open>add_io\<close> the worker's answer to its registration and \<open>tm\<close> the timer that starts the gathering.\<close>

definition rtc_listener_create ::
  "bool \<Rightarrow> inet \<Rightarrow> ifaddr list option \<Rightarrow> rtc_err + rtc_packet_io \<Rightarrow> rtc_err \<Rightarrow> u64 \<Rightarrow> bytes option \<Rightarrow> bytes option \<Rightarrow>
   bytes option \<Rightarrow> u16 \<Rightarrow> bool \<Rightarrow> bool \<Rightarrow> 'r rtc_listener option" where
  "rtc_listener_create ready net ifaddrs io_init add_io tm announced_ip listen_ip stun_server stun_port enable_udp enable_tcp =
    (if \<not> (enable_udp \<or> \<not> enable_tcp) \<or> enable_tcp then None
     else if \<not> ready then None
     else case io_init of
       Inl _ \<Rightarrow> None
     | Inr io \<Rightarrow>
         let l = \<lparr>ls_io = io, ls_candidates = [], ls_local_addr = rtc_packet_io_get_local_addr io,
               ls_ufrag_routes = rtc_str_map_init_owned, ls_txn_routes = rtc_str_map_init_owned,
               ls_tuple_routes = rtc_str_map_init_owned, ls_on_candidate = False, ls_on_gathering_done = False,
               ls_gathering_complete = False,
               ls_stun_server = (case stun_server of None \<Rightarrow> [] | Some s \<Rightarrow> bounded_copy 256 s),
               ls_stun_port = (if stun_port \<noteq> 0 then stun_port else 3478), ls_stun_addr = Addr_None,
               ls_gather_txn_id = replicate 12 0, ls_gather_txn_registered = False,
               ls_gather_timer = RTC_WORKER_TIMER_INVALID, ls_gather_related_addr = Addr_None, ls_closed = False,
               ls_packets_unhandled = 0\<rparr>;
             (rc, _, l) = listener_gather_host_candidates net ifaddrs announced_ip listen_ip l
         in if rc \<noteq> RTC_OK \<or> add_io \<noteq> RTC_OK then None
            else if ls_stun_server l \<noteq> [] then Some (l\<lparr>ls_gather_timer := tm\<rparr>)
            else Some (snd (listener_mark_gathering_done l)))"

definition rtc_listener_close :: "route_mem \<Rightarrow> 'r rtc_listener \<Rightarrow> (u64 option \<times> 'r rtc_listener) option" where
  "rtc_listener_close mem l =
    (if ls_closed l then Some (None, l)
     else do {
       (t, l') \<leftarrow> listener_cancel_gather mem (l\<lparr>ls_closed := True\<rparr>);
       Some (t, l'\<lparr>ls_io := rtc_packet_io_close (ls_io l')\<rparr>)
     })"

text \<open>With no array the count is returned; with a short one the part that fits.\<close>

definition rtc_listener_get_candidates ::
  "'r rtc_listener \<Rightarrow> nat option \<Rightarrow> rtc_err \<times> nat \<times> rtc_transport_candidate list" where
  "rtc_listener_get_candidates l capacity =
    (let actual = length (ls_candidates l)
     in case capacity of
          None \<Rightarrow> (RTC_OK, actual, [])
        | Some cap \<Rightarrow> (if cap < actual then RTC_ERR_NOMEM else RTC_OK, actual, take cap (ls_candidates l)))"

definition rtc_listener_gathering_complete :: "'r rtc_listener \<Rightarrow> bool" where
  "rtc_listener_gathering_complete l = ls_gathering_complete l"

definition rtc_listener_set_on_candidate :: "'r rtc_listener \<Rightarrow> bool \<Rightarrow> listener_event list \<times> 'r rtc_listener" where
  "rtc_listener_set_on_candidate l fn =
    (if fn then map On_candidate (ls_candidates l) else [], l\<lparr>ls_on_candidate := fn\<rparr>)"

definition rtc_listener_set_on_gathering_done :: "'r rtc_listener \<Rightarrow> bool \<Rightarrow> listener_event list \<times> 'r rtc_listener" where
  "rtc_listener_set_on_gathering_done l fn =
    (if fn \<and> ls_gathering_complete l then [On_gathering_done] else [], l\<lparr>ls_on_gathering_done := fn\<rparr>)"

definition listener_ice_type :: "rtc_transport_candidate_type \<Rightarrow> rtc_ice_candidate_type" where
  "listener_ice_type type = (case type of
     RTC_TRANSPORT_CANDIDATE_SRFLX \<Rightarrow> ICE_CANDIDATE_SRFLX
   | RTC_TRANSPORT_CANDIDATE_RELAY \<Rightarrow> ICE_CANDIDATE_RELAY
   | RTC_TRANSPORT_CANDIDATE_HOST \<Rightarrow> ICE_CANDIDATE_HOST)"

definition clamp_int :: "int \<Rightarrow> int \<Rightarrow> int \<Rightarrow> int" where
  "clamp_int lo hi x = (let x = (if x < lo then lo else x) in if x > hi then hi else x)"

definition rtc_ice_candidate_priority :: "rtc_ice_candidate_type \<Rightarrow> int \<Rightarrow> int \<Rightarrow> u32" where
  "rtc_ice_candidate_priority type local_pref component =
    (let type_pref = (case type of ICE_CANDIDATE_HOST \<Rightarrow> 126 | ICE_CANDIDATE_SRFLX \<Rightarrow> 100 | ICE_CANDIDATE_RELAY \<Rightarrow> 0) :: u32;
         local_pref = clamp_int 0 65535 local_pref;
         component = clamp_int 1 255 component
     in push_bit 24 type_pref OR push_bit 8 (of_int local_pref) OR (256 - of_int component))"

definition rtc_listener_candidate_to_ice :: "inet \<Rightarrow> rtc_transport_candidate \<Rightarrow> int \<Rightarrow> rtc_err + rtc_ice_candidate" where
  "rtc_listener_candidate_to_ice net c local_pref =
    (case addr_of_text net (tc_address c) (tc_port c) of
       Inl e \<Rightarrow> Inl e
     | Inr addr \<Rightarrow>
         let out = \<lparr>ic_type = listener_ice_type (tc_type c), ic_addr = addr, ic_related_addr = Addr_None,
               ic_priority = rtc_ice_candidate_priority (listener_ice_type (tc_type c)) local_pref 1, ic_component = 1,
               ic_has_related_addr = False, ic_foundation = bounded_copy 32 (tc_foundation c)\<rparr>
         in if tc_has_related_address c then
              (case addr_of_text net (tc_related_address c) (tc_related_port c) of
                 Inl e \<Rightarrow> Inl e
               | Inr related \<Rightarrow> Inr (out\<lparr>ic_related_addr := related, ic_has_related_addr := True\<rparr>))
            else Inr out)"

record rtc_listener_stats =
  lst_closed :: bool
  lst_local_addr :: rtc_addr
  lst_packets_received :: u64
  lst_bytes_received :: u64
  lst_packets_sent :: u64
  lst_bytes_sent :: u64
  lst_packets_unhandled :: u64

definition rtc_listener_get_stats :: "'r rtc_listener \<Rightarrow> rtc_listener_stats" where
  "rtc_listener_get_stats l =
    \<lparr>lst_closed = ls_closed l, lst_local_addr = ls_local_addr l, lst_packets_received = io_pkts_recv (ls_io l),
     lst_bytes_received = io_bytes_recv (ls_io l), lst_packets_sent = io_pkts_sent (ls_io l),
     lst_bytes_sent = io_bytes_sent (ls_io l), lst_packets_unhandled = ls_packets_unhandled l\<rparr>"

end
