(* ===== verification/Listener_Routing.thy ===== *)
theory Listener_Routing
  imports Listener Stun_Properties
begin

text \<open>
  The route tables of the listener are maps from user fragments, transactions and remote addresses to routes,
  whatever the allocator does; every datagram is dispatched along the routes registered at that time.
\<close>

subsection \<open>Route tables\<close>

text \<open>A table whose keys are the images of the names of \<open>D\<close> under \<open>key\<close>.\<close>

definition keyed :: "('a \<Rightarrow> string) \<Rightarrow> 'a set \<Rightarrow> 'r rtc_str_map \<Rightarrow> ('a \<rightharpoonup> 'r) \<Rightarrow> bool" where
  "keyed key D m A \<longleftrightarrow> str_map_ok m \<and> (\<forall>x \<in> D. str_map_abs m (key x) = map_option Some (A x))"

lemma keyed_new: "keyed key D rtc_str_map_init_owned Map.empty"
  by (simp add: keyed_def rtc_str_map_init_owned_def str.inv_new str.abs_new)

lemma keyed_get: "keyed key D m A \<Longrightarrow> x \<in> D \<Longrightarrow> listener_lookup_route m (key x) = Some (A x)"
  using str.get_abs [of m "key x"]
  by (cases "A x") (simp_all add: keyed_def listener_lookup_route_def ptr_at_def)

lemma keyed_register:
  assumes "keyed key D m A" "inj_on key D" "x \<in> D"
  shows "\<exists>rc m'. listener_register_route mem m (key x) r = Some (rc, m') \<and> (rc = RTC_OK \<or> rc = RTC_ERR_NOMEM) \<and>
    keyed key D m' (if rc = RTC_OK then A(x \<mapsto> r) else A)"
proof (cases "fst mem")
  case True
  have ok: "str_map_ok m" using assms(1) by (simp add: keyed_def)
  obtain rc m' where s: "rtc_str_map_set (snd mem) m (key x) (Some r) = Some (rc, m')" using str.set_returns [OF ok] by blast
  have "key y = key x \<longleftrightarrow> y = x" if "y \<in> D" for y using inj_onD [OF assms(2) _ that assms(3)] by auto
  then have "keyed key D m' (if rc = RTC_OK then A(x \<mapsto> r) else A)"
    using str.inv_set [OF ok s] str.abs_set [OF ok s] assms(1,3) by (auto simp: keyed_def)
  then show ?thesis using s True str.set_codes [OF ok s] by (simp add: listener_register_route_def)
qed (use assms(1) in \<open>simp add: listener_register_route_def\<close>)

lemma keyed_unregister:
  assumes "keyed key D m A" "inj_on key D" "x \<in> D"
  shows "\<exists>m'. listener_unregister_route mem m (key x) = Some m' \<and> keyed key D m' (A(x := None))"
proof -
  have ok: "str_map_ok m" using assms(1) by (simp add: keyed_def)
  obtain m' where "rtc_str_map_remove (snd mem) m (key x) = Some (key x \<in> dom (str_map_abs m), m')" "str_map_ok m'"
      "str_map_abs m' = (str_map_abs m)(key x := None)"
    using str.remove_cases [OF ok] .
  moreover have "key y = key x \<longleftrightarrow> y = x" if "y \<in> D" for y using inj_onD [OF assms(2) _ that assms(3)] by auto
  ultimately show ?thesis using assms(1) by (auto simp: keyed_def listener_unregister_route_def)
qed

subsection \<open>Keys\<close>

text \<open>What is relied on of \<^verbatim>\<open>inet_ntop\<close>: an address that can be printed is printed in a way of its own, and
  without a vertical bar.\<close>

definition inet_ok :: "inet \<Rightarrow> bool" where
  "inet_ok net \<longleftrightarrow>
    (\<forall>a b s. n_ntop4 net 64 a = Some s \<and> n_ntop4 net 64 b = Some s \<longrightarrow> a = b) \<and>
    (\<forall>a b s. n_ntop6 net 64 a = Some s \<and> n_ntop6 net 64 b = Some s \<longrightarrow> a = b) \<and>
    (\<forall>a s. n_ntop4 net 64 a = Some s \<longrightarrow> 124 \<notin> set s) \<and> (\<forall>a s. n_ntop6 net 64 a = Some s \<longrightarrow> 124 \<notin> set s)"

definition tuple_addrs :: "inet \<Rightarrow> rtc_addr set" where
  "tuple_addrs net = {a. \<exists>k. tuple_key net a 128 = Inr k}"

definition tuple_name :: "inet \<Rightarrow> rtc_addr \<Rightarrow> string" where
  "tuple_name net a = (case tuple_key net a 128 of Inr k \<Rightarrow> k | Inl _ \<Rightarrow> [])"

lemma dec_no_bar: "124 \<notin> set (dec n)"
  using dec_digits [of 124 n] by (auto simp: digit_def)

lemma tuple_text_inject:
  assumes "124 \<notin> set ip" "124 \<notin> set ip'" "tuple_text f ip p = tuple_text f' ip' p'"
  shows "f = f' \<and> ip = ip' \<and> p = p'"
proof -
  have split: "a = b \<and> r = s" if "x \<notin> set a" "x \<notin> set b" "a @ x # r = b @ x # s" for x :: u8 and a b r s
  proof -
    have "takeWhile (\<lambda>y. y \<noteq> x) (a @ x # r) = a" "takeWhile (\<lambda>y. y \<noteq> x) (b @ x # s) = b"
      using that(1,2) by (auto simp: takeWhile_append takeWhile_eq_all_conv)
    then show ?thesis using that(3) by auto
  qed
  have "dec f = dec f' \<and> ip @ 124 # dec (unat p) = ip' @ 124 # dec (unat p')"
    using assms(3) by (intro split [of 124] dec_no_bar) (simp add: tuple_text_def)
  then have f: "f = f'" and "ip @ 124 # dec (unat p) = ip' @ 124 # dec (unat p')" by simp_all
  from split [OF assms(1,2) this(2)] f show ?thesis by (simp add: word_unat_eq_iff)
qed

lemma tuple_key_inject:
  assumes "inet_ok net" "tuple_key net a 128 = Inr k" "tuple_key net b 128 = Inr k"
  shows "a = b"
proof -
  obtain ip p where a: "addr_text net a 64 = Inr (ip, p)" "k = chars (tuple_text (addr_family a) ip p)"
    using assms(2) by (auto simp: tuple_key_def Let_def split: sum.splits if_splits)
  obtain ip' p' where b: "addr_text net b 64 = Inr (ip', p')" "k = chars (tuple_text (addr_family b) ip' p')"
    using assms(3) by (auto simp: tuple_key_def Let_def split: sum.splits if_splits)
  have "124 \<notin> set ip" "124 \<notin> set ip'" using assms(1) a(1) b(1)
    by (auto simp: inet_ok_def rtc_addr_to_string_def split: rtc_addr.splits option.splits)
  moreover have "tuple_text (addr_family a) ip p = tuple_text (addr_family b) ip' p'" using a(2) b(2) by simp
  ultimately have eq: "addr_family a = addr_family b" "ip = ip'" "p = p'" using tuple_text_inject by blast+
  show ?thesis
    by (cases a; cases b) (use eq a(1) b(1) assms(1) in
      \<open>auto simp: inet_ok_def addr_family_def rtc_addr_to_string_def split: option.splits\<close>)
qed

lemma tuple_name_inj: "inet_ok net \<Longrightarrow> inj_on (tuple_name net) (tuple_addrs net)"
  using tuple_key_inject by (auto simp: inj_on_def tuple_addrs_def tuple_name_def)

lemma txn_key_inj: "inj_on txn_key UNIV"
  by (auto simp: inj_on_def txn_key_def)

lemma chars_inj: "inj_on chars UNIV"
  by (auto simp: inj_on_def)

lemma tuple_nameI: "tuple_key net a 128 = Inr k \<Longrightarrow> tuple_name net a = k \<and> a \<in> tuple_addrs net"
  by (auto simp: tuple_name_def tuple_addrs_def)

subsection \<open>Dispatch\<close>

text \<open>What the transports of a listener do to its tables, each with the outcomes of the allocations.\<close>

datatype 'r route_op =
    Reg_ufrag route_mem bytes 'r
  | Unreg_ufrag route_mem bytes
  | Reg_txn route_mem bytes 'r
  | Unreg_txn route_mem bytes
  | Reg_tuple route_mem rtc_addr 'r
  | Unreg_tuple route_mem rtc_addr

fun route_op_step :: "inet \<Rightarrow> 'r rtc_listener \<Rightarrow> 'r route_op \<Rightarrow> (rtc_err \<times> 'r rtc_listener) option" where
  "route_op_step net l (Reg_ufrag mem u r) = rtc_listener_register_ufrag mem l u (Route_to r)"
| "route_op_step net l (Unreg_ufrag mem u) = do { l' \<leftarrow> rtc_listener_unregister_ufrag mem l u; Some (RTC_OK, l') }"
| "route_op_step net l (Reg_txn mem t r) = rtc_listener_register_stun_txn mem l t (Route_to r)"
| "route_op_step net l (Unreg_txn mem t) = do { l' \<leftarrow> rtc_listener_unregister_stun_txn mem l t; Some (RTC_OK, l') }"
| "route_op_step net l (Reg_tuple mem a r) = rtc_listener_register_tuple net mem l a (Route_to r)"
| "route_op_step net l (Unreg_tuple mem a) = do { l' \<leftarrow> rtc_listener_unregister_tuple net mem l a; Some (RTC_OK, l') }"

fun route_op_run :: "inet \<Rightarrow> 'r rtc_listener \<Rightarrow> 'r route_op list \<Rightarrow> (rtc_err list \<times> 'r rtc_listener) option" where
  "route_op_run net l [] = Some ([], l)"
| "route_op_run net l (op # ops) = do {
     (rc, l') \<leftarrow> route_op_step net l op;
     (rcs, l'') \<leftarrow> route_op_run net l' ops;
     Some (rc # rcs, l'')
   }"

text \<open>The specification: three maps, an insertion taking effect when it returned success.\<close>

record 'r routes =
  r_ufrag :: "bytes \<rightharpoonup> 'r"
  r_txn :: "bytes \<rightharpoonup> 'r"
  r_tuple :: "rtc_addr \<rightharpoonup> 'r"

fun routes_step :: "'r routes \<Rightarrow> rtc_err \<Rightarrow> 'r route_op \<Rightarrow> 'r routes" where
  "routes_step R rc (Reg_ufrag mem u r) = (if rc = RTC_OK then R\<lparr>r_ufrag := (r_ufrag R)(u \<mapsto> r)\<rparr> else R)"
| "routes_step R rc (Unreg_ufrag mem u) = R\<lparr>r_ufrag := (r_ufrag R)(u := None)\<rparr>"
| "routes_step R rc (Reg_txn mem t r) = (if rc = RTC_OK then R\<lparr>r_txn := (r_txn R)(t \<mapsto> r)\<rparr> else R)"
| "routes_step R rc (Unreg_txn mem t) = R\<lparr>r_txn := (r_txn R)(t := None)\<rparr>"
| "routes_step R rc (Reg_tuple mem a r) = (if rc = RTC_OK then R\<lparr>r_tuple := (r_tuple R)(a \<mapsto> r)\<rparr> else R)"
| "routes_step R rc (Unreg_tuple mem a) = R\<lparr>r_tuple := (r_tuple R)(a := None)\<rparr>"

fun routes_run :: "'r routes \<Rightarrow> rtc_err list \<Rightarrow> 'r route_op list \<Rightarrow> 'r routes" where
  "routes_run R (rc # rcs) (op # ops) = routes_run (routes_step R rc op) rcs ops"
| "routes_run R _ _ = R"

definition no_routes :: "'r routes" where
  "no_routes = \<lparr>r_ufrag = Map.empty, r_txn = Map.empty, r_tuple = Map.empty\<rparr>"

definition to_route :: "('a \<rightharpoonup> 'r) \<Rightarrow> 'a \<rightharpoonup> 'r listener_route" where
  "to_route A x = map_option Route_to (A x)"

lemma to_route_simps [simp]:
  "(to_route A)(x \<mapsto> Route_to r) = to_route (A(x \<mapsto> r))" "(to_route A)(x := None) = to_route (A(x := None))"
  "to_route Map.empty = Map.empty" "to_route A x = None \<longleftrightarrow> A x = None"
  by (auto simp: to_route_def fun_eq_iff)

definition listener_rep :: "inet \<Rightarrow> 'r rtc_listener \<Rightarrow> 'r routes \<Rightarrow> bool" where
  "listener_rep net l R \<longleftrightarrow> keyed chars UNIV (ls_ufrag_routes l) (to_route (r_ufrag R)) \<and>
    keyed txn_key UNIV (ls_txn_routes l) (to_route (r_txn R)) \<and>
    keyed (tuple_name net) (tuple_addrs net) (ls_tuple_routes l) (to_route (r_tuple R)) \<and> dom (r_tuple R) \<subseteq> tuple_addrs net"

lemma listener_rep_new:
  "ls_ufrag_routes l = rtc_str_map_init_owned \<Longrightarrow> ls_txn_routes l = rtc_str_map_init_owned \<Longrightarrow>
   ls_tuple_routes l = rtc_str_map_init_owned \<Longrightarrow> listener_rep net l no_routes"
  by (simp add: listener_rep_def no_routes_def keyed_new)

lemma tuple_key_OK: "tuple_key net a n \<noteq> Inl RTC_OK"
  by (auto simp: tuple_key_def rtc_addr_to_string_def Let_def split: sum.splits rtc_addr.splits option.splits)

lemma route_op_step_rep:
  assumes "inet_ok net" "listener_rep net l R"
  shows "\<exists>rc l'. route_op_step net l op = Some (rc, l') \<and> listener_rep net l' (routes_step R rc op)"
proof -
  have u: "keyed chars UNIV (ls_ufrag_routes l) (to_route (r_ufrag R))" and t: "keyed txn_key UNIV (ls_txn_routes l) (to_route (r_txn R))"
    and a: "keyed (tuple_name net) (tuple_addrs net) (ls_tuple_routes l) (to_route (r_tuple R))" and d: "dom (r_tuple R) \<subseteq> tuple_addrs net"
    using assms(2) by (simp_all add: listener_rep_def)
  show ?thesis
  proof (cases op)
    case (Reg_ufrag mem x r)
    then show ?thesis using keyed_register [OF u chars_inj, of x mem "Route_to r"] t a d
      by (auto simp: rtc_listener_register_ufrag_def listener_rep_def)
  next
    case (Unreg_ufrag mem x)
    then show ?thesis using keyed_unregister [OF u chars_inj, of x mem] t a d
      by (auto simp: rtc_listener_unregister_ufrag_def listener_rep_def)
  next
    case (Reg_txn mem x r)
    then show ?thesis using keyed_register [OF t txn_key_inj, of x mem "Route_to r"] u a d
      by (auto simp: rtc_listener_register_stun_txn_def listener_rep_def)
  next
    case (Unreg_txn mem x)
    then show ?thesis using keyed_unregister [OF t txn_key_inj, of x mem] u a d
      by (auto simp: rtc_listener_unregister_stun_txn_def listener_rep_def)
  next
    case (Reg_tuple mem x r)
    show ?thesis
    proof (cases "tuple_key net x 128")
      case (Inl e)
      then show ?thesis using Reg_tuple assms(2) tuple_key_OK [of net x 128] by (auto simp: rtc_listener_register_tuple_def)
    next
      case (Inr k)
      note k = tuple_nameI [OF Inr]
      then show ?thesis using keyed_register [OF a tuple_name_inj [OF assms(1)], of x mem "Route_to r"] u t d Reg_tuple Inr
        by (auto simp: rtc_listener_register_tuple_def listener_rep_def)
    qed
  next
    case (Unreg_tuple mem x)
    show ?thesis
    proof (cases "tuple_key net x 128")
      case (Inl e)
      then have "x \<notin> dom (r_tuple R)" using d by (auto simp: tuple_addrs_def)
      then have "(r_tuple R)(x := None) = r_tuple R" by (auto simp: fun_eq_iff domIff)
      then show ?thesis using Unreg_tuple assms(2) Inl by (auto simp: rtc_listener_unregister_tuple_def)
    next
      case (Inr k)
      note k = tuple_nameI [OF Inr]
      obtain m' where "listener_unregister_route mem (ls_tuple_routes l) (tuple_name net x) = Some m'"
          "keyed (tuple_name net) (tuple_addrs net) m' (to_route ((r_tuple R)(x := None)))"
        using keyed_unregister [OF a tuple_name_inj [OF assms(1)], of x mem] k by auto
      moreover have "dom ((r_tuple R)(x := None)) \<subseteq> tuple_addrs net" using d by auto
      ultimately show ?thesis using u t k Unreg_tuple Inr
        by (auto simp: rtc_listener_unregister_tuple_def listener_rep_def simp del: dom_fun_upd)
    qed
  qed
qed

lemma route_op_run_rep:
  assumes "inet_ok net" "listener_rep net l R"
  shows "\<exists>rcs l'. route_op_run net l ops = Some (rcs, l') \<and> length rcs = length ops \<and> listener_rep net l' (routes_run R rcs ops)"
  using assms(2)
proof (induction ops arbitrary: l R)
  case (Cons op ops)
  obtain rc l' where s: "route_op_step net l op = Some (rc, l')" "listener_rep net l' (routes_step R rc op)"
    using route_op_step_rep [OF assms(1) Cons.prems] by blast
  then show ?case using Cons.IH [OF s(2)] by fastforce
qed simp

text \<open>The route of a STUN message: by the user fragment of a binding request, else by the transaction.\<close>

definition stun_target :: "'r routes \<Rightarrow> rtc_stun_msg \<Rightarrow> 'r option" where
  "stun_target R msg =
    (let by_ufrag = (if sm_type msg = STUN_BINDING_REQUEST
           then (case username_local_ufrag msg 128 of Some (Inr u) \<Rightarrow> r_ufrag R u | _ \<Rightarrow> None) else None)
     in if by_ufrag = None then r_txn R (sm_txn_id msg) else by_ufrag)"

definition counted :: "'r option \<Rightarrow> 'r rtc_listener \<Rightarrow> 'r rtc_listener" where
  "counted target l = (if target = None then l\<lparr>ls_packets_unhandled := ls_packets_unhandled l + 1\<rparr> else l)"

lemma username_total: "username_local_ufrag msg n \<noteq> None"
proof -
  obtain f where "rtc_stun_find_attr msg STUN_ATTR_USERNAME = Some f"
      "case f of None \<Rightarrow> True | Some (p, l) \<Rightarrow> p + unat l \<le> length (sm_buf msg)"
    using find_attr_loop_total unfolding rtc_stun_find_attr_def by blast
  then show ?thesis by (auto simp: username_local_ufrag_def Let_def split: option.splits)
qed

lemma dispatch_media:
  assumes "listener_rep net l R" "type = RTC_PKT_DTLS \<or> type = RTC_PKT_RTP \<or> type = RTC_PKT_RTCP"
  shows "listener_on_packet net mem l type data from = Some (r_tuple R from, [], counted (r_tuple R from) l)"
proof (cases "tuple_key net from 128")
  case (Inl e)
  then have "r_tuple R from = None" using assms(1) by (auto simp: listener_rep_def tuple_addrs_def)
  then show ?thesis using Inl assms(2) by (auto simp: listener_on_packet_def listener_route_tuple_def counted_def)
next
  case (Inr k)
  have "listener_lookup_route (ls_tuple_routes l) k = Some (to_route (r_tuple R) from)"
    using keyed_get [of "tuple_name net"] tuple_nameI [OF Inr] assms(1) by (fastforce simp: listener_rep_def)
  then show ?thesis using Inr assms(2)
    by (auto simp: listener_on_packet_def listener_route_tuple_def counted_def to_route_def split: option.splits)
qed

lemma dispatch_stun:
  assumes "listener_rep net l R" "rtc_stun_parse data = Some (Inr msg)"
  shows "listener_on_packet net mem l RTC_PKT_STUN data from = Some (stun_target R msg, [], counted (stun_target R msg) l)"
proof -
  have u: "listener_lookup_route (ls_ufrag_routes l) (chars x) = Some (to_route (r_ufrag R) x)"
    and t: "listener_lookup_route (ls_txn_routes l) (txn_key x) = Some (to_route (r_txn R) x)" for x
    using assms(1) keyed_get [of chars UNIV _ _ x] keyed_get [of txn_key UNIV _ _ x] by (auto simp: listener_rep_def)
  obtain r where r: "username_local_ufrag msg 128 = Some r" using username_total by blast
  show ?thesis
    by (cases r) (auto simp: listener_on_packet_def listener_route_stun_def stun_target_def counted_def assms(2) u t r
        to_route_def Let_def split: option.splits)
qed

lemma create_fresh:
  assumes "rtc_listener_create ready net ifs io add_io tm ann lip ss sp eu et = Some (l :: 'r rtc_listener)"
  shows "listener_rep net l no_routes"
proof -
  have ha: "ls_ufrag_routes (snd (snd (listener_add_host_address l ip port))) = ls_ufrag_routes l \<and>
      ls_txn_routes (snd (snd (listener_add_host_address l ip port))) = ls_txn_routes l \<and>
      ls_tuple_routes (snd (snd (listener_add_host_address l ip port))) = ls_tuple_routes l" for l :: "'r rtc_listener" and ip port
    by (auto simp: listener_add_host_address_def listener_add_candidate_def split: sum.splits)
  have ifa: "ls_ufrag_routes (snd (add_ifaddrs l port is)) = ls_ufrag_routes l \<and>
      ls_txn_routes (snd (add_ifaddrs l port is)) = ls_txn_routes l \<and>
      ls_tuple_routes (snd (add_ifaddrs l port is)) = ls_tuple_routes l" for l :: "'r rtc_listener" and port "is"
    by (induction "is" arbitrary: l) (auto simp: Let_def case_prod_unfold ha split: option.splits)
  have gh: "ls_ufrag_routes (snd (snd (listener_gather_host_candidates net ifs ann lip l))) = ls_ufrag_routes l \<and>
      ls_txn_routes (snd (snd (listener_gather_host_candidates net ifs ann lip l))) = ls_txn_routes l \<and>
      ls_tuple_routes (snd (snd (listener_gather_host_candidates net ifs ann lip l))) = ls_tuple_routes l" for l :: "'r rtc_listener"
    by (auto simp: listener_gather_host_candidates_def Let_def case_prod_unfold ha ifa split: sum.splits option.splits)
  show ?thesis
    by (rule listener_rep_new) (use assms gh in
      \<open>auto simp: rtc_listener_create_def Let_def case_prod_unfold listener_mark_gathering_done_def
        split: if_splits sum.splits\<close>)
qed

lemma stun_parse_returns: "\<exists>r. rtc_stun_parse data = Some r"
  by (cases "length data < 20") (auto simp: rtc_stun_parse_def stun_sizes Let_def)

text \<open>The transport a datagram of any kind is for.\<close>

definition dispatch_target :: "'r routes \<Rightarrow> rtc_pkt_type \<Rightarrow> bytes \<Rightarrow> rtc_addr \<Rightarrow> 'r option" where
  "dispatch_target R type data from = (case type of
     RTC_PKT_STUN \<Rightarrow> (case rtc_stun_parse data of Some (Inr msg) \<Rightarrow> stun_target R msg | _ \<Rightarrow> None)
   | RTC_PKT_DTLS \<Rightarrow> r_tuple R from
   | RTC_PKT_RTP \<Rightarrow> r_tuple R from
   | RTC_PKT_RTCP \<Rightarrow> r_tuple R from
   | RTC_PKT_CHANNEL_DATA \<Rightarrow> None
   | RTC_PKT_UNKNOWN \<Rightarrow> None)"

lemma dispatch_other:
  "rtc_stun_parse data = Some (Inl e) \<Longrightarrow> listener_on_packet net mem l RTC_PKT_STUN data from = Some (None, [], counted None l)"
  "listener_on_packet net mem l RTC_PKT_CHANNEL_DATA data from = Some (None, [], counted None l)"
  "listener_on_packet net mem l RTC_PKT_UNKNOWN data from = Some (None, [], counted None l)"
  by (simp_all add: listener_on_packet_def listener_route_stun_def counted_def)

lemma dispatch_any:
  assumes "listener_rep net l R"
  shows "listener_on_packet net mem l type data from =
    Some (dispatch_target R type data from, [], counted (dispatch_target R type data from) l)"
proof (cases type)
  case RTC_PKT_STUN
  obtain r where r: "rtc_stun_parse data = Some r" using stun_parse_returns by blast
  show ?thesis using RTC_PKT_STUN r dispatch_stun [OF assms] dispatch_other(1) by (cases r) (simp_all add: dispatch_target_def)
qed (use dispatch_media [OF assms] dispatch_other(2,3) in \<open>simp_all add: dispatch_target_def\<close>)

text \<open>
  C4. The listener dispatches every datagram along its routes: after any sequence of registrations and removals (none of its own
  candidate gathering being under way), whatever allocations fail, media and DTLS from an address go to the transport registered for that address, a
  binding request to the one its user fragment names, any other STUN message, and a binding request whose user fragment is not
  registered, to the one waiting for its transaction; everything else (unregistered sources, malformed STUN, ChannelData, unknown datagrams)
  goes to none and is counted as unhandled. No table operation loops, and no address is mistaken for another.
\<close>

theorem listener_routing:
  assumes "inet_ok net" "rtc_listener_create ready net ifs io add_io tm ann lip ss sp eu et = Some l"
  shows "\<exists>rcs l'. route_op_run net l ops = Some (rcs, l') \<and> length rcs = length ops \<and>
    (\<forall>mem type data from. listener_on_packet net mem l' type data from =
       Some (dispatch_target (routes_run no_routes rcs ops) type data from, [],
         counted (dispatch_target (routes_run no_routes rcs ops) type data from) l'))"
proof -
  obtain rcs l' where r: "route_op_run net l ops = Some (rcs, l')" "length rcs = length ops"
      "listener_rep net l' (routes_run no_routes rcs ops)"
    using route_op_run_rep [OF assms(1) create_fresh [OF assms(2)]] by blast
  show ?thesis using r(1,2) dispatch_any [OF r(3)] by blast
qed

text \<open>Inet functions of the witnesses: decimal and hexadecimal texts.\<close>

definition demo_net :: inet where
  "demo_net = \<lparr>n_pton4 = \<lambda>s. Some (of_nat (undec s)), n_pton6 = \<lambda>s. None, n_ntop4 = \<lambda>n a. Some (dec (unat a)),
     n_ntop6 = \<lambda>n b. Some (hex_bytes b), n_resolve = \<lambda>s p. None, n_sendto = \<lambda>d a. (length d, False)\<rparr>"

lemma hex_no_bar: "124 \<notin> set (hex_bytes bs)"
proof -
  have "hex_digit n \<noteq> 124" if "n < 16" for n
    using unat_hex_digit [OF that] that by (auto split: if_splits)
  moreover have "unat b div 16 < 16" for b :: u8 using unat_range(1) [of b] by auto
  ultimately have "\<forall>b :: u8. hex_digit (unat b div 16) \<noteq> 124 \<and> hex_digit (unat b mod 16) \<noteq> 124" by simp
  then show ?thesis unfolding hex_bytes_def by fastforce
qed

lemma demo_net_ok: "inet_ok demo_net"
  by (simp add: inet_ok_def demo_net_def dec_no_bar hex_no_bar word_unat_eq_iff)

definition demo_listener :: "nat rtc_listener option" where
  "demo_listener = rtc_listener_create True demo_net None (Inr (io_demo\<lparr>io_local_addr := Addr_In 7 1\<rparr>)) RTC_OK 1
     (Some [49]) None None 0 True False"

lemma demo_listener_Some: "\<exists>l. demo_listener = Some l"
  by (simp add: demo_listener_def rtc_listener_create_def listener_gather_host_candidates_def rtc_packet_io_get_local_addr_def
      rtc_addr_to_string_def demo_net_def listener_add_host_address_def listener_candidate_from_address_def
      listener_add_candidate_def ICE_MAX_CANDIDATES_def Let_def)

theorem listener_routing_witness:
  "\<exists>l rcs l'. demo_listener = Some l \<and> route_op_run demo_net l [Reg_tuple (True, True, True) (Addr_In 5 1) 9] = Some (rcs, l') \<and>
    listener_on_packet demo_net (True, True, True) l' RTC_PKT_RTP [0x80] (Addr_In 5 1) =
      Some (if rcs = [RTC_OK] then Some 9 else None, [], counted (if rcs = [RTC_OK] then Some 9 else None) l')"
proof -
  let ?ops = "[Reg_tuple (True, True, True) (Addr_In 5 1) 9] :: nat route_op list"
  obtain l where l: "demo_listener = Some l" using demo_listener_Some by blast
  from listener_routing [OF demo_net_ok this [unfolded demo_listener_def], of ?ops]
  obtain rcs l' where r: "route_op_run demo_net l ?ops = Some (rcs, l')" "length rcs = 1"
      "listener_on_packet demo_net (True, True, True) l' RTC_PKT_RTP [0x80] (Addr_In 5 1) =
        Some (dispatch_target (routes_run no_routes rcs ?ops) RTC_PKT_RTP [0x80] (Addr_In 5 1), [],
          counted (dispatch_target (routes_run no_routes rcs ?ops) RTC_PKT_RTP [0x80] (Addr_In 5 1)) l')"
    by auto
  obtain rc where rc: "rcs = [rc]" using r(2) by (cases rcs) auto
  have "dispatch_target (routes_run no_routes rcs ?ops) RTC_PKT_RTP [0x80] (Addr_In 5 1) =
      (if rcs = [RTC_OK] then Some (9 :: nat) else None)" by (simp add: rc no_routes_def dispatch_target_def)
  with r(1,3) l show ?thesis by (intro exI conjI) simp_all
qed

end
