(* ===== verification/Dtls.thy ===== *)
theory Dtls
  imports Prelude
begin

text \<open>
  \<^verbatim>\<open>rtc/src/rtc_dtls.c\<close>: the DTLS session of a transport. OpenSSL is a parameter: a record of what the calls
  return over an abstract session \<open>'s\<close>. The write side of the session is a memory buffer, a plain byte
  stream that is cut into datagrams of at most 2048 bytes; sending is an action on the world \<open>'w\<close>
  of the caller. \<open>None\<close> is a call on a session that is not there.
\<close>

subsection \<open>Data\<close>

datatype rtc_dtls_state =
  RTC_DTLS_STATE_NEW | RTC_DTLS_STATE_CONNECTING | RTC_DTLS_STATE_CONNECTED | RTC_DTLS_STATE_FAILED | RTC_DTLS_STATE_CLOSED

datatype rtc_dtls_role = RTC_DTLS_ROLE_CLIENT | RTC_DTLS_ROLE_SERVER

datatype srtp_profile_id = SRTP_AEAD_AES_256_GCM | SRTP_AEAD_AES_128_GCM | SRTP_AES128_CM_SHA1_80

datatype handshake = HS_complete | HS_want_io | HS_error

text \<open>Session set-up, input, one handshake step, the retransmission timer, the selected profile, the exporter, and
  reading and writing of application data; the calls that write return the bytes added to the
  output buffer.\<close>

record 's openssl =
  ssl_certificate :: "bytes option"
  ssl_setup :: "rtc_dtls_role \<Rightarrow> 's option"
  ssl_feed :: "'s \<Rightarrow> bytes \<Rightarrow> 's"
  ssl_do_handshake :: "'s \<Rightarrow> handshake \<times> bytes \<times> 's"
  ssl_handle_timeout :: "'s \<Rightarrow> bool \<times> bytes \<times> 's"
  ssl_selected_profile :: "'s \<Rightarrow> srtp_profile_id option"
  ssl_export_keying_material :: "'s \<Rightarrow> nat \<Rightarrow> bytes option"
  ssl_read :: "'s \<Rightarrow> bytes list \<times> 's"
  ssl_write :: "'s \<Rightarrow> bytes \<Rightarrow> bool \<times> bytes \<times> 's"

definition RTC_DTLS_FINGERPRINT_SIZE :: nat where "RTC_DTLS_FINGERPRINT_SIZE = 96"
definition RTC_SRTP_MASTER_KEY_LEN :: nat where "RTC_SRTP_MASTER_KEY_LEN = 16"
definition RTC_SRTP_MASTER_SALT_LEN :: nat where "RTC_SRTP_MASTER_SALT_LEN = 14"

text \<open>The key fields hold the bytes copied into them.\<close>

record 's rtc_dtls_transport =
  d_ssl :: "'s option"
  d_wbio :: bytes
  d_cert :: bool
  d_state :: rtc_dtls_state
  d_role :: rtc_dtls_role
  d_local_fingerprint :: bytes
  d_client_key :: bytes
  d_client_salt :: bytes
  d_server_key :: bytes
  d_server_salt :: bytes
  d_aead_gcm :: bool
  d_key_len :: nat
  d_salt_len :: nat
  d_keys_ready :: bool

subsection \<open>Operations\<close>

text \<open>Colon-separated upper-case hexadecimal digits of the certificate's digest. A separator is dropped, and a
  pair cut, where the buffer ends.\<close>

definition upper_hex :: "nat \<Rightarrow> u8" where
  "upper_hex n = (if n < 10 then of_nat (48 + n) else of_nat (55 + n))"

fun fingerprint_loop :: "nat \<Rightarrow> nat \<Rightarrow> bytes \<Rightarrow> bytes \<Rightarrow> bytes" where
  "fingerprint_loop fp_size i out [] = out"
| "fingerprint_loop fp_size i out (d # ds) =
     (let out = (if i > 0 \<and> length out < fp_size - 1 then out @ [58] else out);
          hex = [upper_hex (unat d div 16), upper_hex (unat d mod 16)]
      in fingerprint_loop fp_size (Suc i) (out @ hex) ds)"

definition dtls_generate_cert :: "'s openssl \<Rightarrow> rtc_err + bytes" where
  "dtls_generate_cert S =
    (case ssl_certificate S of
       None \<Rightarrow> Inl RTC_ERR_SSL
     | Some digest \<Rightarrow> Inr (fingerprint_loop RTC_DTLS_FINGERPRINT_SIZE 0 [] digest))"

definition dtls_close_ssl :: "'s rtc_dtls_transport \<Rightarrow> 's rtc_dtls_transport" where
  "dtls_close_ssl d = d\<lparr>d_ssl := None, d_wbio := []\<rparr>"

definition dtls_setup_ssl :: "'s openssl \<Rightarrow> 's rtc_dtls_transport \<Rightarrow> rtc_dtls_role \<Rightarrow> rtc_err \<times> 's rtc_dtls_transport" where
  "dtls_setup_ssl S d role =
    (if \<not> d_cert d then (RTC_ERR_INVALID, d)
     else case ssl_setup S role of
       None \<Rightarrow> (RTC_ERR_SSL, dtls_close_ssl d)
     | Some s \<Rightarrow> (RTC_OK, d\<lparr>d_ssl := Some s, d_wbio := [], d_state := RTC_DTLS_STATE_NEW, d_role := role,
         d_keys_ready := False, d_aead_gcm := False, d_key_len := RTC_SRTP_MASTER_KEY_LEN,
         d_salt_len := RTC_SRTP_MASTER_SALT_LEN, d_client_key := [], d_client_salt := [], d_server_key := [],
         d_server_salt := []\<rparr>))"

definition rtc_dtls_close :: "'s rtc_dtls_transport \<Rightarrow> 's rtc_dtls_transport" where
  "rtc_dtls_close d = (dtls_close_ssl d)\<lparr>d_cert := False, d_state := RTC_DTLS_STATE_CLOSED\<rparr>"

definition dtls_zero :: "'s rtc_dtls_transport" where
  "dtls_zero = \<lparr>d_ssl = None, d_wbio = [], d_cert = False, d_state = RTC_DTLS_STATE_NEW, d_role = RTC_DTLS_ROLE_CLIENT,
     d_local_fingerprint = [], d_client_key = [], d_client_salt = [], d_server_key = [], d_server_salt = [],
     d_aead_gcm = False, d_key_len = 0, d_salt_len = 0, d_keys_ready = False\<rparr>"

definition rtc_dtls_init :: "'s openssl \<Rightarrow> rtc_dtls_role \<Rightarrow> rtc_err \<times> 's rtc_dtls_transport" where
  "rtc_dtls_init S role =
    (case dtls_generate_cert S of
       Inl e \<Rightarrow> (e, dtls_zero)
     | Inr fp \<Rightarrow>
         let (rc, d) = dtls_setup_ssl S (dtls_zero\<lparr>d_cert := True, d_local_fingerprint := fp\<rparr>) role
         in if rc \<noteq> RTC_OK then (rc, rtc_dtls_close d) else (RTC_OK, d))"

definition rtc_dtls_set_role :: "'s openssl \<Rightarrow> 's rtc_dtls_transport \<Rightarrow> rtc_dtls_role \<Rightarrow> rtc_err \<times> 's rtc_dtls_transport" where
  "rtc_dtls_set_role S d role =
    (if \<not> d_cert d then (RTC_ERR_INVALID, d)
     else if d_state d \<noteq> RTC_DTLS_STATE_NEW then (RTC_ERR_INVALID, d)
     else if d_role d = role then (RTC_OK, d)
     else
       let (rc, d') = dtls_setup_ssl S (dtls_close_ssl d) role
       in if rc \<noteq> RTC_OK then (rc, d'\<lparr>d_state := RTC_DTLS_STATE_FAILED\<rparr>) else (RTC_OK, d'))"

definition rtc_dtls_get_fingerprint :: "'s rtc_dtls_transport \<Rightarrow> bytes" where
  "rtc_dtls_get_fingerprint d = d_local_fingerprint d"

text \<open>The flush stops at the first datagram that cannot be sent, which is lost; the rest stays buffered.\<close>

function dtls_flush :: "(bytes \<Rightarrow> 'w \<Rightarrow> rtc_err \<times> 'w) \<Rightarrow> bytes \<Rightarrow> 'w \<Rightarrow> rtc_err \<times> bytes \<times> 'w" where
  "dtls_flush send wbio w =
    (if wbio = [] then (RTC_OK, [], w)
     else
       let (rc, w') = send (take 2048 wbio) w
       in if rc \<noteq> RTC_OK then (rc, drop 2048 wbio, w') else dtls_flush send (drop 2048 wbio) w')"
  by auto
termination by (relation "measure (\<lambda>(send, wbio, w). length wbio)") auto

declare dtls_flush.simps [simp del]

definition dtls_flush_wbio ::
  "(bytes \<Rightarrow> 'w \<Rightarrow> rtc_err \<times> 'w) \<Rightarrow> 's rtc_dtls_transport \<Rightarrow> 'w \<Rightarrow> rtc_err \<times> 's rtc_dtls_transport \<times> 'w" where
  "dtls_flush_wbio send d w =
    (let (rc, rest, w') = dtls_flush send (d_wbio d) w in (rc, d\<lparr>d_wbio := rest\<rparr>, w'))"

definition rtc_dtls_handshake ::
  "'s openssl \<Rightarrow> (bytes \<Rightarrow> 'w \<Rightarrow> rtc_err \<times> 'w) \<Rightarrow> 's rtc_dtls_transport \<Rightarrow> 'w \<Rightarrow>
   (rtc_err \<times> 's rtc_dtls_transport \<times> 'w) option" where
  "rtc_dtls_handshake S send d w =
    (case d_ssl d of
       None \<Rightarrow> None
     | Some s \<Rightarrow>
         let (ret, out, s') = ssl_do_handshake S s;
             (_, d', w') = dtls_flush_wbio send (d\<lparr>d_ssl := Some s', d_wbio := d_wbio d @ out, d_state := RTC_DTLS_STATE_CONNECTING\<rparr>) w
         in Some (case ret of
              HS_complete \<Rightarrow> (RTC_OK, d'\<lparr>d_state := RTC_DTLS_STATE_CONNECTED\<rparr>, w')
            | HS_want_io \<Rightarrow> (RTC_OK, d', w')
            | HS_error \<Rightarrow> (RTC_ERR_SSL, d'\<lparr>d_state := RTC_DTLS_STATE_FAILED\<rparr>, w')))"

definition rtc_dtls_retransmit ::
  "'s openssl \<Rightarrow> (bytes \<Rightarrow> 'w \<Rightarrow> rtc_err \<times> 'w) \<Rightarrow> 's rtc_dtls_transport \<Rightarrow> 'w \<Rightarrow>
   (rtc_err \<times> 's rtc_dtls_transport \<times> 'w) option" where
  "rtc_dtls_retransmit S send d w =
    (if d_state d \<noteq> RTC_DTLS_STATE_CONNECTING then Some (RTC_OK, d, w)
     else case d_ssl d of
       None \<Rightarrow> None
     | Some s \<Rightarrow>
         let (fired, out, s') = ssl_handle_timeout S s;
             d' = d\<lparr>d_ssl := Some s', d_wbio := d_wbio d @ out\<rparr>
         in if fired then (let (_, d'', w') = dtls_flush_wbio send d' w in Some (RTC_OK, d'', w'))
            else Some (RTC_OK, d', w))"

text \<open>Writing to and flushing the buffers of a closed session does nothing.\<close>

definition rtc_dtls_recv ::
  "'s openssl \<Rightarrow> (bytes \<Rightarrow> 'w \<Rightarrow> rtc_err \<times> 'w) \<Rightarrow> 's rtc_dtls_transport \<Rightarrow> bytes \<Rightarrow> 'w \<Rightarrow>
   (rtc_err \<times> 's rtc_dtls_transport \<times> 'w) option" where
  "rtc_dtls_recv S send d data w =
    (case d_ssl d of
       None \<Rightarrow> if d_state d = RTC_DTLS_STATE_CONNECTING \<or> d_state d = RTC_DTLS_STATE_NEW then None else Some (RTC_OK, d, w)
     | Some s \<Rightarrow>
         let d' = d\<lparr>d_ssl := Some (ssl_feed S s data)\<rparr>
         in if d_state d' = RTC_DTLS_STATE_CONNECTING \<or> d_state d' = RTC_DTLS_STATE_NEW
            then rtc_dtls_handshake S send d' w
            else (let (_, d'', w') = dtls_flush_wbio send d' w in Some (RTC_OK, d'', w')))"

text \<open>The exported material is laid out as client key, server key, client salt and server salt.\<close>

definition profile_lens :: "srtp_profile_id option \<Rightarrow> bool \<times> nat \<times> nat" where
  "profile_lens prof = (case prof of
     Some SRTP_AEAD_AES_256_GCM \<Rightarrow> (True, 32, 12)
   | Some SRTP_AEAD_AES_128_GCM \<Rightarrow> (True, RTC_SRTP_MASTER_KEY_LEN, 12)
   | _ \<Rightarrow> (False, RTC_SRTP_MASTER_KEY_LEN, RTC_SRTP_MASTER_SALT_LEN))"

definition rtc_dtls_export_srtp_keys :: "'s openssl \<Rightarrow> 's rtc_dtls_transport \<Rightarrow> (rtc_err \<times> 's rtc_dtls_transport) option" where
  "rtc_dtls_export_srtp_keys S d =
    (if d_state d \<noteq> RTC_DTLS_STATE_CONNECTED then Some (RTC_ERR_SSL, d)
     else case d_ssl d of
       None \<Rightarrow> None
     | Some s \<Rightarrow>
         let (gcm, key_len, salt_len) = profile_lens (ssl_selected_profile S s);
             d = d\<lparr>d_aead_gcm := gcm\<rparr>
         in (case ssl_export_keying_material S s (2 * (key_len + salt_len)) of
               None \<Rightarrow> Some (RTC_ERR_SSL, d)
             | Some material \<Rightarrow>
                 do {
                   ck \<leftarrow> rd_bytes material 0 key_len;
                   sk \<leftarrow> rd_bytes material key_len key_len;
                   cs \<leftarrow> rd_bytes material (2 * key_len) salt_len;
                   ss \<leftarrow> rd_bytes material (2 * key_len + salt_len) salt_len;
                   Some (RTC_OK, d\<lparr>d_client_key := ck, d_server_key := sk, d_client_salt := cs, d_server_salt := ss,
                     d_key_len := key_len, d_salt_len := salt_len, d_keys_ready := True\<rparr>)
                 }))"

subsection \<open>The flush and the fingerprint\<close>

text \<open>Everything buffered goes out, in order, when the sends succeed.\<close>

fun send_all :: "(bytes \<Rightarrow> 'w \<Rightarrow> rtc_err \<times> 'w) \<Rightarrow> bytes list \<Rightarrow> 'w \<Rightarrow> 'w" where
  "send_all send [] w = w"
| "send_all send (p # ps) w = send_all send ps (snd (send p w))"

lemma dtls_flush_complete:
  assumes "\<And>p w. fst (send p w) = RTC_OK"
  shows "\<exists>ps. concat ps = wbio \<and> (\<forall>p \<in> set ps. 0 < length p \<and> length p \<le> 2048) \<and>
    dtls_flush send wbio w = (RTC_OK, [], send_all send ps w)"
proof (induction "length wbio" arbitrary: wbio w rule: less_induct)
  case less
  show ?case
  proof (cases "wbio = []")
    case True
    then show ?thesis by (intro exI [of _ "[]"]) (simp add: dtls_flush.simps)
  next
    case False
    then have "length (drop 2048 wbio) < length wbio" by simp
    from less [OF this, of "snd (send (take 2048 wbio) w)"] obtain ps where ps: "concat ps = drop 2048 wbio"
        "\<forall>p \<in> set ps. 0 < length p \<and> length p \<le> 2048"
        "dtls_flush send (drop 2048 wbio) (snd (send (take 2048 wbio) w)) =
          (RTC_OK, [], send_all send ps (snd (send (take 2048 wbio) w)))" by blast
    then show ?thesis using False assms
      by (intro exI [of _ "take 2048 wbio # ps"]) (simp add: dtls_flush.simps [of send wbio w] case_prod_unfold Let_def)
  qed
qed

end
