(* ===== verification/Transport.thy ===== *)
theory Transport
  imports Dtls Listener Rtp_Demux Srtp
begin

text \<open>
  \<^verbatim>\<open>rtc/src/rtc_transport.c\<close>: one encrypted endpoint. It owns the ICE state of its remote, the DTLS session, the two SRTP
  contexts, the RTP demultiplexer and the transport-wide congestion control, and is reached through the
  routes it registers with the shared listener.

  All control operations and packet handlers run on the worker's loop thread (\<^verbatim>\<open>tx_op_invoke\<close>), so that each is
  one atomic step here. \<open>self\<close> is the route of the transport, \<open>tm\<close> the handle the worker gives for a new timer,
  \<open>mem\<close> the allocator. The callbacks a step makes and the datagrams it sends are returned with the new
  state. The bandwidth estimator's calls are events too.
\<close>

subsection \<open>State\<close>

datatype rtc_ice_mode = RTC_ICE_MODE_FULL | RTC_ICE_MODE_LITE

record ('s, 'c) rtc_transport =
  t_ice_ufrag :: bytes
  t_ice_pwd :: bytes
  t_remote_ufrag :: bytes
  t_remote_pwd :: bytes
  t_ice_mode :: rtc_ice_mode
  t_enable_sctp :: bool
  t_enable_twcc :: bool
  t_initial_outgoing_bitrate_bps :: u32
  t_dtls :: "'s rtc_dtls_transport"
  t_srtp_send :: "rtc_srtp_ctx option"
  t_srtp_recv :: "rtc_srtp_ctx option"
  t_on_rtp :: bool
  t_rtp_demux :: "'c rtc_rtp_demux"
  t_resolve :: "(rtc_rtp_packet \<Rightarrow> 'c option) option"
  t_on_rtcp :: bool
  t_on_data :: bool
  t_selected_remote :: "rtc_addr option"
  t_remote_candidate :: "rtc_addr option"
  t_remote_ice_valid :: bool
  t_ice_txn :: "bytes option"
  t_ice_timer :: u64
  t_ice_check_count :: int
  t_srtp_ready :: bool
  t_dtls_timer :: u64
  t_closed :: bool
  t_packets_received :: u64
  t_bytes_received :: u64
  t_dtls_packets_received :: u64
  t_twcc_enabled :: bool
  t_twcc_ext_id :: u8
  t_twcc_local_ssrc :: u32
  t_twcc_remote_ssrc :: u32
  t_twcc_have_packets :: bool
  t_twcc_sender :: rtc_twcc_sender
  t_twcc_receiver :: rtc_twcc_receiver
  t_bwe :: bool
  t_twcc_fb_timer :: u64
  t_on_bitrate :: bool

datatype 'c transport_event =
    Rtp_sink 'c rtc_rtp_packet
  | Rtp_raw rtc_rtp_packet
  | Rtcp_in bytes
  | Data_in bytes
  | Bwe_feedback u64 u64 u16
  | Bwe_loss u8

text \<open>The fixed environment: the inet functions, OpenSSL's sessions, ciphers and MAC.\<close>

record 's tenv =
  e_net :: inet
  e_ssl :: "'s openssl"
  e_crypto :: srtp_crypto
  e_hmac :: "bytes \<Rightarrow> bytes \<Rightarrow> bytes"

definition SRTP_MAX_PACKET :: nat where "SRTP_MAX_PACKET = 1500"
definition RTCP_MAX_PACKET :: nat where "RTCP_MAX_PACKET = 1400"
definition RTC_TRANSPORT_RTCP_PROTECT_OVERHEAD :: nat where "RTC_TRANSPORT_RTCP_PROTECT_OVERHEAD = 20"

type_synonym sent = "(bytes \<times> rtc_addr) list"

subsection \<open>Sending\<close>

definition rtc_transport_send_raw ::
  "'s tenv \<Rightarrow> ('s, 'c) rtc_transport \<Rightarrow> 'r rtc_listener \<Rightarrow> bytes \<Rightarrow> rtc_err \<times> sent \<times> 'r rtc_listener" where
  "rtc_transport_send_raw E t l data =
    (if length data = 0 then (RTC_ERR_INVALID, [], l)
     else case t_selected_remote t of
       None \<Rightarrow> (RTC_ERR_INVALID, [], l)
     | Some remote \<Rightarrow> rtc_listener_send_to (e_net E) l data remote)"

definition rtc_transport_send_rtp ::
  "'s tenv \<Rightarrow> ('s, 'c) rtc_transport \<Rightarrow> 'r rtc_listener \<Rightarrow> bytes \<Rightarrow> nat \<Rightarrow>
   (rtc_err \<times> bytes \<times> sent \<times> ('s, 'c) rtc_transport \<times> 'r rtc_listener) option" where
  "rtc_transport_send_rtp E t l buf buf_cap =
    (if \<not> t_srtp_ready t \<or> t_selected_remote t = None then Some (RTC_ERR_INVALID, buf, [], t, l)
     else case t_srtp_send t of
       None \<Rightarrow> None
     | Some ctx \<Rightarrow> do {
         (r, ctx') \<leftarrow> rtc_srtp_protect (e_crypto E) ctx buf buf_cap;
         let t' = t\<lparr>t_srtp_send := Some ctx'\<rparr>;
         case r of
           Inl e \<Rightarrow> Some (e, buf, [], t', l)
         | Inr buf' \<Rightarrow> (let (rc, out, l') = rtc_transport_send_raw E t' l buf' in Some (rc, buf', out, t', l'))
       })"

definition rtc_transport_send_rtcp ::
  "'s tenv \<Rightarrow> ('s, 'c) rtc_transport \<Rightarrow> 'r rtc_listener \<Rightarrow> bytes \<Rightarrow> nat \<Rightarrow>
   (rtc_err \<times> bytes \<times> sent \<times> ('s, 'c) rtc_transport \<times> 'r rtc_listener) option" where
  "rtc_transport_send_rtcp E t l buf buf_cap =
    (if \<not> t_srtp_ready t \<or> t_selected_remote t = None then Some (RTC_ERR_INVALID, buf, [], t, l)
     else case t_srtp_send t of
       None \<Rightarrow> None
     | Some ctx \<Rightarrow> do {
         (r, ctx') \<leftarrow> rtc_srtp_protect_rtcp (e_crypto E) ctx buf buf_cap;
         let t' = t\<lparr>t_srtp_send := Some ctx'\<rparr>;
         case r of
           Inl e \<Rightarrow> Some (e, buf, [], t', l)
         | Inr buf' \<Rightarrow> (let (rc, out, l') = rtc_transport_send_raw E t' l buf' in Some (rc, buf', out, t', l'))
       })"

text \<open>The DTLS session sends through the transport: its world is the listener and the datagrams sent so far.\<close>

definition transport_dtls_send ::
  "'s tenv \<Rightarrow> ('s, 'c) rtc_transport \<Rightarrow> bytes \<Rightarrow> 'r rtc_listener \<times> sent \<Rightarrow> rtc_err \<times> 'r rtc_listener \<times> sent" where
  "transport_dtls_send E t data w =
    (let (rc, out, l') = rtc_transport_send_raw E t (fst w) data in (rc, l', snd w @ out))"

subsection \<open>ICE\<close>

definition transport_cancel_ice_timer :: "('s, 'c) rtc_transport \<Rightarrow> ('s, 'c) rtc_transport" where
  "transport_cancel_ice_timer t = t\<lparr>t_ice_timer := RTC_WORKER_TIMER_INVALID\<rparr>"

definition transport_unregister_ice_txn ::
  "route_mem \<Rightarrow> ('s, 'c) rtc_transport \<Rightarrow> 'r rtc_listener \<Rightarrow> (('s, 'c) rtc_transport \<times> 'r rtc_listener) option" where
  "transport_unregister_ice_txn mem t l =
    (case t_ice_txn t of
       None \<Rightarrow> Some (t, l)
     | Some txn \<Rightarrow> do {
         l' \<leftarrow> rtc_listener_unregister_stun_txn mem l txn;
         Some (t\<lparr>t_ice_txn := None\<rparr>, l')
       })"

text \<open>The credentials of the remote are arrays of 8 and 24 bytes, read up to their terminator: an array without one is read past its end.\<close>

definition array_string :: "bytes \<Rightarrow> bytes option" where
  "array_string arr = (if 0 \<in> set arr then Some (c_string arr) else None)"

definition ice_username :: "bytes \<Rightarrow> bytes \<Rightarrow> bytes" where
  "ice_username remote_ufrag ice_ufrag = bounded_copy 18 (remote_ufrag @ [58] @ ice_ufrag)"

definition transport_send_ice_check ::
  "'s tenv \<Rightarrow> route_mem \<Rightarrow> 'r \<Rightarrow> bytes \<Rightarrow> ('s, 'c) rtc_transport \<Rightarrow> 'r rtc_listener \<Rightarrow>
   (rtc_err \<times> sent \<times> ('s, 'c) rtc_transport \<times> 'r rtc_listener) option" where
  "transport_send_ice_check E mem self txn t l =
    (case t_remote_candidate t of
       None \<Rightarrow> Some (RTC_ERR_INVALID, [], t, l)
     | Some cand \<Rightarrow>
         if \<not> t_remote_ice_valid t then Some (RTC_ERR_INVALID, [], t, l)
         else do {
           remote_ufrag \<leftarrow> array_string (t_remote_ufrag t);
           remote_pwd \<leftarrow> array_string (t_remote_pwd t);
           r \<leftarrow> rtc_stun_build_binding_request (e_hmac E) txn (Some (ice_username remote_ufrag (t_ice_ufrag t))) (Some remote_pwd)
                  0x7E0000FF True 0x123456789ABCDEF0 True;
           case r of
             Inl e \<Rightarrow> Some (e, [], t, l)
           | Inr req \<Rightarrow> do {
               (t, l) \<leftarrow> transport_unregister_ice_txn mem t l;
               (rc, l) \<leftarrow> rtc_listener_register_stun_txn mem l (sm_txn_id req) (Route_to self);
               if rc \<noteq> RTC_OK then Some (rc, [], t, l)
               else do {
                 let t = t\<lparr>t_ice_txn := Some (sm_txn_id req)\<rparr>;
                 let (rc, out, l) = rtc_listener_send_to (e_net E) l (sm_buf req) cand;
                 if rc \<noteq> RTC_OK then Some (rc, out, t, l)
                 else do {
                   n \<leftarrow> as_int (t_ice_check_count t + 1);
                   Some (rc, out, t\<lparr>t_ice_check_count := n\<rparr>, l)
                 }
               }
             }
         })"

definition transport_arm_ice_timer :: "u64 \<Rightarrow> ('s, 'c) rtc_transport \<Rightarrow> ('s, 'c) rtc_transport" where
  "transport_arm_ice_timer tm t =
    (if t_selected_remote t \<noteq> None \<or> t_closed t then t
     else if t_ice_timer t \<noteq> RTC_WORKER_TIMER_INVALID then t
     else t\<lparr>t_ice_timer := tm\<rparr>)"

definition transport_ice_timer ::
  "'s tenv \<Rightarrow> route_mem \<Rightarrow> 'r \<Rightarrow> bytes \<Rightarrow> u64 \<Rightarrow> ('s, 'c) rtc_transport \<Rightarrow> 'r rtc_listener \<Rightarrow>
   (sent \<times> ('s, 'c) rtc_transport \<times> 'r rtc_listener) option" where
  "transport_ice_timer E mem self txn tm t0 l =
    (let t = t0\<lparr>t_ice_timer := RTC_WORKER_TIMER_INVALID\<rparr>
     in if t_closed t \<or> t_selected_remote t \<noteq> None then Some ([], t, l)
        else if t_ice_check_count t \<ge> 120 then Some ([], t, l)
        else do {
          (rc, out, t, l) \<leftarrow> transport_send_ice_check E mem self txn t l;
          Some (out, if rc = RTC_OK then transport_arm_ice_timer tm t else t, l)
        })"

subsection \<open>DTLS and the export of the SRTP keys\<close>

definition transport_cancel_dtls_timer :: "('s, 'c) rtc_transport \<Rightarrow> ('s, 'c) rtc_transport" where
  "transport_cancel_dtls_timer t = t\<lparr>t_dtls_timer := RTC_WORKER_TIMER_INVALID\<rparr>"

definition transport_arm_dtls_timer :: "u64 \<Rightarrow> ('s, 'c) rtc_transport \<Rightarrow> ('s, 'c) rtc_transport" where
  "transport_arm_dtls_timer tm t =
    (if d_state (t_dtls t) \<noteq> RTC_DTLS_STATE_CONNECTING \<or> t_closed t then t
     else if t_dtls_timer t \<noteq> RTC_WORKER_TIMER_INVALID then t
     else t\<lparr>t_dtls_timer := tm\<rparr>)"

definition transport_dtls_timer ::
  "'s tenv \<Rightarrow> u64 \<Rightarrow> ('s, 'c) rtc_transport \<Rightarrow> 'r rtc_listener \<Rightarrow> (sent \<times> ('s, 'c) rtc_transport \<times> 'r rtc_listener) option" where
  "transport_dtls_timer E tm t0 l =
    (let t = t0\<lparr>t_dtls_timer := RTC_WORKER_TIMER_INVALID\<rparr>
     in if t_closed t \<or> d_state (t_dtls t) \<noteq> RTC_DTLS_STATE_CONNECTING then Some ([], t, l)
        else do {
          (_, d, (l', out)) \<leftarrow> rtc_dtls_retransmit (e_ssl E) (transport_dtls_send E t) (t_dtls t) (l, []);
          Some (out, transport_arm_dtls_timer tm (t\<lparr>t_dtls := d\<rparr>), l')
        })"

definition srtp_profile_of :: "'s rtc_dtls_transport \<Rightarrow> rtc_srtp_profile" where
  "srtp_profile_of d =
    (if \<not> d_aead_gcm d then RTC_SRTP_PROFILE_AES128_CM_SHA1_80
     else if d_key_len d \<ge> 32 then RTC_SRTP_PROFILE_AEAD_AES_256_GCM
     else RTC_SRTP_PROFILE_AEAD_AES_128_GCM)"

definition send_keys :: "'s rtc_dtls_transport \<Rightarrow> bytes \<times> bytes" where
  "send_keys d = (if d_role d = RTC_DTLS_ROLE_CLIENT then (d_client_key d, d_client_salt d) else (d_server_key d, d_server_salt d))"

definition recv_keys :: "'s rtc_dtls_transport \<Rightarrow> bytes \<times> bytes" where
  "recv_keys d = (if d_role d = RTC_DTLS_ROLE_CLIENT then (d_server_key d, d_server_salt d) else (d_client_key d, d_client_salt d))"

text \<open>\<open>locks\<close>: whether the locks of the two contexts can be created.\<close>

definition transport_try_export_srtp ::
  "'s tenv \<Rightarrow> bool \<times> bool \<Rightarrow> ('s, 'c) rtc_transport \<Rightarrow> ('s, 'c) rtc_transport option" where
  "transport_try_export_srtp E locks t =
    (if t_srtp_ready t \<or> d_state (t_dtls t) \<noteq> RTC_DTLS_STATE_CONNECTED then Some t
     else do {
       let t = transport_cancel_dtls_timer t;
       (rc, d) \<leftarrow> rtc_dtls_export_srtp_keys (e_ssl E) (t_dtls t);
       if rc \<noteq> RTC_OK then Some (t\<lparr>t_dtls := d\<lparr>d_state := RTC_DTLS_STATE_FAILED\<rparr>\<rparr>)
       else
         let profile = srtp_profile_of d; (send_key, send_salt) = send_keys d; (recv_key, recv_salt) = recv_keys d
         in case rtc_srtp_init_profile (e_crypto E) (fst locks) profile send_key send_salt of
              Inl _ \<Rightarrow> Some (t\<lparr>t_dtls := d\<lparr>d_state := RTC_DTLS_STATE_FAILED\<rparr>\<rparr>)
            | Inr tx \<Rightarrow>
                (case rtc_srtp_init_profile (e_crypto E) (snd locks) profile recv_key recv_salt of
                   Inl _ \<Rightarrow> Some (t\<lparr>t_dtls := d\<lparr>d_state := RTC_DTLS_STATE_FAILED\<rparr>, t_srtp_send := Some (rtc_srtp_close tx)\<rparr>)
                 | Inr rx \<Rightarrow> Some (t\<lparr>t_dtls := d, t_srtp_send := Some tx, t_srtp_recv := Some rx, t_srtp_ready := True\<rparr>))
     })"

subsection \<open>Received media\<close>

definition transport_record_twcc_arrival :: "u64 \<Rightarrow> ('s, 'c) rtc_transport \<Rightarrow> rtc_rtp_packet \<Rightarrow> ('s, 'c) rtc_transport option" where
  "transport_record_twcc_arrival now_us t pkt =
    (if \<not> t_twcc_enabled t \<or> t_twcc_ext_id t = 0 \<or> \<not> h_extension (pkt_header pkt) \<or> pkt_ext_len pkt = 0 then Some t
     else case pkt_ext_data pkt of
       None \<Rightarrow> Some t
     | Some ext_data \<Rightarrow> do {
         r \<leftarrow> rtc_rtp_ext_parse_body ext_data (pkt_ext_len pkt) RTC_RTP_EXT_MAX_ENTRIES;
         case r of
           Inl _ \<Rightarrow> Some t
         | Inr exts \<Rightarrow>
             (case rtc_rtp_ext_find exts (t_twcc_ext_id t) of
                None \<Rightarrow> Some t
              | Some e \<Rightarrow> do {
                  tseq \<leftarrow> rtc_rtp_ext_read_transport_cc e;
                  Some (t\<lparr>t_twcc_receiver := rtc_twcc_receiver_on_packet (t_twcc_receiver t) tseq now_us,
                    t_twcc_remote_ssrc := (if t_twcc_remote_ssrc t = 0 then h_ssrc (pkt_header pkt) else t_twcc_remote_ssrc t),
                    t_twcc_have_packets := True\<rparr>)
                })
       })"

definition transport_handle_rtp ::
  "'s tenv \<Rightarrow> bool \<Rightarrow> u64 \<Rightarrow> ('s, 'c) rtc_transport \<Rightarrow> bytes \<Rightarrow> ('c transport_event list \<times> ('s, 'c) rtc_transport) option" where
  "transport_handle_rtp E mem now_us t data =
    (if \<not> t_srtp_ready t \<or> length data > SRTP_MAX_PACKET then Some ([], t)
     else case t_srtp_recv t of
       None \<Rightarrow> None
     | Some ctx \<Rightarrow> do {
         (r, ctx') \<leftarrow> rtc_srtp_unprotect (e_crypto E) ctx data;
         let t = t\<lparr>t_srtp_recv := Some ctx'\<rparr>;
         case r of
           Inl _ \<Rightarrow> Some ([], t)
         | Inr buf \<Rightarrow> do {
             p \<leftarrow> rtc_rtp_parse [] buf;
             case p of
               Inl _ \<Rightarrow> Some ([], t)
             | Inr pkt \<Rightarrow> do {
                 (delivered, dm) \<leftarrow> (if dm_ready (t_rtp_demux t)
                   then rtc_rtp_demux_dispatch mem (t_resolve t) (t_rtp_demux t) pkt else Some (None, t_rtp_demux t));
                 let evs = (case delivered of Some c \<Rightarrow> [Rtp_sink c pkt] | None \<Rightarrow> (if t_on_rtp t then [Rtp_raw pkt] else []));
                 t' \<leftarrow> transport_record_twcc_arrival now_us (t\<lparr>t_rtp_demux := dm\<rparr>) pkt;
                 Some (evs, t')
               }
           }
       })"

text \<open>The walk over a compound packet in search of transport-wide feedback.\<close>

definition twcc_feedback_events :: "rtc_twcc_sender \<Rightarrow> rtc_rtcp_twcc \<Rightarrow> 'c transport_event list" where
  "twcc_feedback_events s tw =
    concat (map (\<lambda>item. case rtc_twcc_sender_lookup s (ti_seq item) of
        None \<Rightarrow> []
      | Some p \<Rightarrow> [Bwe_feedback (tp_send_time_us p) (if ti_received item then ti_recv_time_us item else 0) (tp_size p)])
      (tf_items tw))"

function twcc_feedback_loop :: "rtc_twcc_sender \<Rightarrow> bytes \<Rightarrow> nat \<Rightarrow> 'c transport_event list option" where
  "twcc_feedback_loop s buf offset =
    (if offset + 4 \<le> length buf then do {
       b0 \<leftarrow> rd8 buf offset;
       if drop_bit 6 b0 AND 0x03 \<noteq> 2 then Some []
       else do {
         words \<leftarrow> rd16 buf (offset + 2);
         let sub_len = (unat words + 1) * 4;
         if offset + sub_len > length buf then Some []
         else do {
           sub \<leftarrow> rd_bytes buf offset sub_len;
           h \<leftarrow> rtc_rtcp_get_pt_fmt sub;
           evs \<leftarrow> (if h = Some (RTCP_PT_RTPFB, 15) then do {
               r \<leftarrow> rtc_rtcp_parse_twcc sub;
               Some (case r of Inl _ \<Rightarrow> [] | Inr tw \<Rightarrow> twcc_feedback_events s tw)
             } else Some []);
           rest \<leftarrow> twcc_feedback_loop s buf (offset + sub_len);
           Some (evs @ rest)
         }
       }
     }
     else Some [])"
  by auto
termination by (relation "measure (\<lambda>(s, buf, offset). length buf - offset)") auto

declare twcc_feedback_loop.simps [simp del]

definition transport_consume_twcc_feedback :: "('s, 'c) rtc_transport \<Rightarrow> bytes \<Rightarrow> 'c transport_event list option" where
  "transport_consume_twcc_feedback t buf =
    (if \<not> t_twcc_enabled t \<or> \<not> t_bwe t then Some [] else twcc_feedback_loop (t_twcc_sender t) buf 0)"

definition transport_handle_rtcp ::
  "'s tenv \<Rightarrow> ('s, 'c) rtc_transport \<Rightarrow> bytes \<Rightarrow> ('c transport_event list \<times> ('s, 'c) rtc_transport) option" where
  "transport_handle_rtcp E t data =
    (if \<not> t_srtp_ready t \<or> length data > SRTP_MAX_PACKET then Some ([], t)
     else if \<not> (t_on_rtcp t \<or> t_twcc_enabled t) then Some ([], t)
     else case t_srtp_recv t of
       None \<Rightarrow> None
     | Some ctx \<Rightarrow> do {
         (r, ctx') \<leftarrow> rtc_srtp_unprotect_rtcp (e_crypto E) ctx data;
         let t = t\<lparr>t_srtp_recv := Some ctx'\<rparr>;
         case r of
           Inl _ \<Rightarrow> Some ([], t)
         | Inr buf \<Rightarrow> do {
             evs \<leftarrow> transport_consume_twcc_feedback t buf;
             Some (evs @ (if t_on_rtcp t then [Rtcp_in buf] else []), t)
           }
       })"

definition transport_read_app_data :: "'s tenv \<Rightarrow> ('s, 'c) rtc_transport \<Rightarrow> ('c transport_event list \<times> ('s, 'c) rtc_transport) option" where
  "transport_read_app_data E t =
    (if \<not> t_on_data t \<or> d_state (t_dtls t) \<noteq> RTC_DTLS_STATE_CONNECTED then Some ([], t)
     else case d_ssl (t_dtls t) of
       None \<Rightarrow> None
     | Some s \<Rightarrow>
         let (msgs, s') = ssl_read (e_ssl E) s
         in Some (map Data_in msgs, t\<lparr>t_dtls := (t_dtls t)\<lparr>d_ssl := Some s'\<rparr>\<rparr>))"

text \<open>Selecting a remote: only the first one counts.\<close>

definition transport_select ::
  "'s tenv \<Rightarrow> route_mem \<Rightarrow> 'r \<Rightarrow> rtc_addr \<Rightarrow> ('s, 'c) rtc_transport \<Rightarrow> 'r rtc_listener \<Rightarrow>
   (('s, 'c) rtc_transport \<times> 'r rtc_listener) option" where
  "transport_select E mem self from t l =
    (if t_selected_remote t \<noteq> None then Some (t, l)
     else do {
       (_, l') \<leftarrow> rtc_listener_register_tuple (e_net E) mem l from (Route_to self);
       Some (t\<lparr>t_selected_remote := Some from\<rparr>, l')
     })"

record step_args =
  a_mem :: route_mem
  a_tm :: u64
  a_locks :: "bool \<times> bool"
  a_now_us :: u64

definition transport_on_stun ::
  "'s tenv \<Rightarrow> step_args \<Rightarrow> 'r \<Rightarrow> bytes \<Rightarrow> rtc_addr \<Rightarrow> ('s, 'c) rtc_transport \<Rightarrow> 'r rtc_listener \<Rightarrow>
   (sent \<times> ('s, 'c) rtc_transport \<times> 'r rtc_listener) option" where
  "transport_on_stun E a self data from t l = do {
     r \<leftarrow> rtc_stun_parse data;
     case r of
       Inl _ \<Rightarrow> Some ([], t, l)
     | Inr msg \<Rightarrow>
         if sm_type msg = STUN_BINDING_RESPONSE then
           (if t_ice_txn t \<noteq> Some (sm_txn_id msg) then Some ([], t, l)
            else do {
              (t, l) \<leftarrow> transport_unregister_ice_txn (a_mem a) t l;
              (t, l) \<leftarrow> transport_select E (a_mem a) self from (transport_cancel_ice_timer t) l;
              Some ([], t, l)
            })
         else if sm_type msg \<noteq> STUN_BINDING_REQUEST then Some ([], t, l)
         else do {
           (t, l) \<leftarrow> transport_select E (a_mem a) self from t l;
           resp \<leftarrow> rtc_stun_build_binding_response data from 128;
           case resp of
             Inl _ \<Rightarrow> Some ([], t, l)
           | Inr resp \<Rightarrow> (let (_, out, l) = rtc_listener_send_to (e_net E) l resp from in Some (out, t, l))
         }
   }"

definition transport_on_dtls ::
  "'s tenv \<Rightarrow> step_args \<Rightarrow> bytes \<Rightarrow> ('s, 'c) rtc_transport \<Rightarrow> 'r rtc_listener \<Rightarrow>
   ('c transport_event list \<times> sent \<times> ('s, 'c) rtc_transport \<times> 'r rtc_listener) option" where
  "transport_on_dtls E a data t0 l = do {
     let t = t0\<lparr>t_dtls_packets_received := t_dtls_packets_received t0 + 1\<rparr>;
     (rc, d, (l', out)) \<leftarrow> rtc_dtls_recv (e_ssl E) (transport_dtls_send E t) (t_dtls t) data (l, []);
     let t = t\<lparr>t_dtls := d\<rparr>;
     if rc \<noteq> RTC_OK then Some ([], out, t, l')
     else do {
       t \<leftarrow> transport_try_export_srtp E (a_locks a) (transport_arm_dtls_timer (a_tm a) t);
       (evs, t) \<leftarrow> transport_read_app_data E t;
       Some (evs, out, t, l')
     }
   }"

definition transport_on_packet ::
  "'s tenv \<Rightarrow> step_args \<Rightarrow> 'r \<Rightarrow> rtc_pkt_type \<Rightarrow> bytes \<Rightarrow> rtc_addr \<Rightarrow> ('s, 'c) rtc_transport \<Rightarrow> 'r rtc_listener \<Rightarrow>
   ('c transport_event list \<times> sent \<times> ('s, 'c) rtc_transport \<times> 'r rtc_listener) option" where
  "transport_on_packet E a self type data from t0 l =
    (if t_closed t0 then Some ([], [], t0, l)
     else
       let t = t0\<lparr>t_packets_received := t_packets_received t0 + 1, t_bytes_received := t_bytes_received t0 + of_nat (length data)\<rparr>
       in case type of
            RTC_PKT_STUN \<Rightarrow> do { (out, t, l) \<leftarrow> transport_on_stun E a self data from t l; Some ([], out, t, l) }
          | RTC_PKT_DTLS \<Rightarrow> transport_on_dtls E a data t l
          | RTC_PKT_RTP \<Rightarrow> do { (evs, t) \<leftarrow> transport_handle_rtp E (fst (a_mem a)) (a_now_us a) t data; Some (evs, [], t, l) }
          | RTC_PKT_RTCP \<Rightarrow> do { (evs, t) \<leftarrow> transport_handle_rtcp E t data; Some (evs, [], t, l) }
          | _ \<Rightarrow> Some ([], [], t, l))"

subsection \<open>Control operations\<close>

text \<open>The strings of the parameters are \<^verbatim>\<open>char\<close> arrays of 8 and 24 bytes.\<close>

record rtc_ice_parameters =
  ip_username_fragment :: bytes
  ip_password :: bytes
  ip_mode :: rtc_ice_mode

text \<open>\<open>ufrag_rand\<close> and \<open>pwd_rand\<close> are what the random source delivers for the two credentials.\<close>

definition rtc_transport_create ::
  "'s tenv \<Rightarrow> route_mem \<Rightarrow> 'r \<Rightarrow> (nat \<Rightarrow> bytes option) \<Rightarrow> (nat \<Rightarrow> bytes option) \<Rightarrow> bool \<Rightarrow> rtc_ice_mode \<Rightarrow> bool \<Rightarrow> bool \<Rightarrow> u32 \<Rightarrow>
   'r rtc_listener \<Rightarrow> (('s, 'c) rtc_transport option \<times> 'r rtc_listener) option" where
  "rtc_transport_create E mem self ufrag_rand pwd_rand app_buf mode sctp twcc bitrate l =
    (case (rtc_random_string ufrag_rand 8, rtc_random_string pwd_rand 24) of
       (Inr ufrag, Inr pwd) \<Rightarrow>
         if \<not> app_buf then Some (None, l)
         else
           let (rc, d) = rtc_dtls_init (e_ssl E) (if mode = RTC_ICE_MODE_FULL then RTC_DTLS_ROLE_CLIENT else RTC_DTLS_ROLE_SERVER)
           in if rc \<noteq> RTC_OK then Some (None, l)
              else do {
                (rc, l) \<leftarrow> rtc_listener_register_ufrag mem l ufrag (Route_to self);
                if rc \<noteq> RTC_OK then Some (None, l)
                else Some (Some \<lparr>t_ice_ufrag = ufrag, t_ice_pwd = pwd, t_remote_ufrag = replicate 8 0, t_remote_pwd = replicate 24 0, t_ice_mode = mode,
                  t_enable_sctp = sctp, t_enable_twcc = twcc, t_initial_outgoing_bitrate_bps = bitrate, t_dtls = d,
                  t_srtp_send = None, t_srtp_recv = None, t_on_rtp = False,
                  t_rtp_demux = \<lparr>dm_by_ssrc = rtc_u32_map_init, dm_ready = False\<rparr>, t_resolve = None, t_on_rtcp = False,
                  t_on_data = False, t_selected_remote = None, t_remote_candidate = None, t_remote_ice_valid = False,
                  t_ice_txn = None, t_ice_timer = RTC_WORKER_TIMER_INVALID, t_ice_check_count = 0, t_srtp_ready = False,
                  t_dtls_timer = RTC_WORKER_TIMER_INVALID, t_closed = False, t_packets_received = 0, t_bytes_received = 0,
                  t_dtls_packets_received = 0, t_twcc_enabled = False, t_twcc_ext_id = 0, t_twcc_local_ssrc = 0,
                  t_twcc_remote_ssrc = 0, t_twcc_have_packets = False, t_twcc_sender = rtc_twcc_sender_init,
                  t_twcc_receiver = rtc_twcc_receiver_init, t_bwe = False, t_twcc_fb_timer = RTC_WORKER_TIMER_INVALID,
                  t_on_bitrate = False\<rparr>, l)
              }
     | _ \<Rightarrow> Some (None, l))"

definition rtc_transport_get_ice_parameters :: "('s, 'c) rtc_transport \<Rightarrow> rtc_ice_parameters" where
  "rtc_transport_get_ice_parameters t =
    \<lparr>ip_username_fragment = t_ice_ufrag t @ [0], ip_password = t_ice_pwd t @ [0], ip_mode = t_ice_mode t\<rparr>"

definition rtc_transport_restart_ice ::
  "route_mem \<Rightarrow> 'r \<Rightarrow> (nat \<Rightarrow> bytes option) \<Rightarrow> (nat \<Rightarrow> bytes option) \<Rightarrow> ('s, 'c) rtc_transport \<Rightarrow> 'r rtc_listener \<Rightarrow>
   (rtc_err \<times> ('s, 'c) rtc_transport \<times> 'r rtc_listener) option" where
  "rtc_transport_restart_ice mem self ufrag_rand pwd_rand t l =
    (if t_selected_remote t \<noteq> None then Some (RTC_ERR_INVALID, t, l)
     else do {
       l \<leftarrow> rtc_listener_unregister_ufrag mem l (t_ice_ufrag t);
       case rtc_random_string ufrag_rand 8 of
         Inl _ \<Rightarrow> Some (RTC_ERR_GENERIC, t, l)
       | Inr ufrag \<Rightarrow>
           (case rtc_random_string pwd_rand 24 of
              Inl _ \<Rightarrow> Some (RTC_ERR_GENERIC, t\<lparr>t_ice_ufrag := ufrag\<rparr>, l)
            | Inr pwd \<Rightarrow> do {
                let t = t\<lparr>t_ice_ufrag := ufrag, t_ice_pwd := pwd\<rparr>;
                (rc, l) \<leftarrow> rtc_listener_register_ufrag mem l ufrag (Route_to self);
                Some (rc, t, l)
              })
     })"

definition rtc_transport_set_remote_ice_parameters ::
  "('s, 'c) rtc_transport \<Rightarrow> rtc_ice_parameters \<Rightarrow> rtc_err \<times> ('s, 'c) rtc_transport" where
  "rtc_transport_set_remote_ice_parameters t remote =
    (if ip_username_fragment remote ! 0 = 0 \<or> ip_password remote ! 0 = 0 then (RTC_ERR_INVALID, t)
     else (RTC_OK, t\<lparr>t_remote_ufrag := ip_username_fragment remote, t_remote_pwd := ip_password remote, t_remote_ice_valid := True\<rparr>))"

definition rtc_transport_add_remote_candidate ::
  "inet \<Rightarrow> ('s, 'c) rtc_transport \<Rightarrow> rtc_transport_candidate \<Rightarrow> rtc_err \<times> ('s, 'c) rtc_transport" where
  "rtc_transport_add_remote_candidate net t cand =
    (if tc_address cand = [] \<or> tc_port cand = 0 then (RTC_ERR_INVALID, t)
     else if tc_protocol cand \<noteq> [117, 100, 112] then (RTC_ERR_INVALID, t)
     else case addr_of_text net (tc_address cand) (tc_port cand) of
       Inl e \<Rightarrow> (e, t)
     | Inr a \<Rightarrow> (RTC_OK, t\<lparr>t_remote_candidate := Some a\<rparr>))"

definition rtc_transport_candidate_from_ice :: "inet \<Rightarrow> rtc_ice_candidate \<Rightarrow> rtc_err + rtc_transport_candidate" where
  "rtc_transport_candidate_from_ice net c =
    (case addr_text net (ic_addr c) 64 of
       Inl e \<Rightarrow> Inl e
     | Inr (ip, port) \<Rightarrow>
         let out = \<lparr>tc_foundation = bounded_copy 32 (ic_foundation c), tc_address = bounded_copy 64 ip, tc_related_address = [],
               tc_port = port, tc_related_port = 0, tc_protocol = [117, 100, 112],
               tc_type = (case ic_type c of ICE_CANDIDATE_SRFLX \<Rightarrow> RTC_TRANSPORT_CANDIDATE_SRFLX
                 | ICE_CANDIDATE_RELAY \<Rightarrow> RTC_TRANSPORT_CANDIDATE_RELAY | ICE_CANDIDATE_HOST \<Rightarrow> RTC_TRANSPORT_CANDIDATE_HOST),
               tc_has_related_address = False\<rparr>
         in if ic_has_related_addr c then
              (case addr_text net (ic_related_addr c) 64 of
                 Inl e \<Rightarrow> Inl e
               | Inr (rip, rport) \<Rightarrow> Inr (out\<lparr>tc_related_address := bounded_copy 64 rip, tc_related_port := rport,
                   tc_has_related_address := True\<rparr>))
            else Inr out)"

definition rtc_transport_start_ice ::
  "'s tenv \<Rightarrow> route_mem \<Rightarrow> 'r \<Rightarrow> bytes \<Rightarrow> u64 \<Rightarrow> ('s, 'c) rtc_transport \<Rightarrow> 'r rtc_listener \<Rightarrow>
   (rtc_err \<times> sent \<times> ('s, 'c) rtc_transport \<times> 'r rtc_listener) option" where
  "rtc_transport_start_ice E mem self txn tm t l =
    (if t_ice_mode t \<noteq> RTC_ICE_MODE_FULL then Some (RTC_ERR_INVALID, [], t, l)
     else if t_selected_remote t \<noteq> None then Some (RTC_OK, [], t, l)
     else do {
       (rc, out, t, l) \<leftarrow> transport_send_ice_check E mem self txn t l;
       Some (rc, out, if rc = RTC_OK then transport_arm_ice_timer tm t else t, l)
     })"

definition rtc_transport_start_dtls ::
  "'s tenv \<Rightarrow> step_args \<Rightarrow> ('s, 'c) rtc_transport \<Rightarrow> 'r rtc_listener \<Rightarrow>
   (rtc_err \<times> sent \<times> ('s, 'c) rtc_transport \<times> 'r rtc_listener) option" where
  "rtc_transport_start_dtls E a t l =
    (if t_selected_remote t = None then Some (RTC_ERR_INVALID, [], t, l)
     else if d_state (t_dtls t) = RTC_DTLS_STATE_CONNECTED then Some (RTC_OK, [], t, l)
     else do {
       (rc, d, (l, out)) \<leftarrow> rtc_dtls_handshake (e_ssl E) (transport_dtls_send E t) (t_dtls t) (l, []);
       let t = t\<lparr>t_dtls := d\<rparr>;
       if rc \<noteq> RTC_OK then Some (rc, out, t, l)
       else do {
         t \<leftarrow> transport_try_export_srtp E (a_locks a) (transport_arm_dtls_timer (a_tm a) t);
         Some (RTC_OK, out, t, l)
       }
     })"

definition rtc_transport_set_dtls_role :: "'s tenv \<Rightarrow> ('s, 'c) rtc_transport \<Rightarrow> rtc_dtls_role \<Rightarrow> rtc_err \<times> ('s, 'c) rtc_transport" where
  "rtc_transport_set_dtls_role E t role =
    (if d_state (t_dtls t) \<noteq> RTC_DTLS_STATE_NEW then (RTC_ERR_INVALID, t)
     else if d_role (t_dtls t) = role then (RTC_OK, t)
     else (let (rc, d) = rtc_dtls_set_role (e_ssl E) (t_dtls t) role in (rc, t\<lparr>t_dtls := d\<rparr>)))"

definition rtc_transport_close ::
  "'s tenv \<Rightarrow> route_mem \<Rightarrow> ('s, 'c) rtc_transport \<Rightarrow> 'r rtc_listener \<Rightarrow> (('s, 'c) rtc_transport \<times> 'r rtc_listener) option" where
  "rtc_transport_close E mem t0 l =
    (if t_closed t0 then Some (t0, l)
     else do {
       let t = t0\<lparr>t_closed := True\<rparr>;
       l \<leftarrow> rtc_listener_unregister_ufrag mem l (t_ice_ufrag t);
       (t, l) \<leftarrow> transport_unregister_ice_txn mem t l;
       l \<leftarrow> (case t_selected_remote t of None \<Rightarrow> Some l | Some a \<Rightarrow> rtc_listener_unregister_tuple (e_net E) mem l a);
       let t = transport_cancel_dtls_timer (transport_cancel_ice_timer t);
       let t = t\<lparr>t_rtp_demux := rtc_rtp_demux_close (t_rtp_demux t), t_twcc_fb_timer := RTC_WORKER_TIMER_INVALID, t_bwe := False\<rparr>;
       let t = (if t_srtp_ready t then t\<lparr>t_srtp_send := map_option rtc_srtp_close (t_srtp_send t),
           t_srtp_recv := map_option rtc_srtp_close (t_srtp_recv t), t_srtp_ready := False\<rparr> else t);
       Some (t\<lparr>t_dtls := rtc_dtls_close (t_dtls t)\<rparr>, l)
     })"

definition rtc_transport_set_rtp_router ::
  "('s, 'c) rtc_transport \<Rightarrow> (rtc_rtp_packet \<Rightarrow> 'c option) option \<Rightarrow> ('s, 'c) rtc_transport" where
  "rtc_transport_set_rtp_router t resolve =
    (if \<not> dm_ready (t_rtp_demux t) then t\<lparr>t_rtp_demux := rtc_rtp_demux_init, t_resolve := resolve\<rparr>
     else t\<lparr>t_resolve := resolve\<rparr>)"

definition rtc_transport_bind_rtp ::
  "bool \<Rightarrow> ('s, 'c) rtc_transport \<Rightarrow> u32 \<Rightarrow> 'c option \<Rightarrow> (rtc_err \<times> ('s, 'c) rtc_transport) option" where
  "rtc_transport_bind_rtp mem t ssrc user =
    (if user = None then Some (RTC_ERR_INVALID, t)
     else do { (rc, dm) \<leftarrow> rtc_rtp_demux_bind mem (t_rtp_demux t) ssrc user; Some (rc, t\<lparr>t_rtp_demux := dm\<rparr>) })"

definition rtc_transport_unbind_rtp :: "bool \<Rightarrow> ('s, 'c) rtc_transport \<Rightarrow> u32 \<Rightarrow> ('s, 'c) rtc_transport option" where
  "rtc_transport_unbind_rtp mem t ssrc =
    do { dm \<leftarrow> rtc_rtp_demux_unbind mem (t_rtp_demux t) ssrc; Some (t\<lparr>t_rtp_demux := dm\<rparr>) }"

definition rtc_transport_rtp_bound :: "('s, 'c) rtc_transport \<Rightarrow> u32 \<Rightarrow> 'c option option" where
  "rtc_transport_rtp_bound t ssrc = rtc_rtp_demux_get (t_rtp_demux t) ssrc"

text \<open>\<open>bwe_ok\<close>: whether the estimator could be created; \<open>tm\<close> the feedback timer.\<close>

definition rtc_transport_enable_twcc ::
  "bool \<Rightarrow> u64 \<Rightarrow> ('s, 'c) rtc_transport \<Rightarrow> u8 \<Rightarrow> u32 \<Rightarrow> rtc_err \<times> ('s, 'c) rtc_transport" where
  "rtc_transport_enable_twcc bwe_ok tm t eid local_ssrc =
    (if eid = 0 then (RTC_ERR_INVALID, t)
     else if \<not> t_enable_twcc t then (RTC_ERR_INVALID, t)
     else if t_twcc_enabled t then (RTC_OK, t)
     else
       let t = t\<lparr>t_twcc_ext_id := eid, t_twcc_local_ssrc := local_ssrc, t_twcc_sender := rtc_twcc_sender_init,
             t_twcc_receiver := rtc_twcc_receiver_init\<rparr>
       in if \<not> bwe_ok then (RTC_ERR_NOMEM, t\<lparr>t_bwe := False\<rparr>)
          else (RTC_OK, t\<lparr>t_bwe := True, t_twcc_enabled := True,
            t_twcc_fb_timer := (if t_twcc_fb_timer t = RTC_WORKER_TIMER_INVALID then tm else t_twcc_fb_timer t)\<rparr>))"

definition transport_twcc_fb_timer ::
  "'s tenv \<Rightarrow> u64 \<Rightarrow> ('s, 'c) rtc_transport \<Rightarrow> 'r rtc_listener \<Rightarrow> (sent \<times> ('s, 'c) rtc_transport \<times> 'r rtc_listener) option" where
  "transport_twcc_fb_timer E tm t0 l =
    (let t = t0\<lparr>t_twcc_fb_timer := RTC_WORKER_TIMER_INVALID\<rparr>
     in if t_closed t then Some ([], t, l)
        else do {
          (out, t, l) \<leftarrow> (if t_twcc_have_packets t \<and> rw_have_base (t_twcc_receiver t) then do {
              let (r, rw) = rtc_twcc_receiver_build_feedback (t_twcc_receiver t) (t_twcc_local_ssrc t) (t_twcc_remote_ssrc t) RTCP_MAX_PACKET;
              let t = t\<lparr>t_twcc_receiver := rw\<rparr>;
              (out, t, l) \<leftarrow> (case r of
                  Inl _ \<Rightarrow> Some ([], t, l)
                | Inr fb \<Rightarrow> do {
                    (_, _, out, t, l) \<leftarrow> rtc_transport_send_rtcp E t l fb (RTCP_MAX_PACKET + RTC_TRANSPORT_RTCP_PROTECT_OVERHEAD);
                    Some (out, t, l)
                  });
              Some (out, t\<lparr>t_twcc_have_packets := False\<rparr>, l)
            }
            else Some ([], t, l));
          Some (out, t\<lparr>t_twcc_fb_timer := tm\<rparr>, l)
        })"

definition rtc_transport_report_rtcp_loss :: "('s, 'c) rtc_transport \<Rightarrow> u8 \<Rightarrow> 'c transport_event list" where
  "rtc_transport_report_rtcp_loss t fraction_lost = (if t_twcc_enabled t \<and> t_bwe t then [Bwe_loss fraction_lost] else [])"

text \<open>The output of a write is read back in pieces of at most 2048 bytes.\<close>

definition rtc_transport_send_data ::
  "'s tenv \<Rightarrow> ('s, 'c) rtc_transport \<Rightarrow> 'r rtc_listener \<Rightarrow> bytes \<Rightarrow>
   (rtc_err \<times> sent \<times> ('s, 'c) rtc_transport \<times> 'r rtc_listener) option" where
  "rtc_transport_send_data E t l data =
    (if d_state (t_dtls t) \<noteq> RTC_DTLS_STATE_CONNECTED then Some (RTC_ERR_INVALID, [], t, l)
     else case d_ssl (t_dtls t) of
       None \<Rightarrow> None
     | Some s \<Rightarrow>
         let (written, out, s') = ssl_write (e_ssl E) s data;
             d = (t_dtls t)\<lparr>d_ssl := Some s', d_wbio := d_wbio (t_dtls t) @ out\<rparr>
         in if \<not> written then Some (RTC_ERR_SSL, [], t\<lparr>t_dtls := d\<rparr>, l)
            else (let (rc, d, (l, sent)) = dtls_flush_wbio (transport_dtls_send E t) d (l, [])
                  in Some (rc, sent, t\<lparr>t_dtls := d\<rparr>, l)))"

record rtc_transport_stats =
  ts_closed :: bool
  ts_ice_mode :: rtc_ice_mode
  ts_selected_remote :: "rtc_addr option"
  ts_dtls_state :: rtc_dtls_state
  ts_srtp_ready :: bool
  ts_packets_received :: u64
  ts_bytes_received :: u64
  ts_dtls_packets_received :: u64

definition rtc_transport_get_stats :: "('s, 'c) rtc_transport \<Rightarrow> rtc_transport_stats" where
  "rtc_transport_get_stats t =
    \<lparr>ts_closed = t_closed t, ts_ice_mode = t_ice_mode t, ts_selected_remote = t_selected_remote t,
     ts_dtls_state = d_state (t_dtls t), ts_srtp_ready = t_srtp_ready t, ts_packets_received = t_packets_received t,
     ts_bytes_received = t_bytes_received t, ts_dtls_packets_received = t_dtls_packets_received t\<rparr>"

record rtc_dtls_parameters =
  dp_role :: rtc_dtls_role
  dp_fingerprint :: bytes

definition rtc_transport_get_dtls_parameters :: "('s, 'c) rtc_transport \<Rightarrow> rtc_dtls_parameters" where
  "rtc_transport_get_dtls_parameters t = \<lparr>dp_role = d_role (t_dtls t), dp_fingerprint = rtc_dtls_get_fingerprint (t_dtls t)\<rparr>"

text \<open>The setters of the callbacks: only whether there is one is kept.\<close>

definition rtc_transport_on_rtp :: "('s, 'c) rtc_transport \<Rightarrow> bool \<Rightarrow> ('s, 'c) rtc_transport" where
  "rtc_transport_on_rtp t fn = t\<lparr>t_on_rtp := fn\<rparr>"

definition rtc_transport_on_rtcp :: "('s, 'c) rtc_transport \<Rightarrow> bool \<Rightarrow> ('s, 'c) rtc_transport" where
  "rtc_transport_on_rtcp t fn = t\<lparr>t_on_rtcp := fn\<rparr>"

definition rtc_transport_on_data :: "('s, 'c) rtc_transport \<Rightarrow> bool \<Rightarrow> ('s, 'c) rtc_transport" where
  "rtc_transport_on_data t fn = t\<lparr>t_on_data := fn\<rparr>"

definition rtc_transport_on_bitrate_estimate :: "('s, 'c) rtc_transport \<Rightarrow> bool \<Rightarrow> ('s, 'c) rtc_transport" where
  "rtc_transport_on_bitrate_estimate t fn = t\<lparr>t_on_bitrate := fn\<rparr>"

text \<open>The owner records what it sends through the pointer this returns.\<close>

definition rtc_transport_twcc_sender :: "('s, 'c) rtc_transport \<Rightarrow> rtc_twcc_sender option" where
  "rtc_transport_twcc_sender t = (if t_twcc_enabled t then Some (t_twcc_sender t) else None)"

end
