(* ===== verification/Transport_Safety.thy ===== *)
theory Transport_Safety
  imports Transport Listener_Routing Srtp_Delivery
begin

text \<open>
  Robustness of a transport: whatever datagrams arrive, in whatever state and with whatever allocations failing,
  every handler returns, reads only inside the datagram, and keeps the transport well formed; the selected remote
  never changes, and nothing happens after closing.
\<close>

subsection \<open>Parsers return\<close>

text \<open>Rules that follow the shape of a definition: a value is returned on every branch.\<close>

named_theorems totals

lemma total_Some [totals]: "Some x \<noteq> None"
  by simp

lemma total_if [totals]: "(c \<Longrightarrow> a \<noteq> None) \<Longrightarrow> (\<not> c \<Longrightarrow> b \<noteq> None) \<Longrightarrow> (if c then a else b) \<noteq> None"
  by simp

lemma total_bind [totals]: "m \<noteq> None \<Longrightarrow> (\<And>x. m = Some x \<Longrightarrow> f x \<noteq> None) \<Longrightarrow> m \<bind> f \<noteq> None"
  by (cases m) auto

lemma total_sum [totals]:
  "(\<And>x. s = Inl x \<Longrightarrow> f x \<noteq> None) \<Longrightarrow> (\<And>y. s = Inr y \<Longrightarrow> g y \<noteq> None) \<Longrightarrow> (case s of Inl x \<Rightarrow> f x | Inr y \<Rightarrow> g y) \<noteq> None"
  by (cases s) auto

lemma total_option [totals]:
  "(s = None \<Longrightarrow> a \<noteq> None) \<Longrightarrow> (\<And>y. s = Some y \<Longrightarrow> g y \<noteq> None) \<Longrightarrow> (case s of None \<Rightarrow> a | Some y \<Rightarrow> g y) \<noteq> None"
  by (cases s) auto

lemma total_prod [totals]: "(\<And>x y. p = (x, y) \<Longrightarrow> f x y \<noteq> None) \<Longrightarrow> (case p of (x, y) \<Rightarrow> f x y) \<noteq> None"
  by (cases p) auto

lemma total_let [totals]: "(\<And>x. x = a \<Longrightarrow> f x \<noteq> None) \<Longrightarrow> Let a f \<noteq> None"
  by simp

lemma srtp_header_len_total [totals]: "buf \<noteq> [] \<Longrightarrow> n \<le> length buf \<Longrightarrow> srtp_rtp_header_len buf n \<noteq> None"
  by (cases buf) (auto simp: srtp_rtp_header_len_def Let_def)

lemma rd_total [totals]:
  "i < length b \<Longrightarrow> rd8 b i \<noteq> None" "i + 2 \<le> length b \<Longrightarrow> rd16 b i \<noteq> None" "i + 3 \<le> length b \<Longrightarrow> rd24 b i \<noteq> None"
  "i + 4 \<le> length b \<Longrightarrow> rd32 b i \<noteq> None" "i + n \<le> length b \<Longrightarrow> rd_bytes b i n \<noteq> None"
  by simp_all

lemma srtp_unprotect_total: "rtc_srtp_unprotect C ctx data \<noteq> None"
proof -
  have "srtp_unprotect_gcm C ctx data \<noteq> None"
    unfolding srtp_unprotect_gcm_def by (intro totals) (auto simp: srtp_sizes)
  then show ?thesis unfolding rtc_srtp_unprotect_def by (intro totals) (auto simp: srtp_sizes)
qed

lemma srtcp_unprotect_total: "rtc_srtp_unprotect_rtcp C ctx data \<noteq> None"
proof -
  have "srtp_unprotect_rtcp_gcm C ctx data \<noteq> None"
    unfolding srtp_unprotect_rtcp_gcm_def by (intro totals) (auto simp: srtp_sizes)
  then show ?thesis unfolding rtc_srtp_unprotect_rtcp_def by (intro totals) (auto simp: srtp_sizes)
qed

lemma srtp_protect_total: "rtc_srtp_protect C ctx buf cap \<noteq> None"
  unfolding rtc_srtp_protect_def srtp_protect_gcm_def by (intro totals) (auto simp: srtp_sizes)

lemma srtcp_protect_total: "rtc_srtp_protect_rtcp C ctx buf cap \<noteq> None"
  unfolding rtc_srtp_protect_rtcp_def srtp_protect_rtcp_gcm_def by (intro totals) (auto simp: srtp_sizes)

lemma twcc_chunks_total [totals]: "twcc_parse_chunks data p st n \<noteq> None"
  by (induction data p st n rule: twcc_parse_chunks.induct) (subst twcc_parse_chunks.simps, auto)

lemma twcc_deltas_total [totals]: "twcc_parse_deltas data p cur seq ss \<noteq> None"
proof (induction ss arbitrary: p cur seq)
  case (Cons s ss)
  then have "(\<lambda>p' cur it. do { r \<leftarrow> twcc_parse_deltas data p' cur (seq + 1) ss;
      Some (case r of Inl e \<Rightarrow> Inl e | Inr items \<Rightarrow> Inr (it # items)) }) p' cur' it \<noteq> None" for p' cur' it
    by (intro totals)
  then show ?case unfolding twcc_parse_deltas.simps by (intro totals) auto
qed simp

lemma twcc_parse_total [totals]: "rtc_rtcp_parse_twcc data \<noteq> None"
  unfolding rtc_rtcp_parse_twcc_def by (intro totals) auto

lemma get_pt_fmt_total [totals]: "rtc_rtcp_get_pt_fmt data \<noteq> None"
  unfolding rtc_rtcp_get_pt_fmt_def by (intro totals) auto

lemma stun_parse_total [totals]: "rtc_stun_parse data \<noteq> None"
  unfolding rtc_stun_parse_def by (intro totals) (auto simp: stun_sizes)

lemma rtp_parse_total [totals]: "rtc_rtp_parse old data \<noteq> None"
  unfolding rtc_rtp_parse_def by (intro totals) (auto simp: rtp_sizes Let_def split: if_splits Option.bind_splits)

lemma rtp_parse_ext_len:
  assumes "rtc_rtp_parse old data = Some (Inr pkt)" "pkt_ext_data pkt = Some d"
  shows "length d = pkt_ext_len pkt"
  using assms unfolding rtc_rtp_parse_def
  by (auto simp: rd_bytes_def Let_def split: if_splits sum.splits Option.bind_splits)

subsection \<open>Well-formed transports\<close>

text \<open>The exporter fills exactly the bytes asked for.\<close>

definition ssl_ok :: "'s openssl \<Rightarrow> bool" where
  "ssl_ok S \<longleftrightarrow> (\<forall>s n m. ssl_export_keying_material S s n = Some m \<longrightarrow> length m = n)"

definition listener_ok :: "'r rtc_listener \<Rightarrow> bool" where
  "listener_ok l \<longleftrightarrow> str_map_ok (ls_ufrag_routes l) \<and> str_map_ok (ls_txn_routes l) \<and> str_map_ok (ls_tuple_routes l)"

definition dtls_ok :: "'s rtc_dtls_transport \<Rightarrow> bool" where
  "dtls_ok d \<longleftrightarrow> (d_ssl d = None \<longrightarrow> d_state d = RTC_DTLS_STATE_FAILED \<or> d_state d = RTC_DTLS_STATE_CLOSED)"

definition demux_ok :: "'c rtc_rtp_demux \<Rightarrow> bool" where
  "demux_ok dm \<longleftrightarrow> (dm_ready dm \<longrightarrow> u32_map_ok (dm_by_ssrc dm))"

definition transport_ok :: "('s, 'c) rtc_transport \<Rightarrow> bool" where
  "transport_ok t \<longleftrightarrow> dtls_ok (t_dtls t) \<and> demux_ok (t_rtp_demux t) \<and>
    (t_srtp_ready t \<longrightarrow> t_srtp_send t \<noteq> None \<and> t_srtp_recv t \<noteq> None) \<and>
    (t_closed t \<longrightarrow> \<not> t_srtp_ready t \<and> d_state (t_dtls t) = RTC_DTLS_STATE_CLOSED \<and> d_ssl (t_dtls t) = None) \<and>
    (t_remote_ice_valid t \<longrightarrow> 0 \<in> set (t_remote_ufrag t) \<and> 0 \<in> set (t_remote_pwd t)) \<and> 0 \<le> t_ice_check_count t"

text \<open>The fields that well-formedness does not look at.\<close>

lemma transport_ok_fields [simp]:
  "transport_ok (t\<lparr>t_ice_txn := x_ice_txn\<rparr>) = transport_ok t"
  "transport_ok (t\<lparr>t_ice_timer := x_ice_timer\<rparr>) = transport_ok t"
  "transport_ok (t\<lparr>t_dtls_timer := x_dtls_timer\<rparr>) = transport_ok t"
  "transport_ok (t\<lparr>t_packets_received := x_packets_received\<rparr>) = transport_ok t"
  "transport_ok (t\<lparr>t_bytes_received := x_bytes_received\<rparr>) = transport_ok t"
  "transport_ok (t\<lparr>t_dtls_packets_received := x_dtls_packets_received\<rparr>) = transport_ok t"
  "transport_ok (t\<lparr>t_selected_remote := x_selected_remote\<rparr>) = transport_ok t"
  "transport_ok (t\<lparr>t_remote_candidate := x_remote_candidate\<rparr>) = transport_ok t"
  "transport_ok (t\<lparr>t_ice_ufrag := x_ice_ufrag\<rparr>) = transport_ok t"
  "transport_ok (t\<lparr>t_ice_pwd := x_ice_pwd\<rparr>) = transport_ok t"
  "transport_ok (t\<lparr>t_on_rtp := x_on_rtp\<rparr>) = transport_ok t"
  "transport_ok (t\<lparr>t_on_rtcp := x_on_rtcp\<rparr>) = transport_ok t"
  "transport_ok (t\<lparr>t_on_data := x_on_data\<rparr>) = transport_ok t"
  "transport_ok (t\<lparr>t_resolve := x_resolve\<rparr>) = transport_ok t"
  "transport_ok (t\<lparr>t_twcc_enabled := x_twcc_enabled\<rparr>) = transport_ok t"
  "transport_ok (t\<lparr>t_twcc_ext_id := x_twcc_ext_id\<rparr>) = transport_ok t"
  "transport_ok (t\<lparr>t_twcc_local_ssrc := x_twcc_local_ssrc\<rparr>) = transport_ok t"
  "transport_ok (t\<lparr>t_twcc_remote_ssrc := x_twcc_remote_ssrc\<rparr>) = transport_ok t"
  "transport_ok (t\<lparr>t_twcc_have_packets := x_twcc_have_packets\<rparr>) = transport_ok t"
  "transport_ok (t\<lparr>t_twcc_sender := x_twcc_sender\<rparr>) = transport_ok t"
  "transport_ok (t\<lparr>t_twcc_receiver := x_twcc_receiver\<rparr>) = transport_ok t"
  "transport_ok (t\<lparr>t_bwe := x_bwe\<rparr>) = transport_ok t"
  "transport_ok (t\<lparr>t_twcc_fb_timer := x_twcc_fb_timer\<rparr>) = transport_ok t"
  "transport_ok (t\<lparr>t_on_bitrate := x_on_bitrate\<rparr>) = transport_ok t"
  by (simp_all add: transport_ok_def)

text \<open>The route tables.\<close>

lemma register_total:
  "str_map_ok m \<Longrightarrow> \<exists>rc m'. listener_register_route mem m key r = Some (rc, m') \<and> str_map_ok m'"
  using str.set_returns [of m "snd mem" key "Some r"] str.inv_set [of m] by (fastforce simp: listener_register_route_def)

lemma unregister_total: "str_map_ok m \<Longrightarrow> \<exists>m'. listener_unregister_route mem m key = Some m' \<and> str_map_ok m'"
  using str.remove_abs [of m "snd mem" key] by (auto simp: listener_unregister_route_def)

lemma listener_ops_total:
  assumes "listener_ok l"
  shows "\<exists>rc l'. rtc_listener_register_ufrag mem l u r = Some (rc, l') \<and> listener_ok l'"
    "\<exists>l'. rtc_listener_unregister_ufrag mem l u = Some l' \<and> listener_ok l'"
    "\<exists>rc l'. rtc_listener_register_stun_txn mem l u r = Some (rc, l') \<and> listener_ok l'"
    "\<exists>l'. rtc_listener_unregister_stun_txn mem l u = Some l' \<and> listener_ok l'"
    "\<exists>rc l'. rtc_listener_register_tuple net mem l a r = Some (rc, l') \<and> listener_ok l'"
    "\<exists>l'. rtc_listener_unregister_tuple net mem l a = Some l' \<and> listener_ok l'"
proof -
  have ok: "str_map_ok (ls_ufrag_routes l)" "str_map_ok (ls_txn_routes l)" "str_map_ok (ls_tuple_routes l)"
    using assms by (simp_all add: listener_ok_def)
  show "\<exists>rc l'. rtc_listener_register_ufrag mem l u r = Some (rc, l') \<and> listener_ok l'"
    using register_total [OF ok(1), of mem "chars u" r] ok by (auto simp: rtc_listener_register_ufrag_def listener_ok_def)
  show "\<exists>l'. rtc_listener_unregister_ufrag mem l u = Some l' \<and> listener_ok l'"
    using unregister_total [OF ok(1), of mem "chars u"] ok by (auto simp: rtc_listener_unregister_ufrag_def listener_ok_def)
  show "\<exists>rc l'. rtc_listener_register_stun_txn mem l u r = Some (rc, l') \<and> listener_ok l'"
    using register_total [OF ok(2), of mem "txn_key u" r] ok by (auto simp: rtc_listener_register_stun_txn_def listener_ok_def)
  show "\<exists>l'. rtc_listener_unregister_stun_txn mem l u = Some l' \<and> listener_ok l'"
    using unregister_total [OF ok(2), of mem "txn_key u"] ok by (auto simp: rtc_listener_unregister_stun_txn_def listener_ok_def)
  show "\<exists>rc l'. rtc_listener_register_tuple net mem l a r = Some (rc, l') \<and> listener_ok l'"
  proof (cases "tuple_key net a 128")
    case (Inr k)
    then show ?thesis using register_total [OF ok(3), of mem k r] ok by (auto simp: rtc_listener_register_tuple_def listener_ok_def)
  qed (use assms in \<open>simp add: rtc_listener_register_tuple_def\<close>)
  show "\<exists>l'. rtc_listener_unregister_tuple net mem l a = Some l' \<and> listener_ok l'"
  proof (cases "tuple_key net a 128")
    case (Inr k)
    then show ?thesis using unregister_total [OF ok(3), of mem k] ok by (auto simp: rtc_listener_unregister_tuple_def listener_ok_def)
  qed (use assms in \<open>simp add: rtc_listener_unregister_tuple_def\<close>)
qed

lemma send_to_ok: "rtc_listener_send_to net l data dest = (rc, out, l') \<Longrightarrow> listener_ok l \<Longrightarrow> listener_ok l'"
  by (auto simp: rtc_listener_send_to_def listener_ok_def case_prod_unfold Let_def)

lemma send_raw_ok: "rtc_transport_send_raw E t l data = (rc, out, l') \<Longrightarrow> listener_ok l \<Longrightarrow> listener_ok l'"
  by (auto simp: rtc_transport_send_raw_def dest: send_to_ok split: if_splits option.splits)

lemma dtls_send_ok: "transport_dtls_send E t p w = (rc, w') \<Longrightarrow> listener_ok (fst w) \<Longrightarrow> listener_ok (fst w')"
  by (auto simp: transport_dtls_send_def Let_def dest: send_raw_ok split: prod.splits)

lemma flush_ok:
  "dtls_flush (transport_dtls_send E t) wbio w = (rc, rest, w') \<Longrightarrow> listener_ok (fst w) \<Longrightarrow> listener_ok (fst w')"
proof (induction "length wbio" arbitrary: wbio w rule: less_induct)
  case less
  show ?case
  proof (cases "wbio = []")
    case True
    then show ?thesis using less.prems by (simp add: dtls_flush.simps)
  next
    case False
    obtain rc1 w1 where s: "transport_dtls_send E t (take 2048 wbio) w = (rc1, w1)" by (metis prod.exhaust)
    have "length (drop 2048 wbio) < length wbio" using False by simp
    then show ?thesis using less.hyps [of "drop 2048 wbio" w1] less.prems False s dtls_send_ok [OF s]
      by (subst (asm) dtls_flush.simps) (auto split: if_splits)
  qed
qed

lemma flush_wbio_ok:
  "dtls_flush_wbio (transport_dtls_send E t) d w = (rc, d', w') \<Longrightarrow> listener_ok (fst w) \<Longrightarrow>
   listener_ok (fst w') \<and> d_ssl d' = d_ssl d \<and> d_state d' = d_state d"
  by (auto simp: dtls_flush_wbio_def Let_def dest: flush_ok split: prod.splits)

subsection \<open>DTLS\<close>

lemma handshake_ok:
  assumes "d_ssl d \<noteq> None" "listener_ok (fst w)"
  shows "\<exists>rc d' w'. rtc_dtls_handshake S (transport_dtls_send E t) d w = Some (rc, d', w') \<and> listener_ok (fst w') \<and>
    d_ssl d' \<noteq> None \<and> d_state d' \<noteq> RTC_DTLS_STATE_CLOSED"
proof -
  obtain s where s: "d_ssl d = Some s" using assms(1) by blast
  obtain ret out s' where h: "ssl_do_handshake S s = (ret, out, s')" by (metis prod_cases3)
  let ?d = "d\<lparr>d_ssl := Some s', d_wbio := d_wbio d @ out, d_state := RTC_DTLS_STATE_CONNECTING\<rparr>"
  obtain rc d1 w1 where f: "dtls_flush_wbio (transport_dtls_send E t) ?d w = (rc, d1, w1)" by (metis prod_cases3)
  show ?thesis using s h f flush_wbio_ok [OF f assms(2)]
    by (cases ret) (auto simp: rtc_dtls_handshake_def)
qed

lemma recv_ok:
  assumes "dtls_ok d" "listener_ok (fst w)"
  shows "\<exists>rc d' w'. rtc_dtls_recv S (transport_dtls_send E t) d data w = Some (rc, d', w') \<and> listener_ok (fst w') \<and> dtls_ok d' \<and>
    (d_state d \<noteq> RTC_DTLS_STATE_CLOSED \<longrightarrow> d_state d' \<noteq> RTC_DTLS_STATE_CLOSED)"
proof (cases "d_ssl d")
  case None
  then show ?thesis using assms by (auto simp: rtc_dtls_recv_def dtls_ok_def simp del: split_paired_Ex)
next
  case (Some s)
  let ?d = "d\<lparr>d_ssl := Some (ssl_feed S s data)\<rparr>"
  obtain rc d1 w1 where f: "dtls_flush_wbio (transport_dtls_send E t) ?d w = (rc, d1, w1)" by (metis prod_cases3)
  show ?thesis using Some f flush_wbio_ok [OF f assms(2)] handshake_ok [of ?d w S E t] assms(2)
    by (auto simp: rtc_dtls_recv_def dtls_ok_def Let_def simp del: split_paired_Ex)
qed

lemma retransmit_ok:
  assumes "dtls_ok d" "listener_ok (fst w)"
  shows "\<exists>rc d' w'. rtc_dtls_retransmit S (transport_dtls_send E t) d w = Some (rc, d', w') \<and> listener_ok (fst w') \<and> dtls_ok d' \<and>
    d_state d' = d_state d \<and> (d_ssl d' = None \<longleftrightarrow> d_ssl d = None)"
proof (cases "d_ssl d")
  case None
  then show ?thesis using assms by (auto simp: rtc_dtls_retransmit_def dtls_ok_def simp del: split_paired_Ex)
next
  case (Some s)
  obtain fired out s' where h: "ssl_handle_timeout S s = (fired, out, s')" by (metis prod_cases3)
  let ?d = "d\<lparr>d_ssl := Some s', d_wbio := d_wbio d @ out\<rparr>"
  obtain rc d1 w1 where f: "dtls_flush_wbio (transport_dtls_send E t) ?d w = (rc, d1, w1)" by (metis prod_cases3)
  show ?thesis using Some h f flush_wbio_ok [OF f assms(2)] assms
    by (auto simp: rtc_dtls_retransmit_def dtls_ok_def Let_def simp del: split_paired_Ex)
qed

lemma export_keys_ok:
  assumes "ssl_ok S" "dtls_ok d"
  shows "\<exists>rc d'. rtc_dtls_export_srtp_keys S d = Some (rc, d') \<and> d_ssl d' = d_ssl d \<and> d_state d' = d_state d"
proof -
  have "rtc_dtls_export_srtp_keys S d \<noteq> None"
    unfolding rtc_dtls_export_srtp_keys_def using assms
    by (intro totals) (auto simp: dtls_ok_def ssl_ok_def)
  then obtain rc d' where r: "rtc_dtls_export_srtp_keys S d = Some (rc, d')" by (cases "rtc_dtls_export_srtp_keys S d") auto
  then show ?thesis
    by (auto simp: rtc_dtls_export_srtp_keys_def Let_def case_prod_unfold split: if_splits option.splits Option.bind_splits)
qed

definition same_ice :: "('s, 'c) rtc_transport \<Rightarrow> ('s, 'c) rtc_transport \<Rightarrow> bool" where
  "same_ice t t' \<longleftrightarrow> t_selected_remote t' = t_selected_remote t \<and> t_closed t' = t_closed t"

lemma export_ok:
  assumes "ssl_ok (e_ssl E)" "transport_ok t"
  shows "\<exists>t'. transport_try_export_srtp E locks t = Some t' \<and> transport_ok t' \<and> same_ice t t'"
proof (cases "t_srtp_ready t \<or> d_state (t_dtls t) \<noteq> RTC_DTLS_STATE_CONNECTED")
  case False
  have "dtls_ok (t_dtls t)" using assms(2) by (simp add: transport_ok_def)
  from export_keys_ok [OF assms(1) this] obtain rc d' where
    e: "rtc_dtls_export_srtp_keys (e_ssl E) (t_dtls t) = Some (rc, d')" "d_ssl d' = d_ssl (t_dtls t)" "d_state d' = d_state (t_dtls t)" by blast
  have open_: "\<not> t_closed t" using False assms(2) by (auto simp: transport_ok_def)
  show ?thesis
  proof (cases "rc = RTC_OK")
    case True
    then show ?thesis using False e open_ assms(2)
      by (auto simp: transport_try_export_srtp_def transport_cancel_dtls_timer_def transport_ok_def dtls_ok_def same_ice_def Let_def
          case_prod_unfold split: sum.splits)
  qed (use False e open_ assms(2) in \<open>auto simp: transport_try_export_srtp_def transport_cancel_dtls_timer_def transport_ok_def
      dtls_ok_def same_ice_def\<close>)
qed (use assms in \<open>auto simp: transport_try_export_srtp_def same_ice_def\<close>)

lemma arm_ok: "transport_ok t \<Longrightarrow> transport_ok (transport_arm_dtls_timer tm t) \<and> same_ice t (transport_arm_dtls_timer tm t)"
  "transport_ok t \<Longrightarrow> transport_ok (transport_arm_ice_timer tm t) \<and> same_ice t (transport_arm_ice_timer tm t)"
  by (auto simp: transport_arm_dtls_timer_def transport_arm_ice_timer_def same_ice_def)

subsection \<open>ICE\<close>

lemma append_attr_total: "unat vlen \<le> 65532 \<Longrightarrow> append_attr buf cap t v vlen \<noteq> None"
  using pad4_nat [of "unat vlen"] by (auto simp: append_attr_def padded_def Let_def)

lemma stun_then_total: "r \<noteq> None \<Longrightarrow> (\<And>x. r = Some (Inr x) \<Longrightarrow> f x \<noteq> None) \<Longrightarrow> stun_then r f \<noteq> None"
  unfolding stun_then_def by (intro totals) auto

lemma binding_request_total:
  assumes "case user of None \<Rightarrow> True | Some u \<Rightarrow> length u \<le> 65532"
  shows "rtc_stun_build_binding_request hmac txn user pw prio uc tie ctl \<noteq> None"
proof -
  have "unat (of_nat (length u) :: u16) \<le> 65532" if "user = Some u" for u
    using assms that by (simp add: unat_of_nat)
  then show ?thesis unfolding rtc_stun_build_binding_request_def append_if_def
    by (intro totals stun_then_total append_attr_total) (auto simp: Let_def)
qed

lemma binding_response_total: "rtc_stun_build_binding_response req a cap \<noteq> None"
  unfolding rtc_stun_build_binding_response_def
  by (cases a; simp only: rtc_addr.case; intro totals stun_then_total append_attr_total) (auto simp: stun_sizes)

lemma unregister_txn_ok:
  assumes "listener_ok l" "transport_ok t"
  shows "\<exists>t' l'. transport_unregister_ice_txn mem t l = Some (t', l') \<and> listener_ok l' \<and> transport_ok t' \<and> same_ice t t' \<and>
    t_ice_check_count t' = t_ice_check_count t"
proof (cases "t_ice_txn t")
  case (Some txn)
  then show ?thesis using listener_ops_total(4) [OF assms(1), of mem txn] assms(2)
    by (auto simp: transport_unregister_ice_txn_def same_ice_def)
qed (use assms in \<open>simp add: transport_unregister_ice_txn_def same_ice_def\<close>)

lemma ice_check_ok:
  assumes "listener_ok l" "transport_ok t" "t_ice_check_count t < 2 ^ 31 - 1"
  shows "\<exists>rc out t' l'. transport_send_ice_check E mem self txn t l = Some (rc, out, t', l') \<and> listener_ok l' \<and> transport_ok t' \<and> same_ice t t'"
proof (cases "t_remote_candidate t = None \<or> \<not> t_remote_ice_valid t")
  case False
  then obtain cand where c: "t_remote_candidate t = Some cand" by auto
  have a: "array_string (t_remote_ufrag t) = Some (c_string (t_remote_ufrag t))" "array_string (t_remote_pwd t) = Some (c_string (t_remote_pwd t))"
    using False assms(2) by (simp_all add: transport_ok_def array_string_def)
  define user where "user = ice_username (c_string (t_remote_ufrag t)) (t_ice_ufrag t)"
  have "rtc_stun_build_binding_request (e_hmac E) txn (Some user) (Some (c_string (t_remote_pwd t)))
      0x7E0000FF True 0x123456789ABCDEF0 True \<noteq> None"
    by (rule binding_request_total) (simp add: user_def ice_username_def bounded_copy_def)
  then obtain r where r: "rtc_stun_build_binding_request (e_hmac E) txn (Some user) (Some (c_string (t_remote_pwd t)))
      0x7E0000FF True 0x123456789ABCDEF0 True = Some r" by blast
  note eq = transport_send_ice_check_def c a user_def [symmetric] r
  show ?thesis
  proof (cases r)
    case (Inl e)
    then show ?thesis using False assms by (simp add: eq same_ice_def)
  next
    case (Inr req)
    obtain t1 l1 where u: "transport_unregister_ice_txn mem t l = Some (t1, l1)" "listener_ok l1" "transport_ok t1" "same_ice t t1"
        "t_ice_check_count t1 = t_ice_check_count t"
      using unregister_txn_ok [OF assms(1,2)] by blast
    obtain rc l2 where g: "rtc_listener_register_stun_txn mem l1 (sm_txn_id req) (Route_to self) = Some (rc, l2)" "listener_ok l2"
      using listener_ops_total(3) [OF u(2)] by blast
    obtain rc' out l3 where s: "rtc_listener_send_to (e_net E) l2 (sm_buf req) cand = (rc', out, l3)" by (metis prod_cases3)
    have "0 \<le> t_ice_check_count t" using assms(2) by (simp add: transport_ok_def)
    then have n: "as_int (t_ice_check_count t + 1) = Some (t_ice_check_count t + 1)" "transport_ok (t1\<lparr>t_ice_txn := x, t_ice_check_count := t_ice_check_count t + 1\<rparr>)" for x
      using assms(3) u(3) by (simp_all add: as_int_def transport_ok_def)
    show ?thesis using Inr u g s send_to_ok [OF s g(2)] False n
      by (auto simp: eq same_ice_def Let_def)
  qed
qed (use assms in \<open>auto simp: transport_send_ice_check_def same_ice_def split: option.splits\<close>)

lemma select_ok:
  assumes "listener_ok l" "transport_ok t"
  shows "\<exists>t' l'. transport_select E mem self from t l = Some (t', l') \<and> listener_ok l' \<and> transport_ok t' \<and> t_closed t' = t_closed t \<and>
    t_selected_remote t' = (if t_selected_remote t = None then Some from else t_selected_remote t)"
proof (cases "t_selected_remote t")
  case None
  then show ?thesis using listener_ops_total(5) [OF assms(1), of "e_net E" mem "from" "Route_to self"] assms(2)
    by (auto simp: transport_select_def)
qed (use assms in \<open>simp add: transport_select_def\<close>)

definition keeps_remote :: "('s, 'c) rtc_transport \<Rightarrow> ('s, 'c) rtc_transport \<Rightarrow> bool" where
  "keeps_remote t t' \<longleftrightarrow> t_closed t' = t_closed t \<and> (t_selected_remote t \<noteq> None \<longrightarrow> t_selected_remote t' = t_selected_remote t)"

lemma keeps_same [intro]: "same_ice t t' \<Longrightarrow> keeps_remote t t'"
  by (simp add: same_ice_def keeps_remote_def)

lemma on_stun_ok:
  assumes "listener_ok l" "transport_ok t"
  shows "\<exists>out t' l'. transport_on_stun E a self data from t l = Some (out, t', l') \<and> listener_ok l' \<and> transport_ok t' \<and> keeps_remote t t'"
proof -
  obtain r where r: "rtc_stun_parse data = Some r" using stun_parse_total [of data] by blast
  show ?thesis
  proof (cases r)
    case (Inl e)
    then show ?thesis using r assms by (simp add: transport_on_stun_def keeps_remote_def)
  next
    case (Inr msg)
    obtain t1 l1 where u: "transport_unregister_ice_txn (a_mem a) t l = Some (t1, l1)" "listener_ok l1" "transport_ok t1" "same_ice t t1"
      using unregister_txn_ok [OF assms] by blast
    have tc: "transport_ok (transport_cancel_ice_timer t1)" "same_ice t (transport_cancel_ice_timer t1)"
      using u(3,4) by (auto simp: transport_cancel_ice_timer_def same_ice_def)
    obtain t2 l2 where s: "transport_select E (a_mem a) self from (transport_cancel_ice_timer t1) l1 = Some (t2, l2)" "listener_ok l2"
        "transport_ok t2" "keeps_remote t t2"
      using select_ok [OF u(2) tc(1), of E "a_mem a" self "from"] tc(2) by (auto simp: keeps_remote_def same_ice_def)
    obtain t3 l3 where s3: "transport_select E (a_mem a) self from t l = Some (t3, l3)" "listener_ok l3"
        "transport_ok t3" "keeps_remote t t3"
      using select_ok [OF assms, of E "a_mem a" self "from"] by (auto simp: keeps_remote_def)
    obtain resp where b: "rtc_stun_build_binding_response data from 128 = Some resp" using binding_response_total by blast
    have snd: "listener_ok l'" if "rtc_listener_send_to (e_net E) l3 x from = (rc, out, l')" for rc out l' x
      using send_to_ok [OF that s3(2)] .
    show ?thesis using r Inr u(1) s s3 b assms snd
      by (cases resp) (auto simp: transport_on_stun_def keeps_remote_def split: prod.splits)
  qed
qed

subsection \<open>Media\<close>

lemma demux_dispatch_ok:
  assumes "demux_ok dm"
  shows "\<exists>c dm'. rtc_rtp_demux_dispatch mem resolve dm pkt = Some (c, dm') \<and> demux_ok dm'"
proof (cases "dm_ready dm")
  case True
  then have ok: "u32_map_ok (dm_by_ssrc dm)" using assms by (simp add: demux_ok_def)
  note get = u32.get_abs [OF ok, of "h_ssrc (pkt_header pkt)"]
  show ?thesis
  proof (cases "\<exists>f c. ptr_at (u32_map_abs (dm_by_ssrc dm)) (h_ssrc (pkt_header pkt)) = None \<and> resolve = Some f \<and> f pkt = Some c")
    case True
    then obtain f c where f: "ptr_at (u32_map_abs (dm_by_ssrc dm)) (h_ssrc (pkt_header pkt)) = None" "resolve = Some f" "f pkt = Some c" by blast
    obtain rc m where "rtc_u32_map_set mem (dm_by_ssrc dm) (h_ssrc (pkt_header pkt)) (Some c) = Some (rc, m)" "u32_map_ok m"
      using u32.set_returns [OF ok] u32.inv_set [OF ok] by blast
    then show ?thesis using f get \<open>dm_ready dm\<close> by (simp add: rtc_rtp_demux_dispatch_def demux_ok_def)
  next
    case False
    then have "rtc_rtp_demux_dispatch mem resolve dm pkt = Some (ptr_at (u32_map_abs (dm_by_ssrc dm)) (h_ssrc (pkt_header pkt)), dm)"
      using get \<open>dm_ready dm\<close> by (auto simp: rtc_rtp_demux_dispatch_def split: option.splits)
    then show ?thesis using assms by simp
  qed
qed (use assms in \<open>simp add: rtc_rtp_demux_dispatch_def\<close>)

lemma demux_binding_ok:
  assumes "demux_ok dm"
  shows "\<exists>rc dm'. rtc_rtp_demux_bind mem dm ssrc user = Some (rc, dm') \<and> demux_ok dm'"
    "\<exists>dm'. rtc_rtp_demux_unbind mem dm ssrc = Some dm' \<and> demux_ok dm'"
proof -
  show "\<exists>rc dm'. rtc_rtp_demux_bind mem dm ssrc user = Some (rc, dm') \<and> demux_ok dm'"
  proof (cases "\<not> dm_ready dm \<or> user = None")
    case False
    then have ok: "u32_map_ok (dm_by_ssrc dm)" using assms by (simp add: demux_ok_def)
    obtain rc m where "rtc_u32_map_set mem (dm_by_ssrc dm) ssrc user = Some (rc, m)" "u32_map_ok m"
      using u32.set_returns [OF ok] u32.inv_set [OF ok] by blast
    then show ?thesis using False by (auto simp: rtc_rtp_demux_bind_def demux_ok_def)
  qed (use assms in \<open>simp add: rtc_rtp_demux_bind_def\<close>)
  show "\<exists>dm'. rtc_rtp_demux_unbind mem dm ssrc = Some dm' \<and> demux_ok dm'"
  proof (cases "dm_ready dm")
    case True
    then have ok: "u32_map_ok (dm_by_ssrc dm)" using assms by (simp add: demux_ok_def)
    obtain m where "rtc_u32_map_remove mem (dm_by_ssrc dm) ssrc = Some (ssrc \<in> dom (u32_map_abs (dm_by_ssrc dm)), m)" "u32_map_ok m"
      using u32.remove_cases [OF ok] by blast
    then show ?thesis using True by (simp add: rtc_rtp_demux_unbind_def demux_ok_def)
  qed (use assms in \<open>simp add: rtc_rtp_demux_unbind_def\<close>)
qed

lemma twcc_arrival_total:
  assumes "rtc_rtp_parse old buf = Some (Inr pkt)"
  shows "transport_record_twcc_arrival now t pkt \<noteq> None"
  unfolding transport_record_twcc_arrival_def
proof (intro totals)
  fix d assume d: "pkt_ext_data pkt = Some d"
  note safe = ext_parse_body_safe [of "pkt_ext_len pkt" d RTC_RTP_EXT_MAX_ENTRIES]
  show "rtc_rtp_ext_parse_body d (pkt_ext_len pkt) RTC_RTP_EXT_MAX_ENTRIES \<noteq> None"
    using safe rtp_parse_ext_len [OF assms d] by auto
  fix r exts e
  assume r: "rtc_rtp_ext_parse_body d (pkt_ext_len pkt) RTC_RTP_EXT_MAX_ENTRIES = Some r" "r = Inr exts"
    and e: "rtc_rtp_ext_find exts (t_twcc_ext_id t) = Some e"
  have "list_all ext_ok exts" using safe rtp_parse_ext_len [OF assms d] r by auto
  then show "rtc_rtp_ext_read_transport_cc e \<noteq> None" using e
    by (auto simp: rtc_rtp_ext_find_def find_Some_iff list_all_length ext_ok_def rtc_rtp_ext_read_transport_cc_def word_less_nat_alt)
qed

lemma twcc_arrival_ok:
  assumes "rtc_rtp_parse old buf = Some (Inr pkt)" "transport_ok t"
  shows "\<exists>t'. transport_record_twcc_arrival now t pkt = Some t' \<and> transport_ok t' \<and> same_ice t t'"
proof -
  obtain t' where t': "transport_record_twcc_arrival now t pkt = Some t'" using twcc_arrival_total [OF assms(1)] by blast
  then have "transport_ok t' \<and> same_ice t t'" using assms(2) unfolding transport_record_twcc_arrival_def
    by (auto simp: same_ice_def split: if_splits option.splits sum.splits Option.bind_splits)
  with t' show ?thesis by blast
qed

definition media_event :: "'c transport_event \<Rightarrow> bool" where
  "media_event e \<longleftrightarrow> (case e of Rtp_sink _ _ \<Rightarrow> True | Rtp_raw _ \<Rightarrow> True | Rtcp_in _ \<Rightarrow> True | Bwe_feedback _ _ _ \<Rightarrow> True | _ \<Rightarrow> False)"

lemma handle_rtp_ok:
  assumes "transport_ok t"
  shows "\<exists>evs t'. transport_handle_rtp E mem now t data = Some (evs, t') \<and> transport_ok t' \<and> same_ice t t' \<and> (evs \<noteq> [] \<longrightarrow> t_srtp_ready t)"
proof (cases "\<not> t_srtp_ready t \<or> length data > SRTP_MAX_PACKET")
  case False
  then obtain ctx where c: "t_srtp_recv t = Some ctx" using assms by (auto simp: transport_ok_def)
  obtain r ctx' where u: "rtc_srtp_unprotect (e_crypto E) ctx data = Some (r, ctx')" using srtp_unprotect_total by (metis not_None_eq prod.exhaust)
  have t1: "transport_ok (t\<lparr>t_srtp_recv := Some ctx'\<rparr>)" using assms by (auto simp: transport_ok_def)
  show ?thesis
  proof (cases r)
    case (Inl e)
    then show ?thesis using False c u t1 by (auto simp: transport_handle_rtp_def same_ice_def)
  next
    case (Inr buf)
    obtain p where p: "rtc_rtp_parse [] buf = Some p" using rtp_parse_total by blast
    show ?thesis
    proof (cases p)
      case (Inl e)
      then show ?thesis using False c u Inr p t1 by (auto simp: transport_handle_rtp_def same_ice_def)
    next
      case (Inr pkt)
      have "demux_ok (t_rtp_demux t)" using assms by (simp add: transport_ok_def)
      then obtain d dm where dd: "(if dm_ready (t_rtp_demux t) then rtc_rtp_demux_dispatch mem (t_resolve t) (t_rtp_demux t) pkt
          else Some (None, t_rtp_demux t)) = Some (d, dm)" "demux_ok dm"
        using demux_dispatch_ok [of "t_rtp_demux t" mem "t_resolve t" pkt] by (cases "dm_ready (t_rtp_demux t)") auto
      have "transport_ok (t\<lparr>t_srtp_recv := Some ctx', t_rtp_demux := dm\<rparr>)" using t1 dd(2) by (auto simp: transport_ok_def)
      from twcc_arrival_ok [OF p [unfolded Inr] this, of now] obtain t' where
        t': "transport_record_twcc_arrival now (t\<lparr>t_srtp_recv := Some ctx', t_rtp_demux := dm\<rparr>) pkt = Some t'" "transport_ok t'"
          "same_ice (t\<lparr>t_srtp_recv := Some ctx', t_rtp_demux := dm\<rparr>) t'" by blast
      have "transport_handle_rtp E mem now t data =
          Some (case d of Some c \<Rightarrow> [Rtp_sink c pkt] | None \<Rightarrow> (if t_on_rtp t then [Rtp_raw pkt] else []), t')"
        using False c u \<open>r = Inr buf\<close> p Inr dd(1) t'(1)
        by (cases "dm_ready (t_rtp_demux t)") (auto simp: transport_handle_rtp_def Let_def)
      then show ?thesis using False t'(2,3) by (simp add: same_ice_def)
    qed
  qed
qed (use assms in \<open>simp add: transport_handle_rtp_def same_ice_def\<close>)

lemma twcc_feedback_total: "twcc_feedback_loop s buf off \<noteq> None"
proof (induction "length buf - off" arbitrary: off rule: less_induct)
  case less
  show ?case by (subst twcc_feedback_loop.simps; intro totals less) auto
qed

lemma consume_total: "transport_consume_twcc_feedback t buf \<noteq> None"
  unfolding transport_consume_twcc_feedback_def by (intro totals twcc_feedback_total)

lemma handle_rtcp_ok:
  assumes "transport_ok t"
  shows "\<exists>evs t'. transport_handle_rtcp E t data = Some (evs, t') \<and> transport_ok t' \<and> same_ice t t' \<and> (evs \<noteq> [] \<longrightarrow> t_srtp_ready t)"
proof (cases "\<not> t_srtp_ready t \<or> length data > SRTP_MAX_PACKET \<or> \<not> (t_on_rtcp t \<or> t_twcc_enabled t)")
  case False
  then obtain ctx where c: "t_srtp_recv t = Some ctx" using assms by (auto simp: transport_ok_def)
  obtain r ctx' where u: "rtc_srtp_unprotect_rtcp (e_crypto E) ctx data = Some (r, ctx')" using srtcp_unprotect_total by (metis not_None_eq prod.exhaust)
  have t1: "transport_ok (t\<lparr>t_srtp_recv := Some ctx'\<rparr>)" using assms by (auto simp: transport_ok_def)
  obtain evs where "transport_consume_twcc_feedback (t\<lparr>t_srtp_recv := Some ctx'\<rparr>) (case r of Inr b \<Rightarrow> b | Inl _ \<Rightarrow> []) = Some evs"
    using consume_total by blast
  then show ?thesis using False c u t1
    by (cases r) (auto simp: transport_handle_rtcp_def same_ice_def)
qed (use assms in \<open>auto simp: transport_handle_rtcp_def same_ice_def\<close>)

lemma read_app_ok:
  assumes "transport_ok t"
  shows "\<exists>evs t'. transport_read_app_data E t = Some (evs, t') \<and> transport_ok t' \<and> same_ice t t' \<and> (\<forall>e \<in> set evs. \<not> media_event e)"
proof (cases "\<not> t_on_data t \<or> d_state (t_dtls t) \<noteq> RTC_DTLS_STATE_CONNECTED")
  case False
  then obtain s where "d_ssl (t_dtls t) = Some s" using assms by (auto simp: transport_ok_def dtls_ok_def)
  then show ?thesis using False assms
    by (auto simp: transport_read_app_data_def same_ice_def transport_ok_def dtls_ok_def media_event_def split: prod.splits)
qed (use assms in \<open>auto simp: transport_read_app_data_def same_ice_def\<close>)

lemma on_dtls_ok:
  assumes "ssl_ok (e_ssl E)" "transport_ok t" "listener_ok l" "\<not> t_closed t"
  shows "\<exists>evs out t' l'. transport_on_dtls E a data t l = Some (evs, out, t', l') \<and> transport_ok t' \<and> listener_ok l' \<and> same_ice t t' \<and>
    (\<forall>e \<in> set evs. \<not> media_event e)"
proof -
  let ?t = "t\<lparr>t_dtls_packets_received := t_dtls_packets_received t + 1\<rparr>"
  have "dtls_ok (t_dtls ?t)" using assms(2) by (simp add: transport_ok_def)
  then obtain rc d l' out where r: "rtc_dtls_recv (e_ssl E) (transport_dtls_send E ?t) (t_dtls ?t) data (l, []) = Some (rc, d, (l', out))"
      "listener_ok l'" "dtls_ok d"
    using recv_ok [of "t_dtls ?t" "(l, [])" "e_ssl E" E ?t data] assms(3) by auto
  have t1: "transport_ok (?t\<lparr>t_dtls := d\<rparr>)" "same_ice t (?t\<lparr>t_dtls := d\<rparr>)"
    using assms(2,4) r(3) by (auto simp: transport_ok_def same_ice_def)
  note arm = arm_ok(1) [OF t1(1), of "a_tm a"]
  obtain t2 where t2: "transport_try_export_srtp E (a_locks a) (transport_arm_dtls_timer (a_tm a) (?t\<lparr>t_dtls := d\<rparr>)) = Some t2"
      "transport_ok t2" "same_ice (transport_arm_dtls_timer (a_tm a) (?t\<lparr>t_dtls := d\<rparr>)) t2"
    using export_ok [OF assms(1) conjunct1 [OF arm]] by blast
  obtain evs t3 where t3: "transport_read_app_data E t2 = Some (evs, t3)" "transport_ok t3" "same_ice t2 t3" "\<forall>e \<in> set evs. \<not> media_event e"
    using read_app_ok [OF t2(2)] by blast
  show ?thesis
  proof (cases "rc = RTC_OK")
    case True
    then have "transport_on_dtls E a data t l = Some (evs, out, t3, l')" using r(1) t2(1) t3(1) by (simp add: transport_on_dtls_def)
    then show ?thesis using r(2) t3 t2(3) t1(2) arm by (auto simp: same_ice_def)
  next
    case False
    then have "transport_on_dtls E a data t l = Some ([], out, ?t\<lparr>t_dtls := d\<rparr>, l')" using r(1) by (simp add: transport_on_dtls_def)
    then show ?thesis using r(2) t1 by auto
  qed
qed

lemma on_packet_ok:
  assumes "ssl_ok (e_ssl E)" "transport_ok t" "listener_ok l"
  shows "\<exists>evs out t' l'. transport_on_packet E a self type data from t l = Some (evs, out, t', l') \<and> transport_ok t' \<and> listener_ok l' \<and>
    keeps_remote t t' \<and> (t_closed t \<longrightarrow> evs = []) \<and> ((\<exists>e \<in> set evs. media_event e) \<longrightarrow> t_srtp_ready t)"
proof (cases "t_closed t")
  case False
  let ?t = "t\<lparr>t_packets_received := t_packets_received t + 1, t_bytes_received := t_bytes_received t + of_nat (length data)\<rparr>"
  have ok: "transport_ok ?t" using assms(2) by simp
  have keep: "keeps_remote ?t t' \<Longrightarrow> keeps_remote t t'" "same_ice ?t t' \<Longrightarrow> keeps_remote t t'" for t'
    by (simp_all add: keeps_remote_def same_ice_def)
  note eq = transport_on_packet_def Let_def False
  show ?thesis
  proof (cases type)
    case RTC_PKT_STUN
    obtain out t' l' where "transport_on_stun E a self data from ?t l = Some (out, t', l')" "listener_ok l'" "transport_ok t'" "keeps_remote ?t t'"
      using on_stun_ok [OF assms(3) ok] by blast
    then show ?thesis using RTC_PKT_STUN keep by (simp add: eq)
  next
    case RTC_PKT_DTLS
    obtain evs out t' l' where "transport_on_dtls E a data ?t l = Some (evs, out, t', l')" "listener_ok l'" "transport_ok t'" "same_ice ?t t'"
        "\<forall>e \<in> set evs. \<not> media_event e"
      using on_dtls_ok [OF assms(1) ok assms(3), of a data] False by (simp del: split_paired_Ex) blast
    then show ?thesis using RTC_PKT_DTLS keep by (simp add: eq)
  next
    case RTC_PKT_RTP
    obtain evs t' where "transport_handle_rtp E (fst (a_mem a)) (a_now_us a) ?t data = Some (evs, t')" "transport_ok t'" "same_ice ?t t'"
        "evs \<noteq> [] \<longrightarrow> t_srtp_ready ?t"
      using handle_rtp_ok [OF ok] by blast
    then show ?thesis using RTC_PKT_RTP keep assms(3) by (auto simp: eq)
  next
    case RTC_PKT_RTCP
    obtain evs t' where "transport_handle_rtcp E ?t data = Some (evs, t')" "transport_ok t'" "same_ice ?t t'" "evs \<noteq> [] \<longrightarrow> t_srtp_ready ?t"
      using handle_rtcp_ok [OF ok] by blast
    then show ?thesis using RTC_PKT_RTCP keep assms(3) by (auto simp: eq)
  qed (use ok assms(3) in \<open>simp_all add: eq keeps_remote_def\<close>)
qed (use assms in \<open>simp add: transport_on_packet_def keeps_remote_def\<close>)

subsection \<open>The other operations\<close>

lemma ice_timer_ok:
  assumes "listener_ok l" "transport_ok t"
  shows "\<exists>out t' l'. transport_ice_timer E mem self txn tm t l = Some (out, t', l') \<and> listener_ok l' \<and> transport_ok t' \<and> same_ice t t'"
proof (cases "t_ice_check_count t \<ge> 120")
  case True
  then show ?thesis using assms by (simp add: transport_ice_timer_def same_ice_def Let_def)
next
  case False
  let ?t = "t\<lparr>t_ice_timer := RTC_WORKER_TIMER_INVALID\<rparr>"
  have ok: "transport_ok ?t" "t_ice_check_count ?t < 2 ^ 31 - 1" using assms(2) False by simp_all
  obtain rc out t' l' where c: "transport_send_ice_check E mem self txn ?t l = Some (rc, out, t', l')" "listener_ok l'" "transport_ok t'" "same_ice ?t t'"
    using ice_check_ok [OF assms(1) ok] by blast
  show ?thesis using c ok assms(1) arm_ok(2) [OF c(3), of tm]
    by (auto simp: transport_ice_timer_def same_ice_def Let_def)
qed

lemma start_ice_ok:
  assumes "listener_ok l" "transport_ok t" "t_ice_check_count t < 2 ^ 31 - 1"
  shows "\<exists>rc out t' l'. rtc_transport_start_ice E mem self txn tm t l = Some (rc, out, t', l') \<and> listener_ok l' \<and> transport_ok t' \<and> same_ice t t'"
proof -
  obtain rc out t' l' where c: "transport_send_ice_check E mem self txn t l = Some (rc, out, t', l')" "listener_ok l'" "transport_ok t'" "same_ice t t'"
    using ice_check_ok [OF assms] by blast
  show ?thesis using c assms(1,2) arm_ok(2) [OF c(3), of tm]
    by (auto simp: rtc_transport_start_ice_def same_ice_def)
qed

lemma dtls_timer_ok:
  assumes "listener_ok l" "transport_ok t"
  shows "\<exists>out t' l'. transport_dtls_timer E tm t l = Some (out, t', l') \<and> listener_ok l' \<and> transport_ok t' \<and> same_ice t t'"
proof -
  let ?t = "t\<lparr>t_dtls_timer := RTC_WORKER_TIMER_INVALID\<rparr>"
  have "dtls_ok (t_dtls ?t)" using assms(2) by (simp add: transport_ok_def)
  then obtain rc d l' out where r: "rtc_dtls_retransmit (e_ssl E) (transport_dtls_send E ?t) (t_dtls ?t) (l, []) = Some (rc, d, (l', out))"
      "listener_ok l'" "dtls_ok d" "d_state d = d_state (t_dtls ?t)" "d_ssl d = None \<longleftrightarrow> d_ssl (t_dtls ?t) = None"
    using retransmit_ok [of "t_dtls ?t" "(l, [])" "e_ssl E" E ?t] assms(1) by auto
  have ok: "transport_ok (?t\<lparr>t_dtls := d\<rparr>)" using assms(2) r(3-5) by (auto simp: transport_ok_def)
  show ?thesis using r assms arm_ok(1) [OF ok, of tm]
    by (auto simp: transport_dtls_timer_def same_ice_def Let_def)
qed

lemma start_dtls_ok:
  assumes "ssl_ok (e_ssl E)" "listener_ok l" "transport_ok t" "t_selected_remote t = None \<or> d_ssl (t_dtls t) \<noteq> None"
  shows "\<exists>rc out t' l'. rtc_transport_start_dtls E a t l = Some (rc, out, t', l') \<and> listener_ok l' \<and> transport_ok t' \<and> same_ice t t'"
proof (cases "t_selected_remote t = None")
  case False
  then have ssl: "d_ssl (t_dtls t) \<noteq> None" "\<not> t_closed t" using assms(3,4) by (auto simp: transport_ok_def)
  obtain rc d l' out where h: "rtc_dtls_handshake (e_ssl E) (transport_dtls_send E t) (t_dtls t) (l, []) = Some (rc, d, (l', out))"
      "listener_ok l'" "d_ssl d \<noteq> None"
    using handshake_ok [OF ssl(1), of "(l, [])" "e_ssl E" E t] assms(2) by auto
  have ok: "transport_ok (t\<lparr>t_dtls := d\<rparr>)" using assms(3) ssl(2) h(3) by (auto simp: transport_ok_def dtls_ok_def)
  note arm = arm_ok(1) [OF ok, of "a_tm a"]
  obtain t2 where t2: "transport_try_export_srtp E (a_locks a) (transport_arm_dtls_timer (a_tm a) (t\<lparr>t_dtls := d\<rparr>)) = Some t2"
      "transport_ok t2" "same_ice (transport_arm_dtls_timer (a_tm a) (t\<lparr>t_dtls := d\<rparr>)) t2"
    using export_ok [OF assms(1) conjunct1 [OF arm]] by blast
  show ?thesis using h(1,2) t2 arm ok assms(2,3) by (auto simp: rtc_transport_start_dtls_def same_ice_def Let_def)
qed (use assms(2,3) in \<open>simp add: rtc_transport_start_dtls_def same_ice_def\<close>)

lemma start_dtls_stuck:
  assumes "transport_ok t" "t_selected_remote t \<noteq> None" "d_ssl (t_dtls t) = None"
  shows "rtc_transport_start_dtls E a t l = None"
  using assms by (auto simp: rtc_transport_start_dtls_def rtc_dtls_handshake_def transport_ok_def dtls_ok_def)

lemma set_role_ok:
  assumes "transport_ok t" "rtc_transport_set_dtls_role E t role = (rc, t')"
  shows "transport_ok t' \<and> same_ice t t'"
  using assms
  by (auto simp: rtc_transport_set_dtls_role_def rtc_dtls_set_role_def dtls_setup_ssl_def dtls_close_ssl_def transport_ok_def dtls_ok_def
      same_ice_def Let_def case_prod_unfold split: if_splits option.splits)

lemma send_rtp_ok:
  assumes "listener_ok l" "transport_ok t"
  shows "\<exists>rc buf' out t' l'. rtc_transport_send_rtp E t l buf cap = Some (rc, buf', out, t', l') \<and> listener_ok l' \<and> transport_ok t' \<and> same_ice t t'"
    "\<exists>rc buf' out t' l'. rtc_transport_send_rtcp E t l buf cap = Some (rc, buf', out, t', l') \<and> listener_ok l' \<and> transport_ok t' \<and> same_ice t t'"
proof -
  have "\<exists>rc buf' out t' l'. rtc_transport_send_rtp E t l buf cap = Some (rc, buf', out, t', l') \<and> listener_ok l' \<and> transport_ok t' \<and> same_ice t t'
    \<and> (\<exists>rc buf' out t' l'. rtc_transport_send_rtcp E t l buf cap = Some (rc, buf', out, t', l') \<and> listener_ok l' \<and> transport_ok t' \<and> same_ice t t')"
  proof (cases "\<not> t_srtp_ready t \<or> t_selected_remote t = None")
    case False
    then obtain ctx where c: "t_srtp_send t = Some ctx" using assms(2) by (auto simp: transport_ok_def)
    obtain r ctx' where p: "rtc_srtp_protect (e_crypto E) ctx buf cap = Some (r, ctx')" using srtp_protect_total by (metis not_None_eq prod.exhaust)
    obtain q ctx2 where q: "rtc_srtp_protect_rtcp (e_crypto E) ctx buf cap = Some (q, ctx2)" using srtcp_protect_total by (metis not_None_eq prod.exhaust)
    have "transport_ok (t\<lparr>t_srtp_send := Some x\<rparr>)" for x using assms(2) by (auto simp: transport_ok_def)
    then show ?thesis using False c p q assms(1)
      by (cases r; cases q) (auto simp: rtc_transport_send_rtp_def rtc_transport_send_rtcp_def same_ice_def Let_def dest: send_raw_ok split: prod.splits)
  qed (use assms in \<open>auto simp: rtc_transport_send_rtp_def rtc_transport_send_rtcp_def same_ice_def\<close>)
  then show "\<exists>rc buf' out t' l'. rtc_transport_send_rtp E t l buf cap = Some (rc, buf', out, t', l') \<and> listener_ok l' \<and> transport_ok t' \<and> same_ice t t'"
    "\<exists>rc buf' out t' l'. rtc_transport_send_rtcp E t l buf cap = Some (rc, buf', out, t', l') \<and> listener_ok l' \<and> transport_ok t' \<and> same_ice t t'"
    by blast+
qed

lemma send_data_ok:
  assumes "listener_ok l" "transport_ok t"
  shows "\<exists>rc out t' l'. rtc_transport_send_data E t l data = Some (rc, out, t', l') \<and> listener_ok l' \<and> transport_ok t' \<and> same_ice t t'"
proof (cases "d_state (t_dtls t) = RTC_DTLS_STATE_CONNECTED")
  case True
  then obtain s where s: "d_ssl (t_dtls t) = Some s" using assms(2) by (auto simp: transport_ok_def dtls_ok_def)
  obtain w out s' where x: "ssl_write (e_ssl E) s data = (w, out, s')" by (metis prod_cases3)
  let ?d = "(t_dtls t)\<lparr>d_ssl := Some s', d_wbio := d_wbio (t_dtls t) @ out\<rparr>"
  obtain rc d' l' sent where f: "dtls_flush_wbio (transport_dtls_send E t) ?d (l, []) = (rc, d', l', sent)" by (metis prod_cases4)
  have "transport_ok (t\<lparr>t_dtls := d\<rparr>)" if "d_ssl d = Some s'" "d_state d = d_state (t_dtls t)" for d
    using assms(2) that True by (auto simp: transport_ok_def dtls_ok_def)
  then show ?thesis using True s x f flush_wbio_ok [OF f] assms(1)
    by (auto simp: rtc_transport_send_data_def same_ice_def Let_def)
qed (use assms in \<open>simp add: rtc_transport_send_data_def same_ice_def\<close>)

lemma restart_ok:
  assumes "listener_ok l" "transport_ok t"
  shows "\<exists>rc t' l'. rtc_transport_restart_ice mem self u p t l = Some (rc, t', l') \<and> listener_ok l' \<and> transport_ok t' \<and> same_ice t t'"
proof -
  obtain l1 where l1: "rtc_listener_unregister_ufrag mem l (t_ice_ufrag t) = Some l1" "listener_ok l1"
    using listener_ops_total(2) [OF assms(1)] by blast
  obtain rc l2 where l2: "rtc_listener_register_ufrag mem l1 (projr (rtc_random_string u 8)) (Route_to self) = Some (rc, l2)" "listener_ok l2"
    using listener_ops_total(1) [OF l1(2)] by blast
  show ?thesis using l1 l2 assms
    by (cases "t_selected_remote t"; cases "rtc_random_string u 8"; cases "rtc_random_string p 24")
      (simp_all add: rtc_transport_restart_ice_def same_ice_def Let_def)
qed

lemma close_ok:
  assumes "listener_ok l" "transport_ok t"
  shows "\<exists>t' l'. rtc_transport_close E mem t l = Some (t', l') \<and> listener_ok l' \<and> transport_ok t' \<and> t_closed t' \<and>
    t_selected_remote t' = t_selected_remote t"
proof (cases "t_closed t")
  case False
  let ?t = "t\<lparr>t_closed := True\<rparr>"
  obtain l1 where l1: "rtc_listener_unregister_ufrag mem l (t_ice_ufrag ?t) = Some l1" "listener_ok l1"
    using listener_ops_total(2) [OF assms(1)] by blast
  obtain l2 where l2: "transport_unregister_ice_txn mem ?t l1 = Some (?t\<lparr>t_ice_txn := None\<rparr>, l2)" "listener_ok l2"
    using listener_ops_total(4) [OF l1(2), of mem "the (t_ice_txn t)"] l1(2) by (cases "t_ice_txn t") (auto simp: transport_unregister_ice_txn_def)
  obtain l3 where l3: "(case t_selected_remote t of None \<Rightarrow> Some l2 | Some a \<Rightarrow> rtc_listener_unregister_tuple (e_net E) mem l2 a) = Some l3"
      "listener_ok l3"
    using listener_ops_total(6) [OF l2(2), of "e_net E" mem "the (t_selected_remote t)"] l2(2) by (cases "t_selected_remote t") auto
  have ice: "t_remote_ice_valid t \<longrightarrow> 0 \<in> set (t_remote_ufrag t) \<and> 0 \<in> set (t_remote_pwd t)" "0 \<le> t_ice_check_count t"
    using assms(2) by (simp_all add: transport_ok_def)
  show ?thesis using False l1 l2 l3 ice
    by (auto simp: rtc_transport_close_def dtls_close_ssl_def Let_def transport_cancel_dtls_timer_def transport_cancel_ice_timer_def transport_ok_def
        rtc_dtls_close_def dtls_ok_def demux_ok_def rtc_rtp_demux_close_def)
qed (use assms in \<open>simp add: rtc_transport_close_def\<close>)

lemma twcc_timer_ok:
  assumes "listener_ok l" "transport_ok t"
  shows "\<exists>out t' l'. transport_twcc_fb_timer E tm t l = Some (out, t', l') \<and> listener_ok l' \<and> transport_ok t' \<and> same_ice t t'"
proof -
  obtain r rw where b: "rtc_twcc_receiver_build_feedback (t_twcc_receiver t) (t_twcc_local_ssrc t) (t_twcc_remote_ssrc t) RTCP_MAX_PACKET = (r, rw)"
    by (metis prod.exhaust)
  let ?t = "t\<lparr>t_twcc_fb_timer := RTC_WORKER_TIMER_INVALID, t_twcc_receiver := rw\<rparr>"
  have ok: "transport_ok ?t" using assms(2) by simp
  obtain rc buf' out t' l' where s: "rtc_transport_send_rtcp E ?t l (projr r) (RTCP_MAX_PACKET + RTC_TRANSPORT_RTCP_PROTECT_OVERHEAD) =
      Some (rc, buf', out, t', l')" "listener_ok l'" "transport_ok t'" "same_ice ?t t'"
    using send_rtp_ok(2) [OF assms(1) ok] by blast
  show ?thesis using b s assms
    by (cases r) (auto simp: transport_twcc_fb_timer_def same_ice_def Let_def)
qed

lemma create_ok:
  assumes "rtc_transport_create E mem self u p b mode sctp twcc br l = Some (Some t, l')" "listener_ok l"
  shows "transport_ok t" "listener_ok l'" "t_selected_remote t = None" "\<not> t_closed t" "\<not> t_srtp_ready t"
    "\<not> dm_ready (t_rtp_demux t)"
proof -
  obtain ufrag where u: "rtc_random_string u 8 = Inr ufrag"
    using assms(1) by (auto simp: rtc_transport_create_def split: sum.splits)
  obtain rc l1 where l1: "rtc_listener_register_ufrag mem l ufrag (Route_to self) = Some (rc, l1)" "listener_ok l1"
    using listener_ops_total(1) [OF assms(2)] by blast
  obtain rd d where d: "rtc_dtls_init (e_ssl E) (if mode = RTC_ICE_MODE_FULL then RTC_DTLS_ROLE_CLIENT else RTC_DTLS_ROLE_SERVER) = (rd, d)"
    by (metis prod.exhaust)
  have "dtls_ok d" if "rd = RTC_OK" using d that
    by (auto simp: rtc_dtls_init_def dtls_generate_cert_def dtls_setup_ssl_def dtls_ok_def Let_def case_prod_unfold split: sum.splits if_splits option.splits)
  then show "transport_ok t" "listener_ok l'" "t_selected_remote t = None" "\<not> t_closed t" "\<not> t_srtp_ready t"
    "\<not> dm_ready (t_rtp_demux t)"
    using assms(1) u l1 d by (auto simp: rtc_transport_create_def transport_ok_def demux_ok_def split: sum.splits if_splits)
qed

subsection \<open>Every history of a transport\<close>

text \<open>What can happen to a transport: a datagram, one of its three timers, or a call of its owner.\<close>

datatype 'c transport_op =
    On_packet rtc_pkt_type bytes rtc_addr
  | Ice_timer bytes
  | Dtls_timer
  | Twcc_timer
  | Start_ice bytes
  | Start_dtls
  | Set_dtls_role rtc_dtls_role
  | Send_rtp bytes nat
  | Send_rtcp bytes nat
  | Send_data bytes
  | Restart_ice "nat \<Rightarrow> bytes option" "nat \<Rightarrow> bytes option"
  | Set_remote_ice rtc_ice_parameters
  | Add_remote_candidate rtc_transport_candidate
  | Set_rtp_router "(rtc_rtp_packet \<Rightarrow> 'c option) option"
  | Bind_rtp u32 "'c option"
  | Unbind_rtp u32
  | Enable_twcc bool u8 u32
  | Twcc_sent rtc_twcc_sender
  | On_rtp bool
  | On_rtcp bool
  | On_data bool
  | On_bitrate bool
  | Close

fun transport_step ::
  "'s tenv \<Rightarrow> step_args \<Rightarrow> 'r \<Rightarrow> 'c transport_op \<Rightarrow> ('s, 'c) rtc_transport \<Rightarrow> 'r rtc_listener \<Rightarrow>
   ('c transport_event list \<times> sent \<times> ('s, 'c) rtc_transport \<times> 'r rtc_listener) option" where
  "transport_step E a self (On_packet type data from) t l = transport_on_packet E a self type data from t l"
| "transport_step E a self (Ice_timer txn) t l = do {
     (out, t, l) \<leftarrow> transport_ice_timer E (a_mem a) self txn (a_tm a) t l; Some ([], out, t, l) }"
| "transport_step E a self Dtls_timer t l = do { (out, t, l) \<leftarrow> transport_dtls_timer E (a_tm a) t l; Some ([], out, t, l) }"
| "transport_step E a self Twcc_timer t l = do { (out, t, l) \<leftarrow> transport_twcc_fb_timer E (a_tm a) t l; Some ([], out, t, l) }"
| "transport_step E a self (Start_ice txn) t l = do {
     (_, out, t, l) \<leftarrow> rtc_transport_start_ice E (a_mem a) self txn (a_tm a) t l; Some ([], out, t, l) }"
| "transport_step E a self Start_dtls t l = do { (_, out, t, l) \<leftarrow> rtc_transport_start_dtls E a t l; Some ([], out, t, l) }"
| "transport_step E a self (Set_dtls_role role) t l = Some ([], [], snd (rtc_transport_set_dtls_role E t role), l)"
| "transport_step E a self (Send_rtp buf cap) t l = do {
     (_, _, out, t, l) \<leftarrow> rtc_transport_send_rtp E t l buf cap; Some ([], out, t, l) }"
| "transport_step E a self (Send_rtcp buf cap) t l = do {
     (_, _, out, t, l) \<leftarrow> rtc_transport_send_rtcp E t l buf cap; Some ([], out, t, l) }"
| "transport_step E a self (Send_data d) t l = do { (_, out, t, l) \<leftarrow> rtc_transport_send_data E t l d; Some ([], out, t, l) }"
| "transport_step E a self (Restart_ice u p) t l = do {
     (_, t, l) \<leftarrow> rtc_transport_restart_ice (a_mem a) self u p t l; Some ([], [], t, l) }"
| "transport_step E a self (Set_remote_ice p) t l = Some ([], [], snd (rtc_transport_set_remote_ice_parameters t p), l)"
| "transport_step E a self (Add_remote_candidate c) t l = Some ([], [], snd (rtc_transport_add_remote_candidate (e_net E) t c), l)"
| "transport_step E a self (Set_rtp_router f) t l = Some ([], [], rtc_transport_set_rtp_router t f, l)"
| "transport_step E a self (Bind_rtp ssrc c) t l = do {
     (_, t) \<leftarrow> rtc_transport_bind_rtp (fst (a_mem a)) t ssrc c; Some ([], [], t, l) }"
| "transport_step E a self (Unbind_rtp ssrc) t l = do { t \<leftarrow> rtc_transport_unbind_rtp (fst (a_mem a)) t ssrc; Some ([], [], t, l) }"
| "transport_step E a self (Enable_twcc ok i ssrc) t l = Some ([], [], snd (rtc_transport_enable_twcc ok (a_tm a) t i ssrc), l)"
| "transport_step E a self (Twcc_sent tx) t l =
     Some ([], [], if rtc_transport_twcc_sender t = None then t else t\<lparr>t_twcc_sender := tx\<rparr>, l)"
| "transport_step E a self (On_rtp fn) t l = Some ([], [], rtc_transport_on_rtp t fn, l)"
| "transport_step E a self (On_rtcp fn) t l = Some ([], [], rtc_transport_on_rtcp t fn, l)"
| "transport_step E a self (On_data fn) t l = Some ([], [], rtc_transport_on_data t fn, l)"
| "transport_step E a self (On_bitrate fn) t l = Some ([], [], rtc_transport_on_bitrate_estimate t fn, l)"
| "transport_step E a self Close t l = do { (t, l) \<leftarrow> rtc_transport_close E (a_mem a) t l; Some ([], [], t, l) }"

text \<open>
  The calls with a precondition. Starting the handshake once a remote is selected needs a session, which is missing after a failed change of role
  and after closing. The arrays of the remote's ICE parameters have to be terminated strings. The connectivity checks an owner starts by hand are counted in an
  \<^verbatim>\<open>int\<close>.
\<close>

definition op_allowed :: "('s, 'c) rtc_transport \<Rightarrow> 'c transport_op \<Rightarrow> bool" where
  "op_allowed t op \<longleftrightarrow> (case op of
     Start_dtls \<Rightarrow> t_selected_remote t = None \<or> d_ssl (t_dtls t) \<noteq> None
   | Set_remote_ice p \<Rightarrow> 0 \<in> set (ip_username_fragment p) \<and> 0 \<in> set (ip_password p)
   | Start_ice txn \<Rightarrow> t_ice_check_count t < 2 ^ 31 - 1
   | _ \<Rightarrow> True)"

text \<open>The histories of a transport. The listener is shared: between two steps of this transport the others may
  have changed its tables.\<close>

inductive transport_reach :: "'s tenv \<Rightarrow> 'r \<Rightarrow> ('s, 'c) rtc_transport \<Rightarrow> 'r rtc_listener \<Rightarrow> bool" for E self where
  created: "rtc_transport_create E mem self u p b mode sctp twcc br l = Some (Some t, l') \<Longrightarrow> listener_ok l \<Longrightarrow> transport_reach E self t l'"
| stepped: "transport_reach E self t l \<Longrightarrow> op_allowed t op \<Longrightarrow> transport_step E a self op t l = Some (evs, out, t', l') \<Longrightarrow>
    transport_reach E self t' l'"
| others: "transport_reach E self t l \<Longrightarrow> listener_ok l' \<Longrightarrow> transport_reach E self t l'"

definition good_step :: "('s, 'c) rtc_transport \<Rightarrow> 'c transport_event list \<Rightarrow> ('s, 'c) rtc_transport \<Rightarrow> bool" where
  "good_step t evs t' \<longleftrightarrow>
    (t_selected_remote t \<noteq> None \<longrightarrow> t_selected_remote t' = t_selected_remote t) \<and>
    (t_closed t \<longrightarrow> t_closed t' \<and> evs = []) \<and>
    ((\<exists>e \<in> set evs. media_event e) \<longrightarrow> t_srtp_ready t)"

lemma good_same: "same_ice t t' \<Longrightarrow> good_step t [] t'"
  by (simp add: good_step_def same_ice_def)

lemma local_ops_ok:
  assumes "transport_ok t"
  shows "0 \<in> set (ip_username_fragment p) \<and> 0 \<in> set (ip_password p) \<Longrightarrow>
      transport_ok (snd (rtc_transport_set_remote_ice_parameters t p)) \<and> same_ice t (snd (rtc_transport_set_remote_ice_parameters t p))"
    "transport_ok (snd (rtc_transport_add_remote_candidate net t c)) \<and> same_ice t (snd (rtc_transport_add_remote_candidate net t c))"
    "transport_ok (rtc_transport_set_rtp_router t f) \<and> same_ice t (rtc_transport_set_rtp_router t f)"
    "transport_ok (snd (rtc_transport_enable_twcc ok tm t i ssrc)) \<and> same_ice t (snd (rtc_transport_enable_twcc ok tm t i ssrc))"
proof -
  have router: "transport_ok (t\<lparr>t_rtp_demux := rtc_rtp_demux_init\<rparr>)"
    using assms u32.inv_new by (auto simp: transport_ok_def demux_ok_def rtc_rtp_demux_init_def)
  show "transport_ok (snd (rtc_transport_set_remote_ice_parameters t p)) \<and> same_ice t (snd (rtc_transport_set_remote_ice_parameters t p))"
    if "0 \<in> set (ip_username_fragment p) \<and> 0 \<in> set (ip_password p)"
    using assms that by (auto simp: rtc_transport_set_remote_ice_parameters_def same_ice_def transport_ok_def)
  show "transport_ok (snd (rtc_transport_add_remote_candidate net t c)) \<and> same_ice t (snd (rtc_transport_add_remote_candidate net t c))"
    "transport_ok (rtc_transport_set_rtp_router t f) \<and> same_ice t (rtc_transport_set_rtp_router t f)"
    "transport_ok (snd (rtc_transport_enable_twcc ok tm t i ssrc)) \<and> same_ice t (snd (rtc_transport_enable_twcc ok tm t i ssrc))"
    using assms router
    by (auto simp: rtc_transport_add_remote_candidate_def rtc_transport_set_rtp_router_def
        rtc_transport_enable_twcc_def same_ice_def Let_def split: sum.splits)
qed

lemma callback_ops:
  "transport_ok (rtc_transport_on_rtp t fn) = transport_ok t" "same_ice t (rtc_transport_on_rtp t fn)"
  "transport_ok (rtc_transport_on_rtcp t fn) = transport_ok t" "same_ice t (rtc_transport_on_rtcp t fn)"
  "transport_ok (rtc_transport_on_data t fn) = transport_ok t" "same_ice t (rtc_transport_on_data t fn)"
  "transport_ok (rtc_transport_on_bitrate_estimate t fn) = transport_ok t" "same_ice t (rtc_transport_on_bitrate_estimate t fn)"
  "same_ice t t" "same_ice t (t\<lparr>t_twcc_sender := tx\<rparr>)"
  by (simp_all add: rtc_transport_on_rtp_def rtc_transport_on_rtcp_def rtc_transport_on_data_def rtc_transport_on_bitrate_estimate_def
      same_ice_def)

lemma bind_ops_ok:
  assumes "transport_ok t"
  shows "\<exists>rc t'. rtc_transport_bind_rtp mem t ssrc c = Some (rc, t') \<and> transport_ok t' \<and> same_ice t t'"
    "\<exists>t'. rtc_transport_unbind_rtp mem t ssrc = Some t' \<and> transport_ok t' \<and> same_ice t t'"
proof -
  have dm: "demux_ok (t_rtp_demux t)" using assms by (simp add: transport_ok_def)
  have upd: "transport_ok (t\<lparr>t_rtp_demux := d\<rparr>)" if "demux_ok d" for d using assms that by (simp add: transport_ok_def)
  show "\<exists>rc t'. rtc_transport_bind_rtp mem t ssrc c = Some (rc, t') \<and> transport_ok t' \<and> same_ice t t'"
    using demux_binding_ok(1) [OF dm, of mem ssrc c] upd assms by (auto simp: rtc_transport_bind_rtp_def same_ice_def)
  show "\<exists>t'. rtc_transport_unbind_rtp mem t ssrc = Some t' \<and> transport_ok t' \<and> same_ice t t'"
    using demux_binding_ok(2) [OF dm, of mem ssrc] upd by (auto simp: rtc_transport_unbind_rtp_def same_ice_def)
qed

lemma transport_step_ok:
  assumes "ssl_ok (e_ssl E)" "transport_ok t" "listener_ok l" "op_allowed t op"
  shows "\<exists>evs out t' l'. transport_step E a self op t l = Some (evs, out, t', l') \<and> transport_ok t' \<and> listener_ok l' \<and> good_step t evs t'"
proof (cases op)
  case (On_packet type data "from")
  then show ?thesis using on_packet_ok [OF assms(1-3), of a self type data "from"]
    by (auto simp: good_step_def keeps_remote_def simp del: split_paired_Ex)
next
  case (Ice_timer txn)
  then show ?thesis using ice_timer_ok [OF assms(3,2), of E "a_mem a" self txn "a_tm a"] good_same by fastforce
next
  case Dtls_timer
  then show ?thesis using dtls_timer_ok [OF assms(3,2), of E "a_tm a"] good_same by fastforce
next
  case Twcc_timer
  then show ?thesis using twcc_timer_ok [OF assms(3,2), of E "a_tm a"] good_same by fastforce
next
  case (Start_ice txn)
  then have n: "t_ice_check_count t < 2 ^ 31 - 1" using assms(4) by (simp add: op_allowed_def)
  show ?thesis using Start_ice start_ice_ok [OF assms(3,2) n, of E "a_mem a" self txn "a_tm a"] good_same by fastforce
next
  case (Set_remote_ice p)
  then show ?thesis using local_ops_ok(1) [OF assms(2), of p] assms(3,4) by (simp add: op_allowed_def good_same)
next
  case Start_dtls
  then show ?thesis using start_dtls_ok [OF assms(1,3,2), of a] assms(4) good_same by (fastforce simp: op_allowed_def)
next
  case (Set_dtls_role role)
  then show ?thesis using set_role_ok [OF assms(2), of E role] assms(3) by (simp add: prod_eq_iff good_same)
next
  case (Send_rtp buf cap)
  then show ?thesis using send_rtp_ok(1) [OF assms(3,2), of E buf cap] good_same by fastforce
next
  case (Send_rtcp buf cap)
  then show ?thesis using send_rtp_ok(2) [OF assms(3,2), of E buf cap] good_same by fastforce
next
  case (Send_data d)
  then show ?thesis using send_data_ok [OF assms(3,2), of E d] good_same by fastforce
next
  case (Restart_ice u p)
  then show ?thesis using restart_ok [OF assms(3,2), of "a_mem a" self u p] good_same by fastforce
next
  case (Bind_rtp ssrc c)
  then show ?thesis using bind_ops_ok(1) [OF assms(2), of "fst (a_mem a)" ssrc c] assms(3) good_same by fastforce
next
  case (Unbind_rtp ssrc)
  then show ?thesis using bind_ops_ok(2) [OF assms(2), of "fst (a_mem a)" ssrc] assms(3) good_same by fastforce
next
  case Close
  then show ?thesis using close_ok [OF assms(3,2), of E "a_mem a"] by (fastforce simp: good_step_def)
qed (use local_ops_ok(2-) [OF assms(2)] assms(2,3) in \<open>simp_all add: good_same callback_ops\<close>)

lemma reach_ok: "transport_reach E self t l \<Longrightarrow> ssl_ok (e_ssl E) \<Longrightarrow> transport_ok t \<and> listener_ok l"
proof (induction rule: transport_reach.induct)
  case (stepped t l op a evs out t' l')
  then show ?case using transport_step_ok [of E t l op a self] by auto
qed (auto dest: create_ok)

text \<open>
  C2. A transport cannot be broken from outside: in every state it reaches, from its creation on, any datagram, of
  any length and content, and any timer is handled to the end, without a read outside a buffer, a use of a missing session or context, a signed overflow or a
  table operation that loops, whatever allocations, locks and key exports fail; and so is any call of its owner, with three
  preconditions: the ICE parameters passed in are terminated strings, connectivity checks are started by hand fewer than 2^31 - 1 times, and the handshake is not started over a selected remote without a session (after closing or a failed change of role), where the code
  uses a missing session: exactly then that call goes wrong. The remote it selected never changes, media is delivered only once
  the keys are exported, and a closed transport stays closed and delivers nothing.
\<close>

theorem transport_robust:
  assumes "ssl_ok (e_ssl E)" "transport_reach E self t l"
  shows "(op_allowed t op \<longrightarrow>
      (\<exists>evs out t' l'. transport_step E a self op t l = Some (evs, out, t', l') \<and> good_step t evs t' \<and> transport_reach E self t' l')) \<and>
    (t_selected_remote t \<noteq> None \<and> d_ssl (t_dtls t) = None \<longrightarrow> transport_step E a self Start_dtls t l = None)"
proof -
  have ok: "transport_ok t" "listener_ok l" using reach_ok [OF assms(2,1)] by simp_all
  have "\<exists>evs out t' l'. transport_step E a self op t l = Some (evs, out, t', l') \<and> good_step t evs t' \<and> transport_reach E self t' l'"
    if "op_allowed t op"
    using transport_step_ok [OF assms(1) ok that, of a self] transport_reach.stepped [OF assms(2) that] by meson
  then show ?thesis using start_dtls_stuck [OF ok(1), of E a l] by (simp del: split_paired_Ex)
qed

text \<open>The environment of the witnesses: a session that connects at once and exports a constant.\<close>

definition demo_ssl :: "unit openssl" where
  "demo_ssl = \<lparr>ssl_certificate = Some [171], ssl_setup = \<lambda>r. Some (), ssl_feed = \<lambda>s d. s, ssl_do_handshake = \<lambda>s. (HS_complete, [22], s),
     ssl_handle_timeout = \<lambda>s. (False, [], s), ssl_selected_profile = \<lambda>s. None, ssl_export_keying_material = \<lambda>s n. Some (replicate n 7),
     ssl_read = \<lambda>s. ([], s), ssl_write = \<lambda>s d. (True, d, s)\<rparr>"

definition demo_env :: "unit tenv" where
  "demo_env = \<lparr>e_net = demo_net, e_ssl = demo_ssl, e_crypto = sum_crypto, e_hmac = \<lambda>k d. replicate 20 0\<rparr>"

lemma demo_ssl_ok: "ssl_ok (e_ssl demo_env)"
  by (simp add: ssl_ok_def demo_env_def demo_ssl_def)

lemma set_fresh:
  "\<exists>m. rtc_str_map_set (True, True) (rtc_str_map_init_owned :: 'v rtc_str_map) k v = Some (RTC_OK, m)"
proof -
  obtain rc m where s: "rtc_str_map_set (True, True) (rtc_str_map_init_owned :: 'v rtc_str_map) k v = Some (rc, m)"
    using str.set_returns [OF str.inv_new] by (metis rtc_str_map_init_owned_def)
  then have "rc = RTC_OK"
    by (auto simp: rtc_str_map_set_def str_make_room_def str_rehash_def rtc_str_map_init_owned_def init_common_def calloc_ok_def SIZE_MAX_def
        RTC_STR_MAP_INITIAL_CAP_def Let_def split: if_splits Option.bind_splits)
  with s show ?thesis by blast
qed

definition demo_transport :: "((unit, nat) rtc_transport option \<times> nat rtc_listener) option" where
  "demo_transport = rtc_transport_create demo_env (True, True, True) 9 (\<lambda>n. Some (replicate n 5)) (\<lambda>n. Some (replicate n 6)) True
     RTC_ICE_MODE_LITE False True 300000 (the demo_listener)"

lemma demo_listener_ok: "listener_ok (the demo_listener)"
proof -
  obtain l where l: "demo_listener = Some l" using demo_listener_Some by blast
  have "listener_rep demo_net l no_routes" by (rule create_fresh [OF l [unfolded demo_listener_def]])
  then show ?thesis by (simp add: l listener_rep_def keyed_def listener_ok_def)
qed

lemma demo_transport_Some: "\<exists>t l. demo_transport = Some (Some t, l)"
proof -
  obtain l where l: "demo_listener = Some l" using demo_listener_Some by blast
  then have "ls_ufrag_routes l = rtc_str_map_init_owned"
    by (auto simp: demo_listener_def rtc_listener_create_def listener_gather_host_candidates_def rtc_packet_io_get_local_addr_def
      rtc_addr_to_string_def demo_net_def listener_add_host_address_def listener_candidate_from_address_def
      listener_add_candidate_def ICE_MAX_CANDIDATES_def listener_mark_gathering_done_def Let_def split: if_splits)
  then have reg: "\<exists>l'. rtc_listener_register_ufrag (True, True, True) l u (Route_to 9) = Some (RTC_OK, l')" for u
    using set_fresh [of "chars u" "Some (Route_to (9 :: nat))"] by (auto simp: rtc_listener_register_ufrag_def listener_register_route_def)
  obtain u p where r: "rtc_random_string (\<lambda>n. Some (replicate n 5)) 8 = Inr u" "rtc_random_string (\<lambda>n. Some (replicate n 6)) 24 = Inr p"
    by (simp add: rtc_random_string_def Let_def)
  obtain d where d: "rtc_dtls_init (e_ssl demo_env) RTC_DTLS_ROLE_SERVER = (RTC_OK, d)"
    by (simp add: rtc_dtls_init_def dtls_generate_cert_def dtls_setup_ssl_def demo_env_def demo_ssl_def)
  obtain l' where "rtc_listener_register_ufrag (True, True, True) l u (Route_to 9) = Some (RTC_OK, l')" using reg by blast
  then show ?thesis by (simp add: demo_transport_def rtc_transport_create_def Let_def r d l)
qed

theorem transport_robust_witness:
  "\<exists>t l evs out t' l'. demo_transport = Some (Some t, l) \<and>
    transport_step demo_env \<lparr>a_mem = (False, False, False), a_tm = 3, a_locks = (True, False), a_now_us = 0\<rparr> 9
      (On_packet RTC_PKT_DTLS [22, 254] (Addr_In 5 1)) t l = Some (evs, out, t', l') \<and>
    good_step t evs t' \<and> transport_reach demo_env 9 t' l'"
proof -
  obtain t l where tl: "demo_transport = Some (Some t, l)" using demo_transport_Some by blast
  have "transport_reach demo_env 9 t l" by (rule transport_reach.created [OF tl [unfolded demo_transport_def] demo_listener_ok])
  moreover have "op_allowed t (On_packet RTC_PKT_DTLS [22, 254] (Addr_In 5 1))" by (simp add: op_allowed_def)
  ultimately show ?thesis using transport_robust [OF demo_ssl_ok, of 9 t l] tl by meson
qed

end
