(* ===== verification/Media_Path.thy ===== *)
theory Media_Path
  imports Transport_Safety
begin

text \<open>
  The way of a media packet from one endpoint to another: the SRTP contexts that the two transports derive
  from one DTLS handshake, protection and sending through the listener of the sender
  (\<^verbatim>\<open>rtc_transport.c\<close>, \<^verbatim>\<open>rtc_srtp.c\<close>, \<^verbatim>\<open>rtc_packet_io.c\<close>), classification and routing at the listener of
  the receiver (\<^verbatim>\<open>rtc_listener.c\<close>), unprotection, parsing (\<^verbatim>\<open>rtc_rtp.c\<close>) and delivery to the consumer
  the demultiplexer names (\<^verbatim>\<open>rtc_rtp_demux.c\<close>).
\<close>

subsection \<open>Key agreement\<close>

text \<open>What a completed handshake gives its two ends: opposite roles, one selected profile and the same exported
  keying material.\<close>

definition handshake_done :: "'s tenv \<Rightarrow> ('s, 'c) rtc_transport \<Rightarrow> 's tenv \<Rightarrow> ('s, 'd) rtc_transport \<Rightarrow> bool" where
  "handshake_done EA tA EB tB \<longleftrightarrow>
    d_state (t_dtls tA) = RTC_DTLS_STATE_CONNECTED \<and> d_state (t_dtls tB) = RTC_DTLS_STATE_CONNECTED \<and>
    d_role (t_dtls tA) \<noteq> d_role (t_dtls tB) \<and> \<not> t_srtp_ready tA \<and> \<not> t_srtp_ready tB \<and>
    (case (d_ssl (t_dtls tA), d_ssl (t_dtls tB)) of
       (Some sA, Some sB) \<Rightarrow> ssl_selected_profile (e_ssl EA) sA = ssl_selected_profile (e_ssl EB) sB \<and>
         ssl_export_keying_material (e_ssl EA) sA = ssl_export_keying_material (e_ssl EB) sB
     | _ \<Rightarrow> False)"

lemma export_ready:
  assumes "transport_try_export_srtp E (True, True) t = Some t'" "t_srtp_ready t'" "\<not> t_srtp_ready t"
  obtains d tx rx where "rtc_dtls_export_srtp_keys (e_ssl E) (t_dtls t) = Some (RTC_OK, d)"
    "rtc_srtp_init_profile (e_crypto E) True (srtp_profile_of d) (fst (send_keys d)) (snd (send_keys d)) = Inr tx"
    "rtc_srtp_init_profile (e_crypto E) True (srtp_profile_of d) (fst (recv_keys d)) (snd (recv_keys d)) = Inr rx"
    "t' = (transport_cancel_dtls_timer t)\<lparr>t_dtls := d, t_srtp_send := Some tx, t_srtp_recv := Some rx, t_srtp_ready := True\<rparr>"
proof -
  let ?c = "transport_cancel_dtls_timer t"
  have c: "t_dtls ?c = t_dtls t" "t_srtp_ready ?c = t_srtp_ready t" by (simp_all add: transport_cancel_dtls_timer_def)
  have conn: "d_state (t_dtls t) = RTC_DTLS_STATE_CONNECTED"
    by (rule ccontr) (use assms in \<open>simp add: transport_try_export_srtp_def\<close>)
  obtain rc d where d: "rtc_dtls_export_srtp_keys (e_ssl E) (t_dtls t) = Some (rc, d)"
    using assms(1,3) conn c by (cases "rtc_dtls_export_srtp_keys (e_ssl E) (t_dtls t)") (auto simp: transport_try_export_srtp_def Let_def)
  note eq = assms(1) [unfolded transport_try_export_srtp_def]
  have rc: "rc = RTC_OK" by (rule ccontr) (use eq assms(2,3) conn c d in \<open>auto simp: Let_def\<close>)
  let ?tx = "rtc_srtp_init_profile (e_crypto E) True (srtp_profile_of d) (fst (send_keys d)) (snd (send_keys d))"
  let ?rx = "rtc_srtp_init_profile (e_crypto E) True (srtp_profile_of d) (fst (recv_keys d)) (snd (recv_keys d))"
  obtain tx where tx: "?tx = Inr tx"
    using eq assms(2,3) conn c d rc by (cases ?tx) (auto simp: Let_def case_prod_unfold)
  obtain rx where rx: "?rx = Inr rx"
    using eq assms(2,3) conn c d rc tx by (cases ?rx) (auto simp: Let_def case_prod_unfold)
  show ?thesis by (rule that [OF d [unfolded rc] tx rx]) (use eq assms(3) conn c d rc tx rx in \<open>simp add: Let_def case_prod_unfold\<close>)
qed

lemma exported_keys:
  assumes "rtc_dtls_export_srtp_keys S d = Some (RTC_OK, d')"
  obtains s gcm k n m where "d_ssl d = Some s" "profile_lens (ssl_selected_profile S s) = (gcm, k, n)"
    "ssl_export_keying_material S s (2 * (k + n)) = Some m" "d_role d' = d_role d" "d_aead_gcm d' = gcm" "d_key_len d' = k"
    "rd_bytes m 0 k = Some (d_client_key d')" "rd_bytes m k k = Some (d_server_key d')"
    "rd_bytes m (2 * k) n = Some (d_client_salt d')" "rd_bytes m (2 * k + n) n = Some (d_server_salt d')"
  using assms unfolding rtc_dtls_export_srtp_keys_def
  by (auto simp: Let_def case_prod_unfold prod_eq_iff split: if_splits option.splits Option.bind_splits)

lemma export_agree:
  assumes "handshake_done EA tA EB tB" "rtc_dtls_export_srtp_keys (e_ssl EA) (t_dtls tA) = Some (RTC_OK, dA)"
    "rtc_dtls_export_srtp_keys (e_ssl EB) (t_dtls tB) = Some (RTC_OK, dB)"
  shows "srtp_profile_of dA = srtp_profile_of dB \<and> send_keys dA = recv_keys dB \<and> recv_keys dA = send_keys dB"
proof -
  note A = exported_keys [OF assms(2)] and B = exported_keys [OF assms(3)]
  obtain sA gA kA nA mA where a: "d_ssl (t_dtls tA) = Some sA" "profile_lens (ssl_selected_profile (e_ssl EA) sA) = (gA, kA, nA)"
    "ssl_export_keying_material (e_ssl EA) sA (2 * (kA + nA)) = Some mA" "d_role dA = d_role (t_dtls tA)" "d_aead_gcm dA = gA" "d_key_len dA = kA"
    "rd_bytes mA 0 kA = Some (d_client_key dA)" "rd_bytes mA kA kA = Some (d_server_key dA)"
    "rd_bytes mA (2 * kA) nA = Some (d_client_salt dA)" "rd_bytes mA (2 * kA + nA) nA = Some (d_server_salt dA)"
    using A .
  obtain sB gB kB nB mB where b: "d_ssl (t_dtls tB) = Some sB" "profile_lens (ssl_selected_profile (e_ssl EB) sB) = (gB, kB, nB)"
    "ssl_export_keying_material (e_ssl EB) sB (2 * (kB + nB)) = Some mB" "d_role dB = d_role (t_dtls tB)" "d_aead_gcm dB = gB" "d_key_len dB = kB"
    "rd_bytes mB 0 kB = Some (d_client_key dB)" "rd_bytes mB kB kB = Some (d_server_key dB)"
    "rd_bytes mB (2 * kB) nB = Some (d_client_salt dB)" "rd_bytes mB (2 * kB + nB) nB = Some (d_server_salt dB)"
    using B .
  have roles: "d_role dA \<noteq> d_role dB" using assms(1) a(4) b(4) by (simp add: handshake_done_def)
  have same: "gA = gB" "kA = kB" "nA = nB" "mA = mB" using assms(1) a(1-3) b(1-3) by (auto simp: handshake_done_def)
  then have keys: "d_client_key dA = d_client_key dB" "d_server_key dA = d_server_key dB" "d_client_salt dA = d_client_salt dB"
      "d_server_salt dA = d_server_salt dB" using a(7-10) b(7-10) by simp_all
  show ?thesis using keys same a(5,6) b(5,6) roles
    by (cases "d_role dA"; cases "d_role dB") (simp_all add: srtp_profile_of_def send_keys_def recv_keys_def)
qed

text \<open>The two ends derive the same contexts, each the other way round.\<close>

lemma keys_agree:
  assumes "handshake_done EA tA EB tB" "e_crypto EA = e_crypto EB"
    "transport_try_export_srtp EA (True, True) tA = Some tA'" "transport_try_export_srtp EB (True, True) tB = Some tB'"
    "t_srtp_ready tA'" "t_srtp_ready tB'"
  shows "t_srtp_send tA' = t_srtp_recv tB'" "t_srtp_recv tA' = t_srtp_send tB'"
proof -
  have nr: "\<not> t_srtp_ready tA" "\<not> t_srtp_ready tB" using assms(1) by (simp_all add: handshake_done_def)
  obtain dA txA rxA where A: "rtc_dtls_export_srtp_keys (e_ssl EA) (t_dtls tA) = Some (RTC_OK, dA)"
    "rtc_srtp_init_profile (e_crypto EA) True (srtp_profile_of dA) (fst (send_keys dA)) (snd (send_keys dA)) = Inr txA"
    "rtc_srtp_init_profile (e_crypto EA) True (srtp_profile_of dA) (fst (recv_keys dA)) (snd (recv_keys dA)) = Inr rxA"
    "tA' = (transport_cancel_dtls_timer tA)\<lparr>t_dtls := dA, t_srtp_send := Some txA, t_srtp_recv := Some rxA, t_srtp_ready := True\<rparr>"
    using export_ready [OF assms(3,5) nr(1)] .
  obtain dB txB rxB where B: "rtc_dtls_export_srtp_keys (e_ssl EB) (t_dtls tB) = Some (RTC_OK, dB)"
    "rtc_srtp_init_profile (e_crypto EB) True (srtp_profile_of dB) (fst (send_keys dB)) (snd (send_keys dB)) = Inr txB"
    "rtc_srtp_init_profile (e_crypto EB) True (srtp_profile_of dB) (fst (recv_keys dB)) (snd (recv_keys dB)) = Inr rxB"
    "tB' = (transport_cancel_dtls_timer tB)\<lparr>t_dtls := dB, t_srtp_send := Some txB, t_srtp_recv := Some rxB, t_srtp_ready := True\<rparr>"
    using export_ready [OF assms(4,6) nr(2)] .
  have "srtp_profile_of dA = srtp_profile_of dB \<and> send_keys dA = recv_keys dB \<and> recv_keys dA = send_keys dB"
    by (rule export_agree [OF assms(1) A(1) B(1)])
  with A B assms(2) show "t_srtp_send tA' = t_srtp_recv tB'" "t_srtp_recv tA' = t_srtp_send tB'" by simp_all
qed

subsection \<open>Runs\<close>

text \<open>A sender that hands its packets to the transport one by one.\<close>

fun send_run :: "'s tenv \<Rightarrow> nat \<Rightarrow> bytes list \<Rightarrow> ('s, 'c) rtc_transport \<Rightarrow> 'r rtc_listener \<Rightarrow> (rtc_err \<times> sent) list option" where
  "send_run E cap [] t l = Some []"
| "send_run E cap (p # ps) t l = do {
     (rc, _, out, t, l) \<leftarrow> rtc_transport_send_rtp E t l p cap;
     outs \<leftarrow> send_run E cap ps t l;
     Some ((rc, out) # outs)
   }"

text \<open>A datagram at the receiving host: the socket reports it with its classification and source, the listener names
  the transport, the transport handles it.\<close>

definition arrive ::
  "'s tenv \<Rightarrow> step_args \<Rightarrow> 'r \<Rightarrow> bytes \<times> rtc_addr \<Rightarrow> ('s, 'c) rtc_transport \<Rightarrow> 'r rtc_listener \<Rightarrow>
   ('c transport_event list \<times> ('s, 'c) rtc_transport \<times> 'r rtc_listener) option" where
  "arrive E a self dg t l = do {
     let type = transport_classify (fst dg);
     let from = addr_unmap_v4 (snd dg);
     (target, _, l) \<leftarrow> listener_on_packet (e_net E) (a_mem a) l type (fst dg) from;
     if target \<noteq> Some self then Some ([], t, l)
     else do { (evs, _, t, l) \<leftarrow> transport_on_packet E a self type (fst dg) from t l; Some (evs, t, l) }
   }"

fun receive_run ::
  "'s tenv \<Rightarrow> step_args \<Rightarrow> 'r \<Rightarrow> (bytes \<times> rtc_addr) list \<Rightarrow> ('s, 'c) rtc_transport \<Rightarrow> 'r rtc_listener \<Rightarrow> 'c transport_event list list option" where
  "receive_run E a self [] t l = Some []"
| "receive_run E a self (dg # dgs) t l = do {
     (evs, t, l) \<leftarrow> arrive E a self dg t l;
     rest \<leftarrow> receive_run E a self dgs t l;
     Some (evs # rest)
   }"

text \<open>What the receiver's owner sees of the results of unprotection: each packet once, at the consumer its SSRC has
  in the table, or at the catch-all callback.\<close>

definition rtp_of :: "bytes \<Rightarrow> rtc_rtp_packet" where
  "rtp_of p = projr (the (rtc_rtp_parse [] p))"

fun media_events ::
  "(rtc_rtp_packet \<Rightarrow> 'c option) option \<Rightarrow> bool \<Rightarrow> (u32 \<rightharpoonup> 'c) \<Rightarrow> (rtc_err + bytes) list \<Rightarrow> 'c transport_event list list" where
  "media_events f raw T [] = []"
| "media_events f raw T (Inl e # rs) = [] # media_events f raw T rs"
| "media_events f raw T (Inr p # rs) =
     (let c = snd (fst (route_spec (Some T) (Dm_packet f (rtp_of p))))
      in (case c of Some c \<Rightarrow> [Rtp_sink c (rtp_of p)] | None \<Rightarrow> (if raw then [Rtp_raw (rtp_of p)] else [])) #
         media_events f raw (T(h_ssrc (pkt_header (rtp_of p)) := c)) rs)"

subsection \<open>Sending\<close>

text \<open>The kernel takes every datagram.\<close>

definition net_sends :: "inet \<Rightarrow> bool" where
  "net_sends net \<longleftrightarrow> (\<forall>d a. d \<noteq> [] \<longrightarrow> fst (n_sendto net d a) > 0)"

lemma send_run_wire:
  assumes "net_sends (e_net E)"
  shows "protect_run (e_crypto E) ctx cap ps = Some (map Inr ws) \<Longrightarrow> t_srtp_ready t \<Longrightarrow> t_srtp_send t = Some ctx \<Longrightarrow>
    t_selected_remote t = Some dst \<Longrightarrow> io_sock (ls_io l) \<Longrightarrow> [] \<notin> set ws \<Longrightarrow>
    send_run E cap ps t l = Some (map (\<lambda>w. (RTC_OK, [(w, addr_map_v4 dst)])) ws)"
proof (induction ps arbitrary: ctx ws t l)
  case (Cons p ps)
  obtain r ctx' rs where r: "rtc_srtp_protect (e_crypto E) ctx p cap = Some (r, ctx')" "protect_run (e_crypto E) ctx' cap ps = Some rs"
      "map Inr ws = r # rs"
    using Cons.prems(1) by (auto split: Option.bind_splits)
  then obtain w ws' where w: "ws = w # ws'" "r = Inr w" "rs = map Inr ws'" by (cases ws) auto
  let ?t = "t\<lparr>t_srtp_send := Some ctx'\<rparr>"
  obtain n b where n: "n_sendto (e_net E) w (addr_map_v4 dst) = (n, b)" by (metis prod.exhaust)
  have w0: "w \<noteq> []" using w(1) Cons.prems(6) by auto
  then have "fst (n_sendto (e_net E) w (addr_map_v4 dst)) > 0" using assms by (simp add: net_sends_def)
  then have n0: "n > 0" using n by simp
  obtain l' where s: "rtc_transport_send_raw E ?t l w = (RTC_OK, [(w, addr_map_v4 dst)], l')" "io_sock (ls_io l')"
    using n n0 w0 Cons.prems(4,5) by (auto simp: rtc_transport_send_raw_def rtc_listener_send_to_def rtc_packet_io_send_def Let_def)
  have "send_run E cap ps ?t l' = Some (map (\<lambda>w. (RTC_OK, [(w, addr_map_v4 dst)])) ws')"
    by (rule Cons.IH) (use r(2) w s(2) Cons.prems in auto)
  then show ?case using r(1) w s(1) Cons.prems by (simp add: rtc_transport_send_rtp_def)
qed simp

subsection \<open>Receiving\<close>

lemma twcc_arrival_frame:
  "transport_record_twcc_arrival now t pkt = Some t' \<Longrightarrow> t_srtp_recv t' = t_srtp_recv t \<and> t_srtp_ready t' = t_srtp_ready t \<and>
    t_closed t' = t_closed t \<and> t_rtp_demux t' = t_rtp_demux t \<and> t_resolve t' = t_resolve t \<and> t_on_rtp t' = t_on_rtp t"
  unfolding transport_record_twcc_arrival_def by (auto split: if_splits option.splits sum.splits Option.bind_splits)

definition media_rx :: "(rtc_rtp_packet \<Rightarrow> 'c option) option \<Rightarrow> bool \<Rightarrow> (u32 \<rightharpoonup> 'c) \<Rightarrow> rtc_srtp_ctx \<Rightarrow> ('s, 'c) rtc_transport \<Rightarrow> bool" where
  "media_rx f raw T ctx t \<longleftrightarrow> \<not> t_closed t \<and> t_srtp_ready t \<and> t_srtp_recv t = Some ctx \<and> demux_rep (t_rtp_demux t) (Some T) \<and>
    t_resolve t = f \<and> t_on_rtp t = raw"

lemma handle_rtp_media:
  assumes "media_rx f raw T ctx t" "length q \<le> SRTP_MAX_PACKET" "rtc_srtp_unprotect (e_crypto E) ctx q = Some (r, ctx')"
    "\<forall>p. r = Inr p \<longrightarrow> (\<exists>pkt. rtc_rtp_parse [] p = Some (Inr pkt))"
  shows "\<exists>evs T' t'. transport_handle_rtp E True now t q = Some (evs, t') \<and> media_rx f raw T' ctx' t' \<and>
    (\<forall>rs. media_events f raw T (r # rs) = evs # media_events f raw T' rs)"
proof (cases r)
  case (Inl e)
  then show ?thesis using assms(1-3)
    by (intro exI [of _ "[]"] exI [of _ T] exI [of _ "t\<lparr>t_srtp_recv := Some ctx'\<rparr>"]) (simp add: transport_handle_rtp_def media_rx_def)
next
  case (Inr p)
  then obtain pkt where pkt: "rtc_rtp_parse [] p = Some (Inr pkt)" using assms(4) by blast
  then have of: "rtp_of p = pkt" by (simp add: rtp_of_def)
  let ?c = "snd (fst (route_spec (Some T) (Dm_packet f pkt)))" and ?T = "T(h_ssrc (pkt_header pkt) := snd (fst (route_spec (Some T) (Dm_packet f pkt))))"
  have rs: "route_spec (Some T) (Dm_packet f pkt) = ((RTC_OK, ?c), Some ?T)" by (simp add: Let_def)
  have rep: "demux_rep (t_rtp_demux t) (Some T)" using assms(1) by (simp add: media_rx_def)
  then have ready: "dm_ready (t_rtp_demux t)" by (simp add: demux_rep_def)
  obtain dm where dm: "rtc_rtp_demux_dispatch True f (t_rtp_demux t) pkt = Some (?c, dm)" "demux_rep dm (Some ?T)"
    using demux_rep_dispatch [OF rep rs] by blast
  let ?t = "t\<lparr>t_srtp_recv := Some ctx', t_rtp_demux := dm\<rparr>"
  obtain t' where t': "transport_record_twcc_arrival now ?t pkt = Some t'" using twcc_arrival_total [OF pkt] by blast
  have "transport_handle_rtp E True now t q =
      Some (case ?c of Some c \<Rightarrow> [Rtp_sink c pkt] | None \<Rightarrow> (if raw then [Rtp_raw pkt] else []), t')"
    using assms(1-3) Inr pkt ready dm(1) t' by (simp add: transport_handle_rtp_def media_rx_def)
  moreover have "media_rx f raw ?T ctx' t'" using assms(1) twcc_arrival_frame [OF t'] dm(2) by (simp add: media_rx_def)
  ultimately show ?thesis unfolding Inr by (intro exI conjI allI) (simp_all only: media_events.simps of Let_def)
qed

lemma receive_run_media:
  assumes "listener_rep (e_net E) l R" "r_tuple R (addr_unmap_v4 src) = Some self" "fst (a_mem a)"
  shows "unprotect_run (e_crypto E) ctx qs = Some rs \<Longrightarrow> media_rx f raw T ctx t \<Longrightarrow>
    \<forall>q \<in> set qs. length q \<le> SRTP_MAX_PACKET \<and> transport_classify q = RTC_PKT_RTP \<Longrightarrow>
    \<forall>p. Inr p \<in> set rs \<longrightarrow> (\<exists>pkt. rtc_rtp_parse [] p = Some (Inr pkt)) \<Longrightarrow>
    receive_run E a self (map (\<lambda>q. (q, src)) qs) t l = Some (media_events f raw T rs)"
proof (induction qs arbitrary: ctx rs T t)
  case (Cons q qs)
  obtain r ctx' rs' where r: "rtc_srtp_unprotect (e_crypto E) ctx q = Some (r, ctx')" "unprotect_run (e_crypto E) ctx' qs = Some rs'" "rs = r # rs'"
    using Cons.prems(1) by (auto split: Option.bind_splits)
  let ?t = "t\<lparr>t_packets_received := t_packets_received t + 1, t_bytes_received := t_bytes_received t + of_nat (length q)\<rparr>"
  have rx: "media_rx f raw T ctx ?t" using Cons.prems(2) by (simp add: media_rx_def)
  obtain evs T' t' where h: "transport_handle_rtp E True (a_now_us a) ?t q = Some (evs, t')" "media_rx f raw T' ctx' t'"
      "media_events f raw T (r # rs') = evs # media_events f raw T' rs'"
    using handle_rtp_media [OF rx _ r(1)] Cons.prems(3,4) r(3) by (metis list.set_intros(1))
  have "arrive E a self (q, src) t l = Some (evs, t', l)"
    using dispatch_media [OF assms(1), of RTC_PKT_RTP "a_mem a" q "addr_unmap_v4 src"] assms(2,3) Cons.prems(2,3) h(1)
    by (simp add: arrive_def transport_on_packet_def counted_def media_rx_def Let_def)
  moreover have "receive_run E a self (map (\<lambda>q. (q, src)) qs) t' l = Some (media_events f raw T' rs')"
    by (rule Cons.IH [OF r(2) h(2)]) (use Cons.prems(3,4) r(3) in auto)
  ultimately show ?case using h(3) r(3) by simp
qed simp

subsection \<open>The path\<close>

lemma top_bits: "drop_bit 6 (b :: u8) AND 3 = drop_bit 6 b"
proof -
  have "unat b div 64 < 4" using unat_range(1) [of b] by auto
  then have "take_bit 2 (drop_bit 6 b) = drop_bit 6 b"
    by (simp add: word_unat_eq_iff unat_take_bit unat_drop_bit take_bit_nat_eq_self)
  then show ?thesis by (simp add: take_bit_eq_mask mask_eq_exp_minus_1)
qed

lemma wire_rtp:
  assumes C: "crypto_ok C" and p: "rtp_packet p" and parse: "rtc_rtp_parse [] p = Some (Inr pkt)" and pt: "\<not> (200 \<le> p ! 1 \<and> p ! 1 \<le> 206)"
  shows "transport_classify (wire C ctx roc p) = RTC_PKT_RTP" "length (wire C ctx roc p) = length p + tag_len ctx" "wire C ctx roc p \<noteq> []"
proof -
  obtain body tag where w: "wire C ctx roc p = take (hdr_len p) p @ body @ tag" "length body = length p - hdr_len p" "length tag = tag_len ctx"
    using wire_shape [OF C p] by metis
  have h: "12 \<le> hdr_len p" "hdr_len p \<le> length p" using p header_len_facts [of p "length p"] by (auto simp: rtp_packet_def)
  obtain b c rest where q: "p = b # c # rest" using h by (cases p; cases "tl p") auto
  have "drop_bit 6 b AND 3 = 2" using parse q by (auto simp: rtc_rtp_parse_def rtp_sizes RTP_VERSION_def Let_def split: if_splits)
  then have "drop_bit 6 b = 2" by (simp add: top_bits)
  moreover have "wire C ctx roc p = b # c # (take (hdr_len p - 2) rest @ body @ tag)"
    using w(1) q h by (cases "hdr_len p"; cases "hdr_len p - 1") auto
  ultimately show "transport_classify (wire C ctx roc p) = RTC_PKT_RTP" "wire C ctx roc p \<noteq> []"
    using classify_version2 [of b] pt q by auto
  show "length (wire C ctx roc p) = length p + tag_len ctx" using w h by simp
qed

text \<open>What is sent: the packets \<open>tr\<close> with their extended indices, in this order. They are well-formed RTP whose second byte does not
  collide with a RTCP type, fit the buffers with the largest tag and belong to at most eight streams; each stream starts with an index below
  65536 and moves forward by less than half the sequence space.\<close>

definition packets_ok :: "nat \<Rightarrow> (bytes \<times> nat) list \<Rightarrow> bool" where
  "packets_ok cap tr \<longleftrightarrow> tx_ok Map.empty tr \<and> card (pkt_ssrc ` fst ` set tr) \<le> SRTP_REPLAY_MAX_STREAMS \<and>
    (\<forall>(p, e) \<in> set tr. length p + SRTP_GCM_TAG_LEN \<le> cap \<and> length p + SRTP_GCM_TAG_LEN \<le> SRTP_MAX_PACKET \<and>
       (\<exists>pkt. rtc_rtp_parse [] p = Some (Inr pkt)) \<and> \<not> (200 \<le> p ! 1 \<and> p ! 1 \<le> 206))"

lemma rx_spec_from: "Inr p \<in> set (rx_spec A tr) \<Longrightarrow> p \<in> fst ` set tr"
  by (induction A tr rule: rx_spec.induct) (auto split: if_splits)

lemma tag_len_le: "tag_len ctx \<le> SRTP_GCM_TAG_LEN"
  by (simp add: tag_len_def srtp_sizes)

lemma traffic_wires:
  assumes "crypto_ok C" "packets_ok cap tr" "rtc_srtp_init_profile C True profile key salt = Inr ctx"
    "\<forall>k \<in> set ks. k < length tr" "rx_ok (\<lambda>s. {}) (map ((!) tr) ks)"
  obtains ws where "protect_run C ctx cap (map fst tr) = Some (map Inr ws)" "length ws = length tr" "[] \<notin> set ws"
    "unprotect_run C ctx (map ((!) ws) ks) = Some (rx_spec (\<lambda>s. {}) (map ((!) tr) ks))"
    "\<forall>q \<in> set (map ((!) ws) ks). length q \<le> SRTP_MAX_PACKET \<and> transport_classify q = RTC_PKT_RTP"
    "\<forall>p. Inr p \<in> set (rx_spec (\<lambda>s. {}) (map ((!) tr) ks)) \<longrightarrow> (\<exists>pkt. rtc_rtp_parse [] p = Some (Inr pkt))"
proof -
  let ?w = "\<lambda>(p, e). wire C ctx (of_nat (e div 65536)) p"
  have t: "tx_ok Map.empty tr" "card (pkt_ssrc ` fst ` set tr) \<le> SRTP_REPLAY_MAX_STREAMS" "\<forall>k \<in> set ks. k < length tr"
      "rx_ok (\<lambda>s. {}) (map ((!) tr) ks)"
    using assms(2,4,5) by (simp_all add: packets_ok_def)
  have pk: "rtp_packet p" "length p + SRTP_GCM_TAG_LEN \<le> cap" "length p + SRTP_GCM_TAG_LEN \<le> SRTP_MAX_PACKET"
      "\<exists>pkt. rtc_rtp_parse [] p = Some (Inr pkt)" "\<not> (200 \<le> p ! 1 \<and> p ! 1 \<le> 206)" if "(p, e) \<in> set tr" for p e
    using assms(2) that tx_ok_packets [OF t(1) that] by (auto simp: packets_ok_def)
  have cap: "\<forall>(p, e) \<in> set tr. length p + tag_len ctx \<le> cap"
    using pk(2) tag_len_le [of ctx] by (fastforce intro: le_trans [OF add_left_mono])
  have wr: "transport_classify (?w x) = RTC_PKT_RTP \<and> length (?w x) \<le> SRTP_MAX_PACKET \<and> ?w x \<noteq> []" if x: "x \<in> set tr" for x
  proof -
    obtain p e pkt where q: "x = (p, e)" "rtc_rtp_parse [] p = Some (Inr pkt)" using pk(4) x by (metis prod.exhaust)
    note k = pk(1,3,5) [OF x [unfolded q(1)]]
    show ?thesis using wire_rtp [OF assms(1) k(1) q(2) k(3), of ctx] k(2) tag_len_le [of ctx] q(1) by simp
  qed
  show ?thesis
  proof (rule that [of "map ?w tr"])
    show "protect_run C ctx cap (map fst tr) = Some (map Inr (map ?w tr))"
      "unprotect_run C ctx (map ((!) (map ?w tr)) ks) = Some (rx_spec (\<lambda>s. {}) (map ((!) tr) ks))"
      using delivery_runs [OF assms(1,3) t(1,2) cap t(3,4)] by simp_all
    show "[] \<notin> set (map ?w tr)" using wr by force
    show "\<forall>q \<in> set (map ((!) (map ?w tr)) ks). length q \<le> SRTP_MAX_PACKET \<and> transport_classify q = RTC_PKT_RTP"
      using wr t(3) by simp
    show "\<forall>p. Inr p \<in> set (rx_spec (\<lambda>s. {}) (map ((!) tr) ks)) \<longrightarrow> (\<exists>pkt. rtc_rtp_parse [] p = Some (Inr pkt))"
    proof (intro allI impI)
      fix p assume "Inr p \<in> set (rx_spec (\<lambda>s. {}) (map ((!) tr) ks))"
      from rx_spec_from [OF this] obtain k where "k \<in> set ks" "p = fst (tr ! k)" by auto
      then have "(p, snd (tr ! k)) \<in> set tr" using t(3) by simp
      then show "\<exists>pkt. rtc_rtp_parse [] p = Some (Inr pkt)" by (rule pk(4))
    qed
  qed simp
qed

text \<open>
  C1. Media gets from one end to the other. Two transports that completed one DTLS handshake derive matching keys;
  every packet the first one is given then leaves as one datagram to its remote. The packets are those of at most eight
  SSRCs, each SSRC starting at an index below 65536 and moving forward by less than 32768, well-formed RTP of at most 1484 bytes whose second byte is not
  200 to 206. The network may lose, repeat and reorder the datagrams (\<open>ks\<close> is what arrives) as long as each arriving packet is in reach of the
  receiver's rollover estimate (\<open>rx_ok\<close>: the first of a stream has an index below 65536, later ones are less than 32768 ahead of the highest index
  accepted, or at most 32768 behind it in the same rollover period, so none sent before a wrap arrives after one sent behind it). Those that arrive from the address the listener has a route for
  reach the other transport, which hands each packet, unchanged and at most once, to the consumer its SSRC is
  bound to (or the resolver names, or the catch-all callback), and nothing for a repeated one or one too old for the replay window.
\<close>

theorem media_path:
  assumes crypto: "crypto_ok (e_crypto EA)" "e_crypto EB = e_crypto EA"
    and keys: "handshake_done EA tA EB tB" "transport_try_export_srtp EA (True, True) tA = Some tA'" "t_srtp_ready tA'"
      "transport_try_export_srtp EB (True, True) tB = Some tB'" "t_srtp_ready tB'"
    and sender: "net_sends (e_net EA)" "t_selected_remote tA = Some dst" "io_sock (ls_io lA)"
    and receiver: "\<not> t_closed tB" "demux_rep (t_rtp_demux tB) (Some T)" "fst (a_mem a)"
      "listener_rep (e_net EB) lB R" "r_tuple R (addr_unmap_v4 src) = Some self"
    and packets: "packets_ok cap tr"
    and network: "\<forall>k \<in> set ks. k < length tr" "rx_ok (\<lambda>s. {}) (map ((!) tr) ks)"
  shows "\<exists>ws. send_run EA cap (map fst tr) tA' lA = Some (map (\<lambda>w. (RTC_OK, [(w, addr_map_v4 dst)])) ws) \<and> length ws = length tr \<and>
    receive_run EB a self (map (\<lambda>k. (ws ! k, src)) ks) tB' lB =
      Some (media_events (t_resolve tB) (t_on_rtp tB) T (rx_spec (\<lambda>s. {}) (map ((!) tr) ks)))"
proof -
  have nr: "\<not> t_srtp_ready tA" "\<not> t_srtp_ready tB" using keys(1) by (simp_all add: handshake_done_def)
  obtain dA ctx rxA where A:
    "rtc_srtp_init_profile (e_crypto EA) True (srtp_profile_of dA) (fst (send_keys dA)) (snd (send_keys dA)) = Inr ctx"
    "tA' = (transport_cancel_dtls_timer tA)\<lparr>t_dtls := dA, t_srtp_send := Some ctx, t_srtp_recv := Some rxA, t_srtp_ready := True\<rparr>"
    using export_ready [OF keys(2,3) nr(1)] by metis
  obtain dB txB rxB where B:
    "tB' = (transport_cancel_dtls_timer tB)\<lparr>t_dtls := dB, t_srtp_send := Some txB, t_srtp_recv := Some rxB, t_srtp_ready := True\<rparr>"
    using export_ready [OF keys(4,5) nr(2)] by metis
  have send: "t_srtp_send tA' = Some ctx" "t_selected_remote tA' = Some dst"
    using A(2) sender(2) by (simp_all add: transport_cancel_dtls_timer_def)
  have "t_srtp_recv tB' = Some ctx"
    using keys_agree(1) [OF keys(1) crypto(2) [symmetric] keys(2,4,3,5)] send(1) by simp
  then have rx: "media_rx (t_resolve tB) (t_on_rtp tB) T ctx tB'"
    using receiver(1,2) B by (simp add: media_rx_def transport_cancel_dtls_timer_def)
  obtain ws where ws: "protect_run (e_crypto EA) ctx cap (map fst tr) = Some (map Inr ws)" "length ws = length tr" "[] \<notin> set ws"
    "unprotect_run (e_crypto EA) ctx (map ((!) ws) ks) = Some (rx_spec (\<lambda>s. {}) (map ((!) tr) ks))"
    "\<forall>q \<in> set (map ((!) ws) ks). length q \<le> SRTP_MAX_PACKET \<and> transport_classify q = RTC_PKT_RTP"
    "\<forall>p. Inr p \<in> set (rx_spec (\<lambda>s. {}) (map ((!) tr) ks)) \<longrightarrow> (\<exists>pkt. rtc_rtp_parse [] p = Some (Inr pkt))"
    using traffic_wires [OF crypto(1) packets A(1) network] .
  have "send_run EA cap (map fst tr) tA' lA = Some (map (\<lambda>w. (RTC_OK, [(w, addr_map_v4 dst)])) ws)"
    by (rule send_run_wire [OF sender(1) ws(1) keys(3) send sender(3) ws(3)])
  moreover have "receive_run EB a self (map (\<lambda>q. (q, src)) (map ((!) ws) ks)) tB' lB =
      Some (media_events (t_resolve tB) (t_on_rtp tB) T (rx_spec (\<lambda>s. {}) (map ((!) tr) ks)))"
    by (rule receive_run_media [OF receiver(4,5,3) _ rx ws(5,6)]) (use ws(4) crypto(2) in simp)
  ultimately show ?thesis using ws(2) by (auto simp: comp_def)
qed

subsection \<open>A concrete pair of ends\<close>

definition demo_end :: "rtc_dtls_role \<Rightarrow> (unit, nat) rtc_transport" where
  "demo_end role =
    (let t = rtc_transport_set_rtp_router (the (fst (the demo_transport))) (Some (\<lambda>pkt. if h_ssrc (pkt_header pkt) = 7 then Some 42 else None))
     in (rtc_transport_on_rtp t True)\<lparr>t_selected_remote := Some (Addr_In 5 1),
       t_dtls := (t_dtls t)\<lparr>d_ssl := Some (), d_state := RTC_DTLS_STATE_CONNECTED, d_role := role\<rparr>\<rparr>)"

lemma demo_created: "\<exists>t. fst (the demo_transport) = Some t \<and> \<not> t_closed t \<and> \<not> t_srtp_ready t \<and> \<not> dm_ready (t_rtp_demux t)"
proof -
  obtain t l where tl: "demo_transport = Some (Some t, l)" using demo_transport_Some by blast
  show ?thesis using create_ok [OF tl [unfolded demo_transport_def] demo_listener_ok] by (simp add: tl)
qed

lemma demo_end_facts:
  "d_state (t_dtls (demo_end role)) = RTC_DTLS_STATE_CONNECTED" "d_role (t_dtls (demo_end role)) = role"
  "d_ssl (t_dtls (demo_end role)) = Some ()" "\<not> t_srtp_ready (demo_end role)" "\<not> t_closed (demo_end role)"
  "t_selected_remote (demo_end role) = Some (Addr_In 5 1)" "t_rtp_demux (demo_end role) = rtc_rtp_demux_init" "t_on_rtp (demo_end role)"
  "t_resolve (demo_end role) = Some (\<lambda>pkt. if h_ssrc (pkt_header pkt) = 7 then Some 42 else None)"
  using demo_created by (auto simp: demo_end_def rtc_transport_set_rtp_router_def rtc_transport_on_rtp_def Let_def)

lemma demo_handshake: "handshake_done demo_env (demo_end RTC_DTLS_ROLE_CLIENT) demo_env (demo_end RTC_DTLS_ROLE_SERVER)"
  by (simp add: handshake_done_def demo_end_facts)

lemma sum_init: "\<exists>ctx. rtc_srtp_init_profile sum_crypto True profile key salt = Inr ctx"
  by (simp add: rtc_srtp_init_profile_def srtp_kdf_def sum_crypto_def Let_def del: kdf_loop.simps)

lemma demo_crypto: "e_crypto demo_env = sum_crypto" and demo_sends: "net_sends (e_net demo_env)"
  by (simp_all add: demo_env_def net_sends_def demo_net_def)

lemma demo_exported: "\<exists>t. transport_try_export_srtp demo_env (True, True) (demo_end role) = Some t \<and> t_srtp_ready t"
proof -
  let ?c = "transport_cancel_dtls_timer (demo_end role)"
  have c: "t_dtls ?c = t_dtls (demo_end role)" by (simp add: transport_cancel_dtls_timer_def)
  obtain d where d: "rtc_dtls_export_srtp_keys (e_ssl demo_env) (t_dtls (demo_end role)) = Some (RTC_OK, d)"
    by (simp add: rtc_dtls_export_srtp_keys_def demo_end_facts demo_env_def demo_ssl_def profile_lens_def
        RTC_SRTP_MASTER_KEY_LEN_def RTC_SRTP_MASTER_SALT_LEN_def rd_bytes_def)
  obtain tx where tx: "rtc_srtp_init_profile (e_crypto demo_env) True (srtp_profile_of d) (fst (send_keys d)) (snd (send_keys d)) = Inr tx"
    using demo_crypto sum_init by metis
  obtain rx where "rtc_srtp_init_profile (e_crypto demo_env) True (srtp_profile_of d) (fst (recv_keys d)) (snd (recv_keys d)) = Inr rx"
    using demo_crypto sum_init by metis
  then show ?thesis using d tx c by (simp add: transport_try_export_srtp_def demo_end_facts Let_def case_prod_unfold)
qed

lemma tuple_demo: "\<exists>k. tuple_key demo_net (Addr_In 6 2) 128 = Inr k"
  by (simp add: tuple_key_def rtc_addr_to_string_def demo_net_def tuple_text_def addr_family_def dec.simps Let_def)

lemma demo_routed: "\<exists>l R. listener_rep demo_net l R \<and> r_tuple R (Addr_In 6 2) = Some (9 :: nat) \<and> io_sock (ls_io l)"
proof -
  obtain l where l: "demo_listener = Some l" using demo_listener_Some by blast
  have fresh: "ls_tuple_routes l = rtc_str_map_init_owned" "io_sock (ls_io l)" using l
    by (auto simp: demo_listener_def rtc_listener_create_def listener_gather_host_candidates_def rtc_packet_io_get_local_addr_def
      rtc_addr_to_string_def demo_net_def listener_add_host_address_def listener_candidate_from_address_def io_demo_def
      listener_add_candidate_def ICE_MAX_CANDIDATES_def listener_mark_gathering_done_def Let_def split: if_splits)
  have rep: "listener_rep demo_net l no_routes" by (rule create_fresh [OF l [unfolded demo_listener_def]])
  obtain k where k: "tuple_key demo_net (Addr_In 6 2) 128 = Inr k"
    using tuple_demo by blast
  obtain m where m: "rtc_str_map_set (True, True) (rtc_str_map_init_owned :: nat listener_route rtc_str_map) k (Some (Route_to 9)) = Some (RTC_OK, m)"
    using set_fresh by blast
  let ?op = "Reg_tuple (True, True, True) (Addr_In 6 2) 9"
  have s: "route_op_step demo_net l ?op = Some (RTC_OK, l\<lparr>ls_tuple_routes := m\<rparr>)"
    using k m fresh by (simp add: rtc_listener_register_tuple_def listener_register_route_def)
  obtain rc l' where r: "route_op_step demo_net l ?op = Some (rc, l')" "listener_rep demo_net l' (routes_step no_routes rc ?op)"
    using route_op_step_rep [OF demo_net_ok rep] by blast
  then have "l' = l\<lparr>ls_tuple_routes := m\<rparr>" "rc = RTC_OK" using s by simp_all
  with r(2) fresh(2) show ?thesis by (intro exI [of _ l'] exI [of _ "routes_step no_routes rc ?op"]) simp
qed

lemma demo_parse: "\<exists>pkt. rtc_rtp_parse [] (demo_packet seq ssrc d) = Some (Inr pkt) \<and> h_ssrc (pkt_header pkt) = ssrc"
  by (simp add: demo_packet_def rtc_rtp_parse_def rtp_sizes RTP_VERSION_def write_u16_def write_u32_def rd8_def rd16_def rd32_def Let_def
      u32_of_bytes [unfolded ucast_id])

theorem media_path_witness:
  "let p = demo_packet 65535 7 [1, 2]; a = demo_packet 10 8 [4]; q = demo_packet 0 7 [3]
   in \<exists>tA' tB' lA lB ws. transport_try_export_srtp demo_env (True, True) (demo_end RTC_DTLS_ROLE_CLIENT) = Some tA' \<and>
     transport_try_export_srtp demo_env (True, True) (demo_end RTC_DTLS_ROLE_SERVER) = Some tB' \<and>
     send_run demo_env 1500 [p, a, q] tA' (lA :: nat rtc_listener) = Some (map (\<lambda>w. (RTC_OK, [(w, addr_map_v4 (Addr_In 5 1))])) ws) \<and>
     receive_run demo_env \<lparr>a_mem = (True, True, True), a_tm = 0, a_locks = (True, True), a_now_us = 0\<rparr> 9
       (map (\<lambda>k. (ws ! k, addr_map_v4 (Addr_In 6 2))) [0, 2, 2, 1]) tB' (lB :: nat rtc_listener) =
       Some [[Rtp_sink 42 (rtp_of p)], [Rtp_sink 42 (rtp_of q)], [], [Rtp_raw (rtp_of a)]]"
proof -
  let ?tr = "[(demo_packet 65535 7 [1, 2], 65535), (demo_packet 10 8 [4], 10), (demo_packet 0 7 [3], 65536 :: nat)]"
  obtain tA' where A: "transport_try_export_srtp demo_env (True, True) (demo_end RTC_DTLS_ROLE_CLIENT) = Some tA'" "t_srtp_ready tA'"
    using demo_exported by blast
  obtain tB' where B: "transport_try_export_srtp demo_env (True, True) (demo_end RTC_DTLS_ROLE_SERVER) = Some tB'" "t_srtp_ready tB'"
    using demo_exported by blast
  obtain l R where l: "listener_rep (e_net demo_env) l R" "r_tuple R (Addr_In 6 2) = Some (9 :: nat)" "io_sock (ls_io l)"
    using demo_routed by (auto simp: demo_env_def)
  have crypto: "crypto_ok (e_crypto demo_env)" by (simp add: demo_crypto crypto_ok_sum)
  have dm: "demux_rep (t_rtp_demux (demo_end RTC_DTLS_ROLE_SERVER)) (Some Map.empty)"
    using u32.inv_new u32.abs_new u32_room.fits_new [of "2 ^ 32"]
    by (simp add: demo_end_facts demux_rep_def rtc_rtp_demux_init_def fun_eq_iff)
  have unmap: "addr_unmap_v4 (addr_map_v4 (Addr_In 6 2)) = Addr_In 6 2" by (rule unmap_map_v4)
  have tr: "packets_ok 1500 ?tr"
    unfolding packets_ok_def
  proof (intro conjI)
    show "tx_ok Map.empty ?tr" by (simp add: demo_packet_fields)
    show "card (pkt_ssrc ` fst ` set ?tr) \<le> SRTP_REPLAY_MAX_STREAMS"
      by (simp add: demo_packet_fields card_insert_if SRTP_REPLAY_MAX_STREAMS_def)
    have pt: "\<not> (200 \<le> demo_packet seq ssrc d ! 1 \<and> demo_packet seq ssrc d ! 1 \<le> 206)"
      "\<exists>pkt. rtc_rtp_parse [] (demo_packet seq ssrc d) = Some (Inr pkt)" for seq ssrc d
      using demo_parse [of seq ssrc d] by (auto simp: demo_packet_def)
    show "\<forall>(p, e) \<in> set ?tr. length p + SRTP_GCM_TAG_LEN \<le> 1500 \<and> length p + SRTP_GCM_TAG_LEN \<le> SRTP_MAX_PACKET \<and>
        (\<exists>pkt. rtc_rtp_parse [] p = Some (Inr pkt)) \<and> \<not> (200 \<le> p ! 1 \<and> p ! 1 \<le> 206)"
      using pt by (simp add: demo_packet_fields srtp_sizes SRTP_MAX_PACKET_def)
  qed
  have ks: "\<forall>k \<in> set [0, 2, 2, 1]. k < length ?tr" "rx_ok (\<lambda>s. {}) (map ((!) ?tr) [0, 2, 2, 1])"
    by (simp_all add: demo_packet_fields accept_def fresh_def reach_def)
  have spec: "rx_spec (\<lambda>s. {}) (map ((!) ?tr) [0, 2, 2, 1]) =
      [Inr (demo_packet 65535 7 [1, 2]), Inr (demo_packet 0 7 [3]), Inl RTC_ERR_SRTP, Inr (demo_packet 10 8 [4])]"
    by (simp add: demo_packet_fields accept_def fresh_def)
  have ssrc: "h_ssrc (pkt_header (rtp_of (demo_packet seq ssrc d))) = ssrc" for seq ssrc d
    using demo_parse [of seq ssrc d] by (auto simp: rtp_of_def)
  let ?f = "Some (\<lambda>pkt. if h_ssrc (pkt_header pkt) = 7 then Some (42 :: nat) else None)"
  have ev: "media_events ?f True Map.empty [Inr (demo_packet 65535 7 [1, 2]), Inr (demo_packet 0 7 [3]), Inl RTC_ERR_SRTP, Inr (demo_packet 10 8 [4])] =
      [[Rtp_sink 42 (rtp_of (demo_packet 65535 7 [1, 2]))], [Rtp_sink 42 (rtp_of (demo_packet 0 7 [3]))], [],
       [Rtp_raw (rtp_of (demo_packet 10 8 [4]))]]"
    by (simp add: ssrc Let_def)
  let ?a = "\<lparr>a_mem = (True, True, True), a_tm = 0, a_locks = (True, True), a_now_us = 0\<rparr>"
  have m: "fst (a_mem ?a)" "r_tuple R (addr_unmap_v4 (addr_map_v4 (Addr_In 6 2))) = Some 9" by (simp_all add: unmap l(2))
  note facts = demo_end_facts [of RTC_DTLS_ROLE_SERVER]
  have raw: "t_on_rtp (demo_end RTC_DTLS_ROLE_SERVER) = True" using facts(8) by simp
  from media_path [OF crypto refl demo_handshake A B demo_sends demo_end_facts(6) l(3) facts(5) dm m(1) l(1) m(2) tr ks]
  have "\<exists>ws. send_run demo_env 1500 (map fst ?tr) tA' l = Some (map (\<lambda>w. (RTC_OK, [(w, addr_map_v4 (Addr_In 5 1))])) ws) \<and>
      receive_run demo_env ?a 9 (map (\<lambda>k. (ws ! k, addr_map_v4 (Addr_In 6 2))) [0, 2, 2, 1]) tB' l =
        Some [[Rtp_sink 42 (rtp_of (demo_packet 65535 7 [1, 2]))], [Rtp_sink 42 (rtp_of (demo_packet 0 7 [3]))], [],
          [Rtp_raw (rtp_of (demo_packet 10 8 [4]))]]"
    unfolding spec facts(9) raw ev by blast
  then show ?thesis using A(1) B(1) unfolding Let_def list.map fst_conv by blast
qed

end
