(* ===== verification/Spec2Isabelle.thy ===== *)
theory Spec2Isabelle
  imports Prelude Open_Addressing Map_Interface U32_Map Str_Map Vec Rtp_Ext Rtp Seq_Ring Nack_Buf
    Rate_Control Srtp_Replay Srtp Srtp_Streams Srtp_Delivery Srtcp Rtcp Rtcp_Nack Twcc Twcc_Feedback Common Crc32 Stun Stun_Attrs Stun_Messages Stun_Properties
    Timer_Heap Timer_Sched Timer_Refine Timer_Trace Vp8_Packetizer Jitter_Buffer Jitter_Properties
    Rtp_Demux Packet_Io Ascii Listener Listener_Routing Dtls Transport Transport_Safety Media_Path
begin

text \<open>
  A verification development of mrtc, a WebRTC stack in C (sources under \<^verbatim>\<open>src/\<close>).

  \<^bold>\<open>The program.\<close> A worker owns one loop thread with a poller and a timer scheduler (\<^verbatim>\<open>rtc_timer_sched.c\<close>). A listener
  (\<^verbatim>\<open>rtc_listener.c\<close>) owns one UDP socket (\<^verbatim>\<open>rtc_packet_io.c\<close>), classifies each datagram by its first bytes and routes it to one of many
  transports: STUN by user fragment or transaction, DTLS and media by source address. A transport (\<^verbatim>\<open>rtc_transport.c\<close>) answers
  connectivity checks (\<^verbatim>\<open>rtc_stun.c\<close>), runs the DTLS handshake (\<^verbatim>\<open>rtc_dtls.c\<close>), exports the SRTP keys, protects and unprotects media and control
  packets (\<^verbatim>\<open>rtc_srtp.c\<close>), parses them (\<^verbatim>\<open>rtc_rtp.c\<close>, \<^verbatim>\<open>rtc_rtp_ext.c\<close>, \<^verbatim>\<open>rtc_rtcp.c\<close>) and hands RTP to the consumer that the demultiplexer
  (\<^verbatim>\<open>rtc_rtp_demux.c\<close>) names. Around it stand the retransmission buffer (\<^verbatim>\<open>rtc_nack_buf.c\<close>), transport-wide congestion control
  (\<^verbatim>\<open>rtc_twcc_sender.c\<close>, \<^verbatim>\<open>rtc_twcc_receiver.c\<close>), the rate controller (\<^verbatim>\<open>rtc_rate_control.c\<close>), and on the media side the VP8 payload format
  (\<^verbatim>\<open>vp8_packetizer.c\<close>) and the jitter buffer (\<^verbatim>\<open>jitter_buffer.c\<close>). All of them use the containers of \<^verbatim>\<open>common/\<close>.

  \<^bold>\<open>How it is modelled.\<close> A C function is a HOL function of the same name. A struct is a record with prefixed fields, an enum a datatype, a
  \<^verbatim>\<open>uintN_t\<close> an N-bit word, a buffer with its length a list of bytes. An error code is a value of \<open>rtc_err\<close>, and a function that fails or
  answers has the result \<open>rtc_err + 'a\<close>. The outer option of a result is undefined behaviour or non-termination: \<open>None\<close> is a read or write outside a buffer, the use of a missing
  pointer, a signed overflow (\<open>as_int\<close>), or a loop that does not return. A theorem that a result is \<open>Some\<close> therefore says that the function returns and stays
  inside its buffers. What the C code asks of its environment is an argument: allocator outcomes are booleans, clocks, random bytes and timer handles
  values, OpenSSL a record of functions (\<open>srtp_crypto\<close>, \<open>openssl\<close>, \<open>hmac\<close>), the socket and inet functions the record \<open>inet\<close>. What is
  relied on of them are the named hypotheses \<open>crypto_ok\<close> (the ciphers invert), \<open>ssl_ok\<close> (the exporter fills the bytes asked for), \<open>inet_ok\<close> (distinct addresses print
  differently) and \<open>net_sends\<close>; each is shown to hold for a concrete instance in a witness. Callbacks and sent datagrams are returned. Locks are left out: handlers and control
  operations run on the loop thread, so each is one step.

  \<^bold>\<open>Theories.\<close>
  \<^item> \<open>Prelude\<close>: word widths, checked reads and writes, big-endian helpers, shared lemmas; \<open>Ascii\<close> and \<open>Common\<close>: texts, addresses and random
    strings (\<^verbatim>\<open>rtc_common.c\<close>).
  \<^item> \<open>Open_Addressing\<close> has the two probing loops that both hash maps share, as partial functions with the invariant under which they
    return. \<open>Map_Interface\<close> is the contract of a pointer map: the locales \<open>ptr_map\<close>, \<open>bounded_ptr_map\<close> and \<open>iter_ptr_map\<close>. \<open>U32_Map\<close> and \<open>Str_Map\<close> model
    \<^verbatim>\<open>rtc_u32_map.c\<close> and \<^verbatim>\<open>rtc_str_map.c\<close> and interpret it; every run refines a map whatever allocations fail, and iteration is complete. \<open>Vec\<close>:
    \<^verbatim>\<open>rtc_vec.c\<close> over its raw buffer refines a list.
  \<^item> \<open>Seq_Ring\<close> is the contract of a ring indexed by sequence numbers, interpreted by \<open>Nack_Buf\<close> (\<^verbatim>\<open>rtc_nack_buf.c\<close>) and by the sender history of
    \<open>Twcc\<close>: the last packets are found, nothing else is.
  \<^item> \<open>Rtp_Ext\<close>, \<open>Rtp\<close>, \<open>Rtcp\<close>, \<open>Rtcp_Nack\<close>, \<open>Twcc\<close>, \<open>Twcc_Feedback\<close>: the wire formats with their builders, parsers and statistics; round trips, safety of the
    parsers on arbitrary bytes, exact loss accounting, accuracy of the feedback.
  \<^item> \<open>Crc32\<close>, \<open>Stun\<close>, \<open>Stun_Attrs\<close>, \<open>Stun_Messages\<close>, \<open>Stun_Properties\<close>: the checksum equals polynomial division; messages are headers over attribute lists;
    round trips, the binding exchange, safety of the walkers, soundness of integrity.
  \<^item> \<open>Srtp_Replay\<close>, \<open>Srtp\<close>, \<open>Srtp_Streams\<close>, \<open>Srtp_Delivery\<close>, \<open>Srtcp\<close>: the replay window refines a set of indices; stream tables, rollover estimation and the four entry
    points in both profiles; delivery over a network that loses, repeats and reorders, unique initialisation vectors, no effect of unauthentic packets.
  \<^item> \<open>Timer_Heap\<close>, \<open>Timer_Sched\<close>, \<open>Timer_Refine\<close>, \<open>Timer_Trace\<close>: heap order, generations and lazy cancellation; every trace refines a map of pending
    timers and the firing loop returns.
  \<^item> \<open>Rate_Control\<close>, \<open>Vp8_Packetizer\<close>, \<open>Jitter_Buffer\<close>, \<open>Jitter_Properties\<close>: bounds and recovery of the bitrate, frame round trip, reordering and safety of the
    jitter buffer, which is a client of the map contract.
  \<^item> \<open>Rtp_Demux\<close>, \<open>Packet_Io\<close>, \<open>Listener\<close>, \<open>Listener_Routing\<close>: routing by SSRC, classification of what the builders produce, dispatch of every datagram
    along the registered routes; clients of the two map interpretations.
  \<^item> \<open>Dtls\<close>, \<open>Transport\<close>, \<open>Transport_Safety\<close>, \<open>Media_Path\<close>: the session over an abstract OpenSSL, the whole transport as a step function over its 23 operations, reachability
    as an inductive predicate with its invariant, and the way of a packet from the sender's transport to the receiver's consumer.

  \<^bold>\<open>Bounds.\<close> Loops that end structurally are recursive functions; the unbounded loops (probing, growth of a vector, firing of timers, the jitter buffer's
  pop) are partial functions, and their return is proved. The only fuel is that of \<open>u32_map_items\<close>, one call per slot and one more. Where a theorem needs a bound it is the code's own: eight streams per SRTP context, 256 numbers of a feedback
  window, 64 entries of a NACK, 2^31 timer additions (the generation counter), 18 hours of a jitter buffer (the distance of \<^verbatim>\<open>int\<close> milliseconds it can
  average), a bitrate of at most 2045222521 kbps (5 percent more still fit an \<^verbatim>\<open>int\<close>).

  \<^bold>\<open>Where the code does less.\<close> Packets reordered across a sequence number wrap are dropped by SRTP and inflate the loss count, a ninth SSRC evicts a stream, the depacketizer
  reports a keyframe from the N bit, the rate controller is stuck below 20 kbps, starting the handshake without a session uses a null pointer: the theorems state these conditions, and
  the lemmas \<open>eviction_reuses_iv\<close>, \<open>late_before_wrap_inflates\<close>, \<open>vp8_gap_delivered\<close>, \<open>late_duplicate_admitted\<close> and \<open>rate_control_stuck_below_20\<close> show some of them.

  \<^bold>\<open>Not modelled.\<close> The worker's thread and poller (system calls; its effect is the step granularity), the bandwidth estimator (floating point; its calls are
  events), ICE agent and TURN client (blocking socket exchanges around modelled messages), SDP text, the RTP stream, interceptor and media session glue, the client,
  routing, conference, signaling and application layers, the codecs and the media pipeline (bindings to libraries and callbacks). Destructors only free memory. In the listener the Windows
  interface walk, in the socket the portable receive path and the socket options are left out. The scope of link-local IPv6 addresses is not represented, capacities of the timer arrays are
  unbounded, and the demultiplexer's refinement is stated for succeeding allocations.
\<close>

end
